(* ===== verification/Go_Prelude.thy ===== *)
theory Go_Prelude
  imports Main
begin

text \<open>
  The vocabulary the component theories share: the fragment of the Go standard library the
  controller uses on strings and numbers (\<open>strings.Split\<close>, \<open>strings.Join\<close>,
  \<open>strconv.FormatUint\<close>, the \<open>%d\<close> verb), Go errors as values, and the type
  \<open>go\<close> of an effectful Go function: it takes the state of the outside world and gives an
  outcome (a returned value, or a panic that unwinds the goroutine), the list of the external
  actions it performed in order, and the world after them.

  The last section is the proof support: \<open>hoare ok H m Q\<close> says that, started after any history
  of actions that satisfies \<open>H\<close>, every action \<open>m\<close> performs is allowed by \<open>ok\<close> at the moment it
  is performed, and that a normal return satisfies \<open>Q\<close>. The rules for the combinators are in
  the collection \<open>hoare_intros\<close>.
\<close>

section \<open>Strings\<close>

fun split_on :: "char \<Rightarrow> string \<Rightarrow> string list" where
  "split_on c [] = [[]]"
| "split_on c (x # xs) =
     (if x = c then [] # split_on c xs
      else case split_on c xs of [] \<Rightarrow> [[x]] | y # ys \<Rightarrow> (x # y) # ys)"

fun join_with :: "char \<Rightarrow> string list \<Rightarrow> string" where
  "join_with c [] = []"
| "join_with c [x] = x"
| "join_with c (x # y # ys) = x @ c # join_with c (y # ys)"

lemma split_on_not_Nil [simp]: "split_on c s \<noteq> []"
  by (cases s) (auto split: list.splits)

lemma join_with_Cons: "ys \<noteq> [] \<Longrightarrow> join_with c (x # ys) = x @ c # join_with c ys"
  by (cases ys) auto

lemma join_with_split_on [simp]: "join_with c (split_on c s) = s"
proof (induction s)
  case Nil
  then show ?case by simp
next
  case (Cons x xs)
  obtain y ys where split: "split_on c xs = y # ys"
    by (cases "split_on c xs") auto
  with Cons.IH show ?case
    by (cases ys) (auto simp: join_with_Cons)
qed

lemma split_on_no_sep: "c \<notin> set s \<Longrightarrow> split_on c s = [s]"
  by (induction s) auto

lemma split_on_append:
  "c \<notin> set a \<Longrightarrow> split_on c (a @ c # s) = a # split_on c s"
  by (induction a) auto

lemma split_on_parts: "p \<in> set (split_on c s) \<Longrightarrow> c \<notin> set p"
proof (induction s arbitrary: p)
  case Nil
  then show ?case by simp
next
  case (Cons x xs)
  obtain y ys where split: "split_on c xs = y # ys"
    by (cases "split_on c xs") auto
  with Cons show ?case
    by (auto split: if_splits)
qed

lemma length_split_on: "length (split_on c s) = Suc (count_list s c)"
proof (induction s)
  case Nil
  then show ?case by simp
next
  case (Cons x xs)
  obtain y ys where "split_on c xs = y # ys"
    by (cases "split_on c xs") auto
  with Cons.IH show ?case by auto
qed

lemma split_on_join_with:
  "xs \<noteq> [] \<Longrightarrow> \<forall>x \<in> set xs. c \<notin> set x \<Longrightarrow> split_on c (join_with c xs) = xs"
proof (induction c xs rule: join_with.induct)
  case (1 c)
  then show ?case by simp
next
  case (2 c x)
  then show ?case by (simp add: split_on_no_sep)
next
  case (3 c x y ys)
  then show ?case by (simp add: split_on_append)
qed

lemma split_on_inj: "split_on c s = split_on c t \<Longrightarrow> s = t"
  by (metis join_with_split_on)

text \<open>ASCII lower case, as \<open>strings.ToLower\<close> and \<open>bytes.EqualFold\<close> act on ASCII text.\<close>

definition lower_char :: "char \<Rightarrow> char" where
  "lower_char c =
     (let n = (of_char c :: nat) in if 65 \<le> n \<and> n \<le> 90 then char_of (n + 32) else c)"

definition lower :: "string \<Rightarrow> string" where
  "lower s = map lower_char s"

definition has_prefix :: "string \<Rightarrow> string \<Rightarrow> bool" where
  "has_prefix p s \<longleftrightarrow> take (length p) s = p"

lemma find_SomeD: "find P xs = Some x \<Longrightarrow> x \<in> set xs \<and> P x"
  by (auto simp: find_Some_iff in_set_conv_nth)

section \<open>Numbers as text\<close>

definition digit_char :: "nat \<Rightarrow> char" where
  "digit_char k = (if k < 10 then char_of (48 + k) else char_of (87 + k))"

function show_base :: "nat \<Rightarrow> nat \<Rightarrow> string" where
  "show_base b n =
     (if b < 2 then []
      else if n < b then [digit_char n]
      else show_base b (n div b) @ [digit_char (n mod b)])"
  by pat_completeness auto
termination
  by (relation "measure snd") auto

declare show_base.simps [simp del]

definition show_int :: "int \<Rightarrow> string" where
  "show_int i = (if i < 0 then CHR ''-'' # show_base 10 (nat (- i)) else show_base 10 (nat i))"

lemma of_char_digit_char:
  "k < 36 \<Longrightarrow> (of_char (digit_char k) :: nat) = (if k < 10 then 48 + k else 87 + k)"
  by (simp add: digit_char_def)

lemma digit_char_inj: "i < 36 \<Longrightarrow> j < 36 \<Longrightarrow> digit_char i = digit_char j \<longleftrightarrow> i = j"
proof
  assume "i < 36" "j < 36" "digit_char i = digit_char j"
  then have "(if i < 10 then 48 + i else 87 + i) = (if j < 10 then 48 + j else 87 + j)"
    using of_char_digit_char [of i] of_char_digit_char [of j] by simp
  then show "i = j" by (auto split: if_splits)
qed simp

definition digit_chars :: "char set" where
  "digit_chars = digit_char ` {..<16}"

lemma show_base_digits: "b \<le> 16 \<Longrightarrow> set (show_base b n) \<subseteq> digit_chars"
proof (induction b n rule: show_base.induct)
  case (1 b n)
  have "2 \<le> b \<Longrightarrow> n mod b < 16"
    using "1.prems" by (meson leD leI less_le_trans mod_less_divisor order.trans zero_less_numeral)
  with 1 show ?case
    by (subst show_base.simps) (auto simp: digit_chars_def)
qed

lemma show_base_not_Nil: "2 \<le> b \<Longrightarrow> show_base b n \<noteq> []"
  by (subst show_base.simps) simp

lemma show_base_small: "2 \<le> b \<Longrightarrow> n < b \<Longrightarrow> show_base b n = [digit_char n]"
  by (subst show_base.simps) simp

lemma show_base_big:
  "2 \<le> b \<Longrightarrow> b \<le> n \<Longrightarrow> show_base b n = show_base b (n div b) @ [digit_char (n mod b)]"
  by (subst show_base.simps) simp

lemma show_base_inj:
  assumes "2 \<le> b" "b \<le> 16"
  shows "show_base b m = show_base b n \<Longrightarrow> m = n"
proof (induction m arbitrary: n rule: less_induct)
  case (less m)
  have big: "2 \<le> length (show_base b k)" if "b \<le> k" for k
    using that assms show_base_not_Nil [of b "k div b"]
    by (simp add: show_base_big Suc_le_eq)
  have lt: "k mod b < 36" for k
    using assms mod_less_divisor [of b k] by linarith
  show ?case
  proof (cases "m < b"; cases "n < b")
    assume "m < b" "n < b"
    with less.prems assms show ?thesis
      by (simp add: show_base_small digit_char_inj)
  next
    assume "m < b" "\<not> n < b"
    with less.prems big [of n] assms show ?thesis
      by (auto simp: show_base_small dest!: arg_cong [of _ _ length])
  next
    assume "\<not> m < b" "n < b"
    with less.prems big [of m] assms show ?thesis
      by (auto simp: show_base_small dest!: arg_cong [of _ _ length])
  next
    assume ge: "\<not> m < b" "\<not> n < b"
    with less.prems assms have eq: "show_base b (m div b) = show_base b (n div b)"
      and last: "digit_char (m mod b) = digit_char (n mod b)"
      by (simp_all add: show_base_big)
    have "m div b < m" using ge assms by (simp add: not_less)
    with less.IH eq have "m div b = n div b" by blast
    moreover from last lt [of m] lt [of n] have "m mod b = n mod b" by (simp add: digit_char_inj)
    ultimately show ?thesis by (metis div_mult_mod_eq)
  qed
qed

lemma not_digit_chars [simp]:
  "CHR ''~'' \<notin> digit_chars" "CHR ''.'' \<notin> digit_chars" "CHR ''-'' \<notin> digit_chars"
  "CHR ''/'' \<notin> digit_chars" "CHR ''%'' \<notin> digit_chars"
proof -
  have d: "digit_chars = set (map digit_char [0..<16])"
    by (auto simp: digit_chars_def)
  show "CHR ''~'' \<notin> digit_chars" "CHR ''.'' \<notin> digit_chars" "CHR ''-'' \<notin> digit_chars"
    "CHR ''/'' \<notin> digit_chars" "CHR ''%'' \<notin> digit_chars"
    unfolding d by (simp_all add: digit_char_def upt_rec char_of_def bit_Suc bit_0)
qed

section \<open>Effectful Go code\<close>

text \<open>
  An \<open>error\<close> value. \<open>StatusErr\<close> is a \<open>*StatusError\<close> of the Kubernetes client library, which
  \<open>apierrors.IsNotFound\<close> and its kin inspect; \<open>PlainErr\<close> is what \<open>fmt.Errorf\<close> and \<open>errors.New\<close>
  make. A function whose Go result is \<open>error\<close> returns \<open>go_error + unit\<close>, with \<open>Inr ()\<close> for nil.
\<close>

datatype status_reason = NotFound | Conflict | AlreadyExists | OtherReason

datatype go_error = StatusErr status_reason string | PlainErr string

fun err_msg :: "go_error \<Rightarrow> string" where
  "err_msg (StatusErr r m) = m"
| "err_msg (PlainErr m) = m"

fun IsNotFound :: "go_error \<Rightarrow> bool" where
  "IsNotFound (StatusErr r m) = (r = NotFound)"
| "IsNotFound (PlainErr m) = False"

fun IsConflict :: "go_error \<Rightarrow> bool" where
  "IsConflict (StatusErr r m) = (r = Conflict)"
| "IsConflict (PlainErr m) = False"

fun IsAlreadyExists :: "go_error \<Rightarrow> bool" where
  "IsAlreadyExists (StatusErr r m) = (r = AlreadyExists)"
| "IsAlreadyExists (PlainErr m) = False"

text \<open>\<open>fmt.Errorf("<before>%s<after>", err)\<close>.\<close>

definition errorf :: "string \<Rightarrow> string \<Rightarrow> go_error \<Rightarrow> go_error" where
  "errorf before after e = PlainErr (before @ err_msg e @ after)"

text \<open>
  \<open>Done x\<close>: the code returned \<open>x\<close>. \<open>Panic s\<close>: it panicked. \<open>Stuck s\<close>: the model gives no account
  of the run (the page bound of a paginated listing ran out, or a regular expression uses an
  operator outside the modelled fragment); no theorem treats it as success.
\<close>

datatype 'a outcome = Done 'a | Panic string | Stuck string

type_synonym ('e, 'w, 'a) go = "'w \<Rightarrow> 'a outcome \<times> 'e list \<times> 'w"

definition ret :: "'a \<Rightarrow> ('e, 'w, 'a) go" where
  "ret x = (\<lambda>w. (Done x, [], w))"

definition panic :: "string \<Rightarrow> ('e, 'w, 'a) go" where
  "panic s = (\<lambda>w. (Panic s, [], w))"

definition stuck :: "string \<Rightarrow> ('e, 'w, 'a) go" where
  "stuck s = (\<lambda>w. (Stuck s, [], w))"

definition emit :: "'e \<Rightarrow> ('e, 'w, unit) go" where
  "emit e = (\<lambda>w. (Done (), [e], w))"

text \<open>An external operation: the world answers \<open>x\<close>, and the action \<open>act x\<close> is recorded.\<close>

definition ask :: "('w \<Rightarrow> 'a \<times> 'w) \<Rightarrow> ('a \<Rightarrow> 'e) \<Rightarrow> ('e, 'w, 'a) go" where
  "ask f act = (\<lambda>w. case f w of (x, w') \<Rightarrow> (Done x, [act x], w'))"

definition bnd :: "('e, 'w, 'a) go \<Rightarrow> ('a \<Rightarrow> ('e, 'w, 'b) go) \<Rightarrow> ('e, 'w, 'b) go" where
  "bnd m f = (\<lambda>w. case m w of (r, t, w') \<Rightarrow>
     (case r of
        Done x \<Rightarrow> (case f x w' of (r', t', w'') \<Rightarrow> (r', t @ t', w''))
      | Panic s \<Rightarrow> (Panic s, t, w')
      | Stuck s \<Rightarrow> (Stuck s, t, w')))"

text \<open>\<open>x, err := m; if err != nil { return wrap(err) }; f(x)\<close>.\<close>

definition tryE :: "(go_error \<Rightarrow> go_error) \<Rightarrow> ('e, 'w, go_error + 'a) go
    \<Rightarrow> ('a \<Rightarrow> ('e, 'w, go_error + 'b) go) \<Rightarrow> ('e, 'w, go_error + 'b) go" where
  "tryE wrap m f = bnd m (\<lambda>r. case r of Inl e \<Rightarrow> ret (Inl (wrap e)) | Inr x \<Rightarrow> f x)"

text \<open>A \<open>for ... range\<close> loop whose body may return an error from the enclosing function.\<close>

fun forE :: "('x \<Rightarrow> ('e, 'w, go_error + unit) go) \<Rightarrow> 'x list \<Rightarrow> ('e, 'w, go_error + unit) go" where
  "forE body [] = ret (Inr ())"
| "forE body (x # xs) = tryE id (body x) (\<lambda>_. forE body xs)"

definition trace_of :: "('e, 'w, 'a) go \<Rightarrow> 'w \<Rightarrow> 'e list" where
  "trace_of m w = fst (snd (m w))"

definition result_of :: "('e, 'w, 'a) go \<Rightarrow> 'w \<Rightarrow> 'a outcome" where
  "result_of m w = fst (m w)"

named_theorems go_defs "definitions of the combinators, to run a Go function on a concrete world"

lemmas [go_defs] = ret_def panic_def stuck_def emit_def ask_def bnd_def tryE_def

lemma bnd_ret [simp]: "bnd (ret x) f = f x"
  by (simp add: go_defs)

lemma bnd_panic [simp]: "bnd (panic s) f = panic s"
  by (simp add: go_defs)

lemma bnd_stuck [simp]: "bnd (stuck s) f = stuck s"
  by (simp add: go_defs)

lemma bnd_assoc: "bnd (bnd m f) g = bnd m (\<lambda>x. bnd (f x) g)"
  by (rule ext) (simp add: bnd_def split: prod.splits outcome.splits)

lemma tryE_ret_Inl [simp]: "tryE wrap (ret (Inl e)) f = ret (Inl (wrap e))"
  by (simp add: tryE_def)

lemma tryE_ret_Inr [simp]: "tryE wrap (ret (Inr x)) f = f x"
  by (simp add: tryE_def)

lemma tryE_assoc: "tryE wrap m (\<lambda>x. tryE id (f x) g) = tryE id (tryE wrap m f) g"
  by (rule ext) (simp add: go_defs split: prod.splits outcome.splits sum.splits)

lemma result_of_ret [simp]: "result_of (ret x) w = Done x"
  by (simp add: result_of_def ret_def)

lemma trace_of_ret [simp]: "trace_of (ret x) w = []"
  by (simp add: trace_of_def ret_def)

section \<open>Reasoning about the actions of a run\<close>

text \<open>Every action of \<open>t\<close> is allowed by \<open>ok\<close> after the actions that came before it.\<close>

fun safe_from :: "('e list \<Rightarrow> 'e \<Rightarrow> bool) \<Rightarrow> 'e list \<Rightarrow> 'e list \<Rightarrow> bool" where
  "safe_from ok h [] = True"
| "safe_from ok h (e # t) = (ok h e \<and> safe_from ok (h @ [e]) t)"

lemma safe_from_append:
  "safe_from ok h (t @ t') \<longleftrightarrow> safe_from ok h t \<and> safe_from ok (h @ t) t'"
  by (induction t arbitrary: h) auto

lemma safe_from_at:
  "safe_from ok h t \<Longrightarrow> t = t1 @ e # t2 \<Longrightarrow> ok (h @ t1) e"
  by (simp add: safe_from_append)

definition hoare :: "('e list \<Rightarrow> 'e \<Rightarrow> bool) \<Rightarrow> ('e list \<Rightarrow> bool) \<Rightarrow> ('e, 'w, 'a) go
    \<Rightarrow> ('a \<Rightarrow> 'e list \<Rightarrow> bool) \<Rightarrow> bool" where
  "hoare ok H m Q \<longleftrightarrow> (\<forall>w h. H h \<longrightarrow>
     safe_from ok h (trace_of m w) \<and>
     (\<forall>x. result_of m w = Done x \<longrightarrow> Q x (h @ trace_of m w)))"

named_theorems hoare_intros "one rule for each combinator and each operation"

lemma hoareD:
  "hoare ok H m Q \<Longrightarrow> H [] \<Longrightarrow> trace_of m w = t1 @ e # t2 \<Longrightarrow> ok t1 e"
  unfolding hoare_def by (metis append_Nil safe_from_at)

lemma hoare_post:
  "hoare ok H m Q \<Longrightarrow> H [] \<Longrightarrow> result_of m w = Done x \<Longrightarrow> Q x (trace_of m w)"
  unfolding hoare_def by (metis append_Nil)

lemma hoare_weaken:
  "hoare ok H' m Q' \<Longrightarrow> (\<And>h. H h \<Longrightarrow> H' h) \<Longrightarrow> (\<And>x h. Q' x h \<Longrightarrow> Q x h) \<Longrightarrow> hoare ok H m Q"
  unfolding hoare_def by blast

lemma hoare_pre: "hoare ok H' m Q \<Longrightarrow> (\<And>h. H h \<Longrightarrow> H' h) \<Longrightarrow> hoare ok H m Q"
  unfolding hoare_def by blast

lemma hoare_ret [hoare_intros]: "(\<And>h. H h \<Longrightarrow> Q x h) \<Longrightarrow> hoare ok H (ret x) Q"
  by (simp add: hoare_def)

lemma hoare_panic [hoare_intros]: "hoare ok H (panic s) Q"
  by (simp add: hoare_def trace_of_def result_of_def panic_def)

lemma hoare_stuck [hoare_intros]: "hoare ok H (stuck s) Q"
  by (simp add: hoare_def trace_of_def result_of_def stuck_def)

lemma hoare_emit [hoare_intros]:
  "(\<And>h. H h \<Longrightarrow> ok h e) \<Longrightarrow> (\<And>h. H h \<Longrightarrow> Q () (h @ [e])) \<Longrightarrow> hoare ok H (emit e) Q"
  by (simp add: hoare_def trace_of_def result_of_def emit_def)

lemma hoare_ask [hoare_intros]:
  "(\<And>h x. H h \<Longrightarrow> ok h (act x)) \<Longrightarrow> (\<And>h x. H h \<Longrightarrow> Q x (h @ [act x]))
    \<Longrightarrow> hoare ok H (ask f act) Q"
  by (auto simp: hoare_def trace_of_def result_of_def ask_def split: prod.splits)

lemma hoare_bnd [hoare_intros]:
  assumes m: "hoare ok H m R" and f: "\<And>x. hoare ok (R x) (f x) Q"
  shows "hoare ok H (bnd m f) Q"
  unfolding hoare_def
proof (intro allI impI)
  fix w h
  assume "H h"
  obtain r t w' where mw: "m w = (r, t, w')" by (cases "m w")
  from m \<open>H h\<close> mw have safe: "safe_from ok h t" and post: "\<And>x. r = Done x \<Longrightarrow> R x (h @ t)"
    by (auto simp: hoare_def trace_of_def result_of_def dest!: spec [of _ w] spec [of _ h])
  show "safe_from ok h (trace_of (bnd m f) w) \<and>
      (\<forall>x. result_of (bnd m f) w = Done x \<longrightarrow> Q x (h @ trace_of (bnd m f) w))"
  proof (cases r)
    case (Done x)
    obtain r' t' w'' where fw: "f x w' = (r', t', w'')" by (cases "f x w'")
    have "R x (h @ t)" using Done post by simp
    with f [of x] fw have "safe_from ok (h @ t) t'"
      and "\<And>y. r' = Done y \<Longrightarrow> Q y (h @ t @ t')"
      by (auto simp: hoare_def trace_of_def result_of_def dest!: spec [of _ w'] spec [of _ "h @ t"])
    with safe mw fw Done show ?thesis
      by (simp add: trace_of_def result_of_def bnd_def safe_from_append)
  qed (use safe mw in \<open>simp_all add: trace_of_def result_of_def bnd_def\<close>)
qed

lemma hoare_tryE [hoare_intros]:
  assumes "hoare ok H m R"
    and "\<And>e h. R (Inl e) h \<Longrightarrow> Q (Inl (wrap e)) h"
    and "\<And>x. hoare ok (R (Inr x)) (f x) Q"
  shows "hoare ok H (tryE wrap m f) Q"
  unfolding tryE_def
proof (rule hoare_bnd [OF assms(1)])
  fix r
  show "hoare ok (R r) (case r of Inl e \<Rightarrow> ret (Inl (wrap e)) | Inr x \<Rightarrow> f x) Q"
    by (cases r) (use assms(2,3) in \<open>auto intro: hoare_ret\<close>)
qed

text \<open>A loop: \<open>I\<close> is kept by every iteration that does not return an error.\<close>

lemma hoare_forE:
  assumes body: "\<And>x. x \<in> set xs \<Longrightarrow> hoare ok I (body x) (\<lambda>r h. case r of Inl e \<Rightarrow> E e h | Inr _ \<Rightarrow> I h)"
    and "\<And>h. I h \<Longrightarrow> Q (Inr ()) h" and "\<And>e h. E e h \<Longrightarrow> Q (Inl e) h"
  shows "hoare ok I (forE body xs) Q"
  using body
proof (induction xs)
  case Nil
  then show ?case using assms(2) by (auto intro: hoare_ret)
next
  case (Cons x xs)
  have "hoare ok I (body x) (\<lambda>r h. case r of Inl e \<Rightarrow> E e h | Inr _ \<Rightarrow> I h)"
    using Cons.prems by simp
  then show ?case
    by (simp, rule hoare_tryE) (use assms(3) Cons in auto)
qed

lemma hoare_if [hoare_intros]:
  "(b \<Longrightarrow> hoare ok H m Q) \<Longrightarrow> (\<not> b \<Longrightarrow> hoare ok H m' Q) \<Longrightarrow> hoare ok H (if b then m else m') Q"
  by simp

lemma hoare_case_option [hoare_intros]:
  "(x = None \<Longrightarrow> hoare ok H m Q) \<Longrightarrow> (\<And>y. x = Some y \<Longrightarrow> hoare ok H (f y) Q)
    \<Longrightarrow> hoare ok H (case x of None \<Rightarrow> m | Some y \<Rightarrow> f y) Q"
  by (cases x) auto

lemma hoare_case_sum [hoare_intros]:
  "(\<And>e. x = Inl e \<Longrightarrow> hoare ok H (g e) Q) \<Longrightarrow> (\<And>y. x = Inr y \<Longrightarrow> hoare ok H (f y) Q)
    \<Longrightarrow> hoare ok H (case x of Inl e \<Rightarrow> g e | Inr y \<Rightarrow> f y) Q"
  by (cases x) auto

lemma hoare_case_prod [hoare_intros]:
  "(\<And>a b. x = (a, b) \<Longrightarrow> hoare ok H (f a b) Q)
    \<Longrightarrow> hoare ok H (case x of (a, b) \<Rightarrow> f a b) Q"
  by (cases x) auto

lemma hoare_Let [hoare_intros]: "hoare ok H (f x) Q \<Longrightarrow> hoare ok H (let y = x in f y) Q"
  by simp

text \<open>The special case of a property of each action by itself, whatever came before it.\<close>

definition emits_only :: "('e \<Rightarrow> bool) \<Rightarrow> ('e, 'w, 'a) go \<Rightarrow> bool" where
  "emits_only P m \<longleftrightarrow> (\<forall>w. \<forall>e \<in> set (trace_of m w). P e)"

named_theorems emits_intros "one rule for each combinator and each operation"

lemma emits_onlyD: "emits_only P m \<Longrightarrow> e \<in> set (trace_of m w) \<Longrightarrow> P e"
  by (simp add: emits_only_def)

lemma emits_only_mono: "emits_only P m \<Longrightarrow> (\<And>e. P e \<Longrightarrow> P' e) \<Longrightarrow> emits_only P' m"
  by (auto simp: emits_only_def)

lemma emits_ret [emits_intros]: "emits_only P (ret x)"
  by (simp add: emits_only_def)

lemma emits_panic [emits_intros]: "emits_only P (panic s)"
  by (simp add: emits_only_def trace_of_def panic_def)

lemma emits_stuck [emits_intros]: "emits_only P (stuck s)"
  by (simp add: emits_only_def trace_of_def stuck_def)

lemma emits_emit [emits_intros]: "P e \<Longrightarrow> emits_only P (emit e)"
  by (simp add: emits_only_def trace_of_def emit_def)

lemma emits_ask [emits_intros]: "(\<And>x. P (act x)) \<Longrightarrow> emits_only P (ask f act)"
  by (simp add: emits_only_def trace_of_def ask_def split: prod.splits)

lemma emits_bnd [emits_intros]:
  "emits_only P m \<Longrightarrow> (\<And>x. emits_only P (f x)) \<Longrightarrow> emits_only P (bnd m f)"
  by (auto simp: emits_only_def trace_of_def bnd_def split: prod.splits outcome.splits)
    (metis fst_conv snd_conv)+

lemma emits_tryE [emits_intros]:
  "emits_only P m \<Longrightarrow> (\<And>x. emits_only P (f x)) \<Longrightarrow> emits_only P (tryE wrap m f)"
  unfolding tryE_def by (rule emits_bnd) (auto intro: emits_ret split: sum.splits)

lemma emits_forE [emits_intros]:
  "(\<And>x. x \<in> set xs \<Longrightarrow> emits_only P (body x)) \<Longrightarrow> emits_only P (forE body xs)"
  by (induction xs) (auto intro!: emits_ret emits_tryE)

lemma emits_if [emits_intros]:
  "(b \<Longrightarrow> emits_only P m) \<Longrightarrow> (\<not> b \<Longrightarrow> emits_only P m') \<Longrightarrow> emits_only P (if b then m else m')"
  by simp

lemma emits_case_option [emits_intros]:
  "(x = None \<Longrightarrow> emits_only P m) \<Longrightarrow> (\<And>y. x = Some y \<Longrightarrow> emits_only P (f y))
    \<Longrightarrow> emits_only P (case x of None \<Rightarrow> m | Some y \<Rightarrow> f y)"
  by (cases x) auto

lemma emits_case_sum [emits_intros]:
  "(\<And>e. x = Inl e \<Longrightarrow> emits_only P (g e)) \<Longrightarrow> (\<And>y. x = Inr y \<Longrightarrow> emits_only P (f y))
    \<Longrightarrow> emits_only P (case x of Inl e \<Rightarrow> g e | Inr y \<Rightarrow> f y)"
  by (cases x) auto

lemma emits_case_prod [emits_intros]:
  "(\<And>a b. x = (a, b) \<Longrightarrow> emits_only P (f a b)) \<Longrightarrow> emits_only P (case x of (a, b) \<Rightarrow> f a b)"
  by (cases x) auto

lemma emits_Let [emits_intros]: "emits_only P (f x) \<Longrightarrow> emits_only P (let y = x in f y)"
  by simp

section \<open>Combining the two views\<close>

lemma safe_from_all: "\<forall>e \<in> set t. \<forall>h. ok h e \<Longrightarrow> safe_from ok h t"
  by (induction t arbitrary: h) auto

text \<open>A triple that ignores \<open>ok\<close>, together with what the code can emit.\<close>

lemma hoare_from_emits:
  assumes "emits_only P m" "\<And>h e. P e \<Longrightarrow> ok h e" "hoare (\<lambda>_ _. True) H m Q"
  shows "hoare ok H m Q"
  unfolding hoare_def
proof (intro allI impI conjI)
  fix w h
  assume "H h"
  show "safe_from ok h (trace_of m w)"
    using assms(1,2) by (intro safe_from_all) (auto simp: emits_only_def)
  fix x
  assume "result_of m w = Done x"
  with \<open>H h\<close> assms(3) show "Q x (h @ trace_of m w)"
    by (simp add: hoare_def)
qed

text \<open>An invariant of the history that the actions of \<open>m\<close> cannot break.\<close>

lemma hoare_stable:
  assumes "emits_only P m" "\<And>h e. P e \<Longrightarrow> I h \<Longrightarrow> ok h e" "\<And>h e. P e \<Longrightarrow> I h \<Longrightarrow> I (h @ [e])"
  shows "hoare ok I m (\<lambda>_ h. I h)"
proof -
  have t: "I h \<Longrightarrow> \<forall>e \<in> set t. P e \<Longrightarrow> safe_from ok h t \<and> I (h @ t)" for h t
  proof (induction t arbitrary: h)
    case Nil
    then show ?case by simp
  next
    case (Cons e t)
    then have "ok h e" "I (h @ [e])" using assms(2,3) by auto
    with Cons.IH [of "h @ [e]"] Cons.prems show ?case by auto
  qed
  show ?thesis
    unfolding hoare_def using t assms(1) by (simp add: emits_only_def)
qed

lemma hoare_conj:
  assumes "hoare ok H m Q" "hoare (\<lambda>_ _. True) H m R"
  shows "hoare ok H m (\<lambda>x h. Q x h \<and> R x h)"
  using assms unfolding hoare_def by blast

lemma hoare_true: "hoare (\<lambda>_ _. True) H m (\<lambda>_ _. True)"
  unfolding hoare_def by (auto intro: safe_from_all)

text \<open>Facts that appending to the history cannot falsify, and triples that keep them.\<close>

definition persistent :: "('e list \<Rightarrow> bool) \<Rightarrow> bool" where
  "persistent I \<longleftrightarrow> (\<forall>h t. I h \<longrightarrow> I (h @ t))"

named_theorems persistent_intros "facts of the history that last"

lemma persistent_basic [persistent_intros]:
  "persistent (\<lambda>h. e \<in> set h)" "persistent (\<lambda>_. b)"
  "persistent I \<Longrightarrow> persistent J \<Longrightarrow> persistent (\<lambda>h. I h \<and> J h)"
  "(\<And>x. persistent (K x)) \<Longrightarrow> persistent (\<lambda>h. \<exists>x. K x h)"
  "(\<And>x. persistent (K x)) \<Longrightarrow> persistent (\<lambda>h. \<forall>x. K x h)"
  by (auto simp: persistent_def)

lemma hoare_keep:
  "persistent I \<Longrightarrow> hoare ok I m Q \<Longrightarrow> hoare ok I m (\<lambda>x h. I h \<and> Q x h)"
  unfolding hoare_def persistent_def by blast

lemma hoare_forE_persistent:
  assumes "persistent I" "\<And>x. x \<in> set xs \<Longrightarrow> hoare ok I (body x) (\<lambda>_ _. True)"
  shows "hoare ok I (forE body xs) (\<lambda>_ h. I h)"
proof (rule hoare_forE [where E = "\<lambda>_ h. I h"])
  fix x
  assume "x \<in> set xs"
  with assms have "hoare ok I (body x) (\<lambda>_ h. I h \<and> True)" by (intro hoare_keep)
  then show "hoare ok I (body x) (\<lambda>r h. case r of Inl e \<Rightarrow> I h | Inr _ \<Rightarrow> I h)"
    by (rule hoare_weaken) (auto split: sum.splits)
qed auto

text \<open>
  A part of the code whose actions are all allowed as long as \<open>I\<close> holds, for a lasting \<open>I\<close>:
  the rule for whatever follows once the facts that justify it are on record.
\<close>

lemma hoare_frame:
  assumes "persistent I" "emits_only (\<lambda>e. \<forall>h. I h \<longrightarrow> ok h e) m"
  shows "hoare ok I m (\<lambda>_. I)"
  by (rule hoare_stable [OF assms(2)]) (use assms(1) in \<open>auto simp: persistent_def\<close>)

lemma hoare_frame_True:
  assumes "persistent I" "emits_only (\<lambda>e. \<forall>h. I h \<longrightarrow> ok h e) m"
  shows "hoare ok I m (\<lambda>_ _. True)"
  by (rule hoare_weaken [OF hoare_frame [OF assms]]) auto

text \<open>A loop in which each iteration that returns nil establishes a lasting fact of its element.\<close>

lemma hoare_forE_each:
  assumes "persistent I" "\<And>x. x \<in> set xs \<Longrightarrow> persistent (R x)"
    and "\<And>x. x \<in> set xs \<Longrightarrow> hoare ok I (body x) (\<lambda>r h. r = Inr () \<longrightarrow> R x h)"
  shows "hoare ok I (forE body xs) (\<lambda>r h. I h \<and> (r = Inr () \<longrightarrow> (\<forall>x \<in> set xs. R x h)))"
  using assms(2,3)
proof (induction xs)
  case Nil
  then show ?case by (auto intro: hoare_ret)
next
  case (Cons x xs)
  have "hoare ok I (body x) (\<lambda>r h. I h \<and> (r = Inr () \<longrightarrow> R x h))"
    using Cons.prems(2) by (intro hoare_keep [OF assms(1)]) simp
  moreover have "hoare ok (\<lambda>h. I h \<and> R x h) (forE body xs)
      (\<lambda>r h. (I h \<and> R x h) \<and> I h \<and> (r = Inr () \<longrightarrow> (\<forall>y \<in> set xs. R y h)))"
    by (rule hoare_keep, rule persistent_basic(3) [OF assms(1)])
      (use Cons in \<open>auto intro: hoare_pre [OF Cons.IH]\<close>)
  ultimately show ?case
    by (simp, elim hoare_tryE, simp) (auto elim!: hoare_weaken)
qed

text \<open>What is known of a single run, as a triple.\<close>

lemma hoare_of_run:
  assumes "\<And>w x. result_of m w = Done x \<Longrightarrow> Q x (trace_of m w)"
    and "\<And>x h t. Q x t \<Longrightarrow> Q x (h @ t)"
  shows "hoare (\<lambda>_ _. True) H m Q"
  unfolding hoare_def using assms by (auto intro: safe_from_all)

lemma hoare_any: "emits_only P m \<Longrightarrow> (\<And>h e. P e \<Longrightarrow> ok h e) \<Longrightarrow> hoare ok H m (\<lambda>_ _. True)"
  by (rule hoare_from_emits [OF _ _ hoare_true])

text \<open>A function that returned a value did not panic.\<close>

definition no_panic :: "('e, 'w, 'a) go \<Rightarrow> bool" where
  "no_panic m \<longleftrightarrow> (\<forall>w s. result_of m w \<noteq> Panic s)"

named_theorems no_panic_intros "one rule for each combinator and each operation"

lemma no_panic_basic [no_panic_intros]:
  "no_panic (ret x)" "no_panic (stuck s)" "no_panic (emit e)" "no_panic (ask f act)"
  by (simp_all add: no_panic_def result_of_def go_defs split: prod.splits)

lemma no_panic_bnd [no_panic_intros]:
  "no_panic m \<Longrightarrow> (\<And>x. no_panic (f x)) \<Longrightarrow> no_panic (bnd m f)"
  unfolding no_panic_def result_of_def bnd_def
  by (auto split: prod.splits outcome.splits) (metis fst_conv)+

lemma no_panic_tryE [no_panic_intros]:
  "no_panic m \<Longrightarrow> (\<And>x. no_panic (f x)) \<Longrightarrow> no_panic (tryE wrap m f)"
  unfolding tryE_def by (rule no_panic_bnd) (auto intro: no_panic_basic split: sum.splits)

lemma no_panic_forE [no_panic_intros]:
  "(\<And>x. x \<in> set xs \<Longrightarrow> no_panic (body x)) \<Longrightarrow> no_panic (forE body xs)"
  by (induction xs) (auto intro!: no_panic_basic no_panic_tryE)

lemma no_panic_split [no_panic_intros]:
  "(b \<Longrightarrow> no_panic m) \<Longrightarrow> (\<not> b \<Longrightarrow> no_panic m') \<Longrightarrow> no_panic (if b then m else m')"
  "(x = None \<Longrightarrow> no_panic m) \<Longrightarrow> (\<And>y. x = Some y \<Longrightarrow> no_panic (f y))
    \<Longrightarrow> no_panic (case x of None \<Rightarrow> m | Some y \<Rightarrow> f y)"
  "(\<And>e. z = Inl e \<Longrightarrow> no_panic (g e)) \<Longrightarrow> (\<And>y. z = Inr y \<Longrightarrow> no_panic (g' y))
    \<Longrightarrow> no_panic (case z of Inl e \<Rightarrow> g e | Inr y \<Rightarrow> g' y)"
  by (auto split: option.splits sum.splits)

end
