(* ===== verification/Kong_Types.thy ===== *)
theory Kong_Types
  imports Go_Prelude "HOL-Library.Word" "HOL-Library.Signed_Division"
begin

text \<open>
  The data of the program: \<open>pkg/kong/types.go\<close> (the \<open>Domain\<close> custom resource, the Kong \<open>API\<close>
  and \<open>Plugin\<close> objects, the \<open>APIResponse\<close> of the admin client) with their methods, the
  constants of \<open>pkg/kong/register.go\<close>, and of the Kubernetes objects the controller reads
  (\<open>ObjectMeta\<close>, \<open>Ingress\<close>, \<open>Service\<close>) the fields it uses. A Go struct is a record; an
  embedded struct is a record extension, so \<open>Name d\<close> reads like \<open>d.Name\<close>. A slice is
  \<open>'a list option\<close>, since \<open>reflect.DeepEqual\<close> tells nil from empty. A \<open>time.Time\<close> is its
  number of nanoseconds since the Unix epoch; \<open>int32\<close>, \<open>int64\<close> are words.
\<close>

section \<open>Slices and times\<close>

type_synonym 'a slice = "'a list option"

definition elems :: "'a slice \<Rightarrow> 'a list" where
  "elems s = (case s of None \<Rightarrow> [] | Some xs \<Rightarrow> xs)"

lemma elems_simps [simp]: "elems None = []" "elems (Some xs) = xs"
  by (simp_all add: elems_def)

type_synonym gotime = int
type_synonym duration = "64 word"

text \<open>The zero \<open>time.Time\<close> is 1 January of year 1.\<close>

definition zero_time :: gotime where
  "zero_time = - 62135596800 * 1000000000"

section \<open>Kubernetes objects\<close>

record TypeMeta =
  Kind :: string
  APIVersion :: string

record ObjectMeta = TypeMeta +
  Name :: string
  Namespace :: string
  ResourceVersion :: string
  Annotations :: "string \<rightharpoonup> string"
  Finalizers :: "string slice"
  DeletionTimestamp :: "gotime option"

text \<open>Reading a key of a \<open>map[string]string\<close>, nil or not: the zero value when it is absent.\<close>

definition map_get :: "(string \<rightharpoonup> string) \<Rightarrow> string \<Rightarrow> string" where
  "map_get m k = (case m k of None \<Rightarrow> '''' | Some v \<Rightarrow> v)"

record IngressBackend =
  ServiceName :: string
  ServicePort_IntVal :: "32 word"

record HTTPIngressPath =
  Path :: string
  Backend :: IngressBackend

record IngressRule =
  Host :: string
  HTTP :: "HTTPIngressPath list option"

record Ingress = ObjectMeta +
  Rules :: "IngressRule list"

record ServicePort =
  Port :: "32 word"

record Service = ObjectMeta +
  Ports :: "ServicePort list"

section \<open>The Domain resource\<close>

record DomainSpec =
  PrimaryDomain :: string
  Sub :: string
  Delegates :: "string slice"
  Parent :: string

type_synonym DomainPhase = string

definition DomainStatusNew :: DomainPhase where
  [simp]: "DomainStatusNew = ''''"
definition DomainStatusOK :: DomainPhase where
  [simp]: "DomainStatusOK = ''OK''"
definition DomainStatusPending :: DomainPhase where
  [simp]: "DomainStatusPending = ''Pending''"
definition DomainStatusFailed :: DomainPhase where
  [simp]: "DomainStatusFailed = ''Failed''"

record DomainStatus =
  Phase :: DomainPhase
  Message :: string
  Reason :: string
  LastUpdateTime :: gotime
  Status_DeletionTimestamp :: "gotime option"

record Domain = ObjectMeta +
  Spec :: DomainSpec
  Status :: DomainStatus

definition Finalizer :: string where
  "Finalizer = ''kolihub.io/kong''"

section \<open>Kong objects\<close>

type_synonym Timestamp = "64 word"

text \<open>\<open>time.Unix(int64(t/1000), 0)\<close>: Go's division truncates towards zero.\<close>

definition GetTime :: "Timestamp \<Rightarrow> gotime" where
  "GetTime t = (sint t sdiv 1000) * 1000000000"

record API =
  API_UID :: string
  API_Name :: string
  Hosts :: "string slice"
  URIs :: "string slice"
  PreserveHost :: bool
  UpstreamURL :: string
  CreatedAt :: Timestamp
  StripUri :: bool

record APIList =
  Total :: "64 word"
  Items :: "API list"
  NextPage :: string
  Offset :: string

definition empty_API :: API where
  "empty_API = \<lparr>API_UID = '''', API_Name = '''', Hosts = None, URIs = None, PreserveHost = False,
     UpstreamURL = '''', CreatedAt = 0, StripUri = False\<rparr>"

definition empty_APIList :: APIList where
  "empty_APIList = \<lparr>Total = 0, Items = [], NextPage = '''', Offset = ''''\<rparr>"

section \<open>JSON values and API responses\<close>

text \<open>
  A JSON document as \<open>encoding/json\<close> reads it: an integer literal apart from the other number
  literals, which no field of the program accepts; an object keeps the order and the duplicates
  of its members. A body is its bytes with the value they denote, if they are valid JSON.
\<close>

datatype json = JNull | JBool bool | JInt int | JReal string | JStr string
  | JArr "json list" | JObj "(string \<times> json) list"

datatype payload = Payload (payload_text: string) (payload_json: "json option")

record APIResponse =
  resp_err :: "go_error option"
  StatusCode :: int
  Raw :: "payload option"

definition Error :: "APIResponse \<Rightarrow> go_error option" where
  "Error r = resp_err r"

text \<open>\<open>None\<close> is the nil dereference of \<open>r.err.Error()\<close>.\<close>

definition APIResponse_String :: "APIResponse \<Rightarrow> string option" where
  "APIResponse_String r =
     (if Raw r = None \<and> StatusCode r = 0 then map_option err_msg (resp_err r)
      else case Raw r of
        Some raw \<Rightarrow> Some (''['' @ show_int (StatusCode r) @ ''] '' @ payload_text raw)
      | None \<Rightarrow> Some (''['' @ show_int (StatusCode r) @ ''] '' @
          (case resp_err r of None \<Rightarrow> ''%!s(<nil>)'' | Some e \<Rightarrow> err_msg e)))"

type_synonym PluginSchema = "(string \<times> json) list option"

definition CorsPlugin :: string where "CorsPlugin = ''cors''"
definition IpRestrictionPlugin :: string where "IpRestrictionPlugin = ''ip-restriction''"
definition DynamicSSLPlugin :: string where "DynamicSSLPlugin = ''ssl''"
definition RateLimitingPlugin :: string where "RateLimitingPlugin = ''rate-limiting''"

record Plugin =
  Plugin_UID :: string
  APIUID :: string
  Plugin_Name :: string
  ConsumerID :: string
  Config :: PluginSchema
  Enabled :: bool
  Plugin_CreatedAt :: Timestamp

record PluginList =
  Plugin_Total :: "64 word"
  Plugin_Items :: "Plugin list"
  Plugin_NextPage :: string

record KongVersion =
  Major :: int
  Minor :: int
  Patch :: int

definition KongVersion_String :: "KongVersion \<Rightarrow> string" where
  "KongVersion_String k =
     (if Major k = 0 \<and> Minor k = 0 \<and> Patch k = 0 then ''unknown''
      else ''v'' @ show_int (Major k) @ ''.'' @ show_int (Minor k) @ ''.'' @ show_int (Patch k))"

section \<open>Registration constants\<close>

definition GroupName :: string where "GroupName = ''platform.koli.io''"
definition ResourceKind :: string where "ResourceKind = ''Domain''"
definition ResourcePlural :: string where "ResourcePlural = ''domains''"

record GroupVersion =
  GV_Group :: string
  GV_Version :: string

definition SchemeGroupVersion :: GroupVersion where
  "SchemeGroupVersion = \<lparr>GV_Group = GroupName, GV_Version = ''v1''\<rparr>"

definition ResourceName :: string where
  "ResourceName = ResourcePlural @ ''.'' @ GroupName"

text \<open>\<open>schema.GroupKind\<close> and \<open>schema.GroupResource\<close> as pairs (group, kind or resource).\<close>

definition Kind_of :: "string \<Rightarrow> string \<times> string" where
  "Kind_of kind = (GV_Group SchemeGroupVersion, kind)"

definition Resource_of :: "string \<Rightarrow> string \<times> string" where
  "Resource_of resource = (GV_Group SchemeGroupVersion, resource)"

section \<open>Lemmas\<close>

text \<open>A response whose error is nil prints without a nil dereference as soon as a status is set.\<close>

lemma APIResponse_String_defined:
  "APIResponse_String r = None \<longleftrightarrow> Raw r = None \<and> StatusCode r = 0 \<and> resp_err r = None"
  by (auto simp: APIResponse_String_def split: option.splits)

lemma sdiv_1000_bounds: "\<bar>i sdiv 1000 * 1000\<bar> \<le> \<bar>i\<bar>" "\<bar>i - i sdiv 1000 * 1000\<bar> < (1000::int)"
  by (auto simp: signed_divide_int_def sgn_if abs_if minus_mod_eq_div_mult [symmetric]
      split: if_splits)

text \<open>\<open>GetTime\<close> drops the milliseconds, towards the epoch, and loses less than a second.\<close>

lemma GetTime_bounds:
  "\<bar>GetTime t\<bar> \<le> \<bar>sint t\<bar> * 1000000" "\<bar>sint t * 1000000 - GetTime t\<bar> < 1000000000"
proof -
  have "\<bar>GetTime t\<bar> = \<bar>sint t sdiv 1000 * 1000\<bar> * 1000000"
    by (simp add: GetTime_def abs_mult)
  also have "\<dots> \<le> \<bar>sint t\<bar> * 1000000"
    using sdiv_1000_bounds(1) [of "sint t"] by linarith
  finally show "\<bar>GetTime t\<bar> \<le> \<bar>sint t\<bar> * 1000000" .
  show "\<bar>sint t * 1000000 - GetTime t\<bar> < 1000000000"
    using sdiv_1000_bounds(2) [of "sint t"] unfolding GetTime_def by linarith
qed

end
