(* ===== verification/Kong_Json.thy ===== *)
theory Kong_Json
  imports Kong_Types
begin

text \<open>
  \<open>encoding/json\<close> on the Kong objects, driven by the struct tags of \<open>pkg/kong/types.go\<close>:
  \<open>Marshal\<close> writes the members in field order and leaves out an empty \<open>omitempty\<close> field;
  \<open>Unmarshal\<close> goes over the members of an object in document order, matches a key to a field
  case-insensitively, ignores unknown keys, treats null as "no value", and on a value of the
  wrong type keeps the field, records the error and goes on. The result is the target and
  whether an error was recorded. The strings are taken to be valid UTF-8, as those are that come
  from JSON themselves (the objects of Kubernetes, the answers of Kong); \<open>encoding/json\<close> replaces
  the bytes of others.
\<close>

section \<open>Decoding\<close>

type_synonym 'a decoded = "'a \<times> bool"

definition dec_string :: "json \<Rightarrow> string \<Rightarrow> string decoded" where
  "dec_string j old = (case j of JStr s \<Rightarrow> (s, False) | JNull \<Rightarrow> (old, False) | _ \<Rightarrow> (old, True))"

definition dec_bool :: "json \<Rightarrow> bool \<Rightarrow> bool decoded" where
  "dec_bool j old = (case j of JBool b \<Rightarrow> (b, False) | JNull \<Rightarrow> (old, False) | _ \<Rightarrow> (old, True))"

definition int64_range :: "int \<Rightarrow> bool" where
  "int64_range i \<longleftrightarrow> - (2 ^ 63) \<le> i \<and> i < 2 ^ 63"

definition dec_int64 :: "json \<Rightarrow> 64 word \<Rightarrow> (64 word) decoded" where
  "dec_int64 j old = (case j of
      JInt i \<Rightarrow> if int64_range i then (word_of_int i, False) else (old, True)
    | JNull \<Rightarrow> (old, False) | _ \<Rightarrow> (old, True))"

definition dec_strings :: "json \<Rightarrow> string slice \<Rightarrow> (string slice) decoded" where
  "dec_strings j old = (case j of
      JArr js \<Rightarrow> (Some (map (\<lambda>x. fst (dec_string x '''')) js),
                  list_ex (\<lambda>x. snd (dec_string x '''')) js)
    | JNull \<Rightarrow> (None, False) | _ \<Rightarrow> (old, True))"

definition dec_members :: "(string \<Rightarrow> json \<Rightarrow> 'a \<Rightarrow> 'a decoded) \<Rightarrow> (string \<times> json) list
    \<Rightarrow> 'a \<Rightarrow> 'a decoded" where
  "dec_members f ms a =
     fold (\<lambda>(k, j) (x, e). case f (lower k) j x of (x', e') \<Rightarrow> (x', e \<or> e')) ms (a, False)"

definition dec_object :: "(string \<Rightarrow> json \<Rightarrow> 'a \<Rightarrow> 'a decoded) \<Rightarrow> json \<Rightarrow> 'a \<Rightarrow> 'a decoded" where
  "dec_object f j a = (case j of
      JObj ms \<Rightarrow> dec_members f ms a | JNull \<Rightarrow> (a, False) | _ \<Rightarrow> (a, True))"

text \<open>
  The fields of a struct with their tags, from which both directions are made: the key, the option
  \<open>omitempty\<close>, whether the value counts as empty, and the coding of the type of the field.
\<close>

record 'a json_field =
  field_tag :: string
  omitempty :: bool
  isEmptyValue :: "'a \<Rightarrow> bool"
  field_enc :: "'a \<Rightarrow> json"
  field_dec :: "json \<Rightarrow> 'a \<Rightarrow> 'a decoded"

definition string_field :: "string \<Rightarrow> bool \<Rightarrow> ('a \<Rightarrow> string) \<Rightarrow> (string \<Rightarrow> 'a \<Rightarrow> 'a) \<Rightarrow> 'a json_field" where
  "string_field t om get put = \<lparr>field_tag = t, omitempty = om, isEmptyValue = (\<lambda>a. get a = ''''),
     field_enc = (\<lambda>a. JStr (get a)), field_dec = (\<lambda>j a. apfst (\<lambda>v. put v a) (dec_string j (get a)))\<rparr>"

definition strings_field :: "string \<Rightarrow> bool \<Rightarrow> ('a \<Rightarrow> string slice) \<Rightarrow> (string slice \<Rightarrow> 'a \<Rightarrow> 'a) \<Rightarrow> 'a json_field" where
  "strings_field t om get put = \<lparr>field_tag = t, omitempty = om, isEmptyValue = (\<lambda>a. elems (get a) = []),
     field_enc = (\<lambda>a. case get a of None \<Rightarrow> JNull | Some xs \<Rightarrow> JArr (map JStr xs)),
     field_dec = (\<lambda>j a. apfst (\<lambda>v. put v a) (dec_strings j (get a)))\<rparr>"

definition bool_field :: "string \<Rightarrow> bool \<Rightarrow> ('a \<Rightarrow> bool) \<Rightarrow> (bool \<Rightarrow> 'a \<Rightarrow> 'a) \<Rightarrow> 'a json_field" where
  "bool_field t om get put = \<lparr>field_tag = t, omitempty = om, isEmptyValue = (\<lambda>a. \<not> get a),
     field_enc = (\<lambda>a. JBool (get a)), field_dec = (\<lambda>j a. apfst (\<lambda>v. put v a) (dec_bool j (get a)))\<rparr>"

definition int64_field :: "string \<Rightarrow> bool \<Rightarrow> ('a \<Rightarrow> 64 word) \<Rightarrow> (64 word \<Rightarrow> 'a \<Rightarrow> 'a) \<Rightarrow> 'a json_field" where
  "int64_field t om get put = \<lparr>field_tag = t, omitempty = om, isEmptyValue = (\<lambda>a. get a = 0),
     field_enc = (\<lambda>a. JInt (sint (get a))), field_dec = (\<lambda>j a. apfst (\<lambda>v. put v a) (dec_int64 j (get a)))\<rparr>"

definition dec_field :: "'a json_field list \<Rightarrow> string \<Rightarrow> json \<Rightarrow> 'a \<Rightarrow> 'a decoded" where
  "dec_field fs k j a = (case find (\<lambda>f. field_tag f = k) fs of Some f \<Rightarrow> field_dec f j a | None \<Rightarrow> (a, False))"

definition enc_struct :: "'a json_field list \<Rightarrow> 'a \<Rightarrow> json" where
  "enc_struct fs a = JObj (map (\<lambda>f. (field_tag f, field_enc f a)) (filter (\<lambda>f. \<not> (omitempty f \<and> isEmptyValue f a)) fs))"

text \<open>The struct \<open>API\<close>.\<close>

definition API_fields :: "API json_field list" where
  "API_fields =
     [string_field ''id'' True API_UID (\<lambda>v a. a\<lparr>API_UID := v\<rparr>),
      string_field ''name'' True API_Name (\<lambda>v a. a\<lparr>API_Name := v\<rparr>),
      strings_field ''hosts'' True Hosts (\<lambda>v a. a\<lparr>Hosts := v\<rparr>),
      strings_field ''uris'' True URIs (\<lambda>v a. a\<lparr>URIs := v\<rparr>),
      bool_field ''preserve_host'' False PreserveHost (\<lambda>v a. a\<lparr>PreserveHost := v\<rparr>),
      string_field ''upstream_url'' False UpstreamURL (\<lambda>v a. a\<lparr>UpstreamURL := v\<rparr>),
      int64_field ''created_at'' True CreatedAt (\<lambda>v a. a\<lparr>CreatedAt := v\<rparr>),
      bool_field ''strip_uri'' False StripUri (\<lambda>v a. a\<lparr>StripUri := v\<rparr>)]"

definition dec_API :: "json \<Rightarrow> API \<Rightarrow> API decoded" where
  "dec_API = dec_object (dec_field API_fields)"

definition dec_APIs :: "json \<Rightarrow> API list \<Rightarrow> (API list) decoded" where
  "dec_APIs j old = (case j of
      JArr js \<Rightarrow> (map (\<lambda>x. fst (dec_API x empty_API)) js, list_ex (\<lambda>x. snd (dec_API x empty_API)) js)
    | JNull \<Rightarrow> ([], False) | _ \<Rightarrow> (old, True))"

definition dec_APIList_field :: "string \<Rightarrow> json \<Rightarrow> APIList \<Rightarrow> APIList decoded" where
  "dec_APIList_field k j l =
     (if k = ''total'' then apfst (\<lambda>v. l\<lparr>Total := v\<rparr>) (dec_int64 j (Total l))
      else if k = ''data'' then apfst (\<lambda>v. l\<lparr>Items := v\<rparr>) (dec_APIs j (Items l))
      else if k = ''next'' then apfst (\<lambda>v. l\<lparr>NextPage := v\<rparr>) (dec_string j (NextPage l))
      else if k = ''offset'' then apfst (\<lambda>v. l\<lparr>Offset := v\<rparr>) (dec_string j (Offset l))
      else (l, False))"

definition dec_APIList :: "json \<Rightarrow> APIList \<Rightarrow> APIList decoded" where
  "dec_APIList = dec_object dec_APIList_field"

text \<open>\<open>json.Unmarshal(raw, target)\<close>: the error for invalid JSON, or the first recorded one.\<close>

definition unmarshal :: "(json \<Rightarrow> 'a \<Rightarrow> 'a decoded) \<Rightarrow> payload \<Rightarrow> 'a \<Rightarrow> 'a \<times> go_error option" where
  "unmarshal dec raw a = (case payload_json raw of
      None \<Rightarrow> (a, Some (PlainErr ''invalid JSON''))
    | Some j \<Rightarrow> (case dec j a of
        (x, e) \<Rightarrow> (x, if e then Some (PlainErr ''json: cannot unmarshal value'') else None)))"

section \<open>Encoding\<close>

definition omit :: "bool \<Rightarrow> string \<Rightarrow> json \<Rightarrow> (string \<times> json) list" where
  "omit isempty k j = (if isempty then [] else [(k, j)])"

definition enc_API :: "API \<Rightarrow> json" where
  "enc_API = enc_struct API_fields"

section \<open>Lemmas\<close>

text \<open>What a slice is after a trip through \<open>omitempty\<close>: empty slices come back nil.\<close>

definition norm_slice :: "'a slice \<Rightarrow> 'a slice" where
  "norm_slice s = (if elems s = [] then None else s)"

lemma norm_slice_elems [simp]: "elems (norm_slice s) = elems s"
  by (simp add: norm_slice_def)

lemma norm_slice_id: "s \<noteq> Some [] \<Longrightarrow> norm_slice s = s"
  by (cases s) (auto simp: norm_slice_def)

lemma dec_members_Nil [simp]: "dec_members f [] a = (a, False)"
  by (simp add: dec_members_def)

lemma dec_members_fold:
  "fold (\<lambda>(k, j) (x, e). case f (lower k) j x of (x', e') \<Rightarrow> (x', e \<or> e')) ms (a, e)
    = apsnd (\<lambda>e'. e \<or> e') (dec_members f ms a)"
proof (induction ms arbitrary: a e)
  case Nil
  then show ?case by (simp add: dec_members_def)
next
  case (Cons m ms)
  obtain k j where m: "m = (k, j)" by (cases m)
  obtain x e' where x: "f (lower k) j a = (x, e')" by (cases "f (lower k) j a")
  show ?case
    unfolding dec_members_def
    by (simp add: m x Cons.IH) (simp add: apsnd_def map_prod_def split: prod.splits)
qed

lemma dec_members_append:
  "dec_members f (ms @ ns) a =
    (case dec_members f ms a of (x, e) \<Rightarrow> apsnd (\<lambda>e'. e \<or> e') (dec_members f ns x))"
  by (simp add: dec_members_def [of f "ms @ ns"] dec_members_def [of f ms, symmetric]
      dec_members_fold split: prod.splits)

lemma apsnd_or_False [simp]: "apsnd ((\<or>) False) p = p"
  by (cases p) simp

lemma dec_members_Cons:
  "dec_members f ((k, j) # ms) a =
    (case f (lower k) j a of (x, e) \<Rightarrow> apsnd (\<lambda>e'. e \<or> e') (dec_members f ms x))"
  by (simp add: dec_members_def [of f "(k, j) # ms"] dec_members_fold split: prod.splits)

lemma dec_members_single: "dec_members f [(k, j)] a = f (lower k) j a"
  by (simp add: dec_members_def split: prod.splits)

lemma dec_members_omit:
  "dec_members f (omit b k j) a = (if b then (a, False) else f (lower k) j a)"
  by (simp add: omit_def dec_members_single)

lemma word_of_int_sint64 [simp]: "word_of_int (sint (w :: 64 word)) = w" "int64_range (sint (w :: 64 word))"
  using sint_lt [of w] sint_ge [of w] by (simp_all add: int64_range_def)

lemma dec_strings_JStr [simp]: "dec_strings (JArr (map JStr xs)) old = (Some xs, False)"
  by (simp add: dec_strings_def dec_string_def comp_def list_ex_iff)

lemma lower_field_names [simp]:
  "lower ''id'' = ''id''" "lower ''name'' = ''name''" "lower ''hosts'' = ''hosts''"
  "lower ''uris'' = ''uris''" "lower ''preserve_host'' = ''preserve_host''"
  "lower ''upstream_url'' = ''upstream_url''" "lower ''created_at'' = ''created_at''"
  "lower ''strip_uri'' = ''strip_uri''" "lower ''total'' = ''total''" "lower ''data'' = ''data''"
  "lower ''next'' = ''next''" "lower ''offset'' = ''offset''" "lower ''version'' = ''version''"
  by (simp_all add: lower_def lower_char_def Let_def)

lemmas field_defs = string_field_def strings_field_def bool_field_def int64_field_def

lemma dec_API_field: "dec_field API_fields k j a =
     (if k = ''id'' then apfst (\<lambda>v. a\<lparr>API_UID := v\<rparr>) (dec_string j (API_UID a))
      else if k = ''name'' then apfst (\<lambda>v. a\<lparr>API_Name := v\<rparr>) (dec_string j (API_Name a))
      else if k = ''hosts'' then apfst (\<lambda>v. a\<lparr>Hosts := v\<rparr>) (dec_strings j (Hosts a))
      else if k = ''uris'' then apfst (\<lambda>v. a\<lparr>URIs := v\<rparr>) (dec_strings j (URIs a))
      else if k = ''preserve_host'' then apfst (\<lambda>v. a\<lparr>PreserveHost := v\<rparr>) (dec_bool j (PreserveHost a))
      else if k = ''upstream_url'' then apfst (\<lambda>v. a\<lparr>UpstreamURL := v\<rparr>) (dec_string j (UpstreamURL a))
      else if k = ''created_at'' then apfst (\<lambda>v. a\<lparr>CreatedAt := v\<rparr>) (dec_int64 j (CreatedAt a))
      else if k = ''strip_uri'' then apfst (\<lambda>v. a\<lparr>StripUri := v\<rparr>) (dec_bool j (StripUri a))
      else (a, False))"
  by (simp add: dec_field_def API_fields_def field_defs)

lemma enc_API: "enc_API a = JObj (
     omit (API_UID a = '''') ''id'' (JStr (API_UID a))
     @ omit (API_Name a = '''') ''name'' (JStr (API_Name a))
     @ omit (elems (Hosts a) = []) ''hosts'' (JArr (map JStr (elems (Hosts a))))
     @ omit (elems (URIs a) = []) ''uris'' (JArr (map JStr (elems (URIs a))))
     @ [(''preserve_host'', JBool (PreserveHost a))]
     @ [(''upstream_url'', JStr (UpstreamURL a))]
     @ omit (CreatedAt a = 0) ''created_at'' (JInt (sint (CreatedAt a)))
     @ [(''strip_uri'', JBool (StripUri a))])"
  by (simp add: enc_API_def enc_struct_def API_fields_def field_defs omit_def split: option.split)

lemma dec_enc_API:
  "dec_API (enc_API a) empty_API = (a\<lparr>Hosts := norm_slice (Hosts a), URIs := norm_slice (URIs a)\<rparr>, False)"
proof -
  have s: "(if elems s = [] then None else Some (elems s)) = norm_slice s" for s :: "string slice"
    by (cases s) (auto simp: norm_slice_def)
  show ?thesis
    unfolding dec_API_def enc_API dec_object_def
    by (cases a)
      (simp add: dec_members_append dec_members_Cons dec_members_omit dec_API_field
        dec_string_def dec_bool_def dec_int64_def empty_API_def s [symmetric])
qed

end
