(* ===== verification/Rest_Client.thy ===== *)
theory Rest_Client
  imports Kong_Json
begin

text \<open>
  The boundary of the program: the HTTP requests it makes through the Kubernetes REST client
  (\<open>k8s.io/client-go/rest\<close>: the Kong admin API, the \<open>domains\<close> resource, the typed clients), the
  informer caches it reads, the event recorder, the Prometheus metrics, the clock. The servers
  and the caches are not code of the repository: they are the fields of \<open>env\<close>, functions of an
  arbitrary world \<open>'w\<close> that each use may change, so a cache may differ between two reads of the
  same handler. What a run did is its list of actions \<open>act\<close>, with the answers it got.
\<close>

section \<open>Requests\<close>

datatype server = KongAdmin | DomainServer | CoreServer

datatype verb = GET | PUT | POST | PATCH | DELETE

datatype patch_type = MergePatch | StrategicMergePatch

datatype body = NoBody | JsonBody json | DomainBody Domain | PatchBody patch_type json

record request =
  srv :: server
  verb_of :: verb
  resource :: string
  req_namespace :: "string option"
  req_name :: "string option"
  sub_resource :: string
  suffix :: string
  params :: "(string \<times> string list) list"
  req_body :: body

definition kong_request :: "verb \<Rightarrow> string option \<Rightarrow> body \<Rightarrow> request" where
  "kong_request v n b = \<lparr>srv = KongAdmin, verb_of = v, resource = ''apis'', req_namespace = None,
     req_name = n, sub_resource = '''', suffix = '''', params = [], req_body = b\<rparr>"

definition domain_request :: "verb \<Rightarrow> string \<Rightarrow> string option \<Rightarrow> body \<Rightarrow> request" where
  "domain_request v ns n b = \<lparr>srv = DomainServer, verb_of = v, resource = ''domains'',
     req_namespace = Some ns, req_name = n, sub_resource = '''', suffix = '''', params = [],
     req_body = b\<rparr>"

definition core_request :: "verb \<Rightarrow> string \<Rightarrow> string \<Rightarrow> string \<Rightarrow> body \<Rightarrow> request" where
  "core_request v res ns n b = \<lparr>srv = CoreServer, verb_of = v, resource = res,
     req_namespace = Some ns, req_name = Some n, sub_resource = '''', suffix = '''', params = [],
     req_body = b\<rparr>"

record rest_result =
  res_body :: "payload option"
  res_status :: int
  res_err :: "go_error option"

text \<open>
  \<open>IsValidPathSegmentName\<close>, and the checks of the request builder: \<open>Name\<close> refuses an empty or
  an invalid name, \<open>Namespace\<close> an invalid one. A request with such an error is never sent.
\<close>

definition valid_segment :: "string \<Rightarrow> bool" where
  "valid_segment s \<longleftrightarrow> s \<noteq> ''.'' \<and> s \<noteq> ''..'' \<and> CHR ''/'' \<notin> set s \<and> CHR ''%'' \<notin> set s"

definition request_error :: "request \<Rightarrow> go_error option" where
  "request_error q =
     (if req_name q = Some '''' then Some (PlainErr ''resource name may not be empty'')
      else if \<exists>n \<in> set_option (req_name q). \<not> valid_segment n
        then Some (PlainErr ''invalid resource name'')
      else if \<exists>ns \<in> set_option (req_namespace q). \<not> valid_segment ns
        then Some (PlainErr ''invalid namespace'')
      else None)"

section \<open>The environment and the actions\<close>

datatype event_type = EventNormal | EventWarning

datatype queue_name = IngQueue | DomQueue | SvcQueue

record 'w env =
  do_request :: "request \<Rightarrow> 'w \<Rightarrow> rest_result \<times> 'w"
  dom_list :: "'w \<Rightarrow> (go_error + Domain list) \<times> 'w"
  dom_get :: "string \<Rightarrow> 'w \<Rightarrow> (go_error + Domain option) \<times> 'w"
  svc_list :: "'w \<Rightarrow> (go_error + Service list) \<times> 'w"
  svc_get :: "string \<Rightarrow> 'w \<Rightarrow> (go_error + Service option) \<times> 'w"
  ing_get :: "string \<Rightarrow> 'w \<Rightarrow> (go_error + Ingress option) \<times> 'w"
  now :: "'w \<Rightarrow> gotime \<times> 'w"
  sleep :: "int \<Rightarrow> 'w \<Rightarrow> unit \<times> 'w"
  page_bound :: nat
  host_order :: "(string \<times> API list) list \<Rightarrow> 'w \<Rightarrow> (string \<times> API list) list \<times> 'w"

datatype act =
    Call request rest_result
  | ReadDomains "go_error + Domain list"
  | ReadDomain string "go_error + Domain option"
  | ReadServices "go_error + Service list"
  | ReadService string "go_error + Service option"
  | ReadIngress string "go_error + Ingress option"
  | ReadClock gotime
  | Sleep int
  | Eventf "string \<times> string" event_type string string
  | ApisTotalInc
  | ApisTotalDec
  | ApisFailedInc
  | Enqueue queue_name string

type_synonym ('w, 'a) run = "(act, 'w, 'a) go"

definition failed_result :: "go_error \<Rightarrow> rest_result" where
  "failed_result e = \<lparr>res_body = None, res_status = 0, res_err = Some e\<rparr>"

definition send :: "'w env \<Rightarrow> request \<Rightarrow> ('w, rest_result) run" where
  "send E q = (case request_error q of
      Some e \<Rightarrow> ret (failed_result e)
    | None \<Rightarrow> ask (do_request E q) (Call q))"

text \<open>\<open>res, err := ....DoRaw(); if err != nil { return fmt.Errorf(..., string(res), err) }\<close>.\<close>

definition body_text :: "payload option \<Rightarrow> string" where
  "body_text b = (case b of None \<Rightarrow> '''' | Some p \<Rightarrow> payload_text p)"

definition do_raw :: "'w env \<Rightarrow> request \<Rightarrow> (string \<Rightarrow> go_error \<Rightarrow> go_error)
    \<Rightarrow> ('w, go_error + unit) run \<Rightarrow> ('w, go_error + unit) run" where
  "do_raw E q wrap k = bnd (send E q) (\<lambda>r. case res_err r of
      Some e \<Rightarrow> ret (Inl (wrap (body_text (res_body r)) e))
    | None \<Rightarrow> k)"

text \<open>\<open>fmt.Errorf("<what> [%s, %s]", string(res), err)\<close>.\<close>

definition errorf2 :: "string \<Rightarrow> string \<Rightarrow> go_error \<Rightarrow> go_error" where
  "errorf2 what res e = PlainErr (what @ '' ['' @ res @ '', '' @ err_msg e @ '']'')"

section \<open>The informer caches\<close>

text \<open>\<open>MetaNamespaceKeyFunc\<close>.\<close>

definition meta_key :: "'a ObjectMeta_scheme \<Rightarrow> string" where
  "meta_key obj =
     (if 0 < length (Namespace obj) then Namespace obj @ ''/'' @ Name obj else Name obj)"

text \<open>
  \<open>cache.ListAllByNamespace\<close> on a snapshot of the store: the empty namespace is \<open>NamespaceAll\<close>.
\<close>

definition by_namespace :: "string \<Rightarrow> Domain list \<Rightarrow> Domain list" where
  "by_namespace ns ds = (if ns = '''' then ds else filter (\<lambda>d. Namespace d = ns) ds)"

definition list_domains :: "'w env \<Rightarrow> ('w, go_error + Domain list) run" where
  "list_domains E = ask (dom_list E) ReadDomains"

definition list_domains_ns :: "'w env \<Rightarrow> string \<Rightarrow> ('w, go_error + Domain list) run" where
  "list_domains_ns E ns = bnd (list_domains E) (\<lambda>r. ret (map_sum id (by_namespace ns) r))"

definition get_domain :: "'w env \<Rightarrow> string \<Rightarrow> ('w, go_error + Domain option) run" where
  "get_domain E key = ask (dom_get E key) (ReadDomain key)"

definition list_services :: "'w env \<Rightarrow> ('w, go_error + Service list) run" where
  "list_services E = ask (svc_list E) ReadServices"

definition get_service :: "'w env \<Rightarrow> string \<Rightarrow> ('w, go_error + Service option) run" where
  "get_service E key = ask (svc_get E key) (ReadService key)"

definition get_ingress :: "'w env \<Rightarrow> string \<Rightarrow> ('w, go_error + Ingress option) run" where
  "get_ingress E key = ask (ing_get E key) (ReadIngress key)"

definition time_now :: "'w env \<Rightarrow> ('w, gotime) run" where
  "time_now E = ask (now E) ReadClock"

definition time_sleep :: "'w env \<Rightarrow> int \<Rightarrow> ('w, unit) run" where
  "time_sleep E d = ask (sleep E d) (\<lambda>_. Sleep d)"

text \<open>
  \<open>for k, v := range m\<close> over a map: the world picks the order, as Go's runtime does. A statement
  that needs it says that the choice is a permutation.
\<close>

definition range_hosts :: "'w env \<Rightarrow> (string \<times> API list) list \<Rightarrow> ('w, (string \<times> API list) list) run" where
  "range_hosts E m = (\<lambda>w. case host_order E m w of (m', w') \<Rightarrow> (Done m', [], w'))"

text \<open>\<open>recorder.Event(obj, type, reason, message)\<close>.\<close>

definition record_event :: "'a ObjectMeta_scheme \<Rightarrow> event_type \<Rightarrow> string \<Rightarrow> string \<Rightarrow> ('w, unit) run" where
  "record_event obj ty reason msg = emit (Eventf (Namespace obj, Name obj) ty reason msg)"

section \<open>Classes of actions\<close>

fun kong_call :: "act \<Rightarrow> bool" where
  "kong_call (Call q r) = (srv q = KongAdmin)"
| "kong_call _ = False"

text \<open>An action that writes: a request other than a GET.\<close>

fun writes :: "act \<Rightarrow> bool" where
  "writes (Call q r) = (verb_of q \<noteq> GET)"
| "writes _ = False"

fun is_kong_delete :: "string \<Rightarrow> act \<Rightarrow> bool" where
  "is_kong_delete n (Call q r) = (q = kong_request DELETE (Some n) NoBody)"
| "is_kong_delete n _ = False"

fun is_kong_put :: "API \<Rightarrow> act \<Rightarrow> bool" where
  "is_kong_put a (Call q r) = (q = kong_request PUT None (JsonBody (enc_API a)))"
| "is_kong_put a _ = False"

fun is_kong_get :: "act \<Rightarrow> bool" where
  "is_kong_get (Call q r) = (srv q = KongAdmin \<and> verb_of q = GET)"
| "is_kong_get _ = False"

section \<open>Rules\<close>

lemma kong_request_simps [simp]:
  "srv (kong_request v n b) = KongAdmin" "verb_of (kong_request v n b) = v"
  "req_body (kong_request v n b) = b" "req_name (kong_request v n b) = n"
  "req_namespace (kong_request v n b) = None"
  by (simp_all add: kong_request_def)

lemma domain_request_simps [simp]:
  "srv (domain_request v ns n b) = DomainServer" "verb_of (domain_request v ns n b) = v"
  "req_body (domain_request v ns n b) = b" "req_name (domain_request v ns n b) = n"
  "req_namespace (domain_request v ns n b) = Some ns"
  by (simp_all add: domain_request_def)

lemma core_request_simps [simp]:
  "srv (core_request v res ns n b) = CoreServer" "verb_of (core_request v res ns n b) = v"
  "req_body (core_request v res ns n b) = b" "resource (core_request v res ns n b) = res"
  "req_name (core_request v res ns n b) = Some n"
  "req_namespace (core_request v res ns n b) = Some ns"
  by (simp_all add: core_request_def)

lemma kong_request_eq [simp]:
  "kong_request v n b = kong_request v' n' b' \<longleftrightarrow> v = v' \<and> n = n' \<and> b = b'"
  by (auto simp: kong_request_def)

lemma server_request_neq [simp]:
  "kong_request v n b \<noteq> domain_request v' ns n' b'" "domain_request v' ns n' b' \<noteq> kong_request v n b"
  "kong_request v n b \<noteq> core_request v' rs ns m b'" "core_request v' rs ns m b' \<noteq> kong_request v n b"
  by (auto simp: kong_request_def domain_request_def core_request_def)

lemma emits_send [emits_intros]: "(\<And>r. P (Call q r)) \<Longrightarrow> emits_only P (send E q)"
  unfolding send_def by (intro emits_intros)

lemma emits_do_raw [emits_intros]:
  "(\<And>r. P (Call q r)) \<Longrightarrow> emits_only P k \<Longrightarrow> emits_only P (do_raw E q wrap k)"
  unfolding do_raw_def by (intro emits_intros)

text \<open>A request whose success the rest of the code relies on.\<close>

lemma hoare_do_raw:
  assumes "persistent H" "\<And>h r. H h \<Longrightarrow> ok h (Call q r)"
    and "hoare ok (\<lambda>h. H h \<and> (\<exists>r. Call q r \<in> set h \<and> res_err r = None)) k Q"
    and "\<And>e h. H h \<Longrightarrow> Q (Inl e) h"
  shows "hoare ok H (do_raw E q wrap k) Q"
proof -
  have "hoare ok H (send E q) (\<lambda>r h. H h \<and> (res_err r = None \<longrightarrow> Call q r \<in> set h))"
    unfolding send_def
    by (intro hoare_intros) (use assms(1,2) in \<open>auto simp: failed_result_def persistent_def\<close>)
  then show ?thesis
    unfolding do_raw_def
    by (rule hoare_bnd) (intro hoare_case_option hoare_ret hoare_pre [OF assms(3)]; use assms(4) in auto)
qed

lemma emits_caches [emits_intros]:
  "(\<And>r. P (ReadDomains r)) \<Longrightarrow> emits_only P (list_domains E)"
  "(\<And>r. P (ReadDomains r)) \<Longrightarrow> emits_only P (list_domains_ns E ns)"
  "(\<And>r. P (ReadDomain key r)) \<Longrightarrow> emits_only P (get_domain E key)"
  "(\<And>r. P (ReadServices r)) \<Longrightarrow> emits_only P (list_services E)"
  "(\<And>r. P (ReadService key r)) \<Longrightarrow> emits_only P (get_service E key)"
  "(\<And>r. P (ReadIngress key r)) \<Longrightarrow> emits_only P (get_ingress E key)"
  "(\<And>t. P (ReadClock t)) \<Longrightarrow> emits_only P (time_now E)"
  "P (Sleep d) \<Longrightarrow> emits_only P (time_sleep E d)"
  unfolding list_domains_def list_domains_ns_def get_domain_def list_services_def get_service_def
    get_ingress_def time_now_def time_sleep_def
  by (intro emits_intros; simp)+

lemma emits_range_hosts [emits_intros]: "emits_only P (range_hosts E m)"
  by (simp add: emits_only_def trace_of_def range_hosts_def split: prod.splits)

lemma emits_record_event [emits_intros]:
  "P (Eventf (Namespace obj, Name obj) ty reason msg)
    \<Longrightarrow> emits_only P (record_event obj ty reason msg)"
  unfolding record_event_def by (intro emits_intros)

lemma by_namespace_set: "ns \<noteq> '''' \<Longrightarrow> set (by_namespace ns ds) = {d \<in> set ds. Namespace d = ns}"
  by (auto simp: by_namespace_def)

lemma by_namespace_subset: "set (by_namespace ns ds) \<subseteq> set ds"
  by (auto simp: by_namespace_def)

end
