(* ===== verification/Go_Regexp.thy ===== *)
theory Go_Regexp
  imports Go_Prelude
begin

text \<open>
  The part of Go's \<open>regexp\<close> that \<open>ListByRegexp\<close> runs: patterns made of literal characters,
  the any-character dot and the repetitions \<open>*\<close>, \<open>+\<close>, \<open>?\<close> with their lazy forms.
  \<open>regexp.MustCompile\<close> panics on a pattern that does not parse (a repetition with nothing to
  repeat, or stacked repetitions). A pattern with any other operator, or with a byte outside
  ASCII, is \<open>ReUnmodelled\<close>: the model says nothing of it. \<open>MatchString\<close> is unanchored.
\<close>

datatype re_atom = Lit char | AnyChar

datatype quant = One | ZeroOrOne | ZeroOrMore | OneOrMore

type_synonym regex = "(re_atom \<times> quant) list"

datatype re_result = ReOk regex | ReError | ReUnmodelled

definition re_unmodelled_char :: "char \<Rightarrow> bool" where
  "re_unmodelled_char c \<longleftrightarrow>
     c = CHR ''('' \<or> c = CHR '')'' \<or> c = CHR ''['' \<or> c = CHR ''{'' \<or> c = CHR ''|''
     \<or> c = CHR ''^'' \<or> c = CHR ''$'' \<or> c = CHR 0x5C \<or> 128 \<le> (of_char c :: nat)"

definition re_quant :: "char \<Rightarrow> quant option" where
  "re_quant c =
     (if c = CHR ''*'' then Some ZeroOrMore
      else if c = CHR ''+'' then Some OneOrMore
      else if c = CHR ''?'' then Some ZeroOrOne
      else None)"

definition re_atom_of :: "char \<Rightarrow> re_atom" where
  "re_atom_of c = (if c = CHR ''.'' then AnyChar else Lit c)"

definition drop_lazy :: "string \<Rightarrow> string" where
  "drop_lazy s = (case s of [] \<Rightarrow> [] | c # cs \<Rightarrow> if c = CHR ''?'' then cs else s)"

lemma length_drop_lazy [simp]: "length (drop_lazy s) < Suc (length s)"
  by (auto simp: drop_lazy_def split: list.splits)

text \<open>\<open>acc\<close> is the parsed part in reverse; \<open>rep\<close> says that the last token was a repetition.\<close>

fun re_parse_from :: "regex \<Rightarrow> bool \<Rightarrow> string \<Rightarrow> re_result" where
  "re_parse_from acc rep [] = ReOk (rev acc)"
| "re_parse_from acc rep (c # cs) =
     (case re_quant c of
        Some q \<Rightarrow>
          (case acc of
             [] \<Rightarrow> ReError
           | (a, _) # acc' \<Rightarrow>
               if rep then ReError else re_parse_from ((a, q) # acc') True (drop_lazy cs))
      | None \<Rightarrow>
          if re_unmodelled_char c then ReUnmodelled
          else re_parse_from ((re_atom_of c, One) # acc) False cs)"

definition re_compile :: "string \<Rightarrow> re_result" where
  "re_compile pattern = re_parse_from [] False pattern"

fun atom_matches :: "re_atom \<Rightarrow> char \<Rightarrow> bool" where
  "atom_matches (Lit a) c = (a = c)"
| "atom_matches AnyChar c = (c \<noteq> CHR 0x0A)"

text \<open>The expression matches a prefix of the text.\<close>

function re_here :: "regex \<Rightarrow> string \<Rightarrow> bool" where
  "re_here [] s = True"
| "re_here ((a, One) # r) s =
     (case s of [] \<Rightarrow> False | c # s' \<Rightarrow> atom_matches a c \<and> re_here r s')"
| "re_here ((a, ZeroOrOne) # r) s =
     (re_here r s \<or> (case s of [] \<Rightarrow> False | c # s' \<Rightarrow> atom_matches a c \<and> re_here r s'))"
| "re_here ((a, ZeroOrMore) # r) s =
     (re_here r s \<or>
      (case s of [] \<Rightarrow> False | c # s' \<Rightarrow> atom_matches a c \<and> re_here ((a, ZeroOrMore) # r) s'))"
| "re_here ((a, OneOrMore) # r) s =
     (case s of [] \<Rightarrow> False | c # s' \<Rightarrow> atom_matches a c \<and> re_here ((a, ZeroOrMore) # r) s')"
  by pat_completeness auto
termination
  by (relation "measures [\<lambda>(r, s). length s, \<lambda>(r, s). length r]") auto

fun re_match :: "regex \<Rightarrow> string \<Rightarrow> bool" where
  "re_match r [] = re_here r []"
| "re_match r (c # s) = (re_here r (c # s) \<or> re_match r s)"

section \<open>Lemmas\<close>

lemma re_match_iff: "re_match r s \<longleftrightarrow> (\<exists>pre post. s = pre @ post \<and> re_here r post)"
proof (induction s)
  case Nil
  then show ?case by simp
next
  case (Cons c s)
  have "(\<exists>pre post. c # s = pre @ post \<and> re_here r post) \<longleftrightarrow>
      re_here r (c # s) \<or> (\<exists>pre post. s = pre @ post \<and> re_here r post)"
    by (auto simp: Cons_eq_append_conv)
  with Cons.IH show ?case by simp
qed

text \<open>A plain text: no repetition operator and nothing outside the modelled fragment.\<close>

definition re_plain :: "string \<Rightarrow> bool" where
  "re_plain s \<longleftrightarrow> (\<forall>c \<in> set s. re_quant c = None \<and> \<not> re_unmodelled_char c)"

lemma re_parse_plain:
  "re_plain s \<Longrightarrow> re_parse_from acc rep (s @ t) =
    (if s = [] then re_parse_from acc rep t
     else re_parse_from (rev (map (\<lambda>c. (re_atom_of c, One)) s) @ acc) False t)"
  by (induction s arbitrary: acc rep) (auto simp: re_plain_def)

lemma re_compile_host_pattern:
  "re_plain d \<Longrightarrow> re_compile (d @ ''~.+'') =
    ReOk (map (\<lambda>c. (re_atom_of c, One)) d @ [(Lit CHR ''~'', One), (AnyChar, OneOrMore)])"
  unfolding re_compile_def
  by (auto simp: re_parse_plain re_quant_def re_unmodelled_char_def re_atom_of_def drop_lazy_def)

text \<open>A text matches a plain pattern character by character.\<close>

lemma re_here_plain:
  "re_here (map (\<lambda>c. (re_atom_of c, One)) d @ r) s \<longleftrightarrow>
    (\<exists>x y. s = x @ y \<and> list_all2 (\<lambda>p c. atom_matches (re_atom_of p) c) d x \<and> re_here r y)"
proof (induction d arbitrary: s)
  case Nil
  then show ?case by simp
next
  case (Cons p d)
  show ?case
  proof (cases s)
    case Nil
    then show ?thesis by simp
  next
    case (Cons c t)
    then show ?thesis
      by (auto simp: Cons.IH list_all2_Cons1 Cons_eq_append_conv)
  qed
qed

lemma re_here_tail:
  "re_here [(Lit CHR ''~'', One), (AnyChar, OneOrMore)] s \<longleftrightarrow>
    (\<exists>c t. s = CHR ''~'' # c # t \<and> c \<noteq> CHR 0x0A)"
  by (auto split: list.splits)

lemma host_pattern_matches:
  assumes "re_plain d" and "re_compile (d @ ''~.+'') = ReOk r"
  shows "re_match r s \<longleftrightarrow>
    (\<exists>pre x c t. s = pre @ x @ CHR ''~'' # c # t \<and> c \<noteq> CHR 0x0A
       \<and> list_all2 (\<lambda>p c. atom_matches (re_atom_of p) c) d x)"
proof -
  have r: "r = map (\<lambda>c. (re_atom_of c, One)) d @ [(Lit CHR ''~'', One), (AnyChar, OneOrMore)]"
    using assms re_compile_host_pattern by simp
  show ?thesis
    unfolding re_match_iff r re_here_plain re_here_tail by blast
qed

lemma plain_matches_itself:
  "CHR 0x0A \<notin> set d \<Longrightarrow> list_all2 (\<lambda>p c. atom_matches (re_atom_of p) c) d d"
  by (induction d) (auto simp: re_atom_of_def)

end
