(* ===== verification/Kong_Api.thy ===== *)
theory Kong_Api
  imports Rest_Client Go_Regexp
begin

text \<open>
  \<open>pkg/kong/api.go\<close>: the client of Kong's \<open>/apis\<close> endpoint. Its interface \<open>APIInterface\<close> is the
  locale \<open>api_interface\<close>, whose laws say which requests each method may make; the loops of the
  controller that purge the APIs of a domain or of a service are verified against it, and
  \<open>apiKong\<close> is its interpretation. \<open>List\<close> recurses once per page of the answer, as many times as
  the server says there is a next page: the bound \<open>page_bound\<close> of the environment cuts an
  endless pagination to \<open>Stuck\<close>, and \<open>apiKong_List_fuel\<close>, \<open>apiKong_List_pages\<close> say that the bound
  does not matter once it exceeds the number of pages.
\<close>

section \<open>The methods\<close>

type_synonym url_values = "(string \<times> string list) list option"

text \<open>\<open>url.Values.Add\<close> on a non-nil map.\<close>

fun url_add :: "string \<Rightarrow> string \<Rightarrow> (string \<times> string list) list \<Rightarrow> (string \<times> string list) list" where
  "url_add k v [] = [(k, [v])]"
| "url_add k v ((k', vs) # ps) = (if k = k' then (k', vs @ [v]) # ps else (k', vs) # url_add k v ps)"

definition payload_of :: "payload option \<Rightarrow> payload" where
  "payload_of b = (case b of None \<Rightarrow> Payload '''' None | Some p \<Rightarrow> p)"

definition apiKong_Get :: "'w env \<Rightarrow> string \<Rightarrow> ('w, API option \<times> APIResponse) run" where
  "apiKong_Get E name =
     bnd (send E (kong_request GET (Some name) NoBody)) (\<lambda>resp.
       case res_err resp of
         Some e \<Rightarrow>
           ret (None, \<lparr>resp_err = Some e, StatusCode = res_status resp, Raw = res_body resp\<rparr>)
       | None \<Rightarrow>
           (case unmarshal dec_API (payload_of (res_body resp)) empty_API of (api, err) \<Rightarrow>
              ret (Some api, \<lparr>resp_err = err, StatusCode = res_status resp, Raw = None\<rparr>)))"

definition list_request :: "url_values \<Rightarrow> request" where
  "list_request ps = (kong_request GET None NoBody)
     \<lparr>params := (case ps of None \<Rightarrow> [] | Some vs \<Rightarrow> vs)\<rparr>"

fun apiKong_List :: "nat \<Rightarrow> 'w env \<Rightarrow> url_values \<Rightarrow> ('w, go_error + APIList) run" where
  "apiKong_List 0 E ps = stuck ''page bound''"
| "apiKong_List (Suc n) E ps =
     bnd (send E (list_request ps)) (\<lambda>r. case res_err r of
         Some e \<Rightarrow> ret (Inl e)
       | None \<Rightarrow>
           (case unmarshal dec_APIList (payload_of (res_body r)) empty_APIList of
              (apiList, Some e) \<Rightarrow> ret (Inl e)
            | (apiList, None) \<Rightarrow>
                if 0 < length (NextPage apiList) then
                  (case ps of
                     None \<Rightarrow> panic ''assignment to entry in nil map''
                   | Some vs \<Rightarrow>
                       tryE id (apiKong_List n E (Some (url_add ''offset'' (Offset apiList) vs)))
                         (\<lambda>result. ret (Inr (apiList\<lparr>Items := Items apiList @ Items result\<rparr>))))
                else ret (Inr apiList)))"

definition apiKong_ListByRegexp :: "'w env \<Rightarrow> url_values \<Rightarrow> string \<Rightarrow> ('w, go_error + APIList) run" where
  "apiKong_ListByRegexp E ps pattern =
     tryE id (apiKong_List (page_bound E) E ps) (\<lambda>apiList.
       case re_compile pattern of
         ReError \<Rightarrow> panic ''regexp: Compile''
       | ReUnmodelled \<Rightarrow> stuck ''regexp operator''
       | ReOk re \<Rightarrow>
           ret (Inr (empty_APIList\<lparr>Items := filter (\<lambda>api. re_match re (API_Name api)) (Items apiList)\<rparr>)))"

definition apiKong_Delete :: "'w env \<Rightarrow> string \<Rightarrow> ('w, go_error + unit) run" where
  "apiKong_Delete E nameOrID =
     bnd (send E (kong_request DELETE (Some nameOrID) NoBody)) (\<lambda>r.
       ret (case res_err r of Some e \<Rightarrow> Inl e | None \<Rightarrow> Inr ()))"

text \<open>\<open>json.Marshal\<close> cannot fail on an \<open>API\<close>: every field has an encoding.\<close>

definition apiKong_UpdateOrCreate :: "'w env \<Rightarrow> API \<Rightarrow> ('w, API option \<times> APIResponse) run" where
  "apiKong_UpdateOrCreate E data =
     bnd (send E (kong_request PUT None (JsonBody (enc_API data)))) (\<lambda>resp.
       case res_err resp of
         Some e \<Rightarrow>
           ret (None, \<lparr>resp_err = Some e, StatusCode = res_status resp, Raw = res_body resp\<rparr>)
       | None \<Rightarrow>
           (case unmarshal dec_API (payload_of (res_body resp)) empty_API of (api, err) \<Rightarrow>
              ret (Some api, \<lparr>resp_err = err, StatusCode = res_status resp, Raw = None\<rparr>)))"

text \<open>
  The loop \<open>for _, api := range apiList.Items { if err := Delete(api.Name) ...; apisTotal.Dec() }\<close>,
  which the controller writes four times, each with its own error message.
\<close>

definition delete_apis :: "(string \<Rightarrow> ('w, go_error + unit) run) \<Rightarrow> (API \<Rightarrow> go_error \<Rightarrow> go_error)
    \<Rightarrow> API list \<Rightarrow> ('w, go_error + unit) run" where
  "delete_apis del wrap apis = forE (\<lambda>api.
     tryE (wrap api) (del (API_Name api)) (\<lambda>_. bnd (emit ApisTotalDec) (\<lambda>_. ret (Inr ())))) apis"

section \<open>What a trace says of the registry\<close>

text \<open>The answer announces another page.\<close>

definition has_next :: "rest_result \<Rightarrow> bool" where
  "has_next r \<longleftrightarrow> res_err r = None \<and>
     (case unmarshal dec_APIList (payload_of (res_body r)) empty_APIList of
        (l, Some e) \<Rightarrow> False | (l, None) \<Rightarrow> NextPage l \<noteq> '''')"

fun is_listing :: "act \<Rightarrow> bool" where
  "is_listing (Call q r) = (q\<lparr>params := []\<rparr> = kong_request GET None NoBody)"
| "is_listing _ = False"

fun page_items :: "act \<Rightarrow> API list" where
  "page_items (Call q r) =
     Items (fst (unmarshal dec_APIList (payload_of (res_body r)) empty_APIList))"
| "page_items _ = []"

fun last_page :: "act \<Rightarrow> bool" where
  "last_page (Call q r) = (res_err r = None \<and> \<not> has_next r)"
| "last_page _ = False"

text \<open>The actions \<open>t\<close> read the registry to its last page, and \<open>apis\<close> is all it held.\<close>

definition full_listing :: "act list \<Rightarrow> API list \<Rightarrow> bool" where
  "full_listing t apis \<longleftrightarrow> t \<noteq> [] \<and> list_all is_listing t \<and> last_page (last t)
     \<and> apis = concat (map page_items t)"

definition deleted :: "string \<Rightarrow> act list \<Rightarrow> bool" where
  "deleted n h \<longleftrightarrow> (\<exists>r. Call (kong_request DELETE (Some n) NoBody) r \<in> set h \<and> res_err r = None)"

text \<open>The registry was listed, and afterwards every API the pattern matches was deleted.\<close>

definition purged :: "string \<Rightarrow> act list \<Rightarrow> bool" where
  "purged pat h \<longleftrightarrow> (\<exists>re h1 t h2 apis. re_compile pat = ReOk re \<and> h = h1 @ t @ h2
     \<and> full_listing t apis \<and> (\<forall>api \<in> set apis. re_match re (API_Name api) \<longrightarrow> deleted (API_Name api) h2))"

lemma persistent_deleted: "persistent (deleted n)"
  by (auto simp: persistent_def deleted_def)

lemma persistent_purged: "persistent (purged pat)"
proof -
  have "purged pat (h @ t)" if "purged pat h" for h t
  proof -
    from that obtain re h1 t1 h2 apis where "re_compile pat = ReOk re" "h = h1 @ t1 @ h2"
      "full_listing t1 apis" "\<forall>api \<in> set apis. re_match re (API_Name api) \<longrightarrow> deleted (API_Name api) h2"
      unfolding purged_def by blast
    moreover from this persistent_deleted
    have "\<forall>api \<in> set apis. re_match re (API_Name api) \<longrightarrow> deleted (API_Name api) (h2 @ t)"
      unfolding persistent_def by blast
    ultimately show ?thesis
      unfolding purged_def by (metis append.assoc)
  qed
  then show ?thesis by (simp add: persistent_def)
qed

section \<open>The interface\<close>

text \<open>Every method performs the request it is named after, at most once for a write.\<close>

locale api_interface =
  fixes ListA :: "url_values \<Rightarrow> ('w, go_error + APIList) run"
    and ListByRegexp :: "url_values \<Rightarrow> string \<Rightarrow> ('w, go_error + APIList) run"
    and GetA :: "string \<Rightarrow> ('w, API option \<times> APIResponse) run"
    and UpdateOrCreate :: "API \<Rightarrow> ('w, API option \<times> APIResponse) run"
    and DeleteA :: "string \<Rightarrow> ('w, go_error + unit) run"
  assumes list_reads: "emits_only is_kong_get (ListA ps)"
    and regexp_reads: "emits_only is_kong_get (ListByRegexp ps pat)"
    and get_reads: "emits_only is_kong_get (GetA n)"
    and put_writes: "emits_only (is_kong_put a) (UpdateOrCreate a)"
    and delete_writes: "emits_only (is_kong_delete n) (DeleteA n)"
    and delete_once: "length (trace_of (DeleteA n) w) \<le> 1"
    and delete_done: "result_of (DeleteA n) w = Done (Inr ()) \<Longrightarrow> deleted n (trace_of (DeleteA n) w)"
    and list_complete: "result_of (ListA ps) w = Done (Inr l) \<Longrightarrow>
      full_listing (trace_of (ListA ps) w) (Items l)"
    and regexp_complete: "result_of (ListByRegexp ps pat) w = Done (Inr l) \<Longrightarrow>
      \<exists>re apis. re_compile pat = ReOk re \<and> full_listing (trace_of (ListByRegexp ps pat) w) apis
        \<and> Items l = filter (\<lambda>api. re_match re (API_Name api)) apis"
    and put_result: "result_of (UpdateOrCreate a) w = Done (api, resp) \<Longrightarrow>
      resp_err resp = None \<Longrightarrow> api \<noteq> None"
    and put_done: "result_of (UpdateOrCreate a) w = Done (Some b, resp) \<Longrightarrow>
      \<exists>r. Call (kong_request PUT None (JsonBody (enc_API a))) r \<in> set (trace_of (UpdateOrCreate a) w)
        \<and> res_err r = None"
begin

lemma regexp_filters:
  "result_of (ListByRegexp ps pat) w = Done (Inr l) \<Longrightarrow>
    \<exists>re. re_compile pat = ReOk re \<and> (\<forall>api \<in> set (Items l). re_match re (API_Name api))"
  by (drule regexp_complete) auto

text \<open>A purge only deletes APIs of the list it was given, and nothing but the gauge moves.\<close>

lemma delete_apis_emits:
  "emits_only (\<lambda>e. (\<exists>api \<in> set apis. is_kong_delete (API_Name api) e) \<or> e = ApisTotalDec)
    (delete_apis DeleteA wrap apis)"
  unfolding delete_apis_def
proof (rule emits_forE)
  fix api
  assume "api \<in> set apis"
  then show "emits_only (\<lambda>e. (\<exists>api \<in> set apis. is_kong_delete (API_Name api) e) \<or> e = ApisTotalDec)
      (tryE (wrap api) (DeleteA (API_Name api)) (\<lambda>_. bnd (emit ApisTotalDec) (\<lambda>_. ret (Inr ()))))"
    by (intro emits_intros emits_only_mono [OF delete_writes]) auto
qed

text \<open>Everything \<open>ListByRegexp\<close> followed by the purge deletes has a name the pattern matches.\<close>

lemma purge_regexp_emits:
  "emits_only (\<lambda>e. is_kong_get e \<or> e = ApisTotalDec \<or>
      (\<exists>re n. re_compile pat = ReOk re \<and> re_match re n \<and> is_kong_delete n e))
    (tryE wrap0 (ListByRegexp ps pat) (\<lambda>l. delete_apis DeleteA wrap (Items l)))"
    (is "emits_only ?P _")
  unfolding emits_only_def
proof (intro allI ballI)
  fix w e
  assume e: "e \<in> set (trace_of (tryE wrap0 (ListByRegexp ps pat) (\<lambda>l. delete_apis DeleteA wrap (Items l))) w)"
  obtain r t w' where m: "ListByRegexp ps pat w = (r, t, w')"
    by (cases "ListByRegexp ps pat w")
  have t: "\<forall>e \<in> set t. is_kong_get e"
    using emits_onlyD [OF regexp_reads, of _ ps pat w] m by (simp add: trace_of_def)
  show "?P e"
  proof (cases "\<exists>l. r = Done (Inr l)")
    case False
    then have "e \<in> set t"
      using e m by (auto simp: trace_of_def go_defs split: outcome.splits sum.splits)
    with t show ?thesis by blast
  next
    case True
    then obtain l where r: "r = Done (Inr l)" by blast
    with m have "result_of (ListByRegexp ps pat) w = Done (Inr l)" by (simp add: result_of_def)
    from regexp_filters [OF this] obtain re where re: "re_compile pat = ReOk re"
      and match: "\<forall>api \<in> set (Items l). re_match re (API_Name api)" by blast
    have "e \<in> set t \<or> e \<in> set (trace_of (delete_apis DeleteA wrap (Items l)) w')"
      using e m r by (auto simp: trace_of_def tryE_def bnd_def split: prod.splits)
    then show ?thesis
      using t re match emits_onlyD [OF delete_apis_emits] by blast
  qed
qed

text \<open>A purge that returns nil has deleted all it was given.\<close>

lemma delete_apis_done:
  "hoare (\<lambda>_ _. True) H (delete_apis DeleteA wrap apis)
    (\<lambda>r h. r = Inr () \<longrightarrow> (\<forall>api \<in> set apis. deleted (API_Name api) h))"
proof -
  have del: "hoare (\<lambda>_ _. True) (\<lambda>_. True) (DeleteA n) (\<lambda>r h. r = Inr () \<longrightarrow> deleted n h)" for n
    by (rule hoare_of_run) (use delete_done persistent_deleted in \<open>auto simp: deleted_def\<close>)
  have "hoare (\<lambda>_ _. True) (\<lambda>_. True) (delete_apis DeleteA wrap apis)
      (\<lambda>r h. True \<and> (r = Inr () \<longrightarrow> (\<forall>api \<in> set apis. deleted (API_Name api) h)))"
    unfolding delete_apis_def
  proof (rule hoare_forE_each)
    fix api
    show "hoare (\<lambda>_ _. True) (\<lambda>_. True)
        (tryE (wrap api) (DeleteA (API_Name api)) (\<lambda>_. bnd (emit ApisTotalDec) (\<lambda>_. ret (Inr ()))))
        (\<lambda>r h. r = Inr () \<longrightarrow> deleted (API_Name api) h)"
      by (intro hoare_tryE [OF del] hoare_bnd [where R = "\<lambda>_. deleted (API_Name api)"] hoare_emit hoare_ret)
        (auto simp: deleted_def)
  qed (auto simp: persistent_basic(2) persistent_deleted)
  then show ?thesis
    by (auto elim!: hoare_weaken)
qed

lemma purge_regexp_done:
  "hoare (\<lambda>_ _. True) H
    (tryE wrap0 (ListByRegexp ps pat) (\<lambda>l. delete_apis DeleteA wrap (Items l)))
    (\<lambda>r h. r = Inr () \<longrightarrow> purged pat h)"
  unfolding hoare_def
proof (intro allI impI conjI)
  fix w h x
  let ?m = "tryE wrap0 (ListByRegexp ps pat) (\<lambda>l. delete_apis DeleteA wrap (Items l))"
  show "safe_from (\<lambda>_ _. True) h (trace_of ?m w)" by (rule safe_from_all) simp
  assume res: "result_of ?m w = Done x" and x: "x = Inr ()"
  obtain r t w' where m: "ListByRegexp ps pat w = (r, t, w')" by (cases "ListByRegexp ps pat w")
  from res x m obtain l where r: "r = Done (Inr l)"
    and del: "result_of (delete_apis DeleteA wrap (Items l)) w' = Done (Inr ())"
    by (auto simp: result_of_def go_defs split: outcome.splits sum.splits prod.splits)
  from m r have "result_of (ListByRegexp ps pat) w = Done (Inr l)" by (simp add: result_of_def)
  from regexp_complete [OF this] m obtain re apis where re: "re_compile pat = ReOk re"
    and full: "full_listing t apis" and items: "Items l = filter (\<lambda>api. re_match re (API_Name api)) apis"
    by (auto simp: trace_of_def)
  from hoare_post [OF delete_apis_done [where H = "\<lambda>_. True"] _ del]
  have "\<forall>api \<in> set (Items l). deleted (API_Name api) (trace_of (delete_apis DeleteA wrap (Items l)) w')"
    by simp
  moreover have "trace_of ?m w = t @ trace_of (delete_apis DeleteA wrap (Items l)) w'"
    using m r by (simp add: trace_of_def tryE_def bnd_def split: prod.splits)
  moreover have "\<forall>api \<in> set apis. re_match re (API_Name api) \<longrightarrow> api \<in> set (Items l)"
    using items by simp
  ultimately show "purged pat (h @ trace_of ?m w)"
    using re full unfolding purged_def by blast
qed

end

section \<open>The Kong client implements the interface\<close>

lemma list_request_simps [simp]:
  "srv (list_request ps) = KongAdmin" "verb_of (list_request ps) = GET"
  "req_name (list_request ps) = None" "req_namespace (list_request ps) = None"
  by (simp_all add: list_request_def kong_request_def)

lemma apiKong_List_reads [emits_intros]:
  "(\<And>q r. srv q = KongAdmin \<Longrightarrow> verb_of q = GET \<Longrightarrow> P (Call q r)) \<Longrightarrow> emits_only P (apiKong_List n E ps)"
proof (induction n arbitrary: ps)
  case 0
  then show ?case by (auto intro: emits_intros)
next
  case (Suc n)
  then show ?case
    by (auto intro!: emits_intros split: option.splits prod.splits)
qed

lemma apiKong_List_complete:
  "result_of (apiKong_List n E ps) w = Done (Inr l) \<Longrightarrow>
    full_listing (trace_of (apiKong_List n E ps) w) (Items l)"
proof (induction n arbitrary: ps w l)
  case 0
  then show ?case by (simp add: go_defs result_of_def)
next
  case (Suc n)
  obtain r w1 where s: "do_request E (list_request ps) w = (r, w1)"
    by (cases "do_request E (list_request ps) w")
  then have send: "send E (list_request ps) w = (Done r, [Call (list_request ps) r], w1)"
    by (simp add: send_def request_error_def ask_def)
  have first: "is_listing (Call (list_request ps) r)"
    by (simp add: list_request_def kong_request_def)
  from Suc.prems obtain al where err: "res_err r = None"
    and al: "unmarshal dec_APIList (payload_of (res_body r)) empty_APIList = (al, None)"
    by (auto simp: result_of_def bnd_def ret_def send split: option.splits prod.splits)
  show ?case
  proof (cases "NextPage al = ''''")
    case True
    with Suc.prems err al first show ?thesis
      by (simp add: result_of_def trace_of_def bnd_def ret_def send full_listing_def has_next_def)
  next
    case False
    let ?ps = "\<lambda>vs. Some (url_add ''offset'' (Offset al) vs)"
    from Suc.prems err al False obtain vs l2 w2 t2 where ps: "ps = Some vs"
      and rec: "apiKong_List n E (?ps vs) w1 = (Done (Inr l2), t2, w2)"
      and l: "l = al\<lparr>Items := Items al @ Items l2\<rparr>"
      by (auto simp: result_of_def go_defs send split: option.splits outcome.splits sum.splits prod.splits)
    with Suc.IH [of "?ps vs" w1 l2] have IH: "full_listing t2 (Items l2)"
      by (simp add: result_of_def trace_of_def)
    have "trace_of (apiKong_List (Suc n) E ps) w = Call (list_request ps) r # t2"
      using err al False rec send by (simp add: ps trace_of_def go_defs)
    with IH first al l show ?thesis by (simp add: full_listing_def)
  qed
qed

lemma apiKong_ListByRegexp_complete:
  assumes "result_of (apiKong_ListByRegexp E ps pat) w = Done (Inr l)"
  shows "\<exists>re apis. re_compile pat = ReOk re \<and> full_listing (trace_of (apiKong_ListByRegexp E ps pat) w) apis
    \<and> Items l = filter (\<lambda>api. re_match re (API_Name api)) apis"
proof -
  obtain r t w' where m: "apiKong_List (page_bound E) E ps w = (r, t, w')"
    by (cases "apiKong_List (page_bound E) E ps w")
  from assms m obtain al re where r: "r = Done (Inr al)" and re: "re_compile pat = ReOk re"
    and l: "Items l = filter (\<lambda>api. re_match re (API_Name api)) (Items al)"
    by (auto simp: apiKong_ListByRegexp_def result_of_def go_defs
        split: re_result.splits outcome.splits sum.splits)
  have "full_listing t (Items al)"
    using apiKong_List_complete [of "page_bound E" E ps w al] m r by (simp add: result_of_def trace_of_def)
  moreover have "trace_of (apiKong_ListByRegexp E ps pat) w = t"
    using m r re by (simp add: apiKong_ListByRegexp_def trace_of_def go_defs)
  ultimately show ?thesis using re l by auto
qed

interpretation kong: api_interface "\<lambda>ps. apiKong_List (page_bound E) E ps" "apiKong_ListByRegexp E"
    "apiKong_Get E" "apiKong_UpdateOrCreate E" "apiKong_Delete E" for E
proof unfold_locales
  show "emits_only is_kong_get (apiKong_List (page_bound E) E ps)" for ps
    by (rule apiKong_List_reads) simp
  show "emits_only is_kong_get (apiKong_ListByRegexp E ps pat)" for ps pat
    unfolding apiKong_ListByRegexp_def
    by (auto intro!: emits_intros split: re_result.splits)
  show "emits_only is_kong_get (apiKong_Get E n)" for n
    unfolding apiKong_Get_def by (intro emits_intros) simp
  show "emits_only (is_kong_put a) (apiKong_UpdateOrCreate E a)" for a
    unfolding apiKong_UpdateOrCreate_def by (intro emits_intros) simp
  show "emits_only (is_kong_delete n) (apiKong_Delete E n)" for n
    unfolding apiKong_Delete_def by (intro emits_intros) simp
  show "length (trace_of (apiKong_Delete E n) w) \<le> 1" for n w
    by (auto simp: apiKong_Delete_def send_def trace_of_def go_defs split: option.splits prod.splits)
  show "deleted n (trace_of (apiKong_Delete E n) w)"
    if "result_of (apiKong_Delete E n) w = Done (Inr ())" for n w
    using that
    by (auto simp: apiKong_Delete_def send_def failed_result_def trace_of_def result_of_def go_defs deleted_def
        split: option.splits prod.splits)
  show "full_listing (trace_of (apiKong_List (page_bound E) E ps) w) (Items l)"
    if "result_of (apiKong_List (page_bound E) E ps) w = Done (Inr l)" for ps w l
    using that by (rule apiKong_List_complete)
  show "\<exists>re apis. re_compile pat = ReOk re \<and> full_listing (trace_of (apiKong_ListByRegexp E ps pat) w) apis
      \<and> Items l = filter (\<lambda>api. re_match re (API_Name api)) apis"
    if "result_of (apiKong_ListByRegexp E ps pat) w = Done (Inr l)" for ps pat w l
    using that by (rule apiKong_ListByRegexp_complete)
  show "api \<noteq> None"
    if "result_of (apiKong_UpdateOrCreate E a) w = Done (api, resp)" and "resp_err resp = None"
    for a w api resp
    using that
    by (auto simp: apiKong_UpdateOrCreate_def send_def failed_result_def result_of_def go_defs
        split: prod.splits option.splits)
  show "\<exists>r. Call (kong_request PUT None (JsonBody (enc_API a))) r \<in> set (trace_of (apiKong_UpdateOrCreate E a) w)
      \<and> res_err r = None"
    if "result_of (apiKong_UpdateOrCreate E a) w = Done (Some b, resp)" for a w b resp
    using that
    by (auto simp: apiKong_UpdateOrCreate_def send_def failed_result_def result_of_def trace_of_def go_defs
        split: prod.splits option.splits)
qed

section \<open>Pagination\<close>

text \<open>More pages allowed never change an outcome the bound did not cut.\<close>

lemma apiKong_List_fuel:
  "apiKong_List n E ps w = (r, t, w') \<Longrightarrow> r \<noteq> Stuck ''page bound''
    \<Longrightarrow> apiKong_List (n + k) E ps w = (r, t, w')"
proof (induction n arbitrary: ps w r t w')
  case 0
  then show ?case by (simp add: go_defs)
next
  case (Suc n)
  have IH: "apiKong_List (n + k) E ps w = apiKong_List n E ps w"
    if "fst (apiKong_List n E ps w) \<noteq> Stuck ''page bound''" for ps w
    using that Suc.IH by (metis prod.collapse fst_conv)
  obtain res t1 w1 where s: "send E (list_request ps) w = (res, t1, w1)"
    by (cases "send E (list_request ps) w")
  show ?case
    using Suc.prems IH s
    by (auto simp: bnd_def tryE_def ret_def panic_def
        split: outcome.splits option.splits prod.splits if_splits sum.splits)
qed

text \<open>
  \<open>rank\<close> counts the pages that are left for the parameters of a listing: when an answer announces a next
  page, fewer are left for the parameters with the offset of that page.
\<close>

definition pages_left :: "'w env \<Rightarrow> ((string \<times> string list) list \<Rightarrow> 'w \<Rightarrow> nat) \<Rightarrow> bool" where
  "pages_left E rank \<longleftrightarrow> (\<forall>vs w r w' al. do_request E (list_request (Some vs)) w = (r, w') \<longrightarrow> res_err r = None
     \<longrightarrow> unmarshal dec_APIList (payload_of (res_body r)) empty_APIList = (al, None) \<longrightarrow> NextPage al \<noteq> ''''
     \<longrightarrow> rank (url_add ''offset'' (Offset al) vs) w' < rank vs w)"

lemma apiKong_List_pages:
  assumes "pages_left E rank"
  shows "rank vs w < n \<Longrightarrow> result_of (apiKong_List n E (Some vs)) w \<noteq> Stuck ''page bound''
    \<and> length (trace_of (apiKong_List n E (Some vs)) w) \<le> Suc (rank vs w)"
proof (induction n arbitrary: vs w)
  case 0
  then show ?case by simp
next
  case (Suc n)
  obtain r w1 where s: "do_request E (list_request (Some vs)) w = (r, w1)"
    by (cases "do_request E (list_request (Some vs)) w")
  then have send: "send E (list_request (Some vs)) w = (Done r, [Call (list_request (Some vs)) r], w1)"
    by (simp add: send_def request_error_def ask_def)
  obtain al oe where al: "unmarshal dec_APIList (payload_of (res_body r)) empty_APIList = (al, oe)" by fastforce
  show ?case
  proof (cases "res_err r = None \<and> oe = None \<and> NextPage al \<noteq> ''''")
    case True
    let ?vs = "url_add ''offset'' (Offset al) vs"
    have fewer: "rank ?vs w1 < rank vs w" using assms s True al unfolding pages_left_def by blast
    obtain x t w2 where run: "apiKong_List n E (Some ?vs) w1 = (x, t, w2)" by (cases "apiKong_List n E (Some ?vs) w1")
    with Suc.IH [of ?vs w1] fewer Suc.prems have IH: "x \<noteq> Stuck ''page bound''" "length t \<le> Suc (rank ?vs w1)"
      by (simp_all add: result_of_def trace_of_def)
    from True al run have "result_of (apiKong_List (Suc n) E (Some vs)) w \<noteq> Stuck ''page bound''
        \<and> trace_of (apiKong_List (Suc n) E (Some vs)) w = Call (list_request (Some vs)) r # t"
      using IH(1) by (auto simp: result_of_def trace_of_def go_defs send split: outcome.splits sum.splits)
    with IH(2) fewer show ?thesis by simp
  next
    case False
    with al show ?thesis
      by (auto simp: result_of_def trace_of_def go_defs send split: option.splits)
  qed
qed

end
