(* ===== verification/Domain_Spec.thy ===== *)
theory Domain_Spec
  imports Kong_Types
begin

text \<open>
  The methods of \<open>Domain\<close> in \<open>pkg/kong/spec.go\<close>, which the controller uses to classify a claim
  (primary or shared, well formed, marked for deletion, expired), and what they say about a
  domain's full host name. \<open>time.Now()\<close> is the argument \<open>now\<close>.
\<close>

definition HasKongFinalizer :: "'a Domain_scheme \<Rightarrow> bool" where
  "HasKongFinalizer d = list_ex (\<lambda>finalizer. finalizer = Finalizer) (elems (Finalizers d))"

definition IsMarkedForDeletion :: "'a Domain_scheme \<Rightarrow> bool" where
  "IsMarkedForDeletion d \<longleftrightarrow>
     DeletionTimestamp d \<noteq> None \<or> Status_DeletionTimestamp (Status d) \<noteq> None"

definition IsPrimary :: "'a Domain_scheme \<Rightarrow> bool" where
  "IsPrimary d \<longleftrightarrow> length (Sub (Spec d)) = 0"

definition IsValidDomain :: "'a Domain_scheme \<Rightarrow> bool" where
  "IsValidDomain d =
     (if 1 < length (split_on CHR ''.'' (Sub (Spec d)))
         \<or> length (split_on CHR ''.'' (PrimaryDomain (Spec d))) < 2
      then False else True)"

definition IsValidSharedDomain :: "'a Domain_scheme \<Rightarrow> bool" where
  "IsValidSharedDomain d \<longleftrightarrow> \<not> IsPrimary d \<and> IsValidDomain d"

definition GetPrimaryDomain :: "'a Domain_scheme \<Rightarrow> string" where
  "GetPrimaryDomain d = PrimaryDomain (Spec d)"

definition GetDomain :: "'a Domain_scheme \<Rightarrow> string" where
  "GetDomain d =
     (if IsPrimary d then GetPrimaryDomain d
      else Sub (Spec d) @ ''.'' @ PrimaryDomain (Spec d))"

definition GetDomainType :: "'a Domain_scheme \<Rightarrow> string" where
  "GetDomainType d = (if IsPrimary d then ''primary'' else ''shared'')"

definition IsUpdateExpired :: "'a Domain_scheme \<Rightarrow> duration \<Rightarrow> gotime \<Rightarrow> bool" where
  "IsUpdateExpired c expireAfter now =
     (let updatedAt = LastUpdateTime (Status c) + sint expireAfter
      in if updatedAt < now then True else False)"

section \<open>Lemmas\<close>

lemma IsPrimary_iff [simp]: "IsPrimary d \<longleftrightarrow> Sub (Spec d) = []"
  by (simp add: IsPrimary_def)

lemma HasKongFinalizer_iff: "HasKongFinalizer d \<longleftrightarrow> Finalizer \<in> set (elems (Finalizers d))"
  by (auto simp: HasKongFinalizer_def list_ex_iff)

lemma IsValidDomain_iff:
  "IsValidDomain d \<longleftrightarrow> CHR ''.'' \<notin> set (Sub (Spec d)) \<and> CHR ''.'' \<in> set (PrimaryDomain (Spec d))"
  by (auto simp: IsValidDomain_def length_split_on count_list_0_iff
      simp flip: neq0_conv split: if_splits)

text \<open>The guard on a pending shared domain can only fail on a domain that is not valid at all.\<close>

lemma IsValidSharedDomain_iff: "IsValidDomain d \<Longrightarrow> IsValidSharedDomain d \<longleftrightarrow> \<not> IsPrimary d"
  by (simp add: IsValidSharedDomain_def)

text \<open>Labels of the full name of a valid domain: the subdomain, if any, then those of the primary.\<close>

lemma GetDomain_labels:
  assumes "IsValidDomain d"
  shows "split_on CHR ''.'' (GetDomain d) =
    (if IsPrimary d then [] else [Sub (Spec d)]) @ split_on CHR ''.'' (GetPrimaryDomain d)"
proof (cases "IsPrimary d")
  case True
  then show ?thesis by (simp add: GetDomain_def)
next
  case False
  have "CHR ''.'' \<notin> set (Sub (Spec d))"
    using assms by (simp add: IsValidDomain_iff)
  then show ?thesis
    using False split_on_append [of "CHR ''.''" "Sub (Spec d)"]
    by (simp add: GetDomain_def GetPrimaryDomain_def)
qed

text \<open>Two valid shared domains with the same full name have the same subdomain and primary.\<close>

lemma GetDomain_shared_inj:
  assumes "IsValidDomain d" "IsValidDomain e" "\<not> IsPrimary d" "\<not> IsPrimary e"
    and "GetDomain d = GetDomain e"
  shows "Sub (Spec d) = Sub (Spec e) \<and> GetPrimaryDomain d = GetPrimaryDomain e"
proof -
  have "split_on CHR ''.'' (GetDomain d) = split_on CHR ''.'' (GetDomain e)"
    using assms(5) by simp
  then have "Sub (Spec d) # split_on CHR ''.'' (GetPrimaryDomain d) =
      Sub (Spec e) # split_on CHR ''.'' (GetPrimaryDomain e)"
    unfolding GetDomain_labels [OF assms(1)] GetDomain_labels [OF assms(2)] using assms(3,4) by simp
  then show ?thesis by (auto dest: split_on_inj)
qed

lemma GetDomainType_iff: "GetDomainType d = ''primary'' \<longleftrightarrow> IsPrimary d"
  by (simp add: GetDomainType_def)

lemma IsUpdateExpired_iff:
  "IsUpdateExpired d e now \<longleftrightarrow> LastUpdateTime (Status d) + sint e < now"
  by (simp add: IsUpdateExpired_def Let_def)

end
