(* ===== verification/Host_Names.thy ===== *)
theory Host_Names
  imports Domain_Spec
begin

text \<open>
  The naming functions of \<open>pkg/controller/utils.go\<close>: the ingress class test, the Adler-32 path
  hash, the domain claims derived from the hosts of an ingress, the metadata name of a claim,
  and the name \<open>host~namespace~hash\<close> of a Kong API with its inverse \<open>getApisByHost\<close>.
  \<open>adler32.Checksum\<close> is the standard library's: two sums modulo 65521.
\<close>

section \<open>Ingress class\<close>

definition ingressClassKey :: string where
  "ingressClassKey = ''kubernetes.io/ingress.class''"

definition kongIngressClass :: string where
  "kongIngressClass = ''kong''"

definition ingressClass :: "(string \<rightharpoonup> string) \<Rightarrow> string" where
  "ingressClass ing = (case ing ingressClassKey of None \<Rightarrow> '''' | Some val \<Rightarrow> val)"

definition isKongIngress :: "Ingress \<Rightarrow> bool" where
  "isKongIngress ing =
     (let cls = ingressClass (Annotations ing) in cls = '''' \<or> cls = kongIngressClass)"

section \<open>Path hash\<close>

definition adler_mod :: nat where
  "adler_mod = 65521"

definition adler_step :: "nat \<times> nat \<Rightarrow> char \<Rightarrow> nat \<times> nat" where
  "adler_step s c =
     (let s1 = (fst s + of_char c) mod adler_mod; s2 = (snd s + s1) mod adler_mod in (s1, s2))"

definition adler32 :: "string \<Rightarrow> nat" where
  "adler32 text = (case foldl adler_step (1, 0) text of (s1, s2) \<Rightarrow> s2 * 65536 + s1)"

definition GenAdler32Hash :: "string \<Rightarrow> string" where
  "GenAdler32Hash text = show_base 16 (adler32 text)"

section \<open>Claims of an ingress\<close>

definition extractPrimaryFromHost :: "string \<Rightarrow> string \<times> string" where
  "extractPrimaryFromHost host =
     (let parts = split_on CHR ''.'' host
      in if length parts < 3 then (host, '''') else (join_with CHR ''.'' (tl parts), hd parts))"

definition genMetaNameFromHost :: "string \<Rightarrow> string" where
  "genMetaNameFromHost ingressHost = join_with CHR ''-'' (split_on CHR ''.'' ingressHost)"

definition parentKey :: string where
  "parentKey = ''kolihub.io/parent''"

text \<open>The body of the loop of \<open>getHostsFromIngress\<close>: the claim for one host.\<close>

definition claim_of_host :: "Ingress \<Rightarrow> string \<Rightarrow> Domain" where
  "claim_of_host ing host =
     (let primary = (map_get (Annotations ing) (''kolihub.io/'' @ host) = ''primary'');
          ps = (if primary then (host, '''') else extractPrimaryFromHost host);
          parentNamespace = (if primary then '''' else map_get (Annotations ing) parentKey)
      in \<lparr>Kind = '''', APIVersion = '''', Name = genMetaNameFromHost host,
          Namespace = Namespace ing, ResourceVersion = '''', Annotations = Map.empty,
          Finalizers = None, DeletionTimestamp = None,
          Spec = \<lparr>PrimaryDomain = fst ps, Sub = snd ps, Delegates = None,
                  Parent = parentNamespace\<rparr>,
          Status = \<lparr>Phase = '''', Message = '''', Reason = '''', LastUpdateTime = zero_time,
                    Status_DeletionTimestamp = None\<rparr>\<rparr>)"

definition getHostsFromIngress :: "Ingress \<Rightarrow> Domain list" where
  "getHostsFromIngress ing =
     foldl (\<lambda>hosts rule.
         let d = claim_of_host ing (Host rule)
         in if IsPrimary d then d # hosts else hosts @ [d])
       [] (Rules ing)"

section \<open>Kong API names\<close>

text \<open>The \<open>fmt.Sprintf("%s~%s~%s", ...)\<close> of \<open>syncIngress\<close>.\<close>

definition apiName :: "string \<Rightarrow> string \<Rightarrow> string \<Rightarrow> string" where
  "apiName host ns pathURI = host @ ''~'' @ ns @ ''~'' @ GenAdler32Hash pathURI"

text \<open>
  The Go map from host to APIs, as an association list in the order of first occurrence; Go
  iterates over it in an arbitrary order.
\<close>

fun append_at :: "string \<Rightarrow> 'a \<Rightarrow> (string \<times> 'a list) list \<Rightarrow> (string \<times> 'a list) list" where
  "append_at h a [] = [(h, [a])]"
| "append_at h a ((k, xs) # m) = (if k = h then (k, xs @ [a]) # m else (k, xs) # append_at h a m)"

definition getApisByHost :: "APIList \<Rightarrow> (string \<times> API list) list" where
  "getApisByHost apiList =
     foldl (\<lambda>hosts api.
         let apiParts = split_on CHR ''~'' (API_Name api)
         in if length apiParts \<noteq> 3 then hosts else append_at (hd apiParts) api hosts)
       [] (Items apiList)"

section \<open>Lemmas\<close>

lemma isKongIngress_iff:
  "isKongIngress ing \<longleftrightarrow>
    Annotations ing ingressClassKey \<in> {None, Some '''', Some ''kong''}"
  by (auto simp: isKongIngress_def ingressClass_def kongIngressClass_def Let_def split: option.splits)

lemma adler_fold_bound:
  "s1 < adler_mod \<Longrightarrow> s2 < adler_mod \<Longrightarrow>
    fst (foldl adler_step (s1, s2) cs) < adler_mod \<and> snd (foldl adler_step (s1, s2) cs) < adler_mod"
  by (induction cs arbitrary: s1 s2) (auto simp: adler_step_def Let_def adler_mod_def)

text \<open>The checksum fits the \<open>uint32\<close> the Go function returns.\<close>

lemma adler32_bound: "adler32 cs < 2 ^ 32"
proof -
  obtain s1 s2 where s: "foldl adler_step (1, 0) cs = (s1, s2)"
    by (cases "foldl adler_step (1, 0) cs")
  have "s1 < adler_mod" "s2 < adler_mod"
    using adler_fold_bound [of 1 0 cs] s by (simp_all add: adler_mod_def)
  with s show ?thesis by (simp add: adler32_def adler_mod_def)
qed

lemma GenAdler32Hash_digits: "set (GenAdler32Hash cs) \<subseteq> digit_chars"
  by (simp add: GenAdler32Hash_def show_base_digits)

lemma GenAdler32Hash_no_sep [simp]:
  "CHR ''~'' \<notin> set (GenAdler32Hash cs)" "CHR ''.'' \<notin> set (GenAdler32Hash cs)"
  "CHR ''/'' \<notin> set (GenAdler32Hash cs)" "CHR ''%'' \<notin> set (GenAdler32Hash cs)"
  using GenAdler32Hash_digits [of cs] not_digit_chars by blast+

lemma GenAdler32Hash_not_Nil [simp]: "GenAdler32Hash cs \<noteq> []"
  by (simp add: GenAdler32Hash_def show_base_not_Nil)

lemma GenAdler32Hash_eq_iff: "GenAdler32Hash s = GenAdler32Hash t \<longleftrightarrow> adler32 s = adler32 t"
  unfolding GenAdler32Hash_def using show_base_inj [of 16] by auto

lemma split_apiName:
  "CHR ''~'' \<notin> set host \<Longrightarrow> CHR ''~'' \<notin> set ns \<Longrightarrow>
    split_on CHR ''~'' (apiName host ns p) = [host, ns, GenAdler32Hash p]"
  by (simp add: apiName_def split_on_append split_on_no_sep)

lemma extractPrimary_join:
  assumes "3 \<le> length (split_on CHR ''.'' host)"
  shows "snd (extractPrimaryFromHost host) @ ''.'' @ fst (extractPrimaryFromHost host) = host"
proof -
  obtain a b r where parts: "split_on CHR ''.'' host = a # b # r"
    using assms by (cases "split_on CHR ''.'' host"; cases "tl (split_on CHR ''.'' host)") auto
  have "join_with CHR ''.'' (split_on CHR ''.'' host) = host" by simp
  with parts assms show ?thesis
    by (auto simp: extractPrimaryFromHost_def Let_def)
qed

lemma genMetaName_map:
  "genMetaNameFromHost host = map (\<lambda>c. if c = CHR ''.'' then CHR ''-'' else c) host"
proof (induction host)
  case Nil
  then show ?case by (simp add: genMetaNameFromHost_def)
next
  case (Cons x xs)
  obtain y ys where "split_on CHR ''.'' xs = y # ys"
    by (cases "split_on CHR ''.'' xs") auto
  with Cons.IH show ?case
    by (cases ys) (auto simp: genMetaNameFromHost_def)
qed

lemma foldl_claims:
  "foldl (\<lambda>hosts rule. let d = f rule in if P d then d # hosts else hosts @ [d]) acc rules
    = rev (filter P (map f rules)) @ acc @ filter (\<lambda>d. \<not> P d) (map f rules)"
  by (induction rules arbitrary: acc) (auto simp: Let_def)

lemma getHostsFromIngress_eq:
  "getHostsFromIngress ing =
     rev (filter IsPrimary (map (\<lambda>r. claim_of_host ing (Host r)) (Rules ing)))
     @ filter (\<lambda>d. \<not> IsPrimary d) (map (\<lambda>r. claim_of_host ing (Host r)) (Rules ing))"
  unfolding getHostsFromIngress_def by (simp only: foldl_claims append_Nil)

lemma getHostsFromIngress_set:
  "set (getHostsFromIngress ing) = (\<lambda>r. claim_of_host ing (Host r)) ` set (Rules ing)"
  by (auto simp: getHostsFromIngress_eq)

lemma claim_of_host_simps [simp]:
  "Name (claim_of_host ing host) = genMetaNameFromHost host"
  "Namespace (claim_of_host ing host) = Namespace ing"
  "Phase (Status (claim_of_host ing host)) = ''''"
  "Delegates (Spec (claim_of_host ing host)) = None"
  by (simp_all add: claim_of_host_def Let_def)

text \<open>The full name of the claim made for a host is the host.\<close>

lemma GetDomain_claim:
  assumes "hd (split_on CHR ''.'' host) \<noteq> '''' \<or> length (split_on CHR ''.'' host) < 3"
  shows "GetDomain (claim_of_host ing host) = host"
proof (cases "map_get (Annotations ing) (''kolihub.io/'' @ host) = ''primary''
    \<or> length (split_on CHR ''.'' host) < 3")
  case True
  then show ?thesis
    by (auto simp: claim_of_host_def GetDomain_def GetPrimaryDomain_def extractPrimaryFromHost_def Let_def)
next
  case False
  with assms extractPrimary_join [of host] show ?thesis
    by (auto simp: claim_of_host_def GetDomain_def GetPrimaryDomain_def extractPrimaryFromHost_def Let_def)
qed

definition named_by_host :: "string \<Rightarrow> API \<Rightarrow> bool" where
  "named_by_host h api \<longleftrightarrow> length (split_on CHR ''~'' (API_Name api)) = 3
     \<and> hd (split_on CHR ''~'' (API_Name api)) = h"

lemma map_of_append_at:
  "map_of (append_at h a m) k =
    (if k = h then Some (case map_of m h of None \<Rightarrow> [a] | Some xs \<Rightarrow> xs @ [a]) else map_of m k)"
  by (induction h a m rule: append_at.induct) auto

lemma keys_append_at: "fst ` set (append_at h a m) = insert h (fst ` set m)"
  by (induction h a m rule: append_at.induct) auto

lemma distinct_append_at:
  "distinct (map fst m) \<Longrightarrow> distinct (map fst (append_at h a m))"
  by (induction h a m rule: append_at.induct) (auto simp: keys_append_at [unfolded image_set] simp flip: set_map)

lemma getApisByHost_fold:
  "map_of (foldl (\<lambda>hosts api.
         let apiParts = split_on CHR ''~'' (API_Name api)
         in if length apiParts \<noteq> 3 then hosts else append_at (hd apiParts) api hosts) m apis) h =
    (case map_of m h of
       None \<Rightarrow> if filter (named_by_host h) apis = [] then None else Some (filter (named_by_host h) apis)
     | Some xs \<Rightarrow> Some (xs @ filter (named_by_host h) apis))"
  by (induction apis arbitrary: m)
    (auto simp: Let_def map_of_append_at named_by_host_def split: option.splits)

lemma getApisByHost_lookup:
  "map_of (getApisByHost l) h =
    (if filter (named_by_host h) (Items l) = [] then None
     else Some (filter (named_by_host h) (Items l)))"
  unfolding getApisByHost_def by (simp add: getApisByHost_fold)

lemma getApisByHost_distinct: "distinct (map fst (getApisByHost l))"
proof -
  have "distinct (map fst m) \<Longrightarrow> distinct (map fst (foldl (\<lambda>hosts api.
         let apiParts = split_on CHR ''~'' (API_Name api)
         in if length apiParts \<noteq> 3 then hosts else append_at (hd apiParts) api hosts) m apis))"
    for m :: "(string \<times> API list) list" and apis
    by (induction apis arbitrary: m) (auto simp: Let_def distinct_append_at)
  then show ?thesis by (simp add: getApisByHost_def)
qed

end
