(* ===== verification/Primary_Search.thy ===== *)
theory Primary_Search
  imports Rest_Client Domain_Spec
begin

text \<open>
  \<open>SearchForPrimary\<close> and \<open>searchPrimaryByNamespace\<close> of \<open>pkg/controller/utils.go\<close>: the search
  for the primary domain a shared domain may use, in the parent namespace, then in its own, then
  in the system namespace. The callback of \<open>cache.ListAllByNamespace\<close> is a fold over the
  snapshot of the informer store.
\<close>

section \<open>The search\<close>

text \<open>The callback: \<open>acc\<close> is the variable \<open>primaryDomain\<close> it captures.\<close>

definition search_step :: "Domain \<Rightarrow> Domain option \<Rightarrow> Domain \<Rightarrow> Domain option" where
  "search_step d acc dm =
     (if acc \<noteq> None \<and> \<not> IsPrimary dm then acc
      else
        let isNamespaceOwner = (Namespace d = Namespace dm) in
        if Phase (Status dm) = DomainStatusOK \<and> GetPrimaryDomain dm = GetPrimaryDomain d then
          if isNamespaceOwner then Some dm
          else if list_ex (\<lambda>delegateNS. delegateNS = Namespace d \<or> delegateNS = ''*'')
                    (elems (Delegates (Spec dm)))
            then Some dm
          else acc
        else acc)"

definition search_in :: "Domain \<Rightarrow> Domain list \<Rightarrow> Domain option" where
  "search_in d ds = foldl (search_step d) None ds"

definition searchPrimaryByNamespace ::
    "'w env \<Rightarrow> Domain \<Rightarrow> string \<Rightarrow> ('w, go_error + Domain option) run" where
  "searchPrimaryByNamespace E d listByNS =
     tryE (errorf ''failed listing domains from cache: '' '''') (list_domains_ns E listByNS)
       (\<lambda>ds. ret (Inr (search_in d ds)))"

definition SearchForPrimary ::
    "'w env \<Rightarrow> Domain \<Rightarrow> string \<Rightarrow> ('w, go_error + Domain option) run" where
  "SearchForPrimary E d systemNamespace =
     tryE id
       (if length (Parent (Spec d)) \<noteq> 0 then searchPrimaryByNamespace E d (Parent (Spec d))
        else ret (Inr None))
       (\<lambda>p. if p \<noteq> None then ret (Inr p)
         else tryE id (searchPrimaryByNamespace E d (Namespace d))
           (\<lambda>p. if p \<noteq> None then ret (Inr p)
             else if Namespace d = systemNamespace \<or> Parent (Spec d) = systemNamespace
               then ret (Inr None)
             else searchPrimaryByNamespace E d systemNamespace))"

section \<open>What the search accepts\<close>

text \<open>
  A resource the callback accepts when nothing was found before: claimed, for the same primary
  name, in the namespace of \<open>d\<close> or delegating to it. Nothing asks it to be a primary domain.
\<close>

definition grants :: "Domain \<Rightarrow> Domain \<Rightarrow> bool" where
  "grants d dm \<longleftrightarrow> Phase (Status dm) = DomainStatusOK \<and> GetPrimaryDomain dm = GetPrimaryDomain d
     \<and> (Namespace d = Namespace dm
        \<or> (\<exists>ns \<in> set (elems (Delegates (Spec dm))). ns = Namespace d \<or> ns = ''*''))"

lemma search_step_eq:
  "search_step d acc dm = (if (acc = None \<or> IsPrimary dm) \<and> grants d dm then Some dm else acc)"
  by (auto simp: search_step_def grants_def Let_def list_ex_iff)

lemma search_fold_Some:
  "foldl (search_step d) (Some a) ds = Some (last (a # filter (\<lambda>x. grants d x \<and> IsPrimary x) ds))"
  by (induction ds arbitrary: a) (auto simp: search_step_eq)

text \<open>The result of the fold: the last primary that grants, or else the first shared one.\<close>

lemma search_in_eq:
  "search_in d ds =
    (case filter (grants d) ds of
       [] \<Rightarrow> None
     | x # _ \<Rightarrow> Some (last (x # filter (\<lambda>x. grants d x \<and> IsPrimary x) ds)))"
proof (induction ds)
  case Nil
  then show ?case by (simp add: search_in_def)
next
  case (Cons y ds)
  show ?case
  proof (cases "grants d y")
    case True
    then show ?thesis
      by (auto simp: search_in_def search_step_eq search_fold_Some)
  next
    case False
    then have "search_in d (y # ds) = search_in d ds"
      by (simp add: search_in_def search_step_eq)
    with False Cons.IH show ?thesis by (simp split: list.splits)
  qed
qed

lemma search_in_None: "search_in d ds = None \<longleftrightarrow> (\<forall>x \<in> set ds. \<not> grants d x)"
proof -
  have "search_in d ds = None \<longleftrightarrow> filter (grants d) ds = []"
    by (simp add: search_in_eq split: list.splits)
  then show ?thesis by (simp add: filter_empty_conv)
qed

lemma search_in_Some: "search_in d ds = Some p \<Longrightarrow> p \<in> set ds \<and> grants d p"
proof -
  assume s: "search_in d ds = Some p"
  then obtain x xs where x: "filter (grants d) ds = x # xs"
    and p: "p = last (x # filter (\<lambda>x. grants d x \<and> IsPrimary x) ds)"
    by (auto simp: search_in_eq split: list.splits)
  from x have "x \<in> set (filter (grants d) ds)" by simp
  then have "x \<in> set ds \<and> grants d x" by simp
  moreover have "p \<in> insert x (set (filter (\<lambda>x. grants d x \<and> IsPrimary x) ds))"
    unfolding p by (metis last_in_set list.distinct(1) list.simps(15))
  ultimately show ?thesis by auto
qed

text \<open>If a primary that grants is in the snapshot, the result is such a primary.\<close>

lemma search_in_primary:
  assumes "search_in d ds = Some p" and "x \<in> set ds" "grants d x" "IsPrimary x"
  shows "IsPrimary p"
proof -
  let ?ps = "filter (\<lambda>x. grants d x \<and> IsPrimary x) ds"
  from assms(2,3,4) have ne: "?ps \<noteq> []"
    by (auto simp: filter_empty_conv)
  with assms(1) have "p = last ?ps"
    by (auto simp: search_in_eq split: list.splits if_splits)
  with last_in_set [OF ne] have "p \<in> set ?ps" by simp
  then show ?thesis by simp
qed

section \<open>Rules for the effectful search\<close>

lemma searchPrimaryByNamespace_emits [emits_intros]:
  "(\<And>r. P (ReadDomains r)) \<Longrightarrow> emits_only P (searchPrimaryByNamespace E d ns)"
  unfolding searchPrimaryByNamespace_def by (intro emits_intros)

lemma SearchForPrimary_emits [emits_intros]:
  "(\<And>r. P (ReadDomains r)) \<Longrightarrow> emits_only P (SearchForPrimary E d sys)"
  unfolding SearchForPrimary_def by (intro emits_intros)

lemma searchPrimaryByNamespace_run:
  "searchPrimaryByNamespace E d ns w = (case dom_list E w of
     (Inl e, w') \<Rightarrow>
       (Done (Inl (errorf ''failed listing domains from cache: '' '''' e)), [ReadDomains (Inl e)], w')
   | (Inr ds, w') \<Rightarrow> (Done (Inr (search_in d (by_namespace ns ds))), [ReadDomains (Inr ds)], w'))"
  by (cases "dom_list E w"; cases "fst (dom_list E w)")
    (simp_all add: searchPrimaryByNamespace_def list_domains_ns_def list_domains_def go_defs)

text \<open>What a search found grants, and was in a snapshot of one of the admissible namespaces.\<close>

definition found_in :: "Domain \<Rightarrow> string \<Rightarrow> act list \<Rightarrow> Domain \<Rightarrow> bool" where
  "found_in d sys h p \<longleftrightarrow> grants d p \<and>
     (\<exists>ns ds. ns \<in> {Parent (Spec d), Namespace d, sys} \<and> ReadDomains (Inr ds) \<in> set h
        \<and> p \<in> set (by_namespace ns ds))"

text \<open>A snapshot of the namespace of \<open>d\<close> held nothing that grants.\<close>

definition nothing_grants :: "Domain \<Rightarrow> string \<Rightarrow> act list \<Rightarrow> bool" where
  "nothing_grants d ns h \<longleftrightarrow>
     (\<exists>ds. ReadDomains (Inr ds) \<in> set h \<and> (\<forall>x \<in> set (by_namespace ns ds). \<not> grants d x))"

lemma persistent_search [persistent_intros]:
  "persistent (nothing_grants d ns)" "persistent (\<lambda>h. found_in d sys h p)"
  by (auto simp: persistent_def nothing_grants_def found_in_def)

lemma search_prepend:
  "found_in d sys t p \<Longrightarrow> found_in d sys (h @ t) p" "nothing_grants d ns t \<Longrightarrow> nothing_grants d ns (h @ t)"
  unfolding nothing_grants_def found_in_def set_append by blast+

lemma search_hoare:
  assumes "ns \<in> {Parent (Spec d), Namespace d, sys}"
  shows "hoare (\<lambda>_ _. True) H (searchPrimaryByNamespace E d ns)
    (\<lambda>r h. (\<forall>p. r = Inr (Some p) \<longrightarrow> found_in d sys h p) \<and> (r = Inr None \<longrightarrow> nothing_grants d ns h))"
proof (rule hoare_of_run)
  fix w x
  assume x: "result_of (searchPrimaryByNamespace E d ns) w = Done x"
  show "(\<forall>p. x = Inr (Some p) \<longrightarrow> found_in d sys (trace_of (searchPrimaryByNamespace E d ns) w) p)
    \<and> (x = Inr None \<longrightarrow> nothing_grants d ns (trace_of (searchPrimaryByNamespace E d ns) w))"
  proof (cases "dom_list E w")
    case (Pair r w')
    show ?thesis
    proof (cases r)
      case (Inl e)
      with Pair x show ?thesis by (auto simp: result_of_def searchPrimaryByNamespace_run)
    next
      case (Inr ds)
      with Pair x have "x = Inr (search_in d (by_namespace ns ds))"
        and "trace_of (searchPrimaryByNamespace E d ns) w = [ReadDomains (Inr ds)]"
        by (auto simp: result_of_def trace_of_def searchPrimaryByNamespace_run)
      with assms show ?thesis
        by (auto simp: found_in_def nothing_grants_def search_in_None dest!: search_in_Some)
    qed
  qed
qed (auto intro: search_prepend)

lemma SearchForPrimary_hoare:
  "hoare (\<lambda>_ _. True) H (SearchForPrimary E d sys)
    (\<lambda>r h. (\<forall>p. r = Inr (Some p) \<longrightarrow> found_in d sys h p)
      \<and> (r = Inr None \<longrightarrow> nothing_grants d (Namespace d) h))"
    (is "hoare _ _ _ ?Q")
proof -
  let ?F = "\<lambda>r h. \<forall>p. r = Inr (Some p) \<longrightarrow> found_in d sys h p"
  have part: "hoare (\<lambda>_ _. True) H' (searchPrimaryByNamespace E d ns) ?F"
    if "ns \<in> {Parent (Spec d), Namespace d, sys}" for ns H'
    by (rule hoare_weaken [OF search_hoare [OF that, where H = "\<lambda>_. True"]]) auto
  have own: "hoare (\<lambda>_ _. True) H' (searchPrimaryByNamespace E d (Namespace d)) ?Q" for H'
    by (rule search_hoare) simp
  have last: "hoare (\<lambda>_ _. True) (\<lambda>h. ?Q (Inr None) h) (searchPrimaryByNamespace E d sys) ?Q"
    by (rule hoare_weaken [OF hoare_conj [OF part [of sys]
            hoare_keep [OF persistent_search(1) [of d "Namespace d"] hoare_true]]]) auto
  show ?thesis
    unfolding SearchForPrimary_def
  proof (rule hoare_tryE [where R = ?F])
    show "hoare (\<lambda>_ _. True) H
        (if length (Parent (Spec d)) \<noteq> 0 then searchPrimaryByNamespace E d (Parent (Spec d))
         else ret (Inr None)) ?F"
      by (intro hoare_if part hoare_ret) auto
    show "hoare (\<lambda>_ _. True) (?F (Inr p)) (if p \<noteq> None then ret (Inr p)
         else tryE id (searchPrimaryByNamespace E d (Namespace d))
           (\<lambda>p. if p \<noteq> None then ret (Inr p)
             else if Namespace d = sys \<or> Parent (Spec d) = sys then ret (Inr None)
             else searchPrimaryByNamespace E d sys)) ?Q" for p
      by (intro hoare_if hoare_tryE [OF own] hoare_ret hoare_pre [OF last]) auto
  qed auto
qed

text \<open>
  If every snapshot of the store holds a claimed resource of the namespace of \<open>d\<close> with the
  same primary name, for instance \<open>d\<close> itself once claimed, the search never reports "no primary".
\<close>

lemma search_finds:
  assumes "\<And>w. \<exists>ds w'. dom_list E w = (Inr ds, w') \<and> x \<in> set ds"
    and "grants d x" "ns = '''' \<or> Namespace x = ns"
  shows "\<exists>p. result_of (searchPrimaryByNamespace E d ns) w = Done (Inr (Some p))"
proof -
  obtain ds w' where ds: "dom_list E w = (Inr ds, w')" "x \<in> set ds"
    using assms(1) by blast
  then have "x \<in> set (by_namespace ns ds)"
    using assms(3) by (auto simp: by_namespace_def)
  then have "search_in d (by_namespace ns ds) \<noteq> None"
    using assms(2) by (auto simp: search_in_None)
  then show ?thesis
    using ds by (auto simp: result_of_def searchPrimaryByNamespace_run)
qed

lemma searchPrimaryByNamespace_total:
  assumes "\<And>w. \<exists>ds w'. dom_list E w = (Inr ds, w')"
  obtains p t w' where "searchPrimaryByNamespace E d ns w = (Done (Inr p), t, w')"
  using assms [of w] by (auto simp: searchPrimaryByNamespace_run)

lemma SearchForPrimary_finds:
  assumes store: "\<And>w. \<exists>ds w'. dom_list E w = (Inr ds, w') \<and> x \<in> set ds"
    and x: "grants d x" "Namespace x = Namespace d"
  shows "\<exists>p. result_of (SearchForPrimary E d sys) w = Done (Inr (Some p))"
proof -
  have own: "\<exists>p t w'. searchPrimaryByNamespace E d (Namespace d) w = (Done (Inr (Some p)), t, w')" for w
    using search_finds [OF store x(1)] x(2) unfolding result_of_def
    by (metis prod.collapse)
  show ?thesis
  proof (cases "length (Parent (Spec d)) \<noteq> 0")
    case True
    obtain p t w' where "searchPrimaryByNamespace E d (Parent (Spec d)) w = (Done (Inr p), t, w')"
      using searchPrimaryByNamespace_total store by metis
    with True own [of w'] show ?thesis
      by (cases p) (auto simp: SearchForPrimary_def result_of_def tryE_def bnd_def ret_def)
  next
    case False
    with own [of w] show ?thesis
      by (auto simp: SearchForPrimary_def result_of_def tryE_def bnd_def ret_def)
  qed
qed

end
