(* ===== verification/Domain_Controller.thy ===== *)
theory Domain_Controller
  imports Kong_Api Host_Names Primary_Search
begin

text \<open>
  \<open>pkg/controller/domain.go\<close>: the reconciliation of \<open>Domain\<close> claims. \<open>syncDomain\<close> is split
  at its branches, in the order of the source: the resource is gone (wipe on delete), it is
  invalid, it is marked for deletion (purge), or it moves along the phases New, Pending, OK,
  Failed. The event handlers \<open>addDomain\<close>, \<open>updateDomain\<close>, \<open>deleteDomain\<close> feed the queue.
  \<open>DeepCopy\<close> is the identity on values and never nil here, so the updates act on \<open>d\<close> itself.
\<close>

section \<open>Configuration\<close>

text \<open>\<open>pkg/controller/config.go\<close>; \<open>TLSConfig\<close> is reduced to the three files \<open>main\<close> sets.\<close>

record Config =
  KongAdminHost :: string
  ApiServerHost :: string
  TLSInsecure :: bool
  CertFile :: string
  KeyFile :: string
  CAFile :: string
  ClusterDNS :: string
  PodNamespace :: string
  AutoClaim :: bool
  WipeOnDelete :: bool
  ResyncOnFailed :: "64 word"
  HealthzBindAddress :: string
  HealthzPort :: "32 word"

section \<open>Status updates\<close>

definition updateDomainStatus ::
    "'w env \<Rightarrow> Domain \<Rightarrow> string \<Rightarrow> string \<Rightarrow> DomainPhase \<Rightarrow> ('w, go_error + unit) run" where
  "updateDomainStatus E d reason message phase =
     (if Phase (Status d) = phase \<and> Message (Status d) = message \<and> Reason (Status d) = reason
      then ret (Inr ())
      else bnd (time_now E) (\<lambda>t.
        let dCopy = d\<lparr>Status := (Status d)\<lparr>Phase := phase, Reason := reason, Message := message,
                        LastUpdateTime := t\<rparr>\<rparr>
        in do_raw E (domain_request PUT (Namespace dCopy) (Some (Name dCopy)) (DomainBody dCopy))
             (\<lambda>r e. PlainErr (''failed updating domain status ['' @ err_msg e @ '', '' @ r @ '']''))
             (ret (Inr ()))))"

section \<open>The resource is gone\<close>

definition isOKShared :: "Domain \<Rightarrow> bool" where
  "isOKShared d \<longleftrightarrow> \<not> IsPrimary d \<and> Phase (Status d) = DomainStatusOK"

text \<open>The pattern of the routes of a domain, with which both purges list.\<close>

definition host_pattern :: "Domain \<Rightarrow> string" where
  "host_pattern d = GetDomain d @ ''~.+''"

text \<open>The first loop: a shared domain without a primary loses its routes.\<close>

definition wipe_shared :: "'w env \<Rightarrow> Config \<Rightarrow> Domain \<Rightarrow> ('w, go_error + unit) run" where
  "wipe_shared E cfg d =
     tryE (errorf ''gc=true, wipeondelete=true, failed searching for primary ['' '']'')
       (SearchForPrimary E d (PodNamespace cfg)) (\<lambda>primaryDomain.
     if primaryDomain \<noteq> None then ret (Inr ())
     else tryE (errorf ''gc=true, wipeondelete=true, failed listing kong apis ['' '']'')
       (apiKong_ListByRegexp E None (host_pattern d)) (\<lambda>apiList.
     tryE id
       (delete_apis (apiKong_Delete E)
         (\<lambda>api. errorf ''gc=true, wipeondelete=true, failed removing kong api ['' '']'')
         (Items apiList)) (\<lambda>_.
     tryE (errorf ''gc=true, wipeondelete=true, failed updating domain status ['' '']'')
       (updateDomainStatus E d ''DomainDeleted'' ''The primary domain was deleted''
         DomainStatusFailed) (\<lambda>_. ret (Inr ())))))"

text \<open>The second loop: the APIs of a host no \<open>Domain\<close> resource has.\<close>

definition wipe_host :: "'w env \<Rightarrow> string \<times> API list \<Rightarrow> ('w, go_error + unit) run" where
  "wipe_host E hostApis = (case hostApis of (kongHost, apis) \<Rightarrow>
     tryE (errorf ''gc=true, wipeondelete=true, failed listing domains from store ['' '']'')
       (list_domains E) (\<lambda>ds.
     case find (\<lambda>d. kongHost = GetDomain d) ds of
       None \<Rightarrow>
         delete_apis (apiKong_Delete E)
           (\<lambda>api. errorf ''gc=true, wipeondelete=true, failed removing api ['' '']'') apis
     | Some found \<Rightarrow> ret (Inr ())))"

definition syncDomain_gone :: "'w env \<Rightarrow> Config \<Rightarrow> ('w, go_error + unit) run" where
  "syncDomain_gone E cfg =
     (if \<not> WipeOnDelete cfg then ret (Inr ())
      else tryE (errorf ''gc=true, wipeondelete=true, failed listing domains from store ['' '']'')
        (list_domains E) (\<lambda>ds.
      tryE id (forE (wipe_shared E cfg) (filter isOKShared ds)) (\<lambda>_.
      tryE (errorf ''gc=true, wipeondelete=true, failed listing kong apis: '' '''')
        (apiKong_List (page_bound E) E None) (\<lambda>apiList.
      bnd (range_hosts E (getApisByHost apiList)) (\<lambda>hosts. forE (wipe_host E) hosts)))))"

section \<open>The resource is marked for deletion\<close>

definition no_finalizers_patch :: json where
  "no_finalizers_patch = JObj [(''metadata'', JObj [(''finalizers'', JArr [])])]"

text \<open>Purge the routes of one domain and mark it as failed.\<close>

definition purge_domain :: "'w env \<Rightarrow> Domain \<Rightarrow> ('w, go_error + unit) run" where
  "purge_domain E dm =
     tryE (errorf ''gc=true, failed listing kong apis ['' '']'')
       (apiKong_ListByRegexp E None (host_pattern dm)) (\<lambda>apiList.
     tryE id
       (delete_apis (apiKong_Delete E)
         (\<lambda>api. errorf ''gc=true, failed removing kong api ['' '']'') (Items apiList)) (\<lambda>_.
     tryE (errorf ''gc=true, failed updating domain status ['' '']'')
       (updateDomainStatus E dm ''DomainDeleted'' ''The primary domain was deleted''
         DomainStatusFailed) (\<lambda>_. ret (Inr ()))))"

definition purge_targets :: "Domain \<Rightarrow> Domain list \<Rightarrow> Domain list" where
  "purge_targets d ds =
     filter (\<lambda>dm. IsPrimary d \<and> GetPrimaryDomain dm = GetPrimaryDomain d) ds"

definition syncDomain_delete :: "'w env \<Rightarrow> Domain \<Rightarrow> ('w, go_error + unit) run" where
  "syncDomain_delete E d =
     tryE (errorf ''gc=true, failed listing domains from cache ['' '']'') (list_domains E) (\<lambda>ds.
     tryE id (forE (purge_domain E) (purge_targets d ds)) (\<lambda>_.
     do_raw E (domain_request PATCH (Namespace d) (Some (Name d))
                (PatchBody MergePatch no_finalizers_patch))
       (errorf2 ''gc=true, failed removing finalizer from resource'')
     (do_raw E (domain_request DELETE (Namespace d) (Some (Name d)) NoBody)
       (errorf2 ''gc=true, failed removing domain resource'')
     (ret (Inr ())))))"

section \<open>The phases\<close>

definition sync_new :: "'w env \<Rightarrow> Domain \<Rightarrow> ('w, go_error + unit) run" where
  "sync_new E d =
     (let dCopy = d\<lparr>Status := (Status d)\<lparr>Phase := DomainStatusPending\<rparr>,
                    Finalizers := Some [Finalizer]\<rparr>
      in do_raw E (domain_request PUT (Namespace d) (Some (Name d)) (DomainBody dCopy))
           (errorf2 ''failed updating new domain claim'') (ret (Inr ())))"

definition same_resource :: "Domain \<Rightarrow> Domain \<Rightarrow> bool" where
  "same_resource d dm \<longleftrightarrow> Name d = Name dm \<and> Namespace d = Namespace dm"

text \<open>The callback that looks for another primary of the same name, in any phase.\<close>

definition registered_primary :: "Domain \<Rightarrow> Domain list \<Rightarrow> Domain option" where
  "registered_primary d ds =
     find (\<lambda>dm. \<not> same_resource d dm \<and> IsPrimary dm \<and> GetPrimaryDomain dm = GetPrimaryDomain d) ds"

text \<open>The error of the first \<open>ListAll\<close> is dropped by the source: nothing was seen.\<close>

definition sync_pending_primary :: "'w env \<Rightarrow> Domain \<Rightarrow> ('w, go_error + unit) run" where
  "sync_pending_primary E d =
     bnd (list_domains E) (\<lambda>r.
     if registered_primary d (case r of Inl e \<Rightarrow> [] | Inr ds \<Rightarrow> ds) \<noteq> None then
       bnd (record_event d EventWarning ''DomainAlreadyExists'' ''The primary domain already exists'') (\<lambda>_.
       tryE (errorf ''failed updating domain status ['' '']'')
         (updateDomainStatus E d ''DomainAlreadyExists'' ''The domain already exists''
           DomainStatusFailed) (\<lambda>_. ret (Inr ())))
     else
       tryE (errorf ''failed updating domain status ['' '']'')
         (updateDomainStatus E d '''' ''Primary domain claimed with success'' DomainStatusOK) (\<lambda>_.
       bnd (record_event d EventNormal ''OK'' ''Primary domain claimed with success'') (\<lambda>_.
       ret (Inr ()))))"

definition sync_pending_shared :: "'w env \<Rightarrow> Config \<Rightarrow> Domain \<Rightarrow> ('w, go_error + unit) run" where
  "sync_pending_shared E cfg d =
     (if \<not> IsValidSharedDomain d then
        bnd (record_event d EventWarning ''Invalid''
              ''The shared domain must be a subdomain from the primary'') (\<lambda>_. ret (Inr ()))
      else
        tryE (errorf ''failed retrieving primary domain ['' '']'')
          (SearchForPrimary E d (PodNamespace cfg)) (\<lambda>pd.
        if pd = None then
          bnd (record_event d EventWarning ''DomainNotFound'' ''Primary domain not found'') (\<lambda>_.
          tryE (errorf ''failed updating domain status ['' '']'')
            (updateDomainStatus E d ''DomainNotFound'' ''Primary domain not found''
              DomainStatusFailed) (\<lambda>_. ret (Inr ())))
        else
          tryE (errorf ''failed updating domain status ['' '']'')
            (updateDomainStatus E d '''' ''Shared domain claimed with success'' DomainStatusOK)
            (\<lambda>_. ret (Inr ()))))"

definition sync_ok :: "'w env \<Rightarrow> Config \<Rightarrow> Domain \<Rightarrow> ('w, go_error + unit) run" where
  "sync_ok E cfg d =
     (if \<not> IsPrimary d then
        tryE id (SearchForPrimary E d (PodNamespace cfg)) (\<lambda>pd.
        if pd = None then
          bnd (record_event d EventWarning ''DomainNotFound'' ''Primary domain not found'') (\<lambda>_.
          tryE (errorf ''failed updating domain status ['' '']'')
            (updateDomainStatus E d ''DomainNotFound'' ''Primary domain not found''
              DomainStatusFailed) (\<lambda>_. ret (Inr ())))
        else ret (Inr ()))
      else ret (Inr ()))"

text \<open>\<open>time.Second * time.Duration(k.cfg.ResyncOnFailed)\<close> wraps at 64 bits.\<close>

definition resync_after :: "Config \<Rightarrow> duration" where
  "resync_after cfg = 1000000000 * ResyncOnFailed cfg"

definition sync_failed :: "'w env \<Rightarrow> Config \<Rightarrow> Domain \<Rightarrow> ('w, go_error + unit) run" where
  "sync_failed E cfg d =
     bnd (time_now E) (\<lambda>t.
     if IsUpdateExpired d (resync_after cfg) t then
       (let statusPhase = (if \<not> HasKongFinalizer d then DomainStatusNew else DomainStatusPending)
        in bnd (updateDomainStatus E d '''' '''' statusPhase) (\<lambda>_. ret (Inr ())))
     else ret (Inr ()))"

definition syncDomain_phase :: "'w env \<Rightarrow> Config \<Rightarrow> Domain \<Rightarrow> ('w, go_error + unit) run" where
  "syncDomain_phase E cfg d =
     (let phase = Phase (Status d) in
      if phase = DomainStatusNew then sync_new E d
      else if phase = DomainStatusPending then
        (if IsPrimary d then sync_pending_primary E d else sync_pending_shared E cfg d)
      else if phase = DomainStatusOK then sync_ok E cfg d
      else sync_failed E cfg d)"

definition syncDomain :: "'w env \<Rightarrow> Config \<Rightarrow> string \<Rightarrow> nat \<Rightarrow> ('w, go_error + unit) run" where
  "syncDomain E cfg key numRequeues =
     tryE id (get_domain E key) (\<lambda>obj.
     case obj of
       None \<Rightarrow> syncDomain_gone E cfg
     | Some d \<Rightarrow>
         if \<not> IsValidDomain d then
           bnd (updateDomainStatus E d ''Invalid'' ''The domain specified on the resource is invalid''
                 DomainStatusFailed) (\<lambda>_. ret (Inr ()))
         else if IsMarkedForDeletion d then syncDomain_delete E d
         else syncDomain_phase E cfg d)"

section \<open>Event handlers\<close>

text \<open>What the informer hands to a delete handler: the object, or a tombstone with its key.\<close>

datatype 'a informer_obj = Obj 'a | DeletedFinalStateUnknown string

definition domain_key :: "Domain informer_obj \<Rightarrow> string" where
  "domain_key obj = (case obj of Obj d \<Rightarrow> meta_key d | DeletedFinalStateUnknown key \<Rightarrow> key)"

definition addDomain :: "Domain informer_obj \<Rightarrow> ('w, unit) run" where
  "addDomain obj = emit (Enqueue DomQueue (domain_key obj))"

definition deleteDomain :: "Domain informer_obj \<Rightarrow> ('w, unit) run" where
  "deleteDomain obj = emit (Enqueue DomQueue (domain_key obj))"

text \<open>The copy of the old resource that \<open>updateDomain\<close> posts so that its records get purged.\<close>

definition recovered_domain :: "Domain \<Rightarrow> Domain \<Rightarrow> gotime \<Rightarrow> Domain" where
  "recovered_domain old new t =
     \<lparr>Kind = '''', APIVersion = '''',
      Name = Name old @ ''-'' @ GenAdler32Hash (PrimaryDomain (Spec new) @ Sub (Spec new)),
      Namespace = Namespace old, ResourceVersion = '''', Annotations = Map.empty,
      Finalizers = None, DeletionTimestamp = None,
      Spec = Spec old, Status = (Status old)\<lparr>Status_DeletionTimestamp := Some t\<rparr>\<rparr>"

definition updateDomain :: "'w env \<Rightarrow> Domain \<Rightarrow> Domain \<Rightarrow> ('w, unit) run" where
  "updateDomain E old new =
     bnd (if PrimaryDomain (Spec old) \<noteq> PrimaryDomain (Spec new) \<or> Sub (Spec old) \<noteq> Sub (Spec new)
          then bnd (time_now E) (\<lambda>t.
            let d = recovered_domain old new t
            in bnd (send E (domain_request POST (Namespace d) None (DomainBody d))) (\<lambda>_. ret ()))
          else ret ())
     (\<lambda>_. if ResourceVersion old \<noteq> ResourceVersion new \<or> Phase (Status new) = DomainStatusFailed
           then emit (Enqueue DomQueue (meta_key new))
           else ret ())"

end
