(* ===== verification/Ingress_Controller.thy ===== *)
theory Ingress_Controller
  imports Domain_Controller
begin

text \<open>
  \<open>pkg/controller/controller.go\<close>: the reconciliation of an ingress into Kong APIs
  (\<open>syncIngress\<close>, with \<open>claimDomains\<close>, \<open>isClaimed\<close>, \<open>setDirty\<close>, \<open>getUpstream\<close>) and the
  garbage collection of the APIs of a deleted service (\<open>syncServices\<close>). The body of the loop
  over the paths of a rule is \<open>sync_path\<close>.
\<close>

section \<open>Helpers\<close>

text \<open>\<open>strconv.ParseBool\<close>; \<open>None\<close> is its error.\<close>

definition ParseBool :: "string \<Rightarrow> bool option" where
  "ParseBool str =
     (if str \<in> set [''1'', ''t'', ''T'', ''true'', ''TRUE'', ''True''] then Some True
      else if str \<in> set [''0'', ''f'', ''F'', ''false'', ''FALSE'', ''False''] then Some False
      else None)"

definition getUpstream :: "Config \<Rightarrow> string \<Rightarrow> string \<Rightarrow> string \<Rightarrow> 32 word \<Rightarrow> string" where
  "getUpstream cfg proto ns svcName svcPort =
     proto @ ''://'' @ svcName @ ''.'' @ ns @ ''.'' @ ClusterDNS cfg @ '':'' @ show_int (sint svcPort)"

definition proto_of :: "32 word \<Rightarrow> string" where
  "proto_of port = (if port = 443 then ''https'' else ''http'')"

section \<open>Claiming the hosts of an ingress\<close>

definition claim_one :: "'w env \<Rightarrow> Ingress \<Rightarrow> Domain \<Rightarrow> ('w, go_error + unit) run" where
  "claim_one E ing d =
     (if \<not> IsValidDomain d then ret (Inl (PlainErr (''it's not a valid domain '' @ GetDomain d)))
      else bnd (get_domain E (meta_key d)) (\<lambda>r.
        case (case r of Inl e \<Rightarrow> None | Inr obj \<Rightarrow> obj) of
          Some dm \<Rightarrow>
            if Spec dm = Spec d then ret (Inr ())
            else
              (let domCopy = dm\<lparr>Spec := Spec d,
                     Status := (if Phase (Status dm) \<noteq> DomainStatusOK
                                then \<lparr>Phase = DomainStatusNew, Message = '''', Reason = '''',
                                      LastUpdateTime = zero_time, Status_DeletionTimestamp = None\<rparr>
                                else Status dm)\<rparr>
               in do_raw E (domain_request PUT (Namespace ing) (Some (Name domCopy)) (DomainBody domCopy))
                    (errorf2 ''failed updating domain'') (ret (Inr ())))
        | None \<Rightarrow>
            do_raw E (domain_request POST (Namespace ing) None (DomainBody d))
              (errorf2 ''failed creating new domain'') (ret (Inr ()))))"

definition claimDomains :: "'w env \<Rightarrow> Ingress \<Rightarrow> ('w, go_error + unit) run" where
  "claimDomains E ing = forE (claim_one E ing) (getHostsFromIngress ing)"

definition claims_host :: "string \<Rightarrow> Domain \<Rightarrow> bool" where
  "claims_host host dm \<longleftrightarrow> Phase (Status dm) = DomainStatusOK \<and> GetDomain dm = host"

fun isClaimed_rules :: "'w env \<Rightarrow> string \<Rightarrow> IngressRule list \<Rightarrow> ('w, go_error + bool \<times> string) run" where
  "isClaimed_rules E ns [] = ret (Inr (True, ''''))"
| "isClaimed_rules E ns (rule # rules) =
     tryE id (list_domains_ns E ns) (\<lambda>ds.
       case find (claims_host (Host rule)) ds of
         None \<Rightarrow> ret (Inr (False, Host rule))
       | Some d \<Rightarrow> isClaimed_rules E ns rules)"

definition isClaimed :: "'w env \<Rightarrow> Ingress \<Rightarrow> ('w, go_error + bool \<times> string) run" where
  "isClaimed E ing = isClaimed_rules E (Namespace ing) (Rules ing)"

definition dirtyKey :: string where
  "dirtyKey = ''kolihub.io/dirty''"

definition dirty_patch :: json where
  "dirty_patch = JObj [(''metadata'', JObj [(''annotations'', JObj [(dirtyKey, JStr ''true'')])])]"

definition setDirty :: "'w env \<Rightarrow> Ingress \<Rightarrow> ('w, go_error + unit) run" where
  "setDirty E ing =
     (if map_get (Annotations ing) dirtyKey = ''true'' then ret (Inr ())
      else bnd (send E (core_request PATCH ''ingresses'' (Namespace ing) (Name ing)
                  (PatchBody StrategicMergePatch dirty_patch)))
             (\<lambda>r. ret (case res_err r of Some e \<Rightarrow> Inl e | None \<Rightarrow> Inr ())))"

section \<open>Routes\<close>

definition add_finalizer_patch :: json where
  "add_finalizer_patch =
     JObj [(''metadata'', JObj [(''finalizers'', JArr [JStr Finalizer])])]"

definition stripUriKey :: string where
  "stripUriKey = ''ingress.kubernetes.io/strip-uri''"

definition preserveHostKey :: string where
  "preserveHostKey = ''ingress.kubernetes.io/preserve-host''"

definition path_uri :: "HTTPIngressPath \<Rightarrow> string" where
  "path_uri p = (if Path p = ''/'' \<or> Path p = '''' then ''/'' else Path p)"

definition route_name :: "Ingress \<Rightarrow> IngressRule \<Rightarrow> HTTPIngressPath \<Rightarrow> string" where
  "route_name ing r p = apiName (Host r) (Namespace ing) (path_uri p)"

text \<open>The \<open>apiBody\<close> sent for a path; \<open>api\<close> is the registered API, if there is one.\<close>

definition api_body :: "Config \<Rightarrow> Ingress \<Rightarrow> IngressRule \<Rightarrow> HTTPIngressPath \<Rightarrow> API option \<Rightarrow> API" where
  "api_body cfg ing r p api =
     \<lparr>API_UID = (case api of None \<Rightarrow> '''' | Some a \<Rightarrow> API_UID a),
      API_Name = route_name ing r p,
      Hosts = Some [Host r],
      URIs = (if Path p \<noteq> '''' then Some [path_uri p] else None),
      PreserveHost =
        (case ParseBool (map_get (Annotations ing) preserveHostKey) of None \<Rightarrow> False | Some b \<Rightarrow> b),
      UpstreamURL = getUpstream cfg (proto_of (ServicePort_IntVal (Backend p))) (Namespace ing)
        (ServiceName (Backend p)) (ServicePort_IntVal (Backend p)),
      CreatedAt = (case api of None \<Rightarrow> 0 | Some a \<Rightarrow> CreatedAt a),
      StripUri =
        (case ParseBool (map_get (Annotations ing) stripUriKey) of None \<Rightarrow> True | Some b \<Rightarrow> b)\<rparr>"

definition response_text :: "APIResponse \<Rightarrow> string" where
  "response_text resp = (case APIResponse_String resp of None \<Rightarrow> ''%!s(PANIC)'' | Some s \<Rightarrow> s)"

definition register_route ::
    "'w env \<Rightarrow> Config \<Rightarrow> Ingress \<Rightarrow> IngressRule \<Rightarrow> HTTPIngressPath \<Rightarrow> ('w, go_error + unit) run" where
  "register_route E cfg ing r p =
     bnd (apiKong_Get E (route_name ing r p)) (\<lambda>(api, resp).
     if (\<exists>e \<in> set_option (Error resp). \<not> IsNotFound e) then
       bnd (record_event ing EventWarning ''FailedAddRoute'' (response_text resp)) (\<lambda>_.
       ret (Inl (PlainErr (''failed listing api: '' @ response_text resp))))
     else
       bnd (apiKong_UpdateOrCreate E (api_body cfg ing r p api)) (\<lambda>(api, resp).
       if (\<exists>e \<in> set_option (Error resp). \<not> IsConflict e) then
         bnd (emit ApisFailedInc) (\<lambda>_.
         ret (Inl (PlainErr (''failed adding api: '' @ response_text resp))))
       else
         bnd (if Error resp = None then emit ApisTotalInc else ret ()) (\<lambda>_.
         case api of
           None \<Rightarrow> panic ''nil pointer dereference''
         | Some a \<Rightarrow> ret (Inr ()))))"

definition sync_path ::
    "'w env \<Rightarrow> Config \<Rightarrow> Ingress \<Rightarrow> IngressRule \<Rightarrow> HTTPIngressPath \<Rightarrow> ('w, go_error + unit) run" where
  "sync_path E cfg ing r p =
     (let svcName = ServiceName (Backend p) in
     tryE (errorf ''failed listing services from cache: '' '''') (list_services E) (\<lambda>svcs.
     if \<not> list_ex (\<lambda>svc. Name svc = svcName \<and> Namespace svc = Namespace ing) svcs then
       bnd (record_event ing EventWarning ''ServiceNotFound''
             (''Service '' @ [CHR 0x27] @ svcName @ [CHR 0x27] @ '' not found for ingress'')) (\<lambda>_.
       ret (Inl (PlainErr (''Service '' @ svcName @ '' not found''))))
     else
       bnd (send E (core_request PATCH ''services'' (Namespace ing) svcName
              (PatchBody StrategicMergePatch add_finalizer_patch))) (\<lambda>res.
       case res_err res of
         Some e \<Rightarrow> ret (Inl (errorf ''failed configuring service: '' '''' e))
       | None \<Rightarrow> register_route E cfg ing r p)))"

definition sync_rule :: "'w env \<Rightarrow> Config \<Rightarrow> Ingress \<Rightarrow> IngressRule \<Rightarrow> ('w, go_error + unit) run" where
  "sync_rule E cfg ing r = (case HTTP r of
      None \<Rightarrow> ret (Inr ())
    | Some paths \<Rightarrow> forE (sync_path E cfg ing r) paths)"

definition autoClaimMaxRetries :: nat where
  "autoClaimMaxRetries = 8"

definition autoclaim :: "'w env \<Rightarrow> Config \<Rightarrow> Ingress \<Rightarrow> ('w, go_error + unit) run" where
  "autoclaim E cfg ing =
     (if AutoClaim cfg then
        tryE (errorf ''autoclaim=on, failed claiming domains ['' '']'') (claimDomains E ing) (\<lambda>_.
        bnd (time_sleep E 500000000) (\<lambda>_. ret (Inr ())))
      else ret (Inr ()))"

definition sync_routes :: "'w env \<Rightarrow> Config \<Rightarrow> Ingress \<Rightarrow> nat \<Rightarrow> ('w, go_error + unit) run" where
  "sync_routes E cfg ing numRequeues =
     tryE (errorf ''failed retrieving domains from indexer ['' '']'') (isClaimed E ing)
       (\<lambda>(isAllowed, notFoundHost).
     if \<not> isAllowed then
       bnd (if 2 < numRequeues then
              record_event ing EventWarning ''DomainNotFound''
                (''The domain '' @ [CHR 0x27] @ notFoundHost @ [CHR 0x27]
                  @ '' was not claimed, check its state'')
            else ret ()) (\<lambda>_.
       ret (Inl (PlainErr (''failed claiming domain '' @ notFoundHost @ '', check its state!''))))
     else forE (sync_rule E cfg ing) (Rules ing))"

definition syncIngress :: "'w env \<Rightarrow> Config \<Rightarrow> string \<Rightarrow> nat \<Rightarrow> ('w, go_error + unit) run" where
  "syncIngress E cfg key numRequeues =
     tryE id (get_ingress E key) (\<lambda>obj.
     case obj of
       None \<Rightarrow> ret (Inr ())
     | Some ing \<Rightarrow>
         bnd (if autoClaimMaxRetries < numRequeues then bnd (setDirty E ing) (\<lambda>_. ret ())
              else ret ()) (\<lambda>_.
         tryE id (autoclaim E cfg ing) (\<lambda>_. sync_routes E cfg ing numRequeues)))"

section \<open>Garbage collection of the APIs of a service\<close>

definition gc_port :: "'w env \<Rightarrow> Config \<Rightarrow> Service \<Rightarrow> ServicePort \<Rightarrow> ('w, go_error + unit) run" where
  "gc_port E cfg svc port =
     (let upstreamURL = getUpstream cfg (proto_of (Port port)) (Namespace svc) (Name svc) (Port port) in
     tryE (errorf ''gc=true, failed listing apis ['' '']'')
       (apiKong_List (page_bound E) E (Some [(''upstream_url'', [upstreamURL])])) (\<lambda>apiList.
     tryE id
       (delete_apis (apiKong_Delete E)
         (\<lambda>api. errorf (''gc=true, failed removing kong api '' @ API_Name api @ '', ['') '']'')
         (Items apiList)) (\<lambda>_.
     bnd (send E (core_request PATCH ''services'' (Namespace svc) (Name svc)
            (PatchBody MergePatch no_finalizers_patch))) (\<lambda>res.
     case res_err res of
       Some e \<Rightarrow> ret (Inl (errorf ''gc=true, failed patch service ['' '']'' e))
     | None \<Rightarrow> ret (Inr ())))))"

definition syncServices :: "'w env \<Rightarrow> Config \<Rightarrow> string \<Rightarrow> nat \<Rightarrow> ('w, go_error + unit) run" where
  "syncServices E cfg key numRequeues =
     tryE id (get_service E key) (\<lambda>obj.
     case obj of
       None \<Rightarrow> ret (Inr ())
     | Some svc \<Rightarrow>
         if DeletionTimestamp svc = None then ret (Inr ())
         else forE (gc_port E cfg svc) (Ports svc))"

section \<open>Event handlers of NewKongController\<close>

text \<open>
  The ingress and service handlers. A type assertion on a tombstone panics in the ingress delete
  handler; the service handlers queue whatever they get.
\<close>

definition add_ingress :: "Ingress \<Rightarrow> ('w, unit) run" where
  "add_ingress ing =
     (if \<not> isKongIngress ing then ret () else emit (Enqueue IngQueue (meta_key ing)))"

definition update_ingress :: "Ingress \<Rightarrow> Ingress \<Rightarrow> ('w, unit) run" where
  "update_ingress old new =
     (if ResourceVersion old \<noteq> ResourceVersion new \<and> isKongIngress new
      then emit (Enqueue IngQueue (meta_key new)) else ret ())"

definition delete_ingress :: "Ingress informer_obj \<Rightarrow> ('w, unit) run" where
  "delete_ingress obj = (case obj of
      DeletedFinalStateUnknown key \<Rightarrow> panic ''interface conversion''
    | Obj ing \<Rightarrow>
        if \<not> isKongIngress ing then ret () else emit (Enqueue IngQueue (meta_key ing)))"

definition service_key :: "Service informer_obj \<Rightarrow> string" where
  "service_key obj = (case obj of Obj s \<Rightarrow> meta_key s | DeletedFinalStateUnknown key \<Rightarrow> key)"

definition add_service :: "Service informer_obj \<Rightarrow> ('w, unit) run" where
  "add_service obj = emit (Enqueue SvcQueue (service_key obj))"

definition delete_service :: "Service informer_obj \<Rightarrow> ('w, unit) run" where
  "delete_service obj = emit (Enqueue SvcQueue (service_key obj))"

definition update_service :: "Service \<Rightarrow> Service \<Rightarrow> ('w, unit) run" where
  "update_service old new =
     (if ResourceVersion old \<noteq> ResourceVersion new
      then emit (Enqueue SvcQueue (meta_key new)) else ret ())"

end
