(* ===== verification/Sample_World.thy ===== *)
theory Sample_World
  imports Ingress_Controller
begin

text \<open>
  Concrete environments for the witnesses: the caches hold fixed lists and every request gets the
  answer of a function of the request, so that a handler can be run by the simplifier. Nothing
  here models code of the program.
\<close>

definition static_env :: "(request \<Rightarrow> rest_result) \<Rightarrow> Domain list \<Rightarrow> Service list \<Rightarrow> Ingress list
    \<Rightarrow> unit env" where
  "static_env answer ds svcs ings =
     \<lparr>do_request = (\<lambda>q w. (answer q, w)),
      dom_list = (\<lambda>w. (Inr ds, w)),
      dom_get = (\<lambda>k w. (Inr (find (\<lambda>d. meta_key d = k) ds), w)),
      svc_list = (\<lambda>w. (Inr svcs, w)),
      svc_get = (\<lambda>k w. (Inr (find (\<lambda>s. meta_key s = k) svcs), w)),
      ing_get = (\<lambda>k w. (Inr (find (\<lambda>i. meta_key i = k) ings), w)),
      now = (\<lambda>w. (0, w)),
      sleep = (\<lambda>d w. ((), w)),
      page_bound = 3,
      host_order = (\<lambda>m w. (m, w))\<rparr>"

lemma static_env_simps [simp]:
  "do_request (static_env a ds ss is) = (\<lambda>q w. (a q, w))"
  "dom_list (static_env a ds ss is) = (\<lambda>w. (Inr ds, w))"
  "dom_get (static_env a ds ss is) = (\<lambda>k w. (Inr (find (\<lambda>d. meta_key d = k) ds), w))"
  "svc_list (static_env a ds ss is) = (\<lambda>w. (Inr ss, w))"
  "svc_get (static_env a ds ss is) = (\<lambda>k w. (Inr (find (\<lambda>s. meta_key s = k) ss), w))"
  "ing_get (static_env a ds ss is) = (\<lambda>k w. (Inr (find (\<lambda>i. meta_key i = k) is), w))"
  "now (static_env a ds ss is) = (\<lambda>w. (0, w))"
  "sleep (static_env a ds ss is) = (\<lambda>d w. ((), w))"
  "page_bound (static_env a ds ss is) = 3"
  "host_order (static_env a ds ss is) = (\<lambda>m w. (m, w))"
  by (simp_all add: static_env_def)

section \<open>Answers\<close>

definition ok_json :: "json \<Rightarrow> rest_result" where
  "ok_json j = \<lparr>res_body = Some (Payload '''' (Some j)), res_status = 200, res_err = None\<rparr>"

definition err_answer :: "status_reason \<Rightarrow> int \<Rightarrow> rest_result" where
  "err_answer reason code =
     \<lparr>res_body = None, res_status = code, res_err = Some (StatusErr reason ''error'')\<rparr>"

text \<open>A healthy cluster whose Kong has no API yet: GET of a name is 404, the rest succeeds.\<close>

definition healthy :: "request \<Rightarrow> rest_result" where
  "healthy q = (if srv q = KongAdmin \<and> verb_of q = GET \<and> req_name q \<noteq> None
     then err_answer NotFound 404 else ok_json (JObj []))"

text \<open>The same, but Kong answers every PUT with 409.\<close>

definition conflicting :: "request \<Rightarrow> rest_result" where
  "conflicting q = (if srv q = KongAdmin \<and> verb_of q = PUT then err_answer Conflict 409 else healthy q)"

text \<open>Kong lists the APIs with the given names, on one page.\<close>

definition listing :: "string list \<Rightarrow> request \<Rightarrow> rest_result" where
  "listing names q = (if srv q = KongAdmin \<and> verb_of q = GET \<and> req_name q = None
     then ok_json (JObj [(''data'', JArr (map (\<lambda>n. JObj [(''name'', JStr n)]) names))])
     else healthy q)"

section \<open>Objects\<close>

definition sample_config :: Config where
  "sample_config = \<lparr>KongAdminHost = ''http://kong-admin:8001'', ApiServerHost = '''',
     TLSInsecure = False, CertFile = '''', KeyFile = '''', CAFile = '''',
     ClusterDNS = ''svc.cluster.local'', PodNamespace = ''kong-system'', AutoClaim = False,
     WipeOnDelete = True, ResyncOnFailed = 60, HealthzBindAddress = ''0.0.0.0'', HealthzPort = 20251\<rparr>"

definition mk_domain :: "string \<Rightarrow> string \<Rightarrow> string \<Rightarrow> string \<Rightarrow> DomainPhase \<Rightarrow> Domain" where
  "mk_domain ns name primary sub phase =
     \<lparr>Kind = '''', APIVersion = '''', Name = name, Namespace = ns, ResourceVersion = ''1'',
      Annotations = Map.empty, Finalizers = Some [Finalizer], DeletionTimestamp = None,
      Spec = \<lparr>PrimaryDomain = primary, Sub = sub, Delegates = None, Parent = ''''\<rparr>,
      Status = \<lparr>Phase = phase, Message = '''', Reason = '''', LastUpdateTime = zero_time,
                Status_DeletionTimestamp = None\<rparr>\<rparr>"

definition mk_path :: "string \<Rightarrow> string \<Rightarrow> HTTPIngressPath" where
  "mk_path uri svc = \<lparr>Path = uri, Backend = \<lparr>ServiceName = svc, ServicePort_IntVal = 80\<rparr>\<rparr>"

definition mk_ingress :: "string \<Rightarrow> string \<Rightarrow> IngressRule list \<Rightarrow> Ingress" where
  "mk_ingress ns name rules =
     \<lparr>Kind = '''', APIVersion = '''', Name = name, Namespace = ns, ResourceVersion = ''1'',
      Annotations = Map.empty, Finalizers = None, DeletionTimestamp = None, Rules = rules\<rparr>"

definition mk_service :: "string \<Rightarrow> string \<Rightarrow> gotime option \<Rightarrow> ServicePort list \<Rightarrow> Service" where
  "mk_service ns name deletedAt ports =
     \<lparr>Kind = '''', APIVersion = '''', Name = name, Namespace = ns, ResourceVersion = ''1'',
      Annotations = Map.empty, Finalizers = Some [Finalizer], DeletionTimestamp = deletedAt,
      Ports = ports\<rparr>"

lemmas mk_defs = mk_domain_def mk_path_def mk_ingress_def mk_service_def

definition acme_rule :: IngressRule where
  "acme_rule = \<lparr>Host = ''acme.org'', HTTP = Some [mk_path ''/'' ''web'']\<rparr>"

definition acme_ingress :: Ingress where
  "acme_ingress = mk_ingress ''acme'' ''routes'' [acme_rule]"

definition acme_domain :: Domain where
  "acme_domain = mk_domain ''acme'' ''acme-org'' ''acme.org'' '''' DomainStatusOK"

definition acme_service :: Service where
  "acme_service = mk_service ''acme'' ''web'' None [\<lparr>Port = 80\<rparr>]"

lemmas acme_defs = acme_rule_def acme_ingress_def acme_domain_def acme_service_def

text \<open>Running a handler of the ingress or service controller by simplification.\<close>

lemmas run_defs = go_defs send_def request_error_def valid_segment_def do_raw_def record_event_def
  list_domains_def list_domains_ns_def get_domain_def list_services_def get_service_def
  get_ingress_def time_now_def time_sleep_def

lemmas answer_defs = healthy_def conflicting_def listing_def err_answer_def ok_json_def
  failed_result_def unmarshal_def payload_of_def dec_API_def dec_APIList_def dec_object_def

lemmas ingress_run_defs = run_defs answer_defs syncIngress_def autoclaim_def sync_routes_def
  isClaimed_def sync_rule_def sync_path_def register_route_def apiKong_Get_def
  apiKong_UpdateOrCreate_def autoClaimMaxRetries_def sample_config_def acme_defs mk_defs
  meta_key_def by_namespace_def claims_host_def GetDomain_def GetPrimaryDomain_def Error_def
  route_name_def apiName_def path_uri_def Let_def

lemma GenAdler32Hash_root [simp]: "GenAdler32Hash ''/'' = ''300030''"
  by (simp add: GenAdler32Hash_def adler32_def adler_step_def adler_mod_def show_base_big
      show_base_small digit_char_def char_of_def bit_Suc bit_0 Let_def)

end
