(* ===== verification/Ingress_Safety.thy ===== *)
theory Ingress_Safety
  imports Sample_World
begin

text \<open>
  What the reconciliation of an ingress guarantees: which requests it makes and what it has
  checked before each of them. The central triple is \<open>syncIngress_justified\<close>: a write to Kong
  only happens after every host of the ingress was seen claimed in the namespace of the ingress,
  after the backend service was seen there, and after the finalizer was put on the service.
\<close>

section \<open>Claim check\<close>

definition host_claimed :: "string \<Rightarrow> string \<Rightarrow> act list \<Rightarrow> bool" where
  "host_claimed ns host h \<longleftrightarrow>
     (\<exists>ds d. ReadDomains (Inr ds) \<in> set h \<and> d \<in> set (by_namespace ns ds) \<and> claims_host host d)"

lemma persistent_host_claimed: "persistent (host_claimed ns host)"
  by (auto simp: persistent_def host_claimed_def)

lemma host_claimed_append: "host_claimed ns host t \<Longrightarrow> host_claimed ns host (h @ t)"
  by (auto simp: host_claimed_def)

lemma list_domains_ns_run:
  "list_domains_ns E ns w = (case dom_list E w of (r, w') \<Rightarrow>
     (Done (map_sum id (by_namespace ns) r), [ReadDomains r], w'))"
  by (simp add: list_domains_ns_def list_domains_def go_defs split: prod.splits)

lemma isClaimed_rules_sound:
  "result_of (isClaimed_rules E ns rules) w = Done (Inr (True, x)) \<Longrightarrow>
    \<forall>rule \<in> set rules. host_claimed ns (Host rule) (trace_of (isClaimed_rules E ns rules) w)"
proof (induction rules arbitrary: w)
  case Nil
  then show ?case by simp
next
  case (Cons rule rules)
  obtain r w' where s: "dom_list E w = (r, w')" by (cases "dom_list E w")
  from Cons.prems s obtain ds where r: "r = Inr ds"
    by (cases r) (auto simp: result_of_def tryE_def bnd_def ret_def list_domains_ns_run)
  from Cons.prems s r obtain d where d: "find (claims_host (Host rule)) (by_namespace ns ds) = Some d"
    by (cases "find (claims_host (Host rule)) (by_namespace ns ds)")
      (auto simp: result_of_def tryE_def bnd_def ret_def list_domains_ns_run)
  have run: "isClaimed_rules E ns (rule # rules) w =
      (case isClaimed_rules E ns rules w' of (r, t, w'') \<Rightarrow> (r, ReadDomains (Inr ds) # t, w''))"
    using s r d by (simp add: tryE_def bnd_def list_domains_ns_run)
  have "result_of (isClaimed_rules E ns rules) w' = Done (Inr (True, x))"
    using Cons.prems run by (simp add: result_of_def split: prod.splits)
  from Cons.IH [OF this] have IH: "\<forall>rule \<in> set rules.
      host_claimed ns (Host rule) (trace_of (isClaimed_rules E ns rules) w')" .
  have trace: "trace_of (isClaimed_rules E ns (rule # rules)) w =
      [ReadDomains (Inr ds)] @ trace_of (isClaimed_rules E ns rules) w'"
    using run by (simp add: trace_of_def split: prod.splits)
  have "host_claimed ns (Host rule) [ReadDomains (Inr ds)]"
    using d by (auto simp: host_claimed_def dest!: find_SomeD)
  then have "host_claimed ns (Host rule) (trace_of (isClaimed_rules E ns (rule # rules)) w)"
    unfolding trace using persistent_host_claimed unfolding persistent_def by blast
  with IH show ?case
    unfolding trace by (metis host_claimed_append set_ConsD)
qed

lemma isClaimed_hoare:
  "hoare (\<lambda>_ _. True) H (isClaimed E ing)
    (\<lambda>r h. \<forall>x. r = Inr (True, x) \<longrightarrow> (\<forall>rule \<in> set (Rules ing). host_claimed (Namespace ing) (Host rule) h))"
  by (rule hoare_of_run) (auto simp: isClaimed_def intro: host_claimed_append dest: isClaimed_rules_sound)

section \<open>What each part may emit\<close>

fun kong_write :: "act \<Rightarrow> bool" where
  "kong_write (Call q r) = (srv q = KongAdmin \<and> verb_of q \<noteq> GET)"
| "kong_write _ = False"

lemma kong_write_split:
  assumes "e \<in> set t" "kong_write e"
  shows "\<exists>t1 q res t2. t = t1 @ Call q res # t2 \<and> srv q = KongAdmin \<and> verb_of q \<noteq> GET"
proof -
  obtain t1 t2 where "t = t1 @ e # t2" using split_list [OF assms(1)] by blast
  with assms(2) show ?thesis by (cases e) auto
qed

lemma isClaimed_rules_emits [emits_intros]:
  "(\<And>r. P (ReadDomains r)) \<Longrightarrow> emits_only P (isClaimed_rules E ns rules)"
  by (induction rules) (auto intro!: emits_intros split: option.splits)

lemma isClaimed_emits [emits_intros]:
  "(\<And>r. P (ReadDomains r)) \<Longrightarrow> emits_only P (isClaimed E ing)"
  unfolding isClaimed_def by (intro emits_intros)

lemma setDirty_emits [emits_intros]:
  "(\<And>r. P (Call (core_request PATCH ''ingresses'' (Namespace ing) (Name ing)
      (PatchBody StrategicMergePatch dirty_patch)) r)) \<Longrightarrow> emits_only P (setDirty E ing)"
  unfolding setDirty_def by (intro emits_intros)

text \<open>Auto-claiming writes \<open>domains\<close> of the namespace of the ingress and nothing else.\<close>

fun domain_write_in :: "string \<Rightarrow> act \<Rightarrow> bool" where
  "domain_write_in ns (Call q r) = (srv q = DomainServer \<and> req_namespace q = Some ns)"
| "domain_write_in ns (ReadDomain k r) = True"
| "domain_write_in ns _ = False"

lemma claim_one_emits: "emits_only (domain_write_in (Namespace ing)) (claim_one E ing d)"
  unfolding claim_one_def Let_def by (intro emits_intros) auto

lemma claimDomains_emits: "emits_only (domain_write_in (Namespace ing)) (claimDomains E ing)"
  unfolding claimDomains_def by (intro emits_intros claim_one_emits)

lemma autoclaim_emits:
  "emits_only (\<lambda>e. domain_write_in (Namespace ing) e \<or> e = Sleep 500000000) (autoclaim E cfg ing)"
  unfolding autoclaim_def
  by (intro emits_intros emits_only_mono [OF claimDomains_emits]) auto

section \<open>Justified writes\<close>

text \<open>
  The history justifies the registration of the path \<open>p\<close> of the rule \<open>r\<close> of \<open>ing\<close>: the ingress
  is the one the cache holds for the key, every host of it was seen claimed in its namespace, the
  service was seen in its namespace, and the finalizer patch of the service succeeded.
\<close>

definition finalizer_request :: "Ingress \<Rightarrow> HTTPIngressPath \<Rightarrow> request" where
  "finalizer_request ing p = core_request PATCH ''services'' (Namespace ing) (ServiceName (Backend p))
     (PatchBody StrategicMergePatch add_finalizer_patch)"

definition service_seen :: "Ingress \<Rightarrow> HTTPIngressPath \<Rightarrow> act list \<Rightarrow> bool" where
  "service_seen ing p h \<longleftrightarrow> (\<exists>svcs svc. ReadServices (Inr svcs) \<in> set h \<and> svc \<in> set svcs
     \<and> Name svc = ServiceName (Backend p) \<and> Namespace svc = Namespace ing)"

definition finalizer_set :: "Ingress \<Rightarrow> HTTPIngressPath \<Rightarrow> act list \<Rightarrow> bool" where
  "finalizer_set ing p h \<longleftrightarrow>
     (\<exists>res. Call (finalizer_request ing p) res \<in> set h \<and> res_err res = None)"

definition all_claimed :: "string \<Rightarrow> Ingress \<Rightarrow> act list \<Rightarrow> bool" where
  "all_claimed key ing h \<longleftrightarrow> ReadIngress key (Inr (Some ing)) \<in> set h
     \<and> (\<forall>rule \<in> set (Rules ing). host_claimed (Namespace ing) (Host rule) h)"

definition has_path :: "Ingress \<Rightarrow> IngressRule \<Rightarrow> HTTPIngressPath \<Rightarrow> bool" where
  "has_path ing r p \<longleftrightarrow> r \<in> set (Rules ing) \<and> (\<exists>paths. HTTP r = Some paths \<and> p \<in> set paths)"

definition justified :: "Config \<Rightarrow> string \<Rightarrow> act list \<Rightarrow> act \<Rightarrow> bool" where
  "justified cfg key h e \<longleftrightarrow> (kong_write e \<longrightarrow>
     (\<exists>ing r p api. is_kong_put (api_body cfg ing r p api) e \<and> has_path ing r p
        \<and> all_claimed key ing h \<and> service_seen ing p h \<and> finalizer_set ing p h))"

lemma persistent_all_claimed: "persistent (all_claimed key ing)"
  using persistent_host_claimed by (fastforce simp: persistent_def all_claimed_def)

lemma persistent_seen: "persistent (service_seen ing p)" "persistent (finalizer_set ing p)"
  by (auto simp: persistent_def service_seen_def finalizer_set_def)

lemma justified_other: "\<not> kong_write e \<Longrightarrow> justified cfg key h e"
  by (simp add: justified_def)

lemma kong_get_not_write: "is_kong_get e \<Longrightarrow> \<not> kong_write e"
  by (cases e) auto

lemma register_route_justified:
  assumes "has_path ing r p"
  shows "hoare (justified cfg key)
    (\<lambda>h. (all_claimed key ing h \<and> service_seen ing p h) \<and> finalizer_set ing p h)
    (register_route E cfg ing r p) (\<lambda>_ _. True)"
    (is "hoare _ ?I _ _")
proof -
  have I: "persistent ?I"
    by (intro persistent_intros persistent_all_claimed persistent_seen)
  have get: "hoare (justified cfg key) ?I (apiKong_Get E n) (\<lambda>_ h. ?I h)" for n
    by (rule hoare_weaken [OF hoare_keep [OF I hoare_any [OF kong.get_reads]]])
      (auto intro!: justified_other dest!: kong_get_not_write)
  have put: "hoare (justified cfg key) ?I (apiKong_UpdateOrCreate E (api_body cfg ing r p api))
      (\<lambda>_ _. True)" for api
    by (rule hoare_weaken [OF hoare_stable [OF kong.put_writes, where I = ?I]])
      (use assms I in \<open>auto simp: justified_def persistent_def\<close>)
  show ?thesis
    unfolding register_route_def
    apply (rule hoare_bnd [OF get], rule hoare_case_prod, rule hoare_if)
     apply (rule hoare_any [where P = "\<lambda>e. \<not> kong_write e"])
      apply (intro emits_intros; simp)
     apply (rule justified_other, assumption)
    apply (rule hoare_bnd [OF put], rule hoare_case_prod)
    apply (rule hoare_any [where P = "\<lambda>e. \<not> kong_write e"])
     apply (intro emits_intros; simp)
    apply (rule justified_other, assumption)
    done
qed

lemma sync_path_justified:
  assumes "has_path ing r p"
  shows "hoare (justified cfg key) (all_claimed key ing) (sync_path E cfg ing r p) (\<lambda>_ _. True)"
proof -
  let ?I = "all_claimed key ing"
  have svcs: "hoare (justified cfg key) ?I (list_services E)
      (\<lambda>x h. ?I h \<and> (\<forall>svcs. x = Inr svcs \<longrightarrow> ReadServices (Inr svcs) \<in> set h))"
    unfolding list_services_def
    by (intro hoare_keep persistent_all_claimed hoare_ask) (auto intro: justified_other)
  have patch: "hoare (justified cfg key) (\<lambda>h. ?I h \<and> service_seen ing p h)
      (send E (core_request PATCH ''services'' (Namespace ing) (ServiceName (Backend p))
        (PatchBody StrategicMergePatch add_finalizer_patch)))
      (\<lambda>res h. (?I h \<and> service_seen ing p h) \<and> (res_err res = None \<longrightarrow> finalizer_set ing p h))"
    unfolding send_def
    by (intro hoare_keep persistent_intros persistent_all_claimed persistent_seen hoare_case_option
        hoare_ask hoare_ret)
      (auto simp: failed_result_def finalizer_set_def finalizer_request_def intro: justified_other)
  show ?thesis
    unfolding sync_path_def Let_def
    apply (rule hoare_tryE [OF svcs], simp)
    apply (rule hoare_if)
     apply (rule hoare_any [where P = "\<lambda>e. \<not> kong_write e"])
      apply (intro emits_intros; simp)
     apply (rule justified_other, assumption)
    apply (rule hoare_bnd [OF hoare_pre [OF patch]])
     apply (auto simp: list_ex_iff service_seen_def)[1]
    apply (intro hoare_case_option hoare_ret hoare_pre [OF register_route_justified [OF assms]])
     apply auto
    done
qed

lemma sync_routes_justified:
  "hoare (justified cfg key) (\<lambda>h. ReadIngress key (Inr (Some ing)) \<in> set h)
    (sync_routes E cfg ing n) (\<lambda>_ _. True)"
    (is "hoare _ ?I _ _")
proof -
  have claimed: "hoare (justified cfg key) ?I (isClaimed E ing) (\<lambda>r h. ?I h \<and>
      (\<forall>x. r = Inr (True, x) \<longrightarrow> (\<forall>rule \<in> set (Rules ing). host_claimed (Namespace ing) (Host rule) h)))"
    by (rule hoare_keep [OF persistent_basic(1)],
        rule hoare_from_emits [OF isClaimed_emits [where P = "\<lambda>e. \<not> kong_write e"] _ isClaimed_hoare])
      (auto intro: justified_other)
  have rule: "hoare (justified cfg key) (all_claimed key ing) (sync_rule E cfg ing r) (\<lambda>_ _. True)"
    if "r \<in> set (Rules ing)" for r
    unfolding sync_rule_def
    by (intro hoare_case_option hoare_ret
        hoare_weaken [OF hoare_forE_persistent [OF persistent_all_claimed sync_path_justified]])
      (use that in \<open>auto simp: has_path_def\<close>)
  show ?thesis
    unfolding sync_routes_def
    apply (rule hoare_tryE [OF claimed], simp)
    apply (rule hoare_case_prod, rule hoare_if)
     apply (rule hoare_any [where P = "\<lambda>e. \<not> kong_write e"])
      apply (intro emits_intros; simp)
     apply (rule justified_other, assumption)
    apply (rule hoare_weaken [OF hoare_forE_persistent [OF persistent_all_claimed rule]])
      apply (auto simp: all_claimed_def)
    done
qed

text \<open>The central triple.\<close>

lemma syncIngress_justified:
  "hoare (justified cfg key) (\<lambda>_. True) (syncIngress E cfg key n) (\<lambda>_ _. True)"
proof -
  let ?I = "\<lambda>ing h. ReadIngress key (Inr (Some ing)) \<in> set h"
  have read: "hoare (justified cfg key) (\<lambda>_. True) (get_ingress E key)
      (\<lambda>r h. \<forall>ing. r = Inr (Some ing) \<longrightarrow> ?I ing h)"
    unfolding get_ingress_def by (rule hoare_ask) (auto intro: justified_other)
  have dirty: "hoare (justified cfg key) (?I ing)
      (if autoClaimMaxRetries < n then bnd (setDirty E ing) (\<lambda>_. ret ()) else ret ()) (\<lambda>_. ?I ing)" for ing
    by (rule hoare_stable [where P = "\<lambda>e. \<not> kong_write e"], intro emits_intros)
      (auto intro: justified_other)
  have claim: "hoare (justified cfg key) (?I ing) (autoclaim E cfg ing) (\<lambda>_. ?I ing)" for ing
  proof (rule hoare_stable [OF autoclaim_emits])
    fix h e
    assume "domain_write_in (Namespace ing) e \<or> e = Sleep 500000000"
    then show "justified cfg key h e"
      by (cases e) (auto intro: justified_other)
  qed simp
  show ?thesis
    unfolding syncIngress_def
    apply (rule hoare_tryE [OF read], simp)
    apply (rule hoare_case_option)
     apply (rule hoare_ret, simp)
    apply (rule hoare_bnd [OF hoare_pre [OF dirty]], simp)
    apply (rule hoare_tryE [OF claim], simp)
    apply (rule sync_routes_justified)
    done
qed

section \<open>Properties\<close>

text \<open>
  C1: a write to Kong made while reconciling an ingress is the registration of one of its paths,
  and by then every host of the ingress was seen claimed (phase OK) by a \<open>Domain\<close> of its own
  namespace, its backend service was seen in that namespace, and the finalizer that will clean
  the route up was successfully put on the service.
\<close>

theorem syncIngress_write_justified:
  assumes "trace_of (syncIngress E cfg key n) w = t1 @ Call q res # t2"
    and "srv q = KongAdmin" and "verb_of q \<noteq> GET"
  shows "\<exists>ing r p api. q = kong_request PUT None (JsonBody (enc_API (api_body cfg ing r p api)))
    \<and> has_path ing r p \<and> ReadIngress key (Inr (Some ing)) \<in> set t1
    \<and> (\<forall>rule \<in> set (Rules ing). \<exists>ds d. ReadDomains (Inr ds) \<in> set t1
         \<and> d \<in> set (by_namespace (Namespace ing) ds)
         \<and> Phase (Status d) = DomainStatusOK \<and> GetDomain d = Host rule)
    \<and> service_seen ing p t1 \<and> finalizer_set ing p t1"
proof -
  have "justified cfg key t1 (Call q res)"
    using hoareD [OF syncIngress_justified _ assms(1)] by simp
  then show ?thesis
    using assms(2,3) by (fastforce simp: justified_def all_claimed_def host_claimed_def claims_host_def)
qed

lemma syncIngress_write_justified_witness:
  "\<exists>t1 q res t2 ing r p api.
    trace_of (syncIngress (static_env healthy [acme_domain] [acme_service] [acme_ingress])
      sample_config ''acme/routes'' 0) () = t1 @ Call q res # t2
    \<and> q = kong_request PUT None (JsonBody (enc_API (api_body sample_config ing r p api)))
    \<and> has_path ing r p \<and> finalizer_set ing p t1"
proof -
  let ?t = "trace_of (syncIngress (static_env healthy [acme_domain] [acme_service] [acme_ingress])
      sample_config ''acme/routes'' 0) ()"
  have "\<exists>e \<in> set ?t. kong_write e"
    by (simp add: ingress_run_defs trace_of_def)
  then obtain e where "e \<in> set ?t" "kong_write e" by blast
  then obtain t1 q res t2 where t: "?t = t1 @ Call q res # t2" and q: "srv q = KongAdmin" "verb_of q \<noteq> GET"
    using kong_write_split by blast
  from syncIngress_write_justified [OF t q] t show ?thesis by blast
qed

section \<open>A successful run registers every path\<close>

definition route_put :: "Config \<Rightarrow> Ingress \<Rightarrow> IngressRule \<Rightarrow> HTTPIngressPath \<Rightarrow> act list \<Rightarrow> bool" where
  "route_put cfg ing r p h \<longleftrightarrow> (\<exists>api res. Call (kong_request PUT None
     (JsonBody (enc_API (api_body cfg ing r p api)))) res \<in> set h \<and> res_err res = None)"

lemma persistent_route_put: "persistent (route_put cfg ing r p)"
  by (auto simp: persistent_def route_put_def)

lemma register_route_done:
  "hoare (\<lambda>_ _. True) H (register_route E cfg ing r p) (\<lambda>x h. x = Inr () \<longrightarrow> route_put cfg ing r p h)"
proof -
  have put: "hoare (\<lambda>_ _. True) H' (apiKong_UpdateOrCreate E (api_body cfg ing r p api))
      (\<lambda>x h. fst x \<noteq> None \<longrightarrow> route_put cfg ing r p h)" for api H'
    by (rule hoare_of_run) (use kong.put_done in \<open>fastforce simp: route_put_def\<close>)+
  have keep: "hoare (\<lambda>_ _. True) (\<lambda>h. b \<longrightarrow> route_put cfg ing r p h) m
      (\<lambda>_ h. (b \<longrightarrow> route_put cfg ing r p h) \<and> True)" for b and m :: "('w, unit) run"
    by (rule hoare_keep [OF _ hoare_true]) (use persistent_route_put in \<open>auto simp: persistent_def\<close>)
  show ?thesis
    unfolding register_route_def
    apply (rule hoare_bnd [OF hoare_true], rule hoare_case_prod, rule hoare_if)
     apply (rule hoare_bnd [OF hoare_true], rule hoare_ret, simp)
    apply (rule hoare_bnd [OF put], rule hoare_case_prod, rule hoare_if)
     apply (rule hoare_bnd [OF hoare_true], rule hoare_ret, simp)
    apply (rule hoare_bnd [OF keep])
    apply (intro hoare_case_option hoare_panic hoare_ret)
    apply simp
    done
qed

lemma sync_path_done:
  "hoare (\<lambda>_ _. True) H (sync_path E cfg ing r p) (\<lambda>x h. x = Inr () \<longrightarrow> route_put cfg ing r p h)"
  unfolding sync_path_def Let_def
  apply (rule hoare_tryE [OF hoare_true], simp)
  apply (rule hoare_if)
   apply (rule hoare_bnd [OF hoare_true], rule hoare_ret, simp)
  apply (rule hoare_bnd [OF hoare_true])
  apply (intro hoare_case_option hoare_ret hoare_pre [OF register_route_done]; simp)
  done

definition routes_put :: "Config \<Rightarrow> Ingress \<Rightarrow> act list \<Rightarrow> bool" where
  "routes_put cfg ing h \<longleftrightarrow> (\<forall>r p. has_path ing r p \<longrightarrow> route_put cfg ing r p h)"

lemma sync_routes_done:
  "hoare (\<lambda>_ _. True) H (sync_routes E cfg ing n) (\<lambda>x h. x = Inr () \<longrightarrow> routes_put cfg ing h)"
proof -
  let ?R = "\<lambda>r h. \<forall>p. has_path ing r p \<longrightarrow> route_put cfg ing r p h"
  have R: "persistent (?R r)" for r
    using persistent_route_put unfolding persistent_def by blast
  have paths: "hoare (\<lambda>_ _. True) (\<lambda>_. True) (forE (sync_path E cfg ing r) ps)
      (\<lambda>x h. True \<and> (x = Inr () \<longrightarrow> (\<forall>p \<in> set ps. route_put cfg ing r p h)))" for r ps
    by (rule hoare_forE_each [OF persistent_basic(2) persistent_route_put sync_path_done])
  have rule: "hoare (\<lambda>_ _. True) (\<lambda>_. True) (sync_rule E cfg ing r) (\<lambda>x h. x = Inr () \<longrightarrow> ?R r h)" for r
    unfolding sync_rule_def
    by (intro hoare_case_option hoare_ret hoare_weaken [OF paths]) (auto simp: has_path_def)
  have rules: "hoare (\<lambda>_ _. True) (\<lambda>_. True) (forE (sync_rule E cfg ing) (Rules ing))
      (\<lambda>x h. True \<and> (x = Inr () \<longrightarrow> (\<forall>r \<in> set (Rules ing). ?R r h)))"
    by (rule hoare_forE_each [OF persistent_basic(2) R rule])
  show ?thesis
    unfolding sync_routes_def
    apply (rule hoare_tryE [OF hoare_true], simp)
    apply (rule hoare_case_prod, rule hoare_if)
     apply (rule hoare_bnd [OF hoare_true], rule hoare_ret, simp)
    apply (rule hoare_weaken [OF rules])
     apply (auto simp: routes_put_def has_path_def)
    done
qed

text \<open>
  When the reconciliation of a cached ingress returns nil, Kong has accepted, in this very run,
  a registration for each path of each rule, with the name, host, URI and upstream of that path.
\<close>

lemma syncIngress_complete:
  assumes "ing_get E key w = (Inr (Some ing), w1)"
    and "result_of (syncIngress E cfg key n) w = Done (Inr ())" "has_path ing r p"
  shows "\<exists>api res. Call (kong_request PUT None (JsonBody (enc_API (api_body cfg ing r p api)))) res
      \<in> set (trace_of (syncIngress E cfg key n) w) \<and> res_err res = None"
proof -
  let ?body = "bnd (if autoClaimMaxRetries < n then bnd (setDirty E ing) (\<lambda>_. ret ()) else ret ())
    (\<lambda>_. tryE id (autoclaim E cfg ing) (\<lambda>_. sync_routes E cfg ing n))"
  have post: "hoare (\<lambda>_ _. True) (\<lambda>_. True) ?body (\<lambda>x h. x = Inr () \<longrightarrow> routes_put cfg ing h)"
    by (rule hoare_bnd [OF hoare_true], rule hoare_tryE [OF hoare_true], simp, rule sync_routes_done)
  have run: "syncIngress E cfg key n w =
      (case ?body w1 of (x, t, w') \<Rightarrow> (x, ReadIngress key (Inr (Some ing)) # t, w'))"
    using assms(1) by (simp add: syncIngress_def get_ingress_def tryE_def bnd_def ask_def)
  then have "result_of ?body w1 = Done (Inr ())"
    using assms(2) by (auto simp: result_of_def split: prod.splits)
  from hoare_post [OF post _ this] have "routes_put cfg ing (trace_of ?body w1)" by simp
  moreover have "set (trace_of ?body w1) \<subseteq> set (trace_of (syncIngress E cfg key n) w)"
    using run by (auto simp: trace_of_def split: prod.splits)
  ultimately show ?thesis
    using assms(3) unfolding routes_put_def route_put_def by blast
qed

lemma syncIngress_complete_witness:
  "\<exists>api res. Call (kong_request PUT None (JsonBody (enc_API (api_body sample_config acme_ingress acme_rule
        (mk_path ''/'' ''web'') api)))) res
      \<in> set (trace_of (syncIngress (static_env healthy [acme_domain] [acme_service] [acme_ingress])
          sample_config ''acme/routes'' 0) ()) \<and> res_err res = None"
proof (rule syncIngress_complete [where ing = acme_ingress])
  show "result_of (syncIngress (static_env healthy [acme_domain] [acme_service] [acme_ingress])
      sample_config ''acme/routes'' 0) () = Done (Inr ())"
    by (simp add: ingress_run_defs result_of_def)
qed (simp_all add: has_path_def acme_defs mk_defs meta_key_def)

text \<open>How the claim check ends when the cache does not change under it.\<close>

lemma isClaimed_rules_static:
  assumes "\<And>w. \<exists>w'. dom_list E w = (Inr ds, w')"
  shows "rule \<in> set rules \<Longrightarrow> \<forall>d \<in> set (by_namespace ns ds). \<not> claims_host (Host rule) d
    \<Longrightarrow> \<exists>host t w'. isClaimed_rules E ns rules w = (Done (Inr (False, host)), t, w')"
proof (induction rules arbitrary: w)
  case Nil
  then show ?case by simp
next
  case (Cons r rules)
  obtain w' where w': "dom_list E w = (Inr ds, w')" using assms by blast
  show ?case
  proof (cases "find (claims_host (Host r)) (by_namespace ns ds)")
    case None
    with w' show ?thesis
      by (simp add: tryE_def bnd_def ret_def list_domains_ns_run)
  next
    case (Some d)
    then have "claims_host (Host r) d \<and> d \<in> set (by_namespace ns ds)"
      by (auto dest: find_SomeD)
    with Cons.prems have "rule \<in> set rules" by auto
    with Cons.IH [of w'] Cons.prems(2) obtain host t w'' where
      "isClaimed_rules E ns rules w' = (Done (Inr (False, host)), t, w'')" by blast
    with w' Some show ?thesis
      by (simp add: tryE_def bnd_def list_domains_ns_run)
  qed
qed

text \<open>
  C22: over a cache that holds \<open>ds\<close>, the claim check of an ingress answers exactly the question
  whether each of its hosts has an OK claim of that full name in the namespace of the ingress.
\<close>

theorem isClaimed_exact:
  assumes "\<And>w. \<exists>w'. dom_list E w = (Inr ds, w')"
  shows "(\<exists>x. result_of (isClaimed E ing) w = Done (Inr (True, x))) \<longleftrightarrow>
    (\<forall>rule \<in> set (Rules ing). \<exists>d \<in> set (by_namespace (Namespace ing) ds).
       Phase (Status d) = DomainStatusOK \<and> GetDomain d = Host rule)"
    (is "_ \<longleftrightarrow> ?all (Rules ing)")
proof -
  have "?all rules \<Longrightarrow> \<exists>t w'. isClaimed_rules E (Namespace ing) rules w = (Done (Inr (True, '''')), t, w')" for rules
  proof (induction rules arbitrary: w)
    case Nil
    then show ?case by (simp add: ret_def)
  next
    case (Cons r rules)
    obtain w' where w': "dom_list E w = (Inr ds, w')" using assms by blast
    from Cons.prems have "find (claims_host (Host r)) (by_namespace (Namespace ing) ds) \<noteq> None"
      by (auto simp: find_None_iff claims_host_def)
    with w' Cons.IH [of w'] Cons.prems show ?case
      by (auto simp: tryE_def bnd_def list_domains_ns_run)
  qed
  then have "?all (Rules ing) \<Longrightarrow> \<exists>x. result_of (isClaimed E ing) w = Done (Inr (True, x))"
    unfolding isClaimed_def result_of_def by (metis fst_conv)
  moreover have "?all (Rules ing)" if x: "result_of (isClaimed E ing) w = Done (Inr (True, x))" for x
  proof (rule ccontr)
    assume "\<not> ?all (Rules ing)"
    then obtain rule where "rule \<in> set (Rules ing)"
      "\<forall>d \<in> set (by_namespace (Namespace ing) ds). \<not> claims_host (Host rule) d"
      by (auto simp: claims_host_def)
    from isClaimed_rules_static [OF assms this, of w] x show False
      by (auto simp: isClaimed_def result_of_def)
  qed
  ultimately show ?thesis by blast
qed

lemma isClaimed_exact_witness:
  "\<exists>x. result_of (isClaimed (static_env healthy [acme_domain] [] []) acme_ingress) () = Done (Inr (True, x))"
proof -
  have "(\<exists>x. result_of (isClaimed (static_env healthy [acme_domain] [] []) acme_ingress) () = Done (Inr (True, x)))
    \<longleftrightarrow> (\<forall>rule \<in> set (Rules acme_ingress). \<exists>d \<in> set (by_namespace (Namespace acme_ingress) [acme_domain]).
       Phase (Status d) = DomainStatusOK \<and> GetDomain d = Host rule)"
    by (rule isClaimed_exact) simp
  then show ?thesis
    by (simp add: acme_defs mk_defs by_namespace_def GetDomain_def GetPrimaryDomain_def)
qed

text \<open>
  Without auto-claim, an ingress with a host that no \<open>Domain\<close> of its namespace claims is
  refused with an error (so the key is retried), and the attempt makes no request at all.
\<close>

lemma syncIngress_unclaimed_refused:
  assumes "\<And>w. \<exists>w'. dom_list E w = (Inr ds, w')" and "ing_get E key w = (Inr (Some ing), w1)"
    and "\<not> AutoClaim cfg" and "n \<le> autoClaimMaxRetries" and "rule \<in> set (Rules ing)"
    and "\<forall>d \<in> set (by_namespace (Namespace ing) ds). \<not> claims_host (Host rule) d"
  shows "(\<exists>e. result_of (syncIngress E cfg key n) w = Done (Inl e))
    \<and> (\<forall>q res. Call q res \<notin> set (trace_of (syncIngress E cfg key n) w))"
proof -
  obtain host t w2 where claim: "isClaimed E ing w1 = (Done (Inr (False, host)), t, w2)"
    using isClaimed_rules_static [OF assms(1,5,6)] unfolding isClaimed_def by blast
  have "emits_only (\<lambda>e. \<forall>q r. e \<noteq> Call q r) (isClaimed E ing)"
    by (intro emits_intros) simp
  from emits_onlyD [OF this, of _ w1] have "\<forall>q r. Call q r \<notin> set t"
    by (auto simp: trace_of_def claim)
  with assms(2-4) claim show ?thesis
    by (auto simp: syncIngress_def sync_routes_def autoclaim_def get_ingress_def record_event_def
        go_defs result_of_def trace_of_def)
qed

lemma syncIngress_unclaimed_refused_witness:
  "\<exists>e. result_of (syncIngress (static_env healthy [] [acme_service] [acme_ingress])
      sample_config ''acme/routes'' 0) () = Done (Inl e)"
proof -
  have "(\<exists>e. result_of (syncIngress (static_env healthy [] [acme_service] [acme_ingress])
        sample_config ''acme/routes'' 0) () = Done (Inl e))
    \<and> (\<forall>q res. Call q res \<notin> set (trace_of (syncIngress (static_env healthy [] [acme_service] [acme_ingress])
        sample_config ''acme/routes'' 0) ()))"
    by (rule syncIngress_unclaimed_refused [where ds = "[]" and ing = acme_ingress and rule = acme_rule])
      (simp_all add: sample_config_def acme_defs mk_defs meta_key_def by_namespace_def)
  then show ?thesis ..
qed

text \<open>
  C40: if Kong answers the registration of a route with a conflict, the controller dereferences
  the nil API that \<open>UpdateOrCreate\<close> returned with the error, although the code means to tolerate
  a conflict. The panic leaves the worker and, \<open>HandleCrash\<close> re-panicking, the process.
\<close>

theorem register_route_conflict_panics:
  assumes "valid_segment (route_name ing r p)" and "route_name ing r p \<noteq> ''''"
    and "do_request E (kong_request GET (Some (route_name ing r p)) NoBody) w = (r1, w1)"
    and "res_err r1 = Some e1" and "IsNotFound e1"
    and "do_request E (kong_request PUT None (JsonBody (enc_API (api_body cfg ing r p None)))) w1
      = (r2, w2)"
    and "res_err r2 = Some e2" and "IsConflict e2"
  shows "result_of (register_route E cfg ing r p) w = Panic ''nil pointer dereference''"
  using assms
  by (simp add: register_route_def apiKong_Get_def apiKong_UpdateOrCreate_def send_def
      request_error_def Error_def go_defs result_of_def)

lemma register_route_conflict_panics_witness:
  "result_of (register_route (static_env conflicting [acme_domain] [acme_service] [acme_ingress])
      sample_config acme_ingress acme_rule (mk_path ''/'' ''web'')) () = Panic ''nil pointer dereference''"
  by (rule register_route_conflict_panics [where ?e1.0 = "StatusErr NotFound ''error''"
        and ?e2.0 = "StatusErr Conflict ''error''" and ?r1.0 = "err_answer NotFound 404"
        and ?r2.0 = "err_answer Conflict 409"])
    (simp_all add: ingress_run_defs)

text \<open>
  The name of a Kong API identifies the namespace that registered it and the host: routes of
  two namespaces, or of two hosts, never share a name, so none overwrites the other.
\<close>

lemma route_name_separates:
  assumes "route_name ing r p = route_name ing' r' p'"
    and "CHR ''~'' \<notin> set (Host r) \<union> set (Host r') \<union> set (Namespace ing) \<union> set (Namespace ing')"
  shows "Host r = Host r' \<and> Namespace ing = Namespace ing'
    \<and> adler32 (path_uri p) = adler32 (path_uri p')"
proof -
  have "split_on CHR ''~'' (route_name ing r p) = split_on CHR ''~'' (route_name ing' r' p')"
    using assms(1) by simp
  with assms(2) show ?thesis
    by (simp add: route_name_def split_apiName GenAdler32Hash_eq_iff)
qed

lemma route_name_separates_witness:
  "Host acme_rule = Host acme_rule \<and> Namespace acme_ingress = Namespace acme_ingress
    \<and> adler32 (path_uri (mk_path ''/'' ''web'')) = adler32 (path_uri (mk_path '''' ''web''))"
  by (rule route_name_separates) (simp_all add: acme_defs mk_defs route_name_def path_uri_def)

text \<open>
  Two different paths of one host can have the same API name, because Adler-32 collides on
  short paths: \<open>/aca\<close> and \<open>/bab\<close>. The second route registered then replaces the first.
\<close>

lemma route_name_path_collision:
  "\<exists>p p'. path_uri p \<noteq> path_uri p' \<and> Backend p = Backend p' \<and>
    (\<forall>ing r. route_name ing r p = route_name ing r p')"
proof -
  have "adler32 ''/aca'' = adler32 ''/bab''"
    by (simp add: adler32_def adler_step_def adler_mod_def Let_def)
  then have "route_name ing r (mk_path ''/aca'' ''web'') = route_name ing r (mk_path ''/bab'' ''web'')"
    for ing r
    by (simp add: route_name_def apiName_def path_uri_def mk_path_def GenAdler32Hash_def)
  moreover have "path_uri (mk_path ''/aca'' ''web'') \<noteq> path_uri (mk_path ''/bab'' ''web'')"
    by (simp add: path_uri_def mk_path_def)
  moreover have "Backend (mk_path ''/aca'' ''web'') = Backend (mk_path ''/bab'' ''web'')"
    by (simp add: mk_path_def)
  ultimately show ?thesis by blast
qed

text \<open>
  Auto-claiming a host whose claim is already in the cache with another spec replaces the
  whole spec by the generated one: whatever \<open>delegates\<close> the claim had are dropped, in one PUT.
\<close>

lemma autoclaim_drops_delegates:
  assumes "IsValidDomain (claim_of_host ing host)"
    and "dom_get E (meta_key (claim_of_host ing host)) w = (Inr (Some dm), w1)"
    and "Delegates (Spec dm) \<noteq> None" and "valid_segment (Name dm)" "Name dm \<noteq> ''''"
    and "valid_segment (Namespace ing)"
  shows "\<exists>d' res. trace_of (claim_one E ing (claim_of_host ing host)) w =
      [ReadDomain (meta_key (claim_of_host ing host)) (Inr (Some dm)),
       Call (domain_request PUT (Namespace ing) (Some (Name dm)) (DomainBody d')) res]
    \<and> Delegates (Spec d') = None"
proof -
  have spec: "Spec dm \<noteq> Spec (claim_of_host ing host)"
    using assms(3) by (auto dest: arg_cong [of _ _ Delegates])
  show ?thesis
    using assms spec
    by (auto simp: claim_one_def get_domain_def do_raw_def send_def request_error_def go_defs trace_of_def
        Let_def split: prod.splits option.splits)
qed

definition delegating_domain :: Domain where
  "delegating_domain =
     (let d = mk_domain ''acme'' ''acme-org'' ''acme.org'' '''' DomainStatusOK
      in d\<lparr>Spec := (Spec d)\<lparr>Delegates := Some [''coyote'']\<rparr>\<rparr>)"

lemma autoclaim_drops_delegates_witness:
  "\<exists>d' res. trace_of (claim_one (static_env healthy [delegating_domain] [] []) acme_ingress
       (claim_of_host acme_ingress ''acme.org'')) () =
      [ReadDomain (meta_key (claim_of_host acme_ingress ''acme.org'')) (Inr (Some delegating_domain)),
       Call (domain_request PUT (Namespace acme_ingress) (Some (Name delegating_domain)) (DomainBody d')) res]
    \<and> Delegates (Spec d') = None"
  by (rule autoclaim_drops_delegates)
    (simp_all add: delegating_domain_def Let_def acme_defs mk_defs meta_key_def genMetaName_map
      IsValidDomain_iff claim_of_host_def extractPrimaryFromHost_def map_get_def valid_segment_def)

end
