(* ===== verification/Domain_Actions.thy ===== *)
theory Domain_Actions
  imports Ingress_Controller
begin

text \<open>
  The contract of \<open>syncDomain\<close>: the inductive predicate \<open>domain_action cfg key h e\<close> lists every
  kind of write the reconciliation of a domain may make, each with what must have been read or
  done before it (the history \<open>h\<close>). \<open>syncDomain_refines\<close> proves that the code only ever makes
  such writes; the safety properties of the domain controller are consequences of the rules.
\<close>

lemmas phase_defs = DomainStatusNew_def DomainStatusPending_def DomainStatusOK_def DomainStatusFailed_def

declare phase_defs [simp del] IsPrimary_iff [simp del]

section \<open>Facts of the history\<close>

definition reconciled :: "string \<Rightarrow> Domain \<Rightarrow> act list \<Rightarrow> bool" where
  "reconciled key d h \<longleftrightarrow> ReadDomain key (Inr (Some d)) \<in> set h"

definition gone :: "string \<Rightarrow> act list \<Rightarrow> bool" where
  "gone key h \<longleftrightarrow> ReadDomain key (Inr None) \<in> set h"

definition snapshot :: "Domain list \<Rightarrow> act list \<Rightarrow> bool" where
  "snapshot ds h \<longleftrightarrow> ReadDomains (Inr ds) \<in> set h"

definition call_ok :: "request \<Rightarrow> act list \<Rightarrow> bool" where
  "call_ok q h \<longleftrightarrow> (\<exists>r. Call q r \<in> set h \<and> res_err r = None)"

lemma persistent_facts [persistent_intros]:
  "persistent (reconciled key d)" "persistent (gone key)" "persistent (snapshot ds)"
  "persistent (call_ok q)" "persistent (\<lambda>h. \<exists>r. Call q r \<in> set h \<and> res_err r = None)"
  "persistent (\<lambda>h. \<forall>x \<in> S. R x \<longrightarrow> purged (f x) h)"
  using persistent_purged
  by (auto simp: persistent_def reconciled_def gone_def snapshot_def call_ok_def)

lemmas persistent_call = persistent_facts(5)

section \<open>The requests\<close>

definition active :: "Domain \<Rightarrow> bool" where
  "active d \<longleftrightarrow> IsValidDomain d \<and> \<not> IsMarkedForDeletion d"

definition doomed :: "Domain \<Rightarrow> bool" where
  "doomed d \<longleftrightarrow> IsValidDomain d \<and> IsMarkedForDeletion d"

definition set_status :: "Domain \<Rightarrow> string \<Rightarrow> string \<Rightarrow> DomainPhase \<Rightarrow> gotime \<Rightarrow> Domain" where
  "set_status d reason message phase t = d\<lparr>Status := (Status d)\<lparr>Phase := phase, Reason := reason,
     Message := message, LastUpdateTime := t\<rparr>\<rparr>"

definition pending_claim :: "Domain \<Rightarrow> Domain" where
  "pending_claim d = d\<lparr>Status := (Status d)\<lparr>Phase := DomainStatusPending\<rparr>,
     Finalizers := Some [Finalizer]\<rparr>"

definition domain_put :: "Domain \<Rightarrow> request" where
  "domain_put d = domain_request PUT (Namespace d) (Some (Name d)) (DomainBody d)"

definition release_request :: "Domain \<Rightarrow> request" where
  "release_request d = domain_request PATCH (Namespace d) (Some (Name d))
     (PatchBody MergePatch no_finalizers_patch)"

definition remove_request :: "Domain \<Rightarrow> request" where
  "remove_request d = domain_request DELETE (Namespace d) (Some (Name d)) NoBody"

definition kong_delete :: "string \<Rightarrow> request" where
  "kong_delete n = kong_request DELETE (Some n) NoBody"

lemma is_kong_delete_iff: "is_kong_delete n e \<longleftrightarrow> (\<exists>r. e = Call (kong_delete n) r)"
  by (cases e) (auto simp: kong_delete_def)

text \<open>The pattern of the APIs of a domain, and the names it matches.\<close>

definition routes_of :: "Domain \<Rightarrow> string \<Rightarrow> bool" where
  "routes_of d n \<longleftrightarrow> (\<exists>re. re_compile (host_pattern d) = ReOk re \<and> re_match re n)"

definition rival :: "Domain \<Rightarrow> Domain \<Rightarrow> bool" where
  "rival d dm \<longleftrightarrow> \<not> same_resource d dm \<and> IsPrimary dm \<and> GetPrimaryDomain dm = GetPrimaryDomain d"

section \<open>The contract\<close>

inductive domain_action :: "Config \<Rightarrow> string \<Rightarrow> act list \<Rightarrow> act \<Rightarrow> bool" for cfg key h where
  no_write: "\<not> writes e \<Longrightarrow> domain_action cfg key h e"
| claim: "reconciled key d h \<Longrightarrow> active d \<Longrightarrow> Phase (Status d) = DomainStatusNew
    \<Longrightarrow> domain_action cfg key h (Call (domain_put (pending_claim d)) r)"
| invalid: "reconciled key d h \<Longrightarrow> \<not> IsValidDomain d
    \<Longrightarrow> domain_action cfg key h (Call (domain_put (set_status d rs m DomainStatusFailed t)) r)"
| primary_ok: "reconciled key d h \<Longrightarrow> active d \<Longrightarrow> Phase (Status d) = DomainStatusPending
    \<Longrightarrow> IsPrimary d \<Longrightarrow> ReadDomains l \<in> set h \<Longrightarrow> (\<forall>ds. l = Inr ds \<longrightarrow> (\<forall>dm \<in> set ds. \<not> rival d dm))
    \<Longrightarrow> domain_action cfg key h (Call (domain_put (set_status d rs m DomainStatusOK t)) r)"
| primary_conflict: "reconciled key d h \<Longrightarrow> active d \<Longrightarrow> Phase (Status d) = DomainStatusPending
    \<Longrightarrow> IsPrimary d \<Longrightarrow> snapshot ds h \<Longrightarrow> dm \<in> set ds \<Longrightarrow> rival d dm
    \<Longrightarrow> domain_action cfg key h (Call (domain_put (set_status d rs m DomainStatusFailed t)) r)"
| shared_ok: "reconciled key d h \<Longrightarrow> active d \<Longrightarrow> Phase (Status d) = DomainStatusPending
    \<Longrightarrow> \<not> IsPrimary d \<Longrightarrow> found_in d (PodNamespace cfg) h p
    \<Longrightarrow> domain_action cfg key h (Call (domain_put (set_status d rs m DomainStatusOK t)) r)"
| shared_orphan: "reconciled key d h \<Longrightarrow> active d
    \<Longrightarrow> Phase (Status d) = DomainStatusPending \<or> Phase (Status d) = DomainStatusOK
    \<Longrightarrow> \<not> IsPrimary d \<Longrightarrow> nothing_grants d (Namespace d) h
    \<Longrightarrow> domain_action cfg key h (Call (domain_put (set_status d rs m DomainStatusFailed t)) r)"
| retry: "reconciled key d h \<Longrightarrow> active d
    \<Longrightarrow> Phase (Status d) \<notin> {DomainStatusNew, DomainStatusPending, DomainStatusOK}
    \<Longrightarrow> ReadClock t0 \<in> set h \<Longrightarrow> IsUpdateExpired d (resync_after cfg) t0
    \<Longrightarrow> ph = (if HasKongFinalizer d then DomainStatusPending else DomainStatusNew)
    \<Longrightarrow> domain_action cfg key h (Call (domain_put (set_status d rs m ph t)) r)"
| purge_api: "reconciled key d h \<Longrightarrow> doomed d \<Longrightarrow> IsPrimary d \<Longrightarrow> snapshot ds h \<Longrightarrow> dm \<in> set ds
    \<Longrightarrow> GetPrimaryDomain dm = GetPrimaryDomain d \<Longrightarrow> routes_of dm n
    \<Longrightarrow> domain_action cfg key h (Call (kong_delete n) r)"
| purge_status: "reconciled key d h \<Longrightarrow> doomed d \<Longrightarrow> IsPrimary d \<Longrightarrow> snapshot ds h \<Longrightarrow> dm \<in> set ds
    \<Longrightarrow> GetPrimaryDomain dm = GetPrimaryDomain d \<Longrightarrow> purged (host_pattern dm) h
    \<Longrightarrow> domain_action cfg key h (Call (domain_put (set_status dm rs m DomainStatusFailed t)) r)"
| release: "reconciled key d h \<Longrightarrow> doomed d \<Longrightarrow> snapshot ds h
    \<Longrightarrow> (\<forall>dm \<in> set ds. IsPrimary d \<and> GetPrimaryDomain dm = GetPrimaryDomain d
          \<longrightarrow> purged (host_pattern dm) h)
    \<Longrightarrow> domain_action cfg key h (Call (release_request d) r)"
| remove: "reconciled key d h \<Longrightarrow> doomed d \<Longrightarrow> call_ok (release_request d) h
    \<Longrightarrow> domain_action cfg key h (Call (remove_request d) r)"
| wipe_api: "gone key h \<Longrightarrow> WipeOnDelete cfg \<Longrightarrow> snapshot ds h \<Longrightarrow> dm \<in> set ds \<Longrightarrow> isOKShared dm
    \<Longrightarrow> nothing_grants dm (Namespace dm) h \<Longrightarrow> routes_of dm n
    \<Longrightarrow> domain_action cfg key h (Call (kong_delete n) r)"
| wipe_status: "gone key h \<Longrightarrow> WipeOnDelete cfg \<Longrightarrow> snapshot ds h \<Longrightarrow> dm \<in> set ds \<Longrightarrow> isOKShared dm
    \<Longrightarrow> nothing_grants dm (Namespace dm) h
    \<Longrightarrow> domain_action cfg key h (Call (domain_put (set_status dm rs m DomainStatusFailed t)) r)"
| sweep: "gone key h \<Longrightarrow> WipeOnDelete cfg \<Longrightarrow> snapshot ds h \<Longrightarrow> (\<forall>dm \<in> set ds. GetDomain dm \<noteq> host)
    \<Longrightarrow> split_on CHR ''~'' n = [host, ns, hash]
    \<Longrightarrow> domain_action cfg key h (Call (kong_delete n) r)"

section \<open>Status updates and purges\<close>

lemma updateDomainStatus_emits [emits_intros]:
  assumes "\<And>t. P (ReadClock t)"
    and "\<And>t r. P (Call (domain_put (set_status d reason message phase t)) r)"
  shows "emits_only P (updateDomainStatus E d reason message phase)"
  unfolding updateDomainStatus_def Let_def
  by (intro emits_intros) (use assms in \<open>auto simp: domain_put_def set_status_def\<close>)

lemma purge_emits:
  "emits_only (\<lambda>e. is_kong_get e \<or> e = ApisTotalDec \<or> (\<exists>n r. routes_of dm n \<and> e = Call (kong_delete n) r))
    (tryE wrap0 (apiKong_ListByRegexp E None (host_pattern dm))
      (\<lambda>l. delete_apis (apiKong_Delete E) wrap (Items l)))"
  by (rule emits_only_mono [OF kong.purge_regexp_emits])
    (auto simp: routes_of_def host_pattern_def is_kong_delete_iff)

lemma not_writes [simp]: "is_kong_get e \<Longrightarrow> \<not> writes e"
  by (cases e) auto

section \<open>One triple for each branch\<close>

lemma sync_new_action:
  assumes "active d" "Phase (Status d) = DomainStatusNew"
  shows "hoare (domain_action cfg key) (reconciled key d) (sync_new E d) (\<lambda>_ _. True)"
proof (rule hoare_frame_True [OF persistent_facts(1)])
  have "domain_request PUT (Namespace d) (Some (Name d)) (DomainBody (pending_claim d)) = domain_put (pending_claim d)"
    by (simp add: domain_put_def pending_claim_def)
  then show "emits_only (\<lambda>e. \<forall>h. reconciled key d h \<longrightarrow> domain_action cfg key h e) (sync_new E d)"
    unfolding sync_new_def Let_def pending_claim_def [symmetric]
    by (intro emits_intros) (auto intro: domain_action.claim assms)
qed

lemma not_None_E: "x \<noteq> None \<Longrightarrow> (\<And>y. x = Some y \<Longrightarrow> P) \<Longrightarrow> P"
  by (cases x) auto

lemma registered_primary_None: "registered_primary d ds = None \<longleftrightarrow> (\<forall>dm \<in> set ds. \<not> rival d dm)"
  by (auto simp: registered_primary_def rival_def find_None_iff)

lemma registered_primary_Some: "registered_primary d ds = Some dm \<Longrightarrow> dm \<in> set ds \<and> rival d dm"
  by (auto simp: registered_primary_def rival_def dest!: find_SomeD)

lemma sync_pending_primary_action:
  assumes d: "active d" "Phase (Status d) = DomainStatusPending" "IsPrimary d"
  shows "hoare (domain_action cfg key) (reconciled key d) (sync_pending_primary E d) (\<lambda>_ _. True)"
proof -
  let ?I = "\<lambda>l h. reconciled key d h \<and> ReadDomains l \<in> set h"
  have read: "hoare (domain_action cfg key) (reconciled key d) (list_domains E) ?I"
    unfolding list_domains_def
    by (rule hoare_ask) (auto intro: domain_action.no_write simp: reconciled_def)
  have conflict: "domain_action cfg key h (Call (domain_put (set_status d rs m DomainStatusFailed t)) r)"
    if "?I l h" "registered_primary d (case l of Inl e \<Rightarrow> [] | Inr ds \<Rightarrow> ds) \<noteq> None" for l h rs m t r
  proof -
    from that(2) obtain ds dm where "l = Inr ds" "dm \<in> set ds" "rival d dm"
      by (cases l) (auto simp: registered_primary_def [of _ "[]"] dest!: registered_primary_Some)
    with that(1) d show ?thesis
      by (intro domain_action.primary_conflict [where ds = ds and dm = dm]) (simp_all add: snapshot_def)
  qed
  have claimed: "domain_action cfg key h (Call (domain_put (set_status d rs m DomainStatusOK t)) r)"
    if "?I l h" "\<not> registered_primary d (case l of Inl e \<Rightarrow> [] | Inr ds \<Rightarrow> ds) \<noteq> None" for l h rs m t r
    using that d
    by (intro domain_action.primary_ok) (auto simp: registered_primary_None)
  show ?thesis
    unfolding sync_pending_primary_def
    by (rule hoare_bnd [OF read], rule hoare_if; rule hoare_frame_True, intro persistent_intros,
        intro emits_intros)
      (auto intro: domain_action.no_write conflict claimed)
qed

text \<open>The search, with what its two answers put on record.\<close>

lemma search_action:
  assumes "persistent I"
  shows "hoare (domain_action cfg key) I (SearchForPrimary E d sys)
    (\<lambda>r h. I h \<and> (\<forall>p. r = Inr (Some p) \<longrightarrow> found_in d sys h p)
      \<and> (r = Inr None \<longrightarrow> nothing_grants d (Namespace d) h))"
  by (rule hoare_keep [OF assms],
      rule hoare_from_emits [OF SearchForPrimary_emits [where P = "\<lambda>e. \<not> writes e"] _ SearchForPrimary_hoare])
    (auto intro: domain_action.no_write)

lemma sync_pending_shared_action:
  assumes d: "active d" "Phase (Status d) = DomainStatusPending" "\<not> IsPrimary d"
  shows "hoare (domain_action cfg key) (reconciled key d) (sync_pending_shared E cfg d) (\<lambda>_ _. True)"
proof -
  have read: "hoare (domain_action cfg key) (reconciled key d) (SearchForPrimary E d (PodNamespace cfg))
      (\<lambda>r h. reconciled key d h \<and> (\<forall>p. r = Inr (Some p) \<longrightarrow> found_in d (PodNamespace cfg) h p)
        \<and> (r = Inr None \<longrightarrow> nothing_grants d (Namespace d) h))"
    by (rule search_action) (intro persistent_intros)
  have orphan: "domain_action cfg key h (Call (domain_put (set_status d rs m DomainStatusFailed t)) r)"
    if "reconciled key d h \<and> nothing_grants d (Namespace d) h" for h rs m t r
    using that d by (intro domain_action.shared_orphan) simp_all
  have claimed: "domain_action cfg key h (Call (domain_put (set_status d rs m DomainStatusOK t)) r)"
    if "reconciled key d h \<and> found_in d (PodNamespace cfg) h p" for p h rs m t r
    using that d by (intro domain_action.shared_ok [where p = p]) simp_all
  show ?thesis
    unfolding sync_pending_shared_def
    apply (rule hoare_if)
     apply (rule hoare_any [where P = "\<lambda>e. \<not> writes e"])
      apply (intro emits_intros, simp)
     apply (erule domain_action.no_write)
    apply (rule hoare_tryE [OF read], simp)
    apply (rule hoare_if)
     apply (rule hoare_pre [OF hoare_frame_True
          [where I = "\<lambda>h. reconciled key d h \<and> nothing_grants d (Namespace d) h"]])
       apply (intro persistent_intros)
      apply (intro emits_intros; auto intro: domain_action.no_write orphan)
     apply simp
    apply (erule not_None_E)
    subgoal for pd p
      apply (rule hoare_pre [OF hoare_frame_True
            [where I = "\<lambda>h. reconciled key d h \<and> found_in d (PodNamespace cfg) h p"]])
        apply (intro persistent_intros)
       apply (intro emits_intros; auto intro: domain_action.no_write claimed)
      apply simp
      done
    done
qed

lemma sync_ok_action:
  assumes d: "active d" "Phase (Status d) = DomainStatusOK"
  shows "hoare (domain_action cfg key) (reconciled key d) (sync_ok E cfg d) (\<lambda>_ _. True)"
proof -
  have read: "hoare (domain_action cfg key) (reconciled key d) (SearchForPrimary E d (PodNamespace cfg))
      (\<lambda>r h. reconciled key d h \<and> (\<forall>p. r = Inr (Some p) \<longrightarrow> found_in d (PodNamespace cfg) h p)
        \<and> (r = Inr None \<longrightarrow> nothing_grants d (Namespace d) h))"
    by (rule search_action) (intro persistent_intros)
  have orphan: "domain_action cfg key h (Call (domain_put (set_status d rs m DomainStatusFailed t)) r)"
    if "\<not> IsPrimary d" "reconciled key d h \<and> nothing_grants d (Namespace d) h" for h rs m t r
    using that d by (intro domain_action.shared_orphan) simp_all
  show ?thesis
    unfolding sync_ok_def
    apply (rule hoare_if)
     apply (rule hoare_tryE [OF read], simp)
     apply (rule hoare_if)
      apply (rule hoare_pre [OF hoare_frame_True
          [where I = "\<lambda>h. reconciled key d h \<and> nothing_grants d (Namespace d) h"]])
        apply (intro persistent_intros)
       apply (intro emits_intros; auto intro: domain_action.no_write orphan)
      apply simp
     apply (intro hoare_ret, simp)
    apply (intro hoare_ret, simp)
    done
qed

lemma sync_failed_action:
  assumes d: "active d" "Phase (Status d) \<notin> {DomainStatusNew, DomainStatusPending, DomainStatusOK}"
  shows "hoare (domain_action cfg key) (reconciled key d) (sync_failed E cfg d) (\<lambda>_ _. True)"
proof -
  let ?I = "\<lambda>t h. reconciled key d h \<and> ReadClock t \<in> set h"
  have clock: "hoare (domain_action cfg key) (reconciled key d) (time_now E) ?I"
    unfolding time_now_def
    by (rule hoare_ask) (auto intro: domain_action.no_write simp: reconciled_def)
  have retry: "domain_action cfg key h (Call (domain_put (set_status d rs m
      (if \<not> HasKongFinalizer d then DomainStatusNew else DomainStatusPending) t)) r)"
    if "?I t0 h" "IsUpdateExpired d (resync_after cfg) t0" for t0 h rs m t r
    using that d by (intro domain_action.retry [where ?t0.0 = t0]) simp_all
  show ?thesis
    unfolding sync_failed_def Let_def
    apply (rule hoare_bnd [OF clock], rule hoare_if)
     apply (rule hoare_frame_True, intro persistent_intros)
     apply (intro emits_intros allI impI)
      apply (auto intro: domain_action.no_write)[1]
     apply (rule retry; assumption)
    apply (intro hoare_ret, simp)
    done
qed

definition purging :: "string \<Rightarrow> Domain \<Rightarrow> Domain list \<Rightarrow> act list \<Rightarrow> bool" where
  "purging key d ds h \<longleftrightarrow> reconciled key d h \<and> snapshot ds h"

lemma persistent_purging [persistent_intros]: "persistent (purging key d ds)"
  unfolding purging_def by (intro persistent_intros)

lemma purge_domain_action:
  assumes d: "doomed d" "IsPrimary d" and dm: "dm \<in> set ds" "GetPrimaryDomain dm = GetPrimaryDomain d"
  shows "hoare (domain_action cfg key) (purging key d ds) (purge_domain E dm)
    (\<lambda>r h. r = Inr () \<longrightarrow> purged (host_pattern dm) h)"
proof -
  let ?I = "purging key d ds"
  let ?m = "tryE (errorf ''gc=true, failed listing kong apis ['' '']'')
       (apiKong_ListByRegexp E None (host_pattern dm))
       (\<lambda>l. delete_apis (apiKong_Delete E)
         (\<lambda>api. errorf ''gc=true, failed removing kong api ['' '']'') (Items l))"
  have "hoare (domain_action cfg key) ?I ?m (\<lambda>_. ?I)"
  proof (rule hoare_frame [OF persistent_purging], rule emits_only_mono [OF purge_emits], intro allI impI)
    fix e h
    assume "is_kong_get e \<or> e = ApisTotalDec \<or> (\<exists>n r. routes_of dm n \<and> e = Call (kong_delete n) r)" "?I h"
    then show "domain_action cfg key h e"
      unfolding purging_def using d dm by (auto intro: domain_action.no_write domain_action.purge_api)
  qed
  from hoare_conj [OF this kong.purge_regexp_done]
  have purge: "hoare (domain_action cfg key) ?I ?m
      (\<lambda>r h. ?I h \<and> (r = Inr () \<longrightarrow> purged (host_pattern dm) h))"
    unfolding host_pattern_def .
  have status: "domain_action cfg key h (Call (domain_put (set_status dm rs m DomainStatusFailed t)) r)"
    if "?I h \<and> purged (host_pattern dm) h" for h rs m t r
    using that d dm unfolding purging_def by (intro domain_action.purge_status [where d = d and ds = ds]) simp_all
  show ?thesis
    unfolding purge_domain_def tryE_assoc [of _ "apiKong_ListByRegexp E None (host_pattern dm)"]
    apply (rule hoare_tryE [OF purge], simp)
    apply (rule hoare_weaken [OF hoare_frame
          [where I = "\<lambda>h. ?I h \<and> purged (host_pattern dm) h"]])
       apply (intro persistent_intros persistent_purged)
      apply (intro emits_intros; auto intro: domain_action.no_write status)
     apply simp_all
    done
qed

lemma syncDomain_delete_action:
  assumes d: "doomed d"
  shows "hoare (domain_action cfg key) (reconciled key d) (syncDomain_delete E d) (\<lambda>_ _. True)"
proof -
  have read: "hoare (domain_action cfg key) (reconciled key d) (list_domains E)
      (\<lambda>r h. reconciled key d h \<and> (\<forall>ds. r = Inr ds \<longrightarrow> snapshot ds h))"
    unfolding list_domains_def
    by (rule hoare_ask) (auto intro: domain_action.no_write simp: reconciled_def snapshot_def)
  let ?R = "\<lambda>ds h. \<forall>dm \<in> set (purge_targets d ds). purged (host_pattern dm) h"
  let ?I = "purging key d"
  let ?J = "\<lambda>ds h. ?I ds h \<and> ?R ds h"
  have targets: "dm \<in> set (purge_targets d ds) \<longleftrightarrow>
      dm \<in> set ds \<and> IsPrimary d \<and> GetPrimaryDomain dm = GetPrimaryDomain d" for dm ds
    by (auto simp: purge_targets_def)
  have loop: "hoare (domain_action cfg key) (?I ds) (forE (purge_domain E) (purge_targets d ds))
      (\<lambda>r h. ?I ds h \<and> (r = Inr () \<longrightarrow> ?R ds h))" for ds
    by (rule hoare_forE_each)
      (auto simp: targets intro!: purge_domain_action d persistent_intros persistent_purged)
  have J: "persistent (?J ds)" for ds
    using persistent_purged by (auto simp: persistent_def purging_def reconciled_def snapshot_def)
  have release: "domain_action cfg key h (Call (release_request d) r)" if "?J ds h" for ds h r
    using that d by (intro domain_action.release [where ds = ds]) (auto simp: targets purging_def)
  have remove: "domain_action cfg key h (Call (remove_request d) r)"
    if "reconciled key d h" "call_ok (release_request d) h" for h r
    by (rule domain_action.remove [OF that(1) d that(2)])
  show ?thesis
    unfolding syncDomain_delete_def release_request_def [symmetric] remove_request_def [symmetric]
    apply (rule hoare_tryE [OF read], simp)
    apply (rule hoare_tryE [OF hoare_pre [OF loop]])
      apply (simp add: purging_def)
     apply simp
    apply (rule hoare_pre [OF hoare_do_raw [OF J]])
       apply (erule release)
      apply (rule hoare_do_raw)
         apply (rule persistent_basic(3) [OF J persistent_call])
        apply (rule remove; auto simp: call_ok_def purging_def)
       apply (auto intro: hoare_ret)
    done
qed

text \<open>The resource is gone.\<close>

definition wiping :: "Config \<Rightarrow> string \<Rightarrow> Domain list \<Rightarrow> act list \<Rightarrow> bool" where
  "wiping cfg key ds h \<longleftrightarrow> gone key h \<and> WipeOnDelete cfg \<and> snapshot ds h"

lemma persistent_wiping [persistent_intros]: "persistent (wiping cfg key ds)"
  unfolding wiping_def by (intro persistent_intros)

lemma wipe_shared_action:
  assumes dm: "dm \<in> set ds" "isOKShared dm"
  shows "hoare (domain_action cfg key) (wiping cfg key ds) (wipe_shared E cfg dm) (\<lambda>_ _. True)"
proof -
  let ?I = "\<lambda>h. wiping cfg key ds h \<and> nothing_grants dm (Namespace dm) h"
  let ?m = "tryE (errorf ''gc=true, wipeondelete=true, failed listing kong apis ['' '']'')
       (apiKong_ListByRegexp E None (host_pattern dm))
       (\<lambda>l. delete_apis (apiKong_Delete E)
         (\<lambda>api. errorf ''gc=true, wipeondelete=true, failed removing kong api ['' '']'') (Items l))"
  have read: "hoare (domain_action cfg key) (wiping cfg key ds) (SearchForPrimary E dm (PodNamespace cfg))
      (\<lambda>r h. wiping cfg key ds h \<and> (\<forall>p. r = Inr (Some p) \<longrightarrow> found_in dm (PodNamespace cfg) h p)
        \<and> (r = Inr None \<longrightarrow> nothing_grants dm (Namespace dm) h))"
    by (rule search_action) (intro persistent_intros)
  have api: "domain_action cfg key h (Call (kong_delete n) r)" if "?I h" "routes_of dm n" for h n r
    using that dm unfolding wiping_def by (intro domain_action.wipe_api [where ds = ds and dm = dm]) simp_all
  have status: "domain_action cfg key h (Call (domain_put (set_status dm rs m DomainStatusFailed t)) r)"
    if "?I h" for h rs m t r
    using that dm unfolding wiping_def by (intro domain_action.wipe_status [where ds = ds]) simp_all
  have purge: "emits_only (\<lambda>e. \<forall>h. ?I h \<longrightarrow> domain_action cfg key h e) ?m"
    by (rule emits_only_mono [OF purge_emits]) (auto intro: domain_action.no_write api)
  show ?thesis
    unfolding wipe_shared_def tryE_assoc [of _ "apiKong_ListByRegexp E None (host_pattern dm)"]
    apply (rule hoare_tryE [OF read], simp)
    apply (rule hoare_if)
     apply (intro hoare_ret, simp)
    apply (rule hoare_pre [OF hoare_frame_True [where I = ?I]])
      apply (intro persistent_intros)
     apply (rule emits_tryE [OF purge])
     apply (intro emits_intros; auto intro: domain_action.no_write status)
    apply simp
    done
qed

lemma getApisByHost_member:
  assumes "(host, apis) \<in> set (getApisByHost l)" "api \<in> set apis"
  shows "named_by_host host api"
proof -
  have "map_of (getApisByHost l) host = Some apis"
    using assms(1) by (simp add: getApisByHost_distinct)
  then have "apis = filter (named_by_host host) (Items l)"
    by (auto simp: getApisByHost_lookup split: if_splits)
  with assms(2) show ?thesis by simp
qed

lemma named_by_host_split:
  assumes "named_by_host host api"
  obtains ns hash where "split_on CHR ''~'' (API_Name api) = [host, ns, hash]"
proof -
  obtain a b c where "split_on CHR ''~'' (API_Name api) = [a, b, c]" and "a = host"
    using assms unfolding named_by_host_def by (auto simp: length_Suc_conv numeral_3_eq_3)
  with that show thesis by simp
qed

lemma wipe_host_action:
  assumes "\<forall>api \<in> set apis. named_by_host host api"
  shows "hoare (domain_action cfg key) (\<lambda>h. gone key h \<and> WipeOnDelete cfg) (wipe_host E (host, apis)) (\<lambda>_ _. True)"
proof -
  let ?H = "\<lambda>h. gone key h \<and> WipeOnDelete cfg"
  have read: "hoare (domain_action cfg key) ?H (list_domains E)
      (\<lambda>r h. ?H h \<and> (\<forall>ds. r = Inr ds \<longrightarrow> snapshot ds h))"
    unfolding list_domains_def
    by (rule hoare_ask) (auto intro: domain_action.no_write simp: gone_def snapshot_def)
  have sweep: "domain_action cfg key h (Call (kong_delete (API_Name api)) r)"
    if "wiping cfg key ds h" "find (\<lambda>d. host = GetDomain d) ds = None" "api \<in> set apis" for ds h api r
  proof -
    from that(3) assms obtain ns hash where "split_on CHR ''~'' (API_Name api) = [host, ns, hash]"
      using named_by_host_split by metis
    with that show ?thesis
      unfolding wiping_def by (intro domain_action.sweep [where ds = ds and host = host]) (auto simp: find_None_iff)
  qed
  have body: "hoare (domain_action cfg key) (wiping cfg key ds)
      (delete_apis (apiKong_Delete E)
         (\<lambda>api. errorf ''gc=true, wipeondelete=true, failed removing api ['' '']'') apis) (\<lambda>_ _. True)"
    if "find (\<lambda>d. host = GetDomain d) ds = None" for ds
    by (rule hoare_frame_True, intro persistent_intros, rule emits_only_mono [OF kong.delete_apis_emits])
      (auto simp: is_kong_delete_iff intro: domain_action.no_write sweep that)
  show ?thesis
    unfolding wipe_host_def prod.case
    apply (rule hoare_tryE [OF read], simp)
    apply (rule hoare_case_option)
     apply (rule hoare_pre [OF body], assumption)
     apply (simp add: wiping_def)
    apply (intro hoare_ret, simp)
    done
qed

text \<open>The runtime picks an order of a map; it does not make entries up.\<close>

definition fair_ranges :: "'w env \<Rightarrow> bool" where
  "fair_ranges E \<longleftrightarrow> (\<forall>m w. set (fst (host_order E m w)) = set m)"

lemma syncDomain_gone_action:
  assumes "fair_ranges E"
  shows "hoare (domain_action cfg key) (gone key) (syncDomain_gone E cfg) (\<lambda>_ _. True)"
proof (cases "WipeOnDelete cfg")
  case False
  then show ?thesis by (simp add: syncDomain_gone_def hoare_ret)
next
  case True
  have read: "hoare (domain_action cfg key) (gone key) (list_domains E)
      (\<lambda>r h. gone key h \<and> (\<forall>ds. r = Inr ds \<longrightarrow> snapshot ds h))"
    unfolding list_domains_def
    by (rule hoare_ask) (auto intro: domain_action.no_write simp: gone_def snapshot_def)
  have first: "hoare (domain_action cfg key) (wiping cfg key ds)
      (forE (wipe_shared E cfg) (filter isOKShared ds)) (\<lambda>_. wiping cfg key ds)" for ds
    by (rule hoare_forE_persistent [OF persistent_wiping wipe_shared_action]) auto
  have list: "hoare (domain_action cfg key) (gone key) (apiKong_List (page_bound E) E None) (\<lambda>_. gone key)"
    by (rule hoare_frame, intro persistent_intros, rule emits_only_mono [OF kong.list_reads])
      (auto intro: domain_action.no_write)
  have range: "hoare (domain_action cfg key) (gone key) (range_hosts E (getApisByHost l))
      (\<lambda>hosts h. gone key h \<and> set hosts = set (getApisByHost l))" for l
    using assms
    by (auto simp: hoare_def trace_of_def result_of_def range_hosts_def fair_ranges_def
        split: prod.splits) (metis fst_conv)+
  have second: "hoare (domain_action cfg key) (\<lambda>h. gone key h \<and> set hosts = set (getApisByHost l))
      (forE (wipe_host E) hosts) (\<lambda>_ _. True)" for hosts l
  proof (cases "set hosts = set (getApisByHost l)")
    case hosts: True
    have "hoare (domain_action cfg key) (\<lambda>h. gone key h \<and> WipeOnDelete cfg)
        (forE (wipe_host E) hosts) (\<lambda>_ h. gone key h \<and> WipeOnDelete cfg)"
    proof (rule hoare_forE_persistent)
      fix x
      assume "x \<in> set hosts"
      with hosts show "hoare (domain_action cfg key) (\<lambda>h. gone key h \<and> WipeOnDelete cfg)
          (wipe_host E x) (\<lambda>_ _. True)"
        by (cases x) (auto intro!: wipe_host_action dest: getApisByHost_member)
    qed (intro persistent_intros)
    then show ?thesis using True by (auto elim!: hoare_weaken)
  qed (simp add: hoare_def)
  show ?thesis
    unfolding syncDomain_gone_def if_not_P [OF not_not [THEN iffD2, OF True]]
    apply (rule hoare_tryE [OF read], simp)
    apply (rule hoare_tryE [OF hoare_pre [OF first]])
      apply (simp add: wiping_def True)
     apply simp
    apply (rule hoare_tryE [OF hoare_pre [OF list]])
      apply (simp add: wiping_def)
     apply simp
    apply (rule hoare_bnd [OF range second])
    done
qed

section \<open>The whole handler\<close>

lemma syncDomain_phase_action:
  assumes "active d"
  shows "hoare (domain_action cfg key) (reconciled key d) (syncDomain_phase E cfg d) (\<lambda>_ _. True)"
  unfolding syncDomain_phase_def Let_def
  using assms
  by (auto intro: sync_new_action sync_pending_primary_action sync_pending_shared_action sync_ok_action
      sync_failed_action)

lemma syncDomain_action:
  assumes "fair_ranges E"
  shows "hoare (domain_action cfg key) (\<lambda>_. True) (syncDomain E cfg key n) (\<lambda>_ _. True)"
proof -
  have read: "hoare (domain_action cfg key) (\<lambda>_. True) (get_domain E key)
      (\<lambda>r h. (\<forall>d. r = Inr (Some d) \<longrightarrow> reconciled key d h) \<and> (r = Inr None \<longrightarrow> gone key h))"
    unfolding get_domain_def
    by (rule hoare_ask) (auto intro: domain_action.no_write simp: gone_def reconciled_def)
  have invalid: "hoare (domain_action cfg key) (reconciled key d)
      (bnd (updateDomainStatus E d rs m DomainStatusFailed) (\<lambda>_. ret (Inr ()))) (\<lambda>_ _. True)"
    if "\<not> IsValidDomain d" for d rs m
    by (rule hoare_frame_True, intro persistent_intros, intro emits_intros)
      (auto intro: domain_action.no_write domain_action.invalid [OF _ that])
  show ?thesis
    unfolding syncDomain_def
    apply (rule hoare_tryE [OF read], simp)
    apply (rule hoare_case_option)
     apply (rule hoare_pre [OF syncDomain_gone_action [OF assms]], simp)
    apply (rule hoare_if)
     apply (rule hoare_pre [OF invalid], simp, simp)
    apply (rule hoare_if)
     apply (rule hoare_pre [OF syncDomain_delete_action], simp add: doomed_def, simp)
    apply (rule hoare_pre [OF syncDomain_phase_action], simp add: active_def, simp)
    done
qed

end
