(* ===== verification/Domain_Safety.thy ===== *)
theory Domain_Safety
  imports Domain_Actions Sample_World
begin

text \<open>
  What the reconciliation of a domain claim guarantees, derived from the contract
  \<open>domain_action\<close>: when a claim is granted, how a phase may change, which routes may be deleted
  and in which order; and where the code departs from its intent: a claimed shared domain vouches
  for itself, the deletion of a rejected duplicate destroys the routes of the rightful owner, the
  deletion of a shared domain leaves its routes behind, the purge pattern is not anchored, a
  wildcard label or a second page of the listing stops the process.
\<close>

declare phase_defs [simp del] IsPrimary_iff [simp del]

section \<open>Requests seen as actions\<close>

lemma domain_put_simps [simp]:
  "srv (domain_put d) = DomainServer" "verb_of (domain_put d) = PUT"
  "req_body (domain_put d) = DomainBody d" "domain_put d = domain_put d' \<longleftrightarrow> d = d'"
  by (auto simp: domain_put_def domain_request_def)

lemma release_remove_simps [simp]:
  "srv (release_request d) = DomainServer" "verb_of (release_request d) = PATCH"
  "req_body (release_request d) = PatchBody MergePatch no_finalizers_patch"
  "srv (remove_request d) = DomainServer" "verb_of (remove_request d) = DELETE"
  "req_body (remove_request d) = NoBody"
  "srv (kong_delete n) = KongAdmin" "verb_of (kong_delete n) = DELETE" "req_body (kong_delete n) = NoBody"
  by (simp_all add: release_request_def remove_request_def kong_delete_def)

lemma set_status_simps [simp]:
  "Spec (set_status d rs m ph t) = Spec d" "Name (set_status d rs m ph t) = Name d"
  "Namespace (set_status d rs m ph t) = Namespace d" "Phase (Status (set_status d rs m ph t)) = ph"
  "Spec (pending_claim d) = Spec d" "Name (pending_claim d) = Name d"
  "Namespace (pending_claim d) = Namespace d" "Phase (Status (pending_claim d)) = DomainStatusPending"
  by (simp_all add: set_status_def pending_claim_def)

lemma phases_distinct [simp]:
  "DomainStatusNew \<noteq> DomainStatusOK" "DomainStatusPending \<noteq> DomainStatusOK"
  "DomainStatusFailed \<noteq> DomainStatusOK" "DomainStatusOK \<noteq> DomainStatusFailed"
  "DomainStatusOK \<noteq> DomainStatusNew" "DomainStatusOK \<noteq> DomainStatusPending"
  "DomainStatusPending \<noteq> DomainStatusNew" "DomainStatusNew \<noteq> DomainStatusPending"
  by (simp_all add: phase_defs)

lemma not_rival:
  "\<not> rival d dm \<Longrightarrow> IsPrimary dm \<Longrightarrow> GetPrimaryDomain dm = GetPrimaryDomain d
    \<Longrightarrow> Name dm = Name d \<and> Namespace dm = Namespace d"
  by (simp add: rival_def same_resource_def)

lemma syncDomain_call:
  assumes "fair_ranges E" "trace_of (syncDomain E cfg key n) w = t1 @ Call q res # t2"
  shows "domain_action cfg key t1 (Call q res)"
  using hoareD [OF syncDomain_action [OF assms(1)] _ assms(2)] by simp

lemma fair_static [simp]: "fair_ranges (static_env a ds ss is)"
  by (simp add: fair_ranges_def)

section \<open>Running the handler on sample worlds\<close>

lemmas domain_run_defs = run_defs answer_defs syncDomain_def syncDomain_phase_def sync_new_def
  sync_pending_primary_def sync_pending_shared_def sync_ok_def sync_failed_def syncDomain_delete_def
  syncDomain_gone_def purge_targets_def purge_domain_def host_pattern_def wipe_shared_def wipe_host_def
  updateDomainStatus_def registered_primary_def same_resource_def SearchForPrimary_def
  searchPrimaryByNamespace_def search_in_def search_step_def range_hosts_def isOKShared_def
  apiKong_ListByRegexp_def delete_apis_def apiKong_Delete_def
  IsValidDomain_iff IsMarkedForDeletion_def IsPrimary_iff IsValidSharedDomain_def
  sample_config_def acme_domain_def mk_defs meta_key_def by_namespace_def GetDomain_def
  GetPrimaryDomain_def Let_def phase_defs

definition pending_domain :: Domain where
  "pending_domain = mk_domain ''acme'' ''acme-org'' ''acme.org'' '''' DomainStatusPending"

text \<open>The rejected duplicate of \<open>acme_domain\<close> that another team posted and now deletes.\<close>

definition loser_domain :: Domain where
  "loser_domain =
     (let d = mk_domain ''intruder'' ''acme-org'' ''acme.org'' '''' DomainStatusFailed
      in d\<lparr>DeletionTimestamp := Some 1\<rparr>)"

lemma call_split:
  assumes "list_ex (\<lambda>e. case e of Call q r \<Rightarrow> P q | _ \<Rightarrow> False) t"
  obtains t1 q r t2 where "t = t1 @ Call q r # t2" "P q"
proof -
  from assms obtain e where e: "e \<in> set t" "case e of Call q r \<Rightarrow> P q | _ \<Rightarrow> False"
    by (auto simp: list_ex_iff)
  from e(2) obtain q r where q: "e = Call q r" "P q" by (cases e) simp_all
  obtain t1 t2 where "t = t1 @ e # t2" using split_list [OF e(1)] by blast
  with that q show thesis by simp
qed

text \<open>The phase an action puts, and the sample runs the witnesses use.\<close>

definition puts_phase :: "DomainPhase \<Rightarrow> request \<Rightarrow> bool" where
  "puts_phase ph q \<longleftrightarrow> verb_of q = PUT \<and> (case req_body q of DomainBody d \<Rightarrow> Phase (Status d) = ph | _ \<Rightarrow> False)"

lemma pending_run:
  "list_ex (\<lambda>e. case e of Call q r \<Rightarrow> puts_phase DomainStatusOK q | _ \<Rightarrow> False)
    (trace_of (syncDomain (static_env healthy [pending_domain] [] []) sample_config ''acme/acme-org'' 0) ())"
  by (simp add: pending_domain_def domain_run_defs trace_of_def puts_phase_def)

lemma list_static [simp]:
  "apiKong_List 3 (static_env (listing names) ds ss is) None w =
    (Done (Inr (empty_APIList\<lparr>Items := map (\<lambda>n. empty_API\<lparr>API_Name := n\<rparr>) names\<rparr>)),
     [Call (list_request None) (ok_json (JObj [(''data'', JArr (map (\<lambda>n. JObj [(''name'', JStr n)]) names))]))], w)"
proof -
  have api: "dec_API (JObj [(''name'', JStr n)]) empty_API = (empty_API\<lparr>API_Name := n\<rparr>, False)" for n
    by (simp add: dec_API_def dec_object_def dec_members_single dec_API_field dec_string_def)
  have "dec_APIList (JObj [(''data'', JArr (map (\<lambda>n. JObj [(''name'', JStr n)]) names))]) empty_APIList =
      (empty_APIList\<lparr>Items := map (\<lambda>n. empty_API\<lparr>API_Name := n\<rparr>) names\<rparr>, False)"
    by (simp add: dec_APIList_def dec_object_def dec_members_single dec_APIList_field_def dec_APIs_def
        api comp_def list_ex_iff)
  then show ?thesis
    by (simp add: numeral_3_eq_3 send_def request_error_def go_defs listing_def ok_json_def
        unmarshal_def payload_of_def empty_APIList_def)
qed

lemma loser_run:
  "list_ex (\<lambda>e. case e of Call q r \<Rightarrow> srv q = KongAdmin \<and> verb_of q \<noteq> GET | _ \<Rightarrow> False)
    (trace_of (syncDomain (static_env (listing [''acme.org~acme~300030'']) [acme_domain, loser_domain] [] [])
      sample_config ''intruder/acme-org'' 0) ())"
  by (simp add: loser_domain_def domain_run_defs trace_of_def re_compile_def re_quant_def
      re_unmodelled_char_def re_atom_of_def drop_lazy_def)

lemma loser_released:
  "list_ex (\<lambda>e. case e of Call q r \<Rightarrow> verb_of q = PATCH | _ \<Rightarrow> False)
    (trace_of (syncDomain (static_env (listing [''acme.org~acme~300030'']) [acme_domain, loser_domain] [] [])
      sample_config ''intruder/acme-org'' 0) ())"
  by (simp add: loser_domain_def domain_run_defs trace_of_def re_compile_def re_quant_def
      re_unmodelled_char_def re_atom_of_def drop_lazy_def)

section \<open>Granting a claim\<close>

text \<open>
  C2: a claim is written with phase OK only if the cached resource was Pending, well formed and
  not marked for deletion; a primary claim only after a listing of the cache in which no other
  primary claim, in any phase and any namespace, has the same name (or a listing that failed: the
  code drops that error); a shared claim only after a claim was found in its parent, own or system
  namespace that is OK, has the same primary name and is in the same namespace or delegates to it.
\<close>

theorem syncDomain_grant_justified:
  assumes "fair_ranges E" "trace_of (syncDomain E cfg key n) w = t1 @ Call q res # t2"
    and "req_body q = DomainBody d'" "verb_of q = PUT" "Phase (Status d') = DomainStatusOK"
  shows "\<exists>d. ReadDomain key (Inr (Some d)) \<in> set t1 \<and> Phase (Status d) = DomainStatusPending
    \<and> IsValidDomain d \<and> \<not> IsMarkedForDeletion d \<and> Spec d' = Spec d \<and> q = domain_put d'
    \<and> (IsPrimary d \<longrightarrow> (\<exists>l. ReadDomains l \<in> set t1 \<and> (\<forall>ds. l = Inr ds \<longrightarrow>
         (\<forall>dm \<in> set ds. IsPrimary dm \<and> GetPrimaryDomain dm = GetPrimaryDomain d
            \<longrightarrow> Name dm = Name d \<and> Namespace dm = Namespace d))))
    \<and> (\<not> IsPrimary d \<longrightarrow> (\<exists>p ns ds. ns \<in> {Parent (Spec d), Namespace d, PodNamespace cfg}
         \<and> ReadDomains (Inr ds) \<in> set t1 \<and> p \<in> set (by_namespace ns ds)
         \<and> Phase (Status p) = DomainStatusOK \<and> GetPrimaryDomain p = GetPrimaryDomain d
         \<and> (Namespace p = Namespace d \<or> Namespace d \<in> set (elems (Delegates (Spec p)))
              \<or> ''*'' \<in> set (elems (Delegates (Spec p))))))"
  using syncDomain_call [OF assms(1,2)]
proof (cases rule: domain_action.cases)
  case (primary_ok d l rs m t)
  with assms(3) show ?thesis
    by (intro exI [of _ d] conjI impI exI [of _ l])
      (auto simp: reconciled_def active_def dest: not_rival)
next
  case (shared_ok d p rs m t)
  then obtain ns ds where "ns \<in> {Parent (Spec d), Namespace d, PodNamespace cfg}"
    "ReadDomains (Inr ds) \<in> set t1" "p \<in> set (by_namespace ns ds)" "grants d p"
    by (auto simp: found_in_def)
  with shared_ok assms(3) show ?thesis
    by (intro exI [of _ d]) (auto simp: reconciled_def active_def grants_def; metis)
qed (use assms(3-5) in \<open>auto split: if_splits\<close>)

lemma syncDomain_grant_justified_witness:
  "\<exists>t1 d. ReadDomain ''acme/acme-org'' (Inr (Some d)) \<in> set t1 \<and> Phase (Status d) = DomainStatusPending"
proof -
  from pending_run obtain t1 q r t2
    where t: "trace_of (syncDomain (static_env healthy [pending_domain] [] []) sample_config ''acme/acme-org'' 0) ()
        = t1 @ Call q r # t2" and q: "puts_phase DomainStatusOK q"
    by (rule call_split)
  from q obtain d where "req_body q = DomainBody d" "verb_of q = PUT" "Phase (Status d) = DomainStatusOK"
    by (auto simp: puts_phase_def split: body.splits)
  from syncDomain_grant_justified [OF fair_static t this] show ?thesis by blast
qed

section \<open>Phases\<close>

text \<open>The phase changes the reconciliation may write.\<close>

inductive phase_step :: "DomainPhase \<Rightarrow> DomainPhase \<Rightarrow> bool" where
  claim: "phase_step DomainStatusNew DomainStatusPending"
| grant: "phase_step DomainStatusPending DomainStatusOK"
| fail: "phase_step p DomainStatusFailed"
| retry: "p \<notin> {DomainStatusNew, DomainStatusPending, DomainStatusOK}
    \<Longrightarrow> p' \<in> {DomainStatusNew, DomainStatusPending} \<Longrightarrow> phase_step p p'"

inductive_cases phase_step_from_OK: "phase_step DomainStatusOK p"

lemma phase_step_OK: "phase_step DomainStatusOK p \<Longrightarrow> p = DomainStatusFailed"
  by (erule phase_step_from_OK) auto

text \<open>
  C13: every object the reconciliation puts is a resource it read from the cache, in the same
  namespace under the same name, with its spec unchanged, and its phase moved along the state
  machine: New to Pending, Pending to OK, a failed or unknown phase back to New or Pending, and
  anything to Failed.
\<close>

theorem syncDomain_phase_machine:
  assumes "fair_ranges E" "trace_of (syncDomain E cfg key n) w = t1 @ Call q res # t2"
    and "req_body q = DomainBody d'" "verb_of q = PUT"
  shows "\<exists>d. (ReadDomain key (Inr (Some d)) \<in> set t1 \<or> (\<exists>ds. ReadDomains (Inr ds) \<in> set t1 \<and> d \<in> set ds))
    \<and> q = domain_request PUT (Namespace d) (Some (Name d)) (DomainBody d')
    \<and> Spec d' = Spec d \<and> phase_step (Phase (Status d)) (Phase (Status d'))"
  using syncDomain_call [OF assms(1,2)]
proof (cases rule: domain_action.cases)
  case (claim d)
  with assms(3) show ?thesis
    by (intro exI [of _ d]) (auto simp: reconciled_def domain_put_def intro: phase_step.claim)
next
  case (primary_ok d l rs m t)
  with assms(3) show ?thesis
    by (intro exI [of _ d]) (auto simp: reconciled_def domain_put_def intro: phase_step.grant)
next
  case (shared_ok d p rs m t)
  with assms(3) show ?thesis
    by (intro exI [of _ d]) (auto simp: reconciled_def domain_put_def intro: phase_step.grant)
next
  case (retry d t0 ph rs m t)
  with assms(3) show ?thesis
    by (intro exI [of _ d]) (auto simp: reconciled_def domain_put_def intro!: phase_step.retry split: if_splits)
next
  case (invalid d rs m t)
  with assms(3) show ?thesis
    by (intro exI [of _ d]) (auto simp: reconciled_def domain_put_def intro: phase_step.fail)
next
  case (primary_conflict d ds dm rs m t)
  with assms(3) show ?thesis
    by (intro exI [of _ d]) (auto simp: reconciled_def domain_put_def intro: phase_step.fail)
next
  case (shared_orphan d rs m t)
  with assms(3) show ?thesis
    by (intro exI [of _ d]) (auto simp: reconciled_def domain_put_def intro: phase_step.fail)
next
  case (purge_status d ds dm rs m t)
  with assms(3) show ?thesis
    by (intro exI [of _ dm]) (auto simp: snapshot_def domain_put_def intro: phase_step.fail)
next
  case (wipe_status ds dm rs m t)
  with assms(3) show ?thesis
    by (intro exI [of _ dm]) (auto simp: snapshot_def domain_put_def intro: phase_step.fail)
qed (use assms(3,4) in auto)

lemma syncDomain_phase_machine_witness:
  "\<exists>(d :: Domain) (d' :: Domain). Spec d' = Spec d \<and> phase_step (Phase (Status d)) (Phase (Status d')) \<and> Phase (Status d') = DomainStatusOK"
proof -
  from pending_run obtain t1 q r t2
    where t: "trace_of (syncDomain (static_env healthy [pending_domain] [] []) sample_config ''acme/acme-org'' 0) ()
        = t1 @ Call q r # t2" and q: "puts_phase DomainStatusOK q"
    by (rule call_split)
  from q obtain d where d: "req_body q = DomainBody d" "verb_of q = PUT" "Phase (Status d) = DomainStatusOK"
    by (auto simp: puts_phase_def split: body.splits)
  from syncDomain_phase_machine [OF fair_static t d(1,2)] obtain da :: Domain
    where "Spec d = Spec da" "phase_step (Phase (Status da)) (Phase (Status d))" by blast
  with d(3) show ?thesis by blast
qed

section \<open>What may be deleted from Kong\<close>

text \<open>
  C4: the reconciliation of a domain writes to Kong only to delete an API, and only in three
  situations: the resource is a primary claim being deleted and the name is matched by the pattern
  of a cached domain of the same primary; the resource is gone, wiping is on, and the name is
  matched by the pattern of a claimed shared domain for which the search found nothing, or has the
  form host~namespace~hash for a host that no cached domain has. In particular a live resource
  never costs a route.
\<close>

theorem syncDomain_kong_writes:
  assumes "fair_ranges E" "trace_of (syncDomain E cfg key n) w = t1 @ Call q res # t2"
    and "srv q = KongAdmin" "verb_of q \<noteq> GET"
  shows "\<exists>name ds. q = kong_request DELETE (Some name) NoBody \<and> ReadDomains (Inr ds) \<in> set t1 \<and>
    ((\<exists>d dm. ReadDomain key (Inr (Some d)) \<in> set t1 \<and> IsValidDomain d \<and> IsMarkedForDeletion d
        \<and> IsPrimary d \<and> dm \<in> set ds \<and> GetPrimaryDomain dm = GetPrimaryDomain d \<and> routes_of dm name)
     \<or> (ReadDomain key (Inr None) \<in> set t1 \<and> WipeOnDelete cfg \<and>
        ((\<exists>dm \<in> set ds. isOKShared dm \<and> nothing_grants dm (Namespace dm) t1 \<and> routes_of dm name)
         \<or> (\<exists>host ns hash. split_on CHR ''~'' name = [host, ns, hash]
              \<and> (\<forall>dm \<in> set ds. GetDomain dm \<noteq> host)))))"
  using syncDomain_call [OF assms(1,2)]
proof (cases rule: domain_action.cases)
  case (purge_api d ds dm n)
  then show ?thesis
    by (intro exI [of _ n] exI [of _ ds])
      (auto simp: reconciled_def snapshot_def doomed_def kong_delete_def)
next
  case (wipe_api ds dm n)
  then show ?thesis
    by (intro exI [of _ n] exI [of _ ds]) (auto simp: gone_def snapshot_def kong_delete_def)
next
  case (sweep ds host n ns hash)
  then show ?thesis
    by (intro exI [of _ n] exI [of _ ds]) (auto simp: gone_def snapshot_def kong_delete_def)
qed (use assms(3,4) in auto)

lemma syncDomain_kong_writes_witness:
  "\<exists>name ds t1. ReadDomains (Inr ds) \<in> set t1 \<and> (\<exists>d dm. ReadDomain ''intruder/acme-org'' (Inr (Some d)) \<in> set t1
      \<and> dm \<in> set ds \<and> routes_of dm name) \<or> ReadDomain ''intruder/acme-org'' (Inr None) \<in> set t1"
proof -
  from loser_run obtain t1 q r t2
    where t: "trace_of (syncDomain (static_env (listing [''acme.org~acme~300030'']) [acme_domain, loser_domain] [] [])
        sample_config ''intruder/acme-org'' 0) () = t1 @ Call q r # t2"
      and q: "srv q = KongAdmin \<and> verb_of q \<noteq> GET"
    by (rule call_split)
  from syncDomain_kong_writes [OF fair_static t] q show ?thesis by blast
qed

text \<open>
  C12: the finalizer of a deleted primary domain is released only after, for every cached domain under
  the same primary (the domain itself included), the registry was listed and every API whose name
  the pattern of that domain matches was deleted without an error. The finalizer of a shared domain
  is released with no route deleted. The resource, primary or shared, is deleted only after the
  release of its finalizer succeeded.
\<close>

theorem syncDomain_release_last:
  assumes "fair_ranges E" "trace_of (syncDomain E cfg key n) w = t1 @ Call q res # t2"
    and "verb_of q = PATCH \<or> verb_of q = DELETE \<and> srv q = DomainServer"
  shows "\<exists>d. ReadDomain key (Inr (Some d)) \<in> set t1 \<and> IsMarkedForDeletion d
    \<and> (verb_of q = PATCH \<longrightarrow> q = release_request d \<and> (\<exists>ds. ReadDomains (Inr ds) \<in> set t1 \<and>
         (\<forall>dm \<in> set ds. IsPrimary d \<and> GetPrimaryDomain dm = GetPrimaryDomain d
            \<longrightarrow> purged (GetDomain dm @ ''~.+'') t1)))
    \<and> (verb_of q = DELETE \<longrightarrow> q = remove_request d
         \<and> (\<exists>r. Call (release_request d) r \<in> set t1 \<and> res_err r = None))"
  using syncDomain_call [OF assms(1,2)]
proof (cases rule: domain_action.cases)
  case (release d ds)
  then show ?thesis
    by (intro exI [of _ d]) (auto simp: reconciled_def snapshot_def doomed_def host_pattern_def)
next
  case (remove d)
  then show ?thesis
    by (intro exI [of _ d]) (auto simp: reconciled_def doomed_def call_ok_def)
qed (use assms(3) in auto)

lemma syncDomain_release_last_witness:
  "\<exists>t1 d. ReadDomain ''intruder/acme-org'' (Inr (Some d)) \<in> set t1 \<and> IsMarkedForDeletion d"
proof -
  from loser_released obtain t1 q r t2
    where t: "trace_of (syncDomain (static_env (listing [''acme.org~acme~300030'']) [acme_domain, loser_domain] [] [])
        sample_config ''intruder/acme-org'' 0) () = t1 @ Call q r # t2"
      and q: "verb_of q = PATCH"
    by (rule call_split)
  from syncDomain_release_last [OF fair_static t] q show ?thesis by blast
qed

section \<open>Shared claims\<close>

lemma SearchForPrimary_self:
  assumes "\<And>w. \<exists>ds w'. dom_list E w = (Inr ds, w') \<and> d \<in> set ds" "Phase (Status d) = DomainStatusOK"
  obtains p t w' where "SearchForPrimary E d sys w = (Done (Inr (Some p)), t, w')"
    "\<And>e. e \<in> set t \<Longrightarrow> \<exists>l. e = ReadDomains l"
proof -
  have "grants d d" using assms(2) by (simp add: grants_def)
  from SearchForPrimary_finds [OF assms(1) this]
  obtain p where p: "result_of (SearchForPrimary E d sys) w = Done (Inr (Some p))" by blast
  obtain r t w' where run: "SearchForPrimary E d sys w = (r, t, w')"
    by (cases "SearchForPrimary E d sys w")
  have "emits_only (\<lambda>e. \<exists>l. e = ReadDomains l) (SearchForPrimary E d sys)"
    by (intro emits_intros) simp
  from emits_onlyD [OF this, of _ w] run have "\<And>e. e \<in> set t \<Longrightarrow> \<exists>l. e = ReadDomains l"
    by (simp add: trace_of_def)
  with that p run show thesis by (simp add: result_of_def)
qed

text \<open>
  A claimed shared domain is its own "primary": as long as the cache holds it, neither the
  resync of an OK domain nor the wipe after a deletion ever finds it orphaned, whatever happened to
  the primary domain. The check of \<open>syncDomain\<close> on OK domains is dead code.
\<close>

lemma orphaned_shared_never_detected:
  assumes "\<And>w. \<exists>ds w'. dom_list E w = (Inr ds, w') \<and> d \<in> set ds"
    and "Phase (Status d) = DomainStatusOK"
  shows "result_of (sync_ok E cfg d) w = Done (Inr ()) \<and> \<not> list_ex writes (trace_of (sync_ok E cfg d) w)
    \<and> result_of (wipe_shared E cfg d) w = Done (Inr ()) \<and> \<not> list_ex writes (trace_of (wipe_shared E cfg d) w)"
proof -
  from SearchForPrimary_self [OF assms, of "PodNamespace cfg" w]
  obtain p t w' where run: "SearchForPrimary E d (PodNamespace cfg) w = (Done (Inr (Some p)), t, w')"
    and t: "\<And>e. e \<in> set t \<Longrightarrow> \<exists>l. e = ReadDomains l" by metis
  from t have "\<not> list_ex writes t" by (fastforce simp: list_ex_iff)
  with run show ?thesis
    by (auto simp: sync_ok_def wipe_shared_def result_of_def trace_of_def go_defs)
qed

definition orphan_domain :: Domain where
  "orphan_domain = mk_domain ''team'' ''app'' ''acme.org'' ''app'' DomainStatusOK"

lemma orphaned_shared_never_detected_witness:
  "result_of (sync_ok (static_env healthy [orphan_domain] [] []) sample_config orphan_domain) () = Done (Inr ())"
proof -
  have "result_of (sync_ok (static_env healthy [orphan_domain] [] []) sample_config orphan_domain) () = Done (Inr ())
    \<and> \<not> list_ex writes (trace_of (sync_ok (static_env healthy [orphan_domain] [] []) sample_config orphan_domain) ())
    \<and> result_of (wipe_shared (static_env healthy [orphan_domain] [] []) sample_config orphan_domain) () = Done (Inr ())
    \<and> \<not> list_ex writes (trace_of (wipe_shared (static_env healthy [orphan_domain] [] []) sample_config orphan_domain) ())"
    by (rule orphaned_shared_never_detected) (simp_all add: orphan_domain_def mk_defs)
  then show ?thesis by (rule conjunct1)
qed

section \<open>Deleting a duplicate\<close>

definition failed_put :: "Domain \<Rightarrow> act list \<Rightarrow> bool" where
  "failed_put dm h \<longleftrightarrow> (\<exists>t r. Call (domain_put (set_status dm ''DomainDeleted''
     ''The primary domain was deleted'' DomainStatusFailed t)) r \<in> set h \<and> res_err r = None)"

lemma persistent_failed_put [persistent_intros]: "persistent (failed_put dm)"
  by (auto simp: persistent_def failed_put_def)

lemma updateDomainStatus_done:
  assumes "Phase (Status dm) \<noteq> DomainStatusFailed"
  shows "hoare (\<lambda>_ _. True) (\<lambda>_. True) (updateDomainStatus E dm ''DomainDeleted''
      ''The primary domain was deleted'' DomainStatusFailed) (\<lambda>r h. r = Inr () \<longrightarrow> failed_put dm h)"
proof -
  have "hoare (\<lambda>_ _. True) (\<lambda>_. True) (do_raw E (domain_put (set_status dm ''DomainDeleted''
      ''The primary domain was deleted'' DomainStatusFailed t)) wrap (ret (Inr ())))
      (\<lambda>r h. r = Inr () \<longrightarrow> failed_put dm h)" for t wrap
    by (rule hoare_do_raw [OF persistent_basic(2)]; (rule hoare_ret)?) (auto simp: failed_put_def)
  then show ?thesis
    using assms unfolding updateDomainStatus_def Let_def
    by (auto simp: domain_put_def set_status_def intro!: hoare_bnd [OF hoare_true])
qed

lemma purge_domain_done:
  assumes "Phase (Status dm) \<noteq> DomainStatusFailed"
  shows "hoare (\<lambda>_ _. True) (\<lambda>_. True) (purge_domain E dm)
    (\<lambda>r h. r = Inr () \<longrightarrow> purged (host_pattern dm) h \<and> failed_put dm h)"
  unfolding purge_domain_def tryE_assoc [of _ "apiKong_ListByRegexp E None (host_pattern dm)"]
proof (rule hoare_tryE [OF kong.purge_regexp_done])
  have keep: "hoare (\<lambda>_ _. True) (purged (host_pattern dm)) (updateDomainStatus E dm ''DomainDeleted''
      ''The primary domain was deleted'' DomainStatusFailed)
      (\<lambda>r h. purged (host_pattern dm) h \<and> (r = Inr () \<longrightarrow> failed_put dm h))"
    by (rule hoare_keep [OF persistent_purged], rule hoare_pre [OF updateDomainStatus_done [OF assms]]) simp
  show "hoare (\<lambda>_ _. True) (\<lambda>h. Inr x = Inr () \<longrightarrow> purged (host_pattern dm) h)
      (tryE (errorf ''gc=true, failed updating domain status ['' '']'')
       (updateDomainStatus E dm ''DomainDeleted'' ''The primary domain was deleted''
         DomainStatusFailed) (\<lambda>_. ret (Inr ())))
      (\<lambda>r h. r = Inr () \<longrightarrow> purged (host_pattern dm) h \<and> failed_put dm h)" for x :: unit
    by (intro hoare_tryE [OF hoare_pre [OF keep]] hoare_ret) (auto simp: host_pattern_def)
qed simp

lemma syncDomain_delete_run:
  assumes "dom_list E w1 = (Inr ds, w2)" "result_of (syncDomain_delete E d) w1 = Done (Inr ())"
  obtains t w3 t2 where "forE (purge_domain E) (purge_targets d ds) w2 = (Done (Inr ()), t, w3)"
    "trace_of (syncDomain_delete E d) w1 = ReadDomains (Inr ds) # t @ t2"
proof -
  obtain r t w3 where run: "forE (purge_domain E) (purge_targets d ds) w2 = (r, t, w3)"
    by (cases "forE (purge_domain E) (purge_targets d ds) w2")
  have "r = Done (Inr ()) \<and> (\<exists>t2. trace_of (syncDomain_delete E d) w1 = ReadDomains (Inr ds) # t @ t2)"
    using assms run unfolding syncDomain_delete_def
    by (auto simp: list_domains_def result_of_def trace_of_def tryE_def bnd_def ask_def ret_def
        split: outcome.splits sum.splits prod.splits)
  with run that show thesis by blast
qed

text \<open>
  When a primary claim is deleted, every cached claim of the same primary name loses its
  routes and is marked Failed, whatever the phase of the deleted claim: also the rightful owner in
  another namespace, when the deleted resource is a duplicate that was rejected as Failed.
\<close>

lemma deleting_duplicate_hits_owner:
  assumes "dom_get E key w = (Inr (Some d), w1)" "IsValidDomain d" "IsMarkedForDeletion d"
    and "IsPrimary d" "dom_list E w1 = (Inr ds, w2)" "result_of (syncDomain E cfg key n) w = Done (Inr ())"
    and "owner \<in> set ds" "GetPrimaryDomain owner = GetPrimaryDomain d"
    and "Phase (Status owner) = DomainStatusOK"
  shows "purged (GetDomain owner @ ''~.+'') (trace_of (syncDomain E cfg key n) w)
    \<and> (\<exists>t r. Call (domain_put (set_status owner ''DomainDeleted'' ''The primary domain was deleted''
          DomainStatusFailed t)) r \<in> set (trace_of (syncDomain E cfg key n) w))"
proof -
  have run: "syncDomain E cfg key n w =
      (case syncDomain_delete E d w1 of (r, t, w') \<Rightarrow> (r, ReadDomain key (Inr (Some d)) # t, w'))"
    using assms(1-3) by (simp add: syncDomain_def get_domain_def go_defs)
  then have "result_of (syncDomain_delete E d) w1 = Done (Inr ())"
    using assms(6) by (auto simp: result_of_def split: prod.splits)
  with assms(5) obtain t w3 t2 where loop: "forE (purge_domain E) (purge_targets d ds) w2 = (Done (Inr ()), t, w3)"
    and tr: "trace_of (syncDomain_delete E d) w1 = ReadDomains (Inr ds) # t @ t2"
    by (rule syncDomain_delete_run)
  let ?h = "[ReadDomain key (Inr (Some d)), ReadDomains (Inr ds)]"
  let ?R = "\<lambda>dm h. Phase (Status dm) \<noteq> DomainStatusFailed \<longrightarrow> purged (host_pattern dm) h \<and> failed_put dm h"
  have R: "persistent (?R dm)" for dm
    using persistent_purged persistent_failed_put unfolding persistent_def by blast
  have body: "hoare (\<lambda>_ _. True) (\<lambda>_. True) (purge_domain E dm) (\<lambda>r h. r = Inr () \<longrightarrow> ?R dm h)" for dm
  proof (cases "Phase (Status dm) = DomainStatusFailed")
    case True
    then show ?thesis by (simp add: hoare_true)
  next
    case False
    then show ?thesis using purge_domain_done [OF False] by simp
  qed
  have "hoare (\<lambda>_ _. True) (\<lambda>_. True) (forE (purge_domain E) (purge_targets d ds))
      (\<lambda>r h. True \<and> (r = Inr () \<longrightarrow> (\<forall>dm \<in> set (purge_targets d ds). ?R dm h)))"
    by (rule hoare_forE_each [OF persistent_basic(2) R body])
  then have "\<forall>dm \<in> set (purge_targets d ds). ?R dm (?h @ t)"
    using loop unfolding hoare_def result_of_def trace_of_def by (metis fst_conv snd_conv)
  moreover have "owner \<in> set (purge_targets d ds)"
    using assms(4,7,8) by (simp add: purge_targets_def)
  ultimately have "purged (host_pattern owner) (?h @ t) \<and> failed_put owner (?h @ t)"
    using assms(9) by simp
  then have "purged (host_pattern owner) ((?h @ t) @ t2) \<and> failed_put owner ((?h @ t) @ t2)"
    using persistent_purged persistent_failed_put unfolding persistent_def by blast
  moreover have "trace_of (syncDomain E cfg key n) w = (?h @ t) @ t2"
    using run tr by (simp add: trace_of_def split: prod.splits)
  ultimately show ?thesis
    by (auto simp: failed_put_def host_pattern_def)
qed

lemma deleting_duplicate_hits_owner_witness:
  "\<exists>t r. Call (domain_put (set_status acme_domain ''DomainDeleted'' ''The primary domain was deleted''
      DomainStatusFailed t)) r \<in> set (trace_of (syncDomain (static_env (listing [''acme.org~acme~300030''])
        [acme_domain, loser_domain] [] []) sample_config ''intruder/acme-org'' 0) ())"
proof (rule deleting_duplicate_hits_owner [where d = loser_domain and ds = "[acme_domain, loser_domain]", THEN conjunct2])
  show "result_of (syncDomain (static_env (listing [''acme.org~acme~300030'']) [acme_domain, loser_domain] [] [])
      sample_config ''intruder/acme-org'' 0) () = Done (Inr ())"
    by (simp add: loser_domain_def domain_run_defs result_of_def re_compile_def re_quant_def
        re_unmodelled_char_def re_atom_of_def drop_lazy_def)
qed (simp_all add: loser_domain_def acme_domain_def mk_defs meta_key_def IsValidDomain_iff
  IsMarkedForDeletion_def IsPrimary_iff GetPrimaryDomain_def Let_def)

section \<open>Deleting a shared claim\<close>

text \<open>
  Deleting a shared claim releases and removes the resource without a single request to Kong:
  the routes of its host stay in the gateway, although the comment at that point of the code says
  that all routes have been deleted.
\<close>

lemma deleting_shared_keeps_routes:
  assumes "dom_get E key w = (Inr (Some d), w1)" "IsValidDomain d" "IsMarkedForDeletion d"
    and "\<not> IsPrimary d" "dom_list E w1 = (Inr ds, w2)"
    and "valid_segment (Name d)" "Name d \<noteq> ''''" "valid_segment (Namespace d)"
  shows "\<not> list_ex kong_call (trace_of (syncDomain E cfg key n) w)
    \<and> (\<exists>r. Call (release_request d) r \<in> set (trace_of (syncDomain E cfg key n) w))"
proof -
  have "purge_targets d ds = []" using assms(4) by (simp add: purge_targets_def)
  with assms show ?thesis
    by (auto simp: syncDomain_def syncDomain_delete_def get_domain_def list_domains_def go_defs
        do_raw_def send_def request_error_def trace_of_def release_request_def
        split: prod.splits option.splits)
qed

definition leaving_shared :: Domain where
  "leaving_shared = orphan_domain\<lparr>DeletionTimestamp := Some 1\<rparr>"

lemma deleting_shared_keeps_routes_witness:
  "\<not> list_ex kong_call (trace_of (syncDomain (static_env healthy [acme_domain, leaving_shared] [] [])
      sample_config ''team/app'' 0) ())
    \<and> (\<exists>r. Call (release_request leaving_shared) r \<in> set (trace_of (syncDomain
        (static_env healthy [acme_domain, leaving_shared] [] []) sample_config ''team/app'' 0) ()))"
  by (rule deleting_shared_keeps_routes [where d = leaving_shared and ds = "[acme_domain, leaving_shared]"])
    (simp_all add: leaving_shared_def orphan_domain_def acme_domain_def mk_defs meta_key_def
      IsValidDomain_iff IsMarkedForDeletion_def IsPrimary_iff valid_segment_def)

section \<open>The purge pattern\<close>

text \<open>
  The purge pattern of a domain matches every route name of its own host, in every namespace;
  but it is not anchored, so it matches as well the routes of any host that merely ends in the
  name of the domain, which may belong to somebody else.
\<close>

lemma pattern_overreach:
  assumes "re_plain (GetDomain d)" "CHR 0x0A \<notin> set (GetDomain d)" "CHR 0x0A \<notin> set ns"
  shows "routes_of d (apiName (GetDomain d) ns uri) \<and> routes_of d (apiName (prefix @ GetDomain d) ns uri)"
proof -
  have compiled: "\<exists>re. re_compile (host_pattern d) = ReOk re"
    using re_compile_host_pattern [OF assms(1)] by (simp add: host_pattern_def)
  obtain c t where rest: "ns @ CHR ''~'' # GenAdler32Hash uri = c # t" "c \<noteq> CHR 0x0A"
    using assms(3) by (cases ns) auto
  have "re_match re (prefix @ GetDomain d @ CHR ''~'' # c # t)"
    if "re_compile (host_pattern d) = ReOk re" for re and prefix :: string
    unfolding host_pattern_matches [OF assms(1) that [unfolded host_pattern_def]]
    using plain_matches_itself [OF assms(2)] rest(2) by blast
  then have "routes_of d (prefix @ GetDomain d @ CHR ''~'' # c # t)" for prefix :: string
    using compiled by (auto simp: routes_of_def)
  moreover have "apiName (prefix @ GetDomain d) ns uri = prefix @ GetDomain d @ CHR ''~'' # c # t"
    for prefix :: string
    using rest(1) by (simp add: apiName_def)
  ultimately show ?thesis by (metis append_Nil)
qed

text \<open>
  A claim whose host starts with a star passes the validation of the claim, and its pattern
  does not compile: the purge of the primary domain it belongs to panics as soon as Kong answers
  the listing, and with it the process.
\<close>

lemma wildcard_claim_panics:
  assumes "GetDomain dm = CHR ''*'' # rest"
    and "apiKong_List (page_bound E) E None w = (Done (Inr l), t, w1)"
  shows "result_of (purge_domain E dm) w = Panic ''regexp: Compile''"
proof -
  have "re_compile (GetDomain dm @ ''~.+'') = ReError"
    by (simp add: assms(1) re_compile_def re_quant_def)
  with assms(2) show ?thesis
    by (simp add: purge_domain_def host_pattern_def apiKong_ListByRegexp_def result_of_def go_defs)
qed

definition wildcard_domain :: Domain where
  "wildcard_domain = mk_domain ''acme'' ''any'' ''acme.org'' ''*'' DomainStatusOK"

lemma wildcard_claim_panics_witness:
  "IsValidDomain wildcard_domain \<and>
    result_of (purge_domain (static_env (listing []) [wildcard_domain] [] []) wildcard_domain) ()
      = Panic ''regexp: Compile''"
proof
  show "IsValidDomain wildcard_domain"
    by (simp add: wildcard_domain_def mk_defs IsValidDomain_iff)
  show "result_of (purge_domain (static_env (listing []) [wildcard_domain] [] []) wildcard_domain) ()
      = Panic ''regexp: Compile''"
    by (rule wildcard_claim_panics [OF _ list_static [where names = "[]", folded static_env_simps(9)
          [of "listing []" "[wildcard_domain]" "[]" "[]"]]])
      (simp add: wildcard_domain_def mk_defs GetDomain_def IsPrimary_iff)
qed

section \<open>Pagination\<close>

text \<open>
  Every listing the domain controller makes passes nil query parameters, and \<open>List\<close> adds the
  offset of the next page to them: with more APIs than fit in one page of Kong, the purge of a
  domain and the sweep of orphan hosts panic on the assignment to a nil map.
\<close>

lemma second_page_panics:
  assumes "do_request E (list_request None) w = (r, w1)" "has_next r" "0 < page_bound E"
  shows "result_of (apiKong_ListByRegexp E None pattern) w = Panic ''assignment to entry in nil map''
    \<and> result_of (apiKong_List (page_bound E) E None) w = Panic ''assignment to entry in nil map''"
proof -
  obtain k where k: "page_bound E = Suc k" using assms(3) by (cases "page_bound E") auto
  from assms(2) obtain l where "res_err r = None" "unmarshal dec_APIList (payload_of (res_body r)) empty_APIList = (l, None)"
    "NextPage l \<noteq> ''''"
    by (auto simp: has_next_def split: prod.splits option.splits)
  with assms(1) k show ?thesis
    by (simp add: apiKong_ListByRegexp_def send_def request_error_def result_of_def go_defs)
qed

definition two_pages :: "request \<Rightarrow> rest_result" where
  "two_pages q = ok_json (JObj [(''next'', JStr ''/apis?offset=2'')])"

lemma second_page_panics_witness:
  "result_of (apiKong_ListByRegexp (static_env two_pages [] [] []) None ''acme.org~.+'') ()
      = Panic ''assignment to entry in nil map''
    \<and> result_of (apiKong_List (page_bound (static_env two_pages [] [] [])) (static_env two_pages [] [] []) None) ()
      = Panic ''assignment to entry in nil map''"
  by (rule second_page_panics [where r = "two_pages (list_request None)"])
    (simp_all add: two_pages_def has_next_def ok_json_def unmarshal_def payload_of_def dec_APIList_def
      dec_object_def dec_members_single dec_APIList_field_def dec_string_def empty_APIList_def lower_def
      lower_char_def)

end
