(* ===== verification/Service_Safety.thy ===== *)
theory Service_Safety
  imports Sample_World
begin

text \<open>
  What \<open>syncServices\<close> guarantees: it only touches Kong for a service that is being deleted, deletes
  only APIs that Kong lists for an upstream of that service, deletes all of them before it returns
  nil, and cannot panic; and the two gaps of its design: the finalizer goes after the first port,
  and a service without ports keeps it for ever. The relation between the upstream a route was
  registered with and the upstreams the collection asks for is \<open>getUpstream_eq\<close>.
\<close>

section \<open>Upstreams\<close>

lemma show_int_inj: "show_int i = show_int j \<Longrightarrow> i = j"
proof -
  have no_minus: "CHR ''-'' \<notin> set (show_base 10 n)" for n
    using show_base_digits [of 10 n] not_digit_chars(3) by auto
  assume eq: "show_int i = show_int j"
  have "i < 0 \<longleftrightarrow> j < 0"
    using eq no_minus by (auto simp: show_int_def split: if_splits) (metis list.set_intros(1))+
  with eq show "i = j"
    using show_base_inj [of 10 "nat i" "nat j"] show_base_inj [of 10 "nat (- i)" "nat (- j)"]
    by (auto simp: show_int_def split: if_splits)
qed

lemma digits_suffix_eq:
  assumes "a @ c # s = b @ c # t" "c \<notin> set s" "c \<notin> set t"
  shows "a = b \<and> s = t"
proof -
  have rev: "rev s @ c # rev a = rev t @ c # rev b"
    using arg_cong [OF assms(1), of rev] by simp
  have tw: "takeWhile (\<lambda>x. x \<noteq> c) (rev u @ c # v) = rev u" if "c \<notin> set u" for u v
    using that by (subst takeWhile_append2) auto
  from tw [OF assms(2), of "rev a"] tw [OF assms(3), of "rev b"] rev have "s = t" by simp
  with assms(1) show ?thesis by simp
qed

definition upstream_of :: "Config \<Rightarrow> string \<Rightarrow> string \<Rightarrow> 32 word \<Rightarrow> string" where
  "upstream_of cfg ns svc port = getUpstream cfg (proto_of port) ns svc port"

lemma upstream_port_eq: "upstream_of cfg ns svc p = upstream_of cfg ns svc p' \<longleftrightarrow> p = p'"
proof
  assume "upstream_of cfg ns svc p = upstream_of cfg ns svc p'"
  then have eq: "(proto_of p @ ''://'' @ svc @ ''.'' @ ns @ ''.'' @ ClusterDNS cfg) @ CHR '':'' # show_int (sint p)
      = (proto_of p' @ ''://'' @ svc @ ''.'' @ ns @ ''.'' @ ClusterDNS cfg) @ CHR '':'' # show_int (sint p')"
    by (simp add: upstream_of_def getUpstream_def)
  have colon: "CHR '':'' \<notin> set (show_int i)" for i
  proof -
    have "CHR '':'' \<notin> digit_chars"
    proof -
      have d: "digit_chars = set (map digit_char [0..<16])"
        by (auto simp: digit_chars_def)
      show ?thesis unfolding d by (simp add: digit_char_def upt_rec char_of_def bit_Suc bit_0)
    qed
    then show ?thesis
      using show_base_digits [of 10] by (auto simp: show_int_def)
  qed
  from digits_suffix_eq [OF eq colon colon] have "sint p = sint p'" using show_int_inj by blast
  then have "word_of_int (sint p) = (word_of_int (sint p') :: 32 word)" by simp
  then show "p = p'" by simp
qed simp

section \<open>The requests of the collection\<close>

definition service_release :: "Service \<Rightarrow> request" where
  "service_release svc = core_request PATCH ''services'' (Namespace svc) (Name svc)
     (PatchBody MergePatch no_finalizers_patch)"

text \<open>A listing of the APIs of an upstream: a GET of all the APIs with that query parameter.\<close>

fun lists_upstream :: "string \<Rightarrow> act \<Rightarrow> bool" where
  "lists_upstream u (Call q r) = (is_listing (Call q r) \<and> (''upstream_url'', [u]) \<in> set (params q))"
| "lists_upstream u _ = False"

lemma list_request_params [simp]: "params (list_request (Some vs)) = vs"
  by (simp add: list_request_def)

lemma is_listing_request [simp]: "is_listing (Call (list_request ps) r)"
  by (simp add: list_request_def kong_request_def)

lemma url_add_member: "(k', vs) \<in> set ps \<Longrightarrow> k \<noteq> k' \<Longrightarrow> (k', vs) \<in> set (url_add k v ps)"
  by (induction k v ps rule: url_add.induct) auto

lemma apiKong_List_upstream:
  "(''upstream_url'', [u]) \<in> set vs \<Longrightarrow> emits_only (lists_upstream u) (apiKong_List n E (Some vs))"
proof (induction n arbitrary: vs)
  case 0
  then show ?case by (auto intro: emits_intros)
next
  case (Suc n)
  have "(''upstream_url'', [u]) \<in> set (url_add ''offset'' off vs)" for off
    using Suc.prems by (intro url_add_member) auto
  then have rec: "emits_only (lists_upstream u) (apiKong_List n E (Some (url_add ''offset'' off vs)))" for off
    by (rule Suc.IH)
  note apiKong_List_reads [emits_intros del]
  with Suc.prems rec show ?case
    by (auto intro!: emits_intros split: option.splits prod.splits simp del: is_listing.simps)
qed

lemma apiKong_List_no_panic [no_panic_intros]: "no_panic (apiKong_List n E (Some vs))"
proof (induction n arbitrary: vs)
  case 0
  then show ?case by (auto intro: no_panic_intros)
next
  case (Suc n)
  have "no_panic (send E q)" for q
    unfolding send_def by (intro no_panic_intros)
  with Suc.IH show ?case
    by (auto intro!: no_panic_intros split: option.splits prod.splits)
qed

text \<open>
  What the history must show before an action of the collection: the service was read and is being
  deleted; a deleted API was in a complete listing of one of its upstreams.
\<close>

definition doomed_service :: "string \<Rightarrow> Service \<Rightarrow> act list \<Rightarrow> bool" where
  "doomed_service key svc h \<longleftrightarrow> ReadService key (Inr (Some svc)) \<in> set h \<and> DeletionTimestamp svc \<noteq> None"

definition listed_for :: "string \<Rightarrow> API list \<Rightarrow> act list \<Rightarrow> bool" where
  "listed_for u apis h \<longleftrightarrow> (\<exists>h1 t h2. h = h1 @ t @ h2 \<and> full_listing t apis \<and> list_all (lists_upstream u) t)"

definition port_purged :: "string \<Rightarrow> act list \<Rightarrow> bool" where
  "port_purged u h \<longleftrightarrow> (\<exists>apis. listed_for u apis h \<and> (\<forall>api \<in> set apis. deleted (API_Name api) h))"

definition gc_action :: "Config \<Rightarrow> string \<Rightarrow> act list \<Rightarrow> act \<Rightarrow> bool" where
  "gc_action cfg key h e \<longleftrightarrow> (writes e \<longrightarrow> (\<exists>svc port r apis. doomed_service key svc h \<and> port \<in> set (Ports svc)
     \<and> listed_for (upstream_of cfg (Namespace svc) (Name svc) (Port port)) apis h
     \<and> ((\<exists>api \<in> set apis. e = Call (kong_request DELETE (Some (API_Name api)) NoBody) r)
        \<or> e = Call (service_release svc) r \<and> (\<forall>api \<in> set apis. deleted (API_Name api) h))))"

lemma persistent_listed: "persistent (listed_for u apis)" "persistent (doomed_service key svc)"
proof -
  show "persistent (listed_for u apis)"
    unfolding persistent_def listed_for_def by (metis append.assoc)
  show "persistent (doomed_service key svc)"
    by (auto simp: persistent_def doomed_service_def)
qed

lemma persistent_port_purged: "persistent (port_purged u)"
  using persistent_listed(1) persistent_deleted unfolding persistent_def port_purged_def by metis

lemma gc_action_read: "\<not> writes e \<Longrightarrow> gc_action cfg key h e"
  by (simp add: gc_action_def)

section \<open>Triples\<close>

lemma list_upstream_hoare:
  "hoare (\<lambda>_ _. True) H (apiKong_List (page_bound E) E (Some [(''upstream_url'', [u])]))
    (\<lambda>r h. \<forall>l. r = Inr l \<longrightarrow> listed_for u (Items l) h)"
proof (rule hoare_of_run)
  fix w x
  let ?m = "apiKong_List (page_bound E) E (Some [(''upstream_url'', [u])])"
  assume x: "result_of ?m w = Done x"
  have "emits_only (lists_upstream u) ?m" by (rule apiKong_List_upstream) simp
  then have "list_all (lists_upstream u) (trace_of ?m w)"
    by (simp add: emits_only_def list_all_iff)
  with x kong.list_complete [of E _ w] show "\<forall>l. x = Inr l \<longrightarrow> listed_for u (Items l) (trace_of ?m w)"
    unfolding listed_for_def by (metis append_Nil append_Nil2)
next
  fix x h t
  assume "\<forall>l. (x :: go_error + APIList) = Inr l \<longrightarrow> listed_for u (Items l) t"
  then show "\<forall>l. x = Inr l \<longrightarrow> listed_for u (Items l) (h @ t)"
    unfolding listed_for_def by (metis append.assoc)
qed

lemma gc_port_action:
  assumes "port \<in> set (Ports svc)"
  shows "hoare (gc_action cfg key) (doomed_service key svc) (gc_port E cfg svc port)
    (\<lambda>r h. r = Inr () \<longrightarrow> port_purged (upstream_of cfg (Namespace svc) (Name svc) (Port port)) h)"
proof -
  let ?u = "upstream_of cfg (Namespace svc) (Name svc) (Port port)"
  let ?I = "doomed_service key svc"
  let ?J = "\<lambda>apis h. ?I h \<and> listed_for ?u apis h"
  let ?K = "\<lambda>apis h. ?J apis h \<and> (\<forall>api \<in> set apis. deleted (API_Name api) h)"
  have J: "persistent (?J apis)" for apis
    by (intro persistent_intros persistent_listed)
  have K: "persistent (?K apis)" for apis
    using J [of apis] persistent_deleted unfolding persistent_def by blast
  have list: "hoare (gc_action cfg key) ?I (apiKong_List (page_bound E) E (Some [(''upstream_url'', [?u])]))
      (\<lambda>r h. ?I h \<and> (\<forall>l. r = Inr l \<longrightarrow> listed_for ?u (Items l) h))"
    by (rule hoare_keep [OF persistent_listed(2)],
        rule hoare_from_emits [OF kong.list_reads _ list_upstream_hoare])
      (rule gc_action_read, case_tac e, auto)
  have gc_delete: "gc_action cfg key h (Call (kong_request DELETE (Some (API_Name api)) NoBody) r)"
    if "?J apis h" "api \<in> set apis" for apis h api r
    using that assms unfolding gc_action_def by blast
  have del: "hoare (gc_action cfg key) (?J apis) (delete_apis (apiKong_Delete E) wrap apis)
      (\<lambda>r h. ?J apis h \<and> (r = Inr () \<longrightarrow> (\<forall>api \<in> set apis. deleted (API_Name api) h)))" for apis wrap
  proof (rule hoare_conj [OF hoare_frame [OF J] kong.delete_apis_done],
      rule emits_only_mono [OF kong.delete_apis_emits], intro allI impI)
    fix e h
    assume e: "(\<exists>api \<in> set apis. is_kong_delete (API_Name api) e) \<or> e = ApisTotalDec" and "?J apis h"
    then show "gc_action cfg key h e"
      by (cases e) (auto intro: gc_delete gc_action_read)
  qed
  have patch: "hoare (gc_action cfg key) (?K apis) (send E (service_release svc))
      (\<lambda>_ h. ?K apis h)" for apis
    by (rule hoare_frame [OF K], intro emits_intros) (use assms in \<open>auto simp: gc_action_def\<close>)
  show ?thesis
    unfolding gc_port_def Let_def service_release_def [symmetric]
      upstream_of_def [of cfg "Namespace svc" "Name svc" "Port port", symmetric]
    apply (rule hoare_tryE [OF list], simp)
    apply (rule hoare_tryE [OF hoare_pre [OF del]], simp, simp)
    subgoal for l u
      apply (rule hoare_bnd [OF hoare_pre [OF patch [of "Items l"]]], simp)
      apply (intro hoare_case_option hoare_ret; auto simp: port_purged_def)
      done
    done
qed

lemma syncServices_action: "hoare (gc_action cfg key) (\<lambda>_. True) (syncServices E cfg key n) (\<lambda>_ _. True)"
proof -
  have read: "hoare (gc_action cfg key) (\<lambda>_. True) (get_service E key)
      (\<lambda>r h. \<forall>svc. r = Inr (Some svc) \<longrightarrow> ReadService key (Inr (Some svc)) \<in> set h)"
    unfolding get_service_def by (rule hoare_ask) (auto intro: gc_action_read)
  have loop: "hoare (gc_action cfg key) (doomed_service key svc) (forE (gc_port E cfg svc) (Ports svc)) (\<lambda>_ _. True)" for svc
    by (rule hoare_weaken [OF hoare_forE_persistent [OF persistent_listed(2)]])
      (auto intro: hoare_weaken [OF gc_port_action])
  show ?thesis
    unfolding syncServices_def
    apply (rule hoare_tryE [OF read], simp)
    apply (rule hoare_case_option)
     apply (rule hoare_ret, simp)
    apply (rule hoare_if)
     apply (rule hoare_ret, simp)
    apply (rule hoare_pre [OF loop], simp add: doomed_service_def)
    done
qed

section \<open>Properties\<close>

text \<open>
  C5: a write made while reconciling a service happens only if the cached service is being deleted;
  it deletes an API that a complete listing of Kong for the upstream of one of its ports had, or it
  releases the finalizer of that very service after every API listed for one port was deleted.
\<close>

theorem syncServices_writes:
  assumes "trace_of (syncServices E cfg key n) w = t1 @ e # t2" "writes e"
  shows "\<exists>svc port apis r. ReadService key (Inr (Some svc)) \<in> set t1 \<and> DeletionTimestamp svc \<noteq> None
    \<and> port \<in> set (Ports svc)
    \<and> listed_for (getUpstream cfg (proto_of (Port port)) (Namespace svc) (Name svc) (Port port)) apis t1
    \<and> ((\<exists>api \<in> set apis. e = Call (kong_request DELETE (Some (API_Name api)) NoBody) r)
       \<or> e = Call (service_release svc) r \<and> (\<forall>api \<in> set apis. deleted (API_Name api) t1))"
  using hoareD [OF syncServices_action _ assms(1)] assms(2)
  unfolding gc_action_def doomed_service_def upstream_of_def by blast

definition doomed_web :: Service where
  "doomed_web = mk_service ''acme'' ''web'' (Some 1) [\<lparr>Port = 80\<rparr>, \<lparr>Port = 443\<rparr>]"

lemma list_upstream_static [simp]:
  "apiKong_List 3 (static_env healthy ds ss is) (Some vs) w =
    (Done (Inr empty_APIList), [Call (list_request (Some vs)) (ok_json (JObj []))], w)"
  by (simp add: numeral_3_eq_3 send_def request_error_def go_defs answer_defs empty_APIList_def dec_members_def)

lemmas service_run_defs = run_defs answer_defs syncServices_def gc_port_def delete_apis_def
  doomed_web_def mk_service_def meta_key_def sample_config_def Let_def empty_APIList_def

lemma doomed_web_trace:
  "\<exists>e \<in> set (trace_of (syncServices (static_env healthy [] [doomed_web] []) sample_config ''acme/web'' 0) ()). writes e"
  by (simp add: service_run_defs trace_of_def)

lemma syncServices_writes_witness:
  "\<exists>svc t1. ReadService ''acme/web'' (Inr (Some svc)) \<in> set t1 \<and> DeletionTimestamp svc \<noteq> None"
proof -
  from doomed_web_trace obtain e where e: "writes e"
    "e \<in> set (trace_of (syncServices (static_env healthy [] [doomed_web] []) sample_config ''acme/web'' 0) ())" by blast
  from split_list [OF e(2)] obtain t1 t2 where
    "trace_of (syncServices (static_env healthy [] [doomed_web] []) sample_config ''acme/web'' 0) () = t1 @ e # t2"
    by blast
  from syncServices_writes [OF this e(1)] show ?thesis by blast
qed

lemma syncServices_run:
  assumes "svc_get E key w = (Inr (Some svc), w1)" "DeletionTimestamp svc \<noteq> None"
  shows "syncServices E cfg key n w = (case forE (gc_port E cfg svc) (Ports svc) w1 of
    (r, t, w') \<Rightarrow> (r, ReadService key (Inr (Some svc)) # t, w'))"
  using assms by (auto simp: syncServices_def get_service_def go_defs)

text \<open>
  When the collection of a deleted service returns nil, then for each of its ports Kong was
  listed to the last page for the upstream of that port, and every API of the listing was deleted.
\<close>

lemma syncServices_collects:
  assumes "svc_get E key w = (Inr (Some svc), w1)" "DeletionTimestamp svc \<noteq> None"
    and "result_of (syncServices E cfg key n) w = Done (Inr ())" "port \<in> set (Ports svc)"
  shows "\<exists>apis. listed_for (getUpstream cfg (proto_of (Port port)) (Namespace svc) (Name svc) (Port port)) apis
      (trace_of (syncServices E cfg key n) w)
    \<and> (\<forall>api \<in> set apis. deleted (API_Name api) (trace_of (syncServices E cfg key n) w))"
proof -
  obtain r t w2 where loop: "forE (gc_port E cfg svc) (Ports svc) w1 = (r, t, w2)"
    by (cases "forE (gc_port E cfg svc) (Ports svc) w1")
  note run = syncServices_run [OF assms(1,2), of cfg n]
  from assms(3) run loop have r: "r = Done (Inr ())" by (simp add: result_of_def)
  let ?u = "\<lambda>port. upstream_of cfg (Namespace svc) (Name svc) (Port port)"
  let ?h = "[ReadService key (Inr (Some svc))]"
  have "hoare (gc_action cfg key) (doomed_service key svc) (forE (gc_port E cfg svc) (Ports svc))
      (\<lambda>r h. doomed_service key svc h \<and> (r = Inr () \<longrightarrow> (\<forall>port \<in> set (Ports svc). port_purged (?u port) h)))"
    by (rule hoare_forE_each [OF persistent_listed(2) persistent_port_purged gc_port_action])
  moreover have "doomed_service key svc ?h" using assms(2) by (simp add: doomed_service_def)
  ultimately have "\<forall>port \<in> set (Ports svc). port_purged (?u port) (?h @ t)"
    using loop r unfolding hoare_def result_of_def trace_of_def by (metis fst_conv snd_conv)
  moreover have "trace_of (syncServices E cfg key n) w = ?h @ t"
    using run loop by (simp add: trace_of_def)
  ultimately show ?thesis
    using assms(4) by (simp add: port_purged_def upstream_of_def)
qed

lemma syncServices_collects_witness:
  "\<exists>apis. listed_for ''https://web.acme.svc.cluster.local:443'' apis
    (trace_of (syncServices (static_env healthy [] [doomed_web] []) sample_config ''acme/web'' 0) ())"
proof -
  let ?E = "static_env healthy [] [doomed_web] []"
  have done_run: "result_of (syncServices ?E sample_config ''acme/web'' 0) () = Done (Inr ())"
    by (simp add: service_run_defs result_of_def)
  have url: "getUpstream sample_config (proto_of 443) ''acme'' ''web'' 443 = ''https://web.acme.svc.cluster.local:443''"
    by (simp add: getUpstream_def proto_of_def sample_config_def show_int_def show_base_big show_base_small
        digit_char_def char_of_def bit_Suc bit_0)
  have "svc_get ?E ''acme/web'' () = (Inr (Some doomed_web), ())"
    by (simp add: doomed_web_def mk_defs meta_key_def)
  from syncServices_collects [OF this _ done_run, of "\<lparr>Port = 443\<rparr>"] show ?thesis
    using url by (auto simp: doomed_web_def mk_defs)
qed

text \<open>The collection never panics, whatever the caches and Kong answer.\<close>

lemma syncServices_no_panic: "result_of (syncServices E cfg key n) w \<noteq> Panic s"
proof -
  have send: "no_panic (send E q)" for q
    unfolding send_def by (intro no_panic_intros)
  have "no_panic (syncServices E cfg key n)"
    unfolding syncServices_def gc_port_def get_service_def delete_apis_def apiKong_Delete_def Let_def
    by (intro no_panic_intros send)
  then show ?thesis by (simp add: no_panic_def)
qed

section \<open>Gaps\<close>

text \<open>
  The release of the finalizer is inside the loop over the ports: for a service with several
  ports it is sent as soon as the APIs of the first port are gone, before Kong was even asked for
  those of the second. If the rest of the run fails, the API server may already have removed the
  service, and the collection of the other ports never happens.
\<close>

lemma finalizer_released_after_first_port:
  assumes "svc_get E key w = (Inr (Some svc), w1)" "DeletionTimestamp svc \<noteq> None"
    and "Ports svc = port # port' # ports" "valid_segment (Name svc)" "Name svc \<noteq> ''''" "valid_segment (Namespace svc)"
    and "apiKong_List (page_bound E) E (Some [(''upstream_url'',
        [getUpstream cfg (proto_of (Port port)) (Namespace svc) (Name svc) (Port port)])]) w1
      = (Done (Inr apiList), t, w2)"
    and "delete_apis (apiKong_Delete E) (\<lambda>api. errorf (''gc=true, failed removing kong api '' @ API_Name api @ '', ['') '']'')
      (Items apiList) w2 = (Done (Inr ()), t', w3)"
  shows "\<exists>res rest. trace_of (syncServices E cfg key n) w =
    ReadService key (Inr (Some svc)) # t @ t' @ Call (service_release svc) res # rest"
proof -
  obtain res w4 where res: "do_request E (service_release svc) w3 = (res, w4)"
    by (cases "do_request E (service_release svc) w3")
  have "send E (service_release svc) w3 = (Done res, [Call (service_release svc) res], w4)"
    using assms(4-6) res by (simp add: send_def request_error_def service_release_def ask_def)
  then have port: "gc_port E cfg svc port w1 =
      (case res_err res of Some e \<Rightarrow> (Done (Inl (errorf ''gc=true, failed patch service ['' '']'' e)),
          t @ t' @ [Call (service_release svc) res], w4)
       | None \<Rightarrow> (Done (Inr ()), t @ t' @ [Call (service_release svc) res], w4))"
    using assms(7,8)
    by (simp add: gc_port_def tryE_def bnd_def ret_def service_release_def split: option.splits)
  have "\<exists>rest. trace_of (forE (gc_port E cfg svc) (Ports svc)) w1 =
      t @ t' @ Call (service_release svc) res # rest"
    using port by (auto simp: assms(3) tryE_def bnd_def ret_def trace_of_def
        split: option.splits prod.splits outcome.splits)
  then show ?thesis
    using syncServices_run [OF assms(1,2), of cfg n] by (auto simp: trace_of_def split: prod.splits)
qed

lemma finalizer_released_after_first_port_witness:
  "\<exists>res rest t t'. trace_of (syncServices (static_env healthy [] [doomed_web] []) sample_config ''acme/web'' 0) () =
    ReadService ''acme/web'' (Inr (Some doomed_web)) # t @ t' @ Call (service_release doomed_web) res # rest"
proof -
  let ?E = "static_env healthy [] [doomed_web] []"
  have "\<exists>res rest. trace_of (syncServices ?E sample_config ''acme/web'' 0) () =
    ReadService ''acme/web'' (Inr (Some doomed_web)) # [Call (list_request (Some [(''upstream_url'',
        [getUpstream sample_config (proto_of 80) ''acme'' ''web'' 80])])) (ok_json (JObj []))] @ []
      @ Call (service_release doomed_web) res # rest"
    by (rule finalizer_released_after_first_port [where port = "\<lparr>Port = 80\<rparr>" and port' = "\<lparr>Port = 443\<rparr>"
          and ports = "[]" and apiList = empty_APIList and ?w2.0 = "()" and ?w3.0 = "()"])
      (simp_all add: doomed_web_def mk_defs meta_key_def valid_segment_def delete_apis_def empty_APIList_def go_defs)
  then show ?thesis by blast
qed

text \<open>
  A deleted service with no ports (the API allows it for an ExternalName service) is accepted
  as collected without releasing its finalizer: no request is made, and the next attempts will do
  no more, so the service can never disappear.
\<close>

lemma portless_service_stuck:
  assumes "svc_get E key w = (Inr (Some svc), w1)" "Ports svc = []"
  shows "syncServices E cfg key n w = (Done (Inr ()), [ReadService key (Inr (Some svc))], w1)"
  using assms by (simp add: syncServices_def get_service_def go_defs)

lemma portless_service_stuck_witness:
  "syncServices (static_env healthy [] [mk_service ''acme'' ''alias'' (Some 1) []] []) sample_config ''acme/alias'' 0 ()
    = (Done (Inr ()), [ReadService ''acme/alias'' (Inr (Some (mk_service ''acme'' ''alias'' (Some 1) [])))], ())"
  by (rule portless_service_stuck) (simp_all add: mk_defs meta_key_def)

text \<open>
  The collection asks Kong for exactly the upstreams the routes of that service were registered
  with if the backend port of the route is one of the numeric ports of the service; a backend that
  names its port by a string (its IntVal is 0) is registered with port 0, which no collection of a
  service with real ports ever asks for.
\<close>

lemma gc_covers_route:
  assumes "Namespace svc = Namespace ing" "Name svc = ServiceName (Backend p)"
  shows "(\<exists>port \<in> set (Ports svc). UpstreamURL (api_body cfg ing r p api) =
      getUpstream cfg (proto_of (Port port)) (Namespace svc) (Name svc) (Port port))
    \<longleftrightarrow> ServicePort_IntVal (Backend p) \<in> Port ` set (Ports svc)"
  using upstream_port_eq [of cfg "Namespace svc" "Name svc" "ServicePort_IntVal (Backend p)"] assms
  by (auto simp: api_body_def upstream_of_def)

lemma gc_covers_route_witness:
  "(\<exists>port \<in> set (Ports acme_service). UpstreamURL (api_body sample_config acme_ingress acme_rule
        (\<lparr>Path = ''/'', Backend = \<lparr>ServiceName = ''web'', ServicePort_IntVal = 0\<rparr>\<rparr>) None) =
      getUpstream sample_config (proto_of (Port port)) (Namespace acme_service) (Name acme_service) (Port port))
    \<longleftrightarrow> 0 \<in> Port ` set (Ports acme_service)"
  by (subst gc_covers_route) (simp_all add: acme_defs mk_defs)

text \<open>
  The delete handler of ingresses asserts the type of what the informer hands it and panics on
  the tombstone of a missed deletion, where the handlers of domains and services queue its key.
\<close>

lemma ingress_tombstone_panics:
  "result_of (delete_ingress (DeletedFinalStateUnknown key)) w = Panic ''interface conversion''
    \<and> trace_of (deleteDomain (DeletedFinalStateUnknown key)) w = [Enqueue DomQueue key]
    \<and> trace_of (delete_service (DeletedFinalStateUnknown key)) w = [Enqueue SvcQueue key]"
  by (simp add: delete_ingress_def deleteDomain_def delete_service_def domain_key_def service_key_def
      go_defs result_of_def trace_of_def)

text \<open>
  Registering again a route that Kong already has (which every change of an ingress does)
  increases the gauge "Total number of Kong apis" although no API is created.
\<close>

lemma gauge_counts_updates:
  assumes "apiKong_Get E (route_name ing r p) w = (Done (Some a, \<lparr>resp_err = None, StatusCode = 200, Raw = None\<rparr>), t, w1)"
    and "apiKong_UpdateOrCreate E (api_body cfg ing r p (Some a)) w1 =
      (Done (Some b, \<lparr>resp_err = None, StatusCode = 200, Raw = None\<rparr>), t', w2)"
  shows "register_route E cfg ing r p w = (Done (Inr ()), t @ t' @ [ApisTotalInc], w2)"
  using assms by (simp add: register_route_def Error_def go_defs)

definition registered :: "request \<Rightarrow> rest_result" where
  "registered q = ok_json (JObj [])"

lemma gauge_counts_updates_witness:
  "\<exists>t t'. register_route (static_env registered [] [] []) sample_config acme_ingress acme_rule (mk_path ''/'' ''web'') ()
    = (Done (Inr ()), t @ t' @ [ApisTotalInc], ())"
proof -
  have seg: "valid_segment (route_name acme_ingress acme_rule (mk_path ''/'' ''web''))"
    "route_name acme_ingress acme_rule (mk_path ''/'' ''web'') \<noteq> ''''"
    by (simp_all add: route_name_def apiName_def acme_defs mk_defs path_uri_def valid_segment_def)
  show ?thesis
    by (intro exI, rule gauge_counts_updates)
      (use seg in \<open>simp_all add: apiKong_Get_def apiKong_UpdateOrCreate_def send_def request_error_def go_defs
        registered_def ok_json_def unmarshal_def payload_of_def dec_API_def dec_object_def\<close>)
qed

end
