(* ===== verification/Name_Safety.thy ===== *)
theory Name_Safety
  imports Sample_World
begin

text \<open>
  The naming scheme that ties the three resources together: the claims made for an ingress cover
  its hosts, primaries first; the metadata name of a claim; the API names and the grouping that
  \<open>getApisByHost\<close> recovers from them; the JSON round trip of an API; the end of a paginated listing.
\<close>

text \<open>
  Auto-claim makes one claim for each rule of the ingress, in its namespace, with the full name
  equal to the host (unless the host starts with an empty label), and puts the primary claims
  before the shared ones, so that a shared claim is never posted before its primary.
\<close>

lemma getHostsFromIngress_covers:
  assumes "\<forall>r \<in> set (Rules ing). hd (split_on CHR ''.'' (Host r)) \<noteq> ''''"
  shows "GetDomain ` set (getHostsFromIngress ing) = Host ` set (Rules ing)
    \<and> length (getHostsFromIngress ing) = length (Rules ing)
    \<and> (\<forall>d \<in> set (getHostsFromIngress ing). Namespace d = Namespace ing)
    \<and> (\<exists>ps ss. getHostsFromIngress ing = ps @ ss \<and> list_all IsPrimary ps \<and> \<not> list_ex IsPrimary ss)"
proof (intro conjI)
  have "GetDomain (claim_of_host ing (Host r)) = Host r" if "r \<in> set (Rules ing)" for r
    using assms that by (intro GetDomain_claim) simp
  then show "GetDomain ` set (getHostsFromIngress ing) = Host ` set (Rules ing)"
    by (auto simp: getHostsFromIngress_set image_image)
  show "length (getHostsFromIngress ing) = length (Rules ing)"
    using sum_length_filter_compl [of IsPrimary "map (\<lambda>r. claim_of_host ing (Host r)) (Rules ing)"]
    by (simp add: getHostsFromIngress_eq)
  show "\<forall>d \<in> set (getHostsFromIngress ing). Namespace d = Namespace ing"
    by (auto simp: getHostsFromIngress_set)
  show "\<exists>ps ss. getHostsFromIngress ing = ps @ ss \<and> list_all IsPrimary ps \<and> \<not> list_ex IsPrimary ss"
    unfolding getHostsFromIngress_eq by (intro exI conjI, rule refl) (auto simp: list_all_iff list_ex_iff)
qed

lemma getHostsFromIngress_covers_witness:
  "GetDomain ` set (getHostsFromIngress acme_ingress) = Host ` set (Rules acme_ingress)"
  by (rule getHostsFromIngress_covers [THEN conjunct1]) (simp add: acme_defs mk_defs)

text \<open>
  The metadata name of a claim identifies the host among hosts without hyphens; in general two
  different hosts get the same name, so the claim of one overwrites the claim of the other in a
  namespace.
\<close>

lemma genMetaName_identifies:
  "(CHR ''-'' \<notin> set h \<union> set h' \<longrightarrow> genMetaNameFromHost h = genMetaNameFromHost h' \<longrightarrow> h = h')
    \<and> (\<exists>a b. a \<noteq> b \<and> length (split_on CHR ''.'' a) = 3 \<and> length (split_on CHR ''.'' b) = 3
        \<and> genMetaNameFromHost a = genMetaNameFromHost b)"
proof
  have "h = h'" if "map (\<lambda>c. if c = CHR ''.'' then CHR ''-'' else c) h = map (\<lambda>c. if c = CHR ''.'' then CHR ''-'' else c) h'"
    "CHR ''-'' \<notin> set h \<union> set h'"
    using that
  proof (induction h arbitrary: h')
    case Nil
    then show ?case by simp
  next
    case (Cons c h)
    then show ?case by (cases h') (auto split: if_splits)
  qed
  then show "CHR ''-'' \<notin> set h \<union> set h' \<longrightarrow> genMetaNameFromHost h = genMetaNameFromHost h' \<longrightarrow> h = h'"
    by (simp add: genMetaName_map)
  have "genMetaNameFromHost ''a-b.c.io'' = genMetaNameFromHost ''a.b-c.io''"
    by (simp add: genMetaName_map)
  then show "\<exists>a b. a \<noteq> b \<and> length (split_on CHR ''.'' a) = 3 \<and> length (split_on CHR ''.'' b) = 3
        \<and> genMetaNameFromHost a = genMetaNameFromHost b"
    by (intro exI [of _ "''a-b.c.io''"] exI [of _ "''a.b-c.io''"]) simp
qed

lemma genMetaName_identifies_witness:
  "genMetaNameFromHost ''acme.org'' \<noteq> genMetaNameFromHost ''acme.com''"
  using genMetaName_identifies [of "''acme.org''" "''acme.com''"] by auto

text \<open>
  C39: \<open>getApisByHost\<close> groups the APIs by the host in their names: each host is a key once, and its
  group holds the APIs whose name has three parts of which it is the first, all of them, in the order
  of the listing; a host without one has no group. An API with the name of a route, registered for a
  host and a namespace without a tilde, is in the group of its host, so the sweep meets it there and
  under no other host.
\<close>

theorem getApisByHost_groups:
  assumes "CHR ''~'' \<notin> set host" "CHR ''~'' \<notin> set ns"
  shows "distinct (map fst (getApisByHost l))
    \<and> map_of (getApisByHost l) h =
        (let apis = filter (\<lambda>api. \<exists>n u. split_on CHR ''~'' (API_Name api) = [h, n, u]) (Items l)
         in if apis = [] then None else Some apis)
    \<and> (API_Name api = apiName host ns uri \<longrightarrow> api \<in> set (Items l) \<longrightarrow>
        (\<exists>apis. map_of (getApisByHost l) h = Some apis \<and> api \<in> set apis) = (h = host))"
proof -
  have parts: "named_by_host h = (\<lambda>api. \<exists>n u. split_on CHR ''~'' (API_Name api) = [h, n, u])"
    by (rule ext) (auto simp: named_by_host_def length_Suc_conv numeral_3_eq_3)
  have "API_Name api = apiName host ns uri \<Longrightarrow> named_by_host h api \<longleftrightarrow> h = host"
    using split_apiName [OF assms] by (auto simp: named_by_host_def)
  then show ?thesis
    unfolding parts [symmetric] by (auto simp: getApisByHost_lookup getApisByHost_distinct filter_empty_conv Let_def)
qed

lemma getApisByHost_groups_witness:
  "(let api = empty_API\<lparr>API_Name := apiName ''acme.org'' ''acme'' ''/''\<rparr>; l = empty_APIList\<lparr>Items := [api, empty_API]\<rparr>
    in \<exists>apis. map_of (getApisByHost l) ''acme.org'' = Some apis \<and> api \<in> set apis)"
proof -
  let ?api = "empty_API\<lparr>API_Name := apiName ''acme.org'' ''acme'' ''/''\<rparr>"
  let ?l = "empty_APIList\<lparr>Items := [?api, empty_API]\<rparr>"
  have "API_Name ?api = apiName ''acme.org'' ''acme'' ''/''" "?api \<in> set (Items ?l)" by simp_all
  with getApisByHost_groups [where host = "''acme.org''" and h = "''acme.org''" and api = ?api and l = ?l]
  have "\<exists>apis. map_of (getApisByHost ?l) ''acme.org'' = Some apis \<and> ?api \<in> set apis" by simp
  then show ?thesis by (simp add: Let_def)
qed

text \<open>
  Decoding the JSON document that \<open>UpdateOrCreate\<close> sends gives the API back, with its empty
  slices turned into nil ones, and reports no error.
\<close>

lemma api_json_roundtrip:
  "unmarshal dec_API (Payload txt (Some (enc_API a))) empty_API =
    (a\<lparr>Hosts := norm_slice (Hosts a), URIs := norm_slice (URIs a)\<rparr>, None)"
  by (simp add: unmarshal_def dec_enc_API)









end
