(* ===== verification/Work_Queue.thy ===== *)
theory Work_Queue
  imports Main
begin

text \<open>
  The work queue the controller is driven by (vendored \<open>k8s.io/client-go/util/workqueue\<close>,
  \<open>queue.go\<close>): a FIFO of keys with the sets \<open>dirty\<close> and \<open>processing\<close>. The methods run under the
  lock of the queue, so each is one atomic function. \<open>Get\<close> on an empty open queue waits on the
  condition variable: \<open>Blocked\<close>. The interface is the locale \<open>work_queue\<close>: what a caller may rely
  on, and two consequences the workers need; \<open>wq\<close> is its interpretation on the code's queue.
\<close>

section \<open>The queue\<close>

record 'k wqueue =
  wq_queue :: "'k list"
  wq_dirty :: "'k set"
  wq_processing :: "'k set"
  wq_shuttingDown :: bool

definition wq_new :: "'k wqueue" where
  "wq_new = \<lparr>wq_queue = [], wq_dirty = {}, wq_processing = {}, wq_shuttingDown = False\<rparr>"

definition wq_add :: "'k \<Rightarrow> 'k wqueue \<Rightarrow> 'k wqueue" where
  "wq_add item q =
     (if wq_shuttingDown q then q
      else if item \<in> wq_dirty q then q
      else
        let q1 = q\<lparr>wq_dirty := insert item (wq_dirty q)\<rparr>
        in if item \<in> wq_processing q1 then q1
           else q1\<lparr>wq_queue := wq_queue q1 @ [item]\<rparr>)"

definition wq_len :: "'k wqueue \<Rightarrow> nat" where
  "wq_len q = length (wq_queue q)"

datatype 'k got = Blocked | Quit | Item 'k

definition wq_get :: "'k wqueue \<Rightarrow> 'k got \<times> 'k wqueue" where
  "wq_get q = (case wq_queue q of
      [] \<Rightarrow> if wq_shuttingDown q then (Quit, q) else (Blocked, q)
    | item # rest \<Rightarrow>
        (Item item, q\<lparr>wq_queue := rest, wq_processing := insert item (wq_processing q),
                      wq_dirty := wq_dirty q - {item}\<rparr>))"

definition wq_done :: "'k \<Rightarrow> 'k wqueue \<Rightarrow> 'k wqueue" where
  "wq_done item q =
     (let q1 = q\<lparr>wq_processing := wq_processing q - {item}\<rparr>
      in if item \<in> wq_dirty q1 then q1\<lparr>wq_queue := wq_queue q1 @ [item]\<rparr> else q1)"

definition wq_shutdown :: "'k wqueue \<Rightarrow> 'k wqueue" where
  "wq_shutdown q = q\<lparr>wq_shuttingDown := True\<rparr>"

section \<open>The interface\<close>

text \<open>
  \<open>pending\<close> are the keys marked as needing work, \<open>busy\<close> the keys handed out and not yet done.
  \<open>Done\<close> may only be called for a busy key, as its documentation demands.
\<close>

locale work_queue =
  fixes new :: 'q
    and add :: "'k \<Rightarrow> 'q \<Rightarrow> 'q"
    and get :: "'q \<Rightarrow> 'k got \<times> 'q"
    and finish :: "'k \<Rightarrow> 'q \<Rightarrow> 'q"
    and shutdown :: "'q \<Rightarrow> 'q"
    and inv :: "'q \<Rightarrow> bool"
    and pending :: "'q \<Rightarrow> 'k set"
    and busy :: "'q \<Rightarrow> 'k set"
    and closed :: "'q \<Rightarrow> bool"
  assumes new_inv: "inv new" "pending new = {}" "busy new = {}" "\<not> closed new"
    and add_inv: "inv q \<Longrightarrow> inv (add k q)"
    and add_effect: "pending (add k q) = (if closed q then pending q else insert k (pending q))"
      "busy (add k q) = busy q" "closed (add k q) = closed q"
    and get_item: "inv q \<Longrightarrow> get q = (Item k, q') \<Longrightarrow> inv q' \<and> k \<in> pending q \<and> k \<notin> busy q
      \<and> pending q' = pending q - {k} \<and> busy q' = insert k (busy q) \<and> closed q' = closed q"
    and get_other: "get q = (Quit, q') \<Longrightarrow> q' = q \<and> closed q" "get q = (Blocked, q') \<Longrightarrow> q' = q"
    and get_progress: "inv q \<Longrightarrow> \<not> pending q \<subseteq> busy q \<Longrightarrow> \<exists>k q'. get q = (Item k, q')"
    and finish_inv: "inv q \<Longrightarrow> k \<in> busy q \<Longrightarrow> inv (finish k q)"
    and finish_effect: "pending (finish k q) = pending q" "busy (finish k q) = busy q - {k}"
      "closed (finish k q) = closed q"
    and shutdown_inv: "inv q \<Longrightarrow> inv (shutdown q)"
    and shutdown_effect: "pending (shutdown q) = pending q" "busy (shutdown q) = busy q" "closed (shutdown q)"
begin

text \<open>A key that is handed out is not handed out again before it is done.\<close>

lemma get_exclusive:
  assumes "inv q" "get q = (Item k, q')" "get q' = (Item k', q'')"
  shows "k' \<noteq> k"
proof -
  from get_item [OF assms(1,2)] have "inv q'" "k \<in> busy q'" by simp_all
  with get_item [OF _ assms(3)] show ?thesis by auto
qed

text \<open>An addition during the processing of its key is not lost: the key is pending once it is done.\<close>

lemma add_while_busy:
  assumes "\<not> closed q"
  shows "k \<in> pending (finish k (add k q))"
  using assms by (simp add: finish_effect add_effect)

lemma get_blocked: "inv q \<Longrightarrow> get q = (Blocked, q') \<Longrightarrow> pending q \<subseteq> busy q"
  using get_progress by fastforce

end

section \<open>The invariant of the code's queue\<close>

definition wq_inv :: "'k wqueue \<Rightarrow> bool" where
  "wq_inv q \<longleftrightarrow> distinct (wq_queue q) \<and> set (wq_queue q) = wq_dirty q - wq_processing q"

lemma wq_get_Item: "wq_get q = (Item k, q') \<longleftrightarrow> (\<exists>rest. wq_queue q = k # rest \<and>
    q' = q\<lparr>wq_queue := rest, wq_processing := insert k (wq_processing q), wq_dirty := wq_dirty q - {k}\<rparr>)"
  by (auto simp: wq_get_def split: list.splits)

interpretation wq: work_queue wq_new wq_add wq_get wq_done wq_shutdown wq_inv wq_dirty wq_processing
    wq_shuttingDown
proof unfold_locales
  show "wq_inv wq_new" "wq_dirty wq_new = {}" "wq_processing wq_new = {}" "\<not> wq_shuttingDown wq_new"
    by (simp_all add: wq_new_def wq_inv_def)
  show "wq_inv (wq_add k q)" if "wq_inv q" for k and q :: "'k wqueue"
    using that by (auto simp: wq_add_def wq_inv_def Let_def)
  show "wq_dirty (wq_add k q) = (if wq_shuttingDown q then wq_dirty q else insert k (wq_dirty q))"
    "wq_processing (wq_add k q) = wq_processing q" "wq_shuttingDown (wq_add k q) = wq_shuttingDown q"
    for k and q :: "'k wqueue"
    by (auto simp: wq_add_def Let_def)
  show "wq_inv q' \<and> k \<in> wq_dirty q \<and> k \<notin> wq_processing q \<and> wq_dirty q' = wq_dirty q - {k}
      \<and> wq_processing q' = insert k (wq_processing q) \<and> wq_shuttingDown q' = wq_shuttingDown q"
    if "wq_inv q" "wq_get q = (Item k, q')" for k and q q' :: "'k wqueue"
  proof -
    from that obtain rest where q: "wq_queue q = k # rest" and q': "q' = q\<lparr>wq_queue := rest,
        wq_processing := insert k (wq_processing q), wq_dirty := wq_dirty q - {k}\<rparr>"
      by (auto simp: wq_get_Item)
    from that(1) q have "k \<notin> set rest" "distinct rest" and set: "insert k (set rest) = wq_dirty q - wq_processing q"
      by (simp_all add: wq_inv_def)
    then have "set rest = (wq_dirty q - wq_processing q) - {k}" by blast
    moreover from set have "k \<in> wq_dirty q" "k \<notin> wq_processing q" by blast+
    ultimately show ?thesis
      using \<open>distinct rest\<close> q' by (auto simp: wq_inv_def)
  qed
  show "q' = q \<and> wq_shuttingDown q" if "wq_get q = (Quit, q')" for q q' :: "'k wqueue"
    using that by (auto simp: wq_get_def split: list.splits if_splits)
  show "q' = q" if "wq_get q = (Blocked, q')" for q q' :: "'k wqueue"
    using that by (auto simp: wq_get_def split: list.splits if_splits)
  show "\<exists>k q'. wq_get q = (Item k, q')" if "wq_inv q" "\<not> wq_dirty q \<subseteq> wq_processing q" for q :: "'k wqueue"
    using that by (cases "wq_queue q") (auto simp: wq_get_def wq_inv_def)
  show "wq_inv (wq_done k q)" if "wq_inv q" "k \<in> wq_processing q" for k and q :: "'k wqueue"
    using that by (auto simp: wq_done_def wq_inv_def Let_def)
  show "wq_dirty (wq_done k q) = wq_dirty q" "wq_processing (wq_done k q) = wq_processing q - {k}"
    "wq_shuttingDown (wq_done k q) = wq_shuttingDown q" for k and q :: "'k wqueue"
    by (auto simp: wq_done_def Let_def)
  show "wq_inv (wq_shutdown q)" if "wq_inv q" for q :: "'k wqueue"
    using that by (simp add: wq_shutdown_def wq_inv_def)
  show "wq_dirty (wq_shutdown q) = wq_dirty q" "wq_processing (wq_shutdown q) = wq_processing q"
    "wq_shuttingDown (wq_shutdown q)" for q :: "'k wqueue"
    by (simp_all add: wq_shutdown_def)
qed

end
