(* ===== verification/Rate_Limiter.thy ===== *)
theory Rate_Limiter
  imports Main
begin

text \<open>
  The rate limiters of the retries (vendored \<open>workqueue/default_rate_limiters.go\<close> and
  \<open>juju/ratelimit\<close>) in the combination \<open>NewTaskQueue\<close> builds: the larger of an exponential
  per-key backoff from 300 ms to 1000 s and a token bucket of 100 tokens at 10 a second. Durations
  are nanoseconds as integers; \<open>now\<close> is the clock. The backoff is computed in \<open>float64\<close>, exactly:
  the base is below \<open>2 ^ 53\<close> and is only doubled.
\<close>

section \<open>Exponential backoff\<close>

record 'k exp_limiter =
  failures :: "'k \<Rightarrow> nat"
  baseDelay :: nat
  maxDelay :: nat

text \<open>A missing key of the map reads as 0. \<open>float64(math.MaxInt64)\<close> is \<open>2 ^ 63\<close>.\<close>

definition exp_delay :: "'k exp_limiter \<Rightarrow> nat \<Rightarrow> nat" where
  "exp_delay r n =
     (let backoff = baseDelay r * 2 ^ n
      in if 2 ^ 63 < backoff then maxDelay r
         else if maxDelay r < backoff then maxDelay r
         else backoff)"

definition exp_When :: "'k \<Rightarrow> 'k exp_limiter \<Rightarrow> nat \<times> 'k exp_limiter" where
  "exp_When item r =
     (exp_delay r (failures r item),
      r\<lparr>failures := (failures r)(item := failures r item + 1)\<rparr>)"

definition exp_NumRequeues :: "'k \<Rightarrow> 'k exp_limiter \<Rightarrow> nat" where
  "exp_NumRequeues item r = failures r item"

definition exp_Forget :: "'k \<Rightarrow> 'k exp_limiter \<Rightarrow> 'k exp_limiter" where
  "exp_Forget item r = r\<lparr>failures := (failures r)(item := 0)\<rparr>"

section \<open>Token bucket\<close>

record bucket =
  startTime :: int
  capacity :: int
  quantum :: int
  fillInterval :: int
  avail :: int
  availTick :: int

text \<open>Integer division of Go truncates; the clock does not run behind the start of the bucket.\<close>

definition bucket_adjust :: "int \<Rightarrow> bucket \<Rightarrow> int \<times> bucket" where
  "bucket_adjust now tb =
     (let currentTick = (now - startTime tb) div fillInterval tb
      in if capacity tb \<le> avail tb then (currentTick, tb)
         else
           let a = avail tb + (currentTick - availTick tb) * quantum tb
           in (currentTick, tb\<lparr>avail := (if capacity tb < a then capacity tb else a),
                                availTick := currentTick\<rparr>))"

definition bucket_take :: "int \<Rightarrow> int \<Rightarrow> bucket \<Rightarrow> int \<times> bucket" where
  "bucket_take now count tb =
     (if count \<le> 0 then (0, tb)
      else case bucket_adjust now tb of (currentTick, tb1) \<Rightarrow>
        let a = avail tb1 - count
        in if 0 \<le> a then (0, tb1\<lparr>avail := a\<rparr>)
           else
             let endTick = currentTick + (- a + quantum tb1 - 1) div quantum tb1;
                 endTime = startTime tb1 + endTick * fillInterval tb1
             in (endTime - now, tb1\<lparr>avail := a\<rparr>))"

section \<open>The limiter of a task queue\<close>

record 'k limiter =
  exponential :: "'k exp_limiter"
  tokens :: bucket

definition new_limiter :: "int \<Rightarrow> 'k limiter" where
  "new_limiter now =
     \<lparr>exponential = \<lparr>failures = (\<lambda>_. 0), baseDelay = 300 * 10 ^ 6, maxDelay = 1000 * 10 ^ 9\<rparr>,
      tokens = \<lparr>startTime = now, capacity = 100, quantum = 1, fillInterval = 10 ^ 8, avail = 100,
                availTick = 0\<rparr>\<rparr>"

text \<open>\<open>MaxOfRateLimiter\<close>: both limiters are asked, and both count.\<close>

definition lim_When :: "int \<Rightarrow> 'k \<Rightarrow> 'k limiter \<Rightarrow> int \<times> 'k limiter" where
  "lim_When now item r =
     (case exp_When item (exponential r) of (d1, e) \<Rightarrow>
      case bucket_take now 1 (tokens r) of (d2, b) \<Rightarrow>
        (max (max 0 (int d1)) d2, \<lparr>exponential = e, tokens = b\<rparr>))"

definition lim_NumRequeues :: "'k \<Rightarrow> 'k limiter \<Rightarrow> nat" where
  "lim_NumRequeues item r = max (max 0 (exp_NumRequeues item (exponential r))) 0"

definition lim_Forget :: "'k \<Rightarrow> 'k limiter \<Rightarrow> 'k limiter" where
  "lim_Forget item r = r\<lparr>exponential := exp_Forget item (exponential r)\<rparr>"

section \<open>Lemmas\<close>

lemma exp_delay_min: "exp_delay r n = min (baseDelay r * 2 ^ n) (maxDelay r)" if "maxDelay r \<le> 2 ^ 63"
  using that by (auto simp: exp_delay_def Let_def min_def)

lemma exp_delay_mono: "maxDelay r \<le> 2 ^ 63 \<Longrightarrow> m \<le> n \<Longrightarrow> exp_delay r m \<le> exp_delay r n"
  by (simp add: exp_delay_min) (meson le_trans min.coboundedI1 min.coboundedI2 min_le_iff_disj mult_le_mono2
      one_le_numeral power_increasing)

lemma lim_When_simps [simp]:
  "failures (exponential (snd (lim_When now k r))) =
    (failures (exponential r))(k := failures (exponential r) k + 1)"
  "int (exp_delay (exponential r) (failures (exponential r) k)) \<le> fst (lim_When now k r)"
  "baseDelay (exponential (snd (lim_When now k r))) = baseDelay (exponential r)"
  "maxDelay (exponential (snd (lim_When now k r))) = maxDelay (exponential r)"
  by (simp_all add: lim_When_def exp_When_def split: prod.splits)

lemma lim_Forget_simps [simp]:
  "failures (exponential (lim_Forget k r)) = (failures (exponential r))(k := 0)"
  by (simp add: lim_Forget_def exp_Forget_def)

lemma lim_NumRequeues_eq [simp]: "lim_NumRequeues k r = failures (exponential r) k"
  by (simp add: lim_NumRequeues_def exp_NumRequeues_def)

end
