(* ===== verification/Task_Queue.thy ===== *)
theory Task_Queue
  imports Work_Queue Rate_Limiter
begin

text \<open>
  The task queue of \<open>pkg/controller/utils.go\<close> with any number of workers, as a step relation:
  each call a worker makes on the queue or on the rate limiter is one step, so the steps of the
  workers, of the event handlers, of the goroutine that holds back delayed keys
  (\<open>delaying_queue.go\<close>) and of a shutdown interleave freely. What the sync function does is left
  open: it returns nil or an error. Keys are strings and never nil.
\<close>

section \<open>State\<close>

text \<open>Where a worker is in the loop of \<open>worker\<close>.\<close>

datatype 'k pc =
    Idle
  | Fetched 'k
  | Handling 'k nat
  | Ending 'k
  | Exited

record 'k pool =
  pq :: "'k wqueue"
  lim :: "'k limiter"
  chan :: "('k \<times> int) list"
  waiting :: "'k \<rightharpoonup> int"
  clock :: int
  pcs :: "'k pc list"
  workerDone :: bool
  crashed :: bool

definition pool_init :: "nat \<Rightarrow> int \<Rightarrow> 'k pool" where
  "pool_init workers t =
     \<lparr>pq = wq_new, lim = new_limiter t, chan = [], waiting = Map.empty, clock = t,
      pcs = replicate workers Idle, workerDone = False, crashed = False\<rparr>"

section \<open>The delaying queue\<close>

definition chan_capacity :: nat where
  "chan_capacity = 1000"

definition AddAfter :: "'k \<Rightarrow> int \<Rightarrow> 'k pool \<Rightarrow> 'k pool" where
  "AddAfter item duration s =
     (if wq_shuttingDown (pq s) then s
      else if duration \<le> 0 then s\<lparr>pq := wq_add item (pq s)\<rparr>
      else s\<lparr>chan := chan s @ [(item, clock s + duration)]\<rparr>)"

text \<open>\<open>insert\<close>: a known key keeps the earlier of the two times.\<close>

definition insert_waiting :: "'k \<Rightarrow> int \<Rightarrow> ('k \<rightharpoonup> int) \<Rightarrow> ('k \<rightharpoonup> int)" where
  "insert_waiting item readyAt known =
     (case known item of
        Some existing \<Rightarrow> if readyAt < existing then known(item \<mapsto> readyAt) else known
      | None \<Rightarrow> known(item \<mapsto> readyAt))"

definition receive :: "'k \<Rightarrow> int \<Rightarrow> 'k pool \<Rightarrow> 'k pool" where
  "receive item readyAt s =
     (if clock s < readyAt then s\<lparr>waiting := insert_waiting item readyAt (waiting s)\<rparr>
      else s\<lparr>pq := wq_add item (pq s)\<rparr>)"

definition AddRateLimited :: "'k \<Rightarrow> 'k pool \<Rightarrow> 'k pool" where
  "AddRateLimited item s =
     (case lim_When (clock s) item (lim s) of (d, l) \<Rightarrow> AddAfter item d (s\<lparr>lim := l\<rparr>))"

section \<open>Steps\<close>

text \<open>
  \<open>enqueue\<close> is an event handler, the steps with an index are that worker's, \<open>delay\<close> and \<open>fire\<close> the
  loop of the delaying queue, which hands over the key that is ready first. A worker that hands
  back a failed key waits while the channel is full, until the queue shuts down. A worker that saw
  the closed queue is not started again: \<open>wait.Until\<close> returns, since \<open>stopCh\<close> is closed before
  the queue is shut down.
\<close>

inductive tq_step :: "'k pool \<Rightarrow> 'k pool \<Rightarrow> bool" where
  enqueue: "tq_step s (s\<lparr>pq := wq_add k (pq s)\<rparr>)"
| fetch: "i < length (pcs s) \<Longrightarrow> pcs s ! i = Idle \<Longrightarrow> wq_get (pq s) = (Item k, q)
    \<Longrightarrow> tq_step s (s\<lparr>pq := q, pcs := (pcs s)[i := Fetched k]\<rparr>)"
| quit: "i < length (pcs s) \<Longrightarrow> pcs s ! i = Idle \<Longrightarrow> wq_get (pq s) = (Quit, q) \<Longrightarrow> \<not> workerDone s
    \<Longrightarrow> tq_step s (s\<lparr>pcs := (pcs s)[i := Exited], workerDone := True\<rparr>)"
| quit_again: "i < length (pcs s) \<Longrightarrow> pcs s ! i = Idle \<Longrightarrow> wq_get (pq s) = (Quit, q) \<Longrightarrow> workerDone s
    \<Longrightarrow> tq_step s (s\<lparr>crashed := True\<rparr>)"
| requeues: "i < length (pcs s) \<Longrightarrow> pcs s ! i = Fetched k
    \<Longrightarrow> tq_step s (s\<lparr>pcs := (pcs s)[i := Handling k (lim_NumRequeues k (lim s))]\<rparr>)"
| succeed: "i < length (pcs s) \<Longrightarrow> pcs s ! i = Handling k n
    \<Longrightarrow> tq_step s (s\<lparr>lim := lim_Forget k (lim s), pcs := (pcs s)[i := Ending k]\<rparr>)"
| fail: "i < length (pcs s) \<Longrightarrow> pcs s ! i = Handling k n
    \<Longrightarrow> length (chan s) < chan_capacity \<or> wq_shuttingDown (pq s)
    \<Longrightarrow> tq_step s ((AddRateLimited k s)\<lparr>pcs := (pcs s)[i := Ending k]\<rparr>)"
| finish: "i < length (pcs s) \<Longrightarrow> pcs s ! i = Ending k
    \<Longrightarrow> tq_step s (s\<lparr>pq := wq_done k (pq s), pcs := (pcs s)[i := Idle]\<rparr>)"
| delay: "\<not> wq_shuttingDown (pq s) \<Longrightarrow> chan s = (k, t) # rest
    \<Longrightarrow> tq_step s (receive k t (s\<lparr>chan := rest\<rparr>))"
| fire: "\<not> wq_shuttingDown (pq s) \<Longrightarrow> waiting s k = Some t \<Longrightarrow> t \<le> clock s
    \<Longrightarrow> (\<forall>k' t'. waiting s k' = Some t' \<longrightarrow> t \<le> t')
    \<Longrightarrow> tq_step s (s\<lparr>pq := wq_add k (pq s), waiting := (waiting s)(k := None)\<rparr>)"
| tick: "0 < d \<Longrightarrow> tq_step s (s\<lparr>clock := clock s + d\<rparr>)"
| shutdown: "tq_step s (s\<lparr>pq := wq_shutdown (pq s)\<rparr>)"

definition tq_reachable :: "nat \<Rightarrow> 'k pool \<Rightarrow> bool" where
  "tq_reachable workers s \<longleftrightarrow> (\<exists>t. tq_step\<^sup>*\<^sup>* (pool_init workers t) s)"

lemma tq_reachable_induct [consumes 1, case_names init step]:
  assumes "tq_reachable n s" "\<And>t. P (pool_init n t)"
    and "\<And>s s'. tq_reachable n s \<Longrightarrow> P s \<Longrightarrow> tq_step s s' \<Longrightarrow> P s'"
  shows "P s"
proof -
  from assms(1) obtain t where "tq_step\<^sup>*\<^sup>* (pool_init n t) s" by (auto simp: tq_reachable_def)
  then have "tq_reachable n s \<and> P s"
  proof (induction rule: rtranclp_induct)
    case base
    then show ?case using assms(2) by (auto simp: tq_reachable_def)
  next
    case (step s s')
    then show ?case using assms(3) by (meson rtranclp.rtrancl_into_rtrancl tq_reachable_def)
  qed
  then show ?thesis ..
qed

section \<open>Who holds which key\<close>

fun held :: "'k pc \<Rightarrow> 'k option" where
  "held (Fetched k) = Some k"
| "held (Handling k n) = Some k"
| "held (Ending k) = Some k"
| "held _ = None"

definition holders :: "'k \<Rightarrow> 'k pc list \<Rightarrow> nat set" where
  "holders k ps = {i. i < length ps \<and> held (ps ! i) = Some k}"

text \<open>No key has two holders, and the queue knows the keys that are held.\<close>

definition pool_inv :: "'k pool \<Rightarrow> bool" where
  "pool_inv s \<longleftrightarrow> wq_inv (pq s)
     \<and> (\<forall>i j k. i \<in> holders k (pcs s) \<longrightarrow> j \<in> holders k (pcs s) \<longrightarrow> i = j)
     \<and> (\<forall>k. k \<in> wq_processing (pq s) \<longleftrightarrow> holders k (pcs s) \<noteq> {})"

lemma holders_update:
  "i < length ps \<Longrightarrow> holders k (ps[i := p]) = (if held p = Some k then insert i (holders k ps) else holders k ps - {i})"
  by (auto simp: holders_def nth_list_update)

lemma holders_same: "i < length ps \<Longrightarrow> held p = held (ps ! i) \<Longrightarrow> holders k (ps[i := p]) = holders k ps"
  by (auto simp: holders_def nth_list_update)

lemma AddAfter_simps [simp]:
  "pcs (AddAfter k d s) = pcs s" "lim (AddAfter k d s) = lim s" "workerDone (AddAfter k d s) = workerDone s"
  "crashed (AddAfter k d s) = crashed s" "waiting (AddAfter k d s) = waiting s"
  "wq_processing (pq (AddAfter k d s)) = wq_processing (pq s)"
  "wq_shuttingDown (pq (AddAfter k d s)) = wq_shuttingDown (pq s)"
  "wq_inv (pq s) \<Longrightarrow> wq_inv (pq (AddAfter k d s))"
  by (simp_all add: AddAfter_def wq.add_effect wq.add_inv)

lemma AddRateLimited_simps [simp]:
  "pcs (AddRateLimited k s) = pcs s" "workerDone (AddRateLimited k s) = workerDone s"
  "crashed (AddRateLimited k s) = crashed s" "waiting (AddRateLimited k s) = waiting s"
  "wq_processing (pq (AddRateLimited k s)) = wq_processing (pq s)"
  "wq_shuttingDown (pq (AddRateLimited k s)) = wq_shuttingDown (pq s)"
  "failures (exponential (lim (AddRateLimited k s))) =
    (failures (exponential (lim s)))(k := failures (exponential (lim s)) k + 1)"
  "wq_inv (pq s) \<Longrightarrow> wq_inv (pq (AddRateLimited k s))"
  using lim_When_simps(1) [of "clock s" k "lim s"]
  by (cases "lim_When (clock s) k (lim s)"; simp add: AddRateLimited_def)+

lemma receive_simps [simp]:
  "pcs (receive k t s) = pcs s" "lim (receive k t s) = lim s" "workerDone (receive k t s) = workerDone s"
  "crashed (receive k t s) = crashed s" "chan (receive k t s) = chan s"
  "wq_processing (pq (receive k t s)) = wq_processing (pq s)"
  "wq_shuttingDown (pq (receive k t s)) = wq_shuttingDown (pq s)"
  "wq_inv (pq s) \<Longrightarrow> wq_inv (pq (receive k t s))"
  by (simp_all add: receive_def wq.add_effect wq.add_inv)

lemma pool_inv_init: "pool_inv (pool_init n t)"
  by (auto simp: pool_inv_def pool_init_def wq.new_inv holders_def)

lemma pool_inv_step:
  assumes "tq_step s s'" "pool_inv s"
  shows "pool_inv s'"
  using assms
proof (induction rule: tq_step.induct)
  case (fetch i s k q)
  from wq.get_item [OF _ fetch.hyps(3)] fetch.prems have q: "wq_inv q" "k \<notin> wq_processing (pq s)"
    "wq_processing q = insert k (wq_processing (pq s))" by (auto simp: pool_inv_def)
  have idle: "i \<notin> holders k' (pcs s)" for k'
    using fetch.hyps(2) by (simp add: holders_def)
  from fetch.prems q(2) have "holders k (pcs s) = {}" by (simp add: pool_inv_def)
  with fetch q idle show ?case
    by (auto simp: pool_inv_def holders_update)
next
  case (finish i s k)
  from finish.hyps have i: "i \<in> holders k (pcs s)" by (simp add: holders_def)
  with finish.prems have "k \<in> wq_processing (pq s)" "holders k (pcs s) = {i}"
    by (auto simp: pool_inv_def)
  moreover have "i \<notin> holders k' (pcs s)" if "k' \<noteq> k" for k'
    using that i by (simp add: holders_def)
  ultimately show ?case
    using finish by (auto simp: pool_inv_def holders_update wq.finish_effect wq.finish_inv)
next
  case (quit i s q)
  have "holders k ((pcs s)[i := Exited]) = holders k (pcs s)" for k
    using quit.hyps by (simp add: holders_same)
  with quit.prems show ?case by (simp add: pool_inv_def)
next
  case (requeues i s k)
  then have "holders k' ((pcs s)[i := Handling k m]) = holders k' (pcs s)" for k' m
    by (simp add: holders_same)
  with requeues.prems show ?case by (simp add: pool_inv_def)
next
  case (succeed i s k n)
  then have "holders k' ((pcs s)[i := Ending k]) = holders k' (pcs s)" for k'
    by (simp add: holders_same)
  with succeed.prems show ?case by (simp add: pool_inv_def)
next
  case (fail i s k n)
  then have "holders k' ((pcs s)[i := Ending k]) = holders k' (pcs s)" for k'
    by (simp add: holders_same)
  with fail.prems show ?case by (simp add: pool_inv_def)
qed (simp_all add: pool_inv_def wq.add_effect wq.add_inv wq.shutdown_effect wq.shutdown_inv)

lemma pool_inv_reachable: "tq_reachable n s \<Longrightarrow> pool_inv s"
  by (induction rule: tq_reachable_induct) (auto intro: pool_inv_init pool_inv_step)

end
