(* ===== verification/Queue_Safety.thy ===== *)
theory Queue_Safety
  imports Task_Queue
begin

text \<open>
  Properties of the task queues over all interleavings of any number of workers: exclusive
  handling of a key, no failed key is forgotten, the backoff of the retries, and the
  acknowledgement of the shutdown, which works for exactly one worker.
\<close>

section \<open>Failed keys\<close>

text \<open>Where a key waits for its next attempt.\<close>

definition scheduled :: "'k pool \<Rightarrow> 'k set" where
  "scheduled s = wq_dirty (pq s) \<union> fst ` set (chan s) \<union> dom (waiting s)"

fun active_key :: "'k pc \<Rightarrow> 'k option" where
  "active_key (Fetched k) = Some k"
| "active_key (Handling k n) = Some k"
| "active_key _ = None"

definition active :: "'k pool \<Rightarrow> 'k set" where
  "active s = {k. \<exists>p \<in> set (pcs s). active_key p = Some k}"

definition retry_inv :: "'k pool \<Rightarrow> bool" where
  "retry_inv s \<longleftrightarrow> wq_shuttingDown (pq s)
     \<or> (\<forall>k. 0 < failures (exponential (lim s)) k \<longrightarrow> k \<in> scheduled s \<union> active s)"

lemma active_update:
  assumes "i < length (pcs s)" "pcs s' = (pcs s)[i := p]" "k \<in> active s" "active_key (pcs s ! i) \<noteq> Some k"
  shows "k \<in> active s'"
proof -
  from assms(3) obtain j where j: "j < length (pcs s)" "active_key (pcs s ! j) = Some k"
    by (auto simp: active_def in_set_conv_nth)
  with assms(4) have "j \<noteq> i" by auto
  with j assms(1,2) have "j < length (pcs s')" "pcs s' ! j = pcs s ! j" by auto
  with j(2) nth_mem [of j "pcs s'"] show ?thesis by (auto simp: active_def)
qed

lemma active_new: "i < length (pcs s) \<Longrightarrow> pcs s' = (pcs s)[i := p] \<Longrightarrow> active_key p = Some k \<Longrightarrow> k \<in> active s'"
  by (auto simp: active_def set_update_memI)

lemma retry_inv_init: "retry_inv (pool_init n t)"
  by (simp add: retry_inv_def pool_init_def new_limiter_def)

lemma retry_inv_worker:
  assumes inv: "retry_inv s" and open_q: "\<not> wq_shuttingDown (pq s)" and i: "i < length (pcs s)" "pcs s' = (pcs s)[i := p]"
    and sched: "\<And>k. k \<in> scheduled s \<Longrightarrow> active_key p \<noteq> Some k \<Longrightarrow> k \<in> scheduled s'"
    and fails: "\<And>k. 0 < failures (exponential (lim s')) k \<Longrightarrow> active_key (pcs s ! i) \<noteq> Some k
        \<Longrightarrow> 0 < failures (exponential (lim s)) k"
    and own: "\<And>k. 0 < failures (exponential (lim s')) k \<Longrightarrow> active_key (pcs s ! i) = Some k
        \<Longrightarrow> k \<in> scheduled s' \<or> active_key p = Some k"
  shows "retry_inv s'"
proof -
  have "k \<in> scheduled s' \<union> active s'" if k: "0 < failures (exponential (lim s')) k" for k
  proof (cases "active_key p = Some k \<or> active_key (pcs s ! i) = Some k")
    case True
    with own [OF k] active_new [OF i] show ?thesis by auto
  next
    case False
    with fails [OF k] inv open_q have "k \<in> scheduled s \<or> k \<in> active s"
      by (auto simp: retry_inv_def)
    with sched [of k] False active_update [OF i, of k] show ?thesis by blast
  qed
  then show ?thesis by (simp add: retry_inv_def)
qed

lemma retry_inv_other:
  assumes "retry_inv s" "pcs s' = pcs s" "lim s' = lim s" "wq_shuttingDown (pq s) \<Longrightarrow> wq_shuttingDown (pq s')"
    and "\<not> wq_shuttingDown (pq s') \<Longrightarrow> scheduled s \<subseteq> scheduled s'"
  shows "retry_inv s'"
  using assms unfolding retry_inv_def active_def by auto

lemma AddAfter_scheduled:
  "scheduled s \<subseteq> scheduled (AddAfter k d s)" "\<not> wq_shuttingDown (pq s) \<Longrightarrow> k \<in> scheduled (AddAfter k d s)"
  by (auto simp: scheduled_def AddAfter_def wq.add_effect)

lemma AddRateLimited_scheduled:
  "scheduled s \<subseteq> scheduled (AddRateLimited k s)"
  "\<not> wq_shuttingDown (pq s) \<Longrightarrow> k \<in> scheduled (AddRateLimited k s)"
proof -
  obtain d l where l: "lim_When (clock s) k (lim s) = (d, l)" by (cases "lim_When (clock s) k (lim s)")
  have "scheduled s = scheduled (s\<lparr>lim := l\<rparr>)" by (simp add: scheduled_def)
  then show "scheduled s \<subseteq> scheduled (AddRateLimited k s)"
    "\<not> wq_shuttingDown (pq s) \<Longrightarrow> k \<in> scheduled (AddRateLimited k s)"
    using AddAfter_scheduled [of "s\<lparr>lim := l\<rparr>" k d] l by (simp_all add: AddRateLimited_def)
qed

lemma retry_inv_step:
  assumes "tq_step s s'" "retry_inv s" "wq_inv (pq s)"
  shows "retry_inv s'"
proof (cases "wq_shuttingDown (pq s')")
  case True
  then show ?thesis by (simp add: retry_inv_def)
next
  case open_q: False
  from assms open_q show ?thesis
  proof (induction rule: tq_step.induct)
    case (fetch i s k q)
    from wq.get_item [OF fetch.prems(2) fetch.hyps(3)] fetch.prems(3) show ?case
      by (intro retry_inv_worker [OF fetch.prems(1) _ fetch.hyps(1)]) (auto simp: scheduled_def fetch.hyps(2))
  next
    case (requeues i s k)
    then show ?case
      by (intro retry_inv_worker [OF requeues.prems(1) _ requeues.hyps(1)]) (auto simp: scheduled_def)
  next
    case (quit i s q)
    then show ?case
      by (intro retry_inv_worker [OF quit.prems(1) _ quit.hyps(1)]) (auto simp: scheduled_def)
  next
    case (succeed i s k n)
    then show ?case
      by (intro retry_inv_worker [OF succeed.prems(1) _ succeed.hyps(1)])
        (auto simp: scheduled_def split: if_splits)
  next
    case (fail i s k n)
    let ?s = "(AddRateLimited k s)\<lparr>pcs := (pcs s)[i := Ending k]\<rparr>"
    have eq: "scheduled ?s = scheduled (AddRateLimited k s)" by (simp add: scheduled_def)
    from fail AddRateLimited_scheduled [of s k] show ?case
      by (intro retry_inv_worker [OF fail.prems(1) _ fail.hyps(1)])
        (auto simp: eq split: if_splits)
  next
    case (finish i s k)
    then show ?case
      by (intro retry_inv_worker [OF finish.prems(1) _ finish.hyps(1)])
        (auto simp: scheduled_def wq.finish_effect)
  next
    case (delay s k t rest)
    then show ?case
      by (intro retry_inv_other [OF delay.prems(1)])
        (auto simp: scheduled_def receive_def insert_waiting_def wq.add_effect split: option.splits)
  next
    case (enqueue s k)
    then show ?case
      by (intro retry_inv_other [OF enqueue.prems(1)]) (auto simp: scheduled_def wq.add_effect)
  next
    case (fire s k t)
    then show ?case
      by (intro retry_inv_other [OF fire.prems(1)]) (auto simp: scheduled_def wq.add_effect)
  next
    case (shutdown s)
    then show ?case by (simp add: wq.shutdown_effect)
  qed (simp_all add: retry_inv_def scheduled_def active_def)
qed

lemma retry_inv_reachable: "tq_reachable n s \<Longrightarrow> retry_inv s"
proof (induction rule: tq_reachable_induct)
  case (step s s')
  from pool_inv_reachable [OF step(1)] have "wq_inv (pq s)" by (simp add: pool_inv_def)
  with step show ?case by (blast intro: retry_inv_step)
qed (rule retry_inv_init)

section \<open>Properties\<close>

text \<open>
  C14: whatever the number of workers and the interleaving, two workers never handle the same key at
  the same time: a key that changes while it is reconciled is reconciled again afterwards, not
  concurrently.
\<close>

theorem key_handled_by_one_worker:
  assumes "tq_reachable n s" "i < length (pcs s)" "j < length (pcs s)"
    and "pcs s ! i = Handling k m" "pcs s ! j = Handling k m'"
  shows "i = j"
proof -
  from assms have "i \<in> holders k (pcs s)" "j \<in> holders k (pcs s)" by (simp_all add: holders_def)
  with pool_inv_reachable [OF assms(1)] show ?thesis by (auto simp: pool_inv_def)
qed

text \<open>
  C15: a key whose last attempt failed is never forgotten: until the queue shuts down it is marked
  dirty, on its way through the delaying queue, or in the hands of a worker that has not finished
  its next attempt.
\<close>

theorem failed_key_is_retried:
  assumes "tq_reachable n s" "\<not> wq_shuttingDown (pq s)" "0 < lim_NumRequeues k (lim s)"
  shows "k \<in> wq_dirty (pq s) \<or> k \<in> fst ` set (chan s) \<or> k \<in> dom (waiting s)
    \<or> (\<exists>p \<in> set (pcs s). p = Fetched k \<or> (\<exists>m. p = Handling k m))"
proof -
  from retry_inv_reachable [OF assms(1)] assms(2,3) have "k \<in> scheduled s \<union> active s" by (simp add: retry_inv_def)
  moreover have "\<exists>p \<in> set (pcs s). p = Fetched k \<or> (\<exists>m. p = Handling k m)" if "k \<in> active s"
  proof -
    from that obtain p where p: "p \<in> set (pcs s)" "active_key p = Some k" by (auto simp: active_def)
    from p(2) have "p = Fetched k \<or> (\<exists>m. p = Handling k m)" by (cases p) auto
    with p(1) show ?thesis by blast
  qed
  ultimately show ?thesis unfolding scheduled_def by blast
qed

text \<open>The run of the witnesses: one worker handles a key and its sync fails.\<close>

lemma tq_reachable_init: "tq_reachable n (pool_init n t)"
  by (auto simp: tq_reachable_def)

lemma tq_reachable_step: "tq_reachable n s \<Longrightarrow> tq_step s s' \<Longrightarrow> tq_reachable n s'"
  unfolding tq_reachable_def by (meson rtranclp.rtrancl_into_rtrancl)

lemma handling_run:
  "\<exists>s. tq_reachable 1 s \<and> pcs s = [Handling ''acme/web'' 0] \<and> chan s = [] \<and> \<not> wq_shuttingDown (pq s)"
proof -
  let ?k = "''acme/web''"
  let ?s0 = "pool_init 1 0 :: string pool"
  let ?s1 = "?s0\<lparr>pq := wq_add ?k (pq ?s0)\<rparr>"
  have s1: "tq_reachable 1 ?s1"
    by (rule tq_reachable_step [OF tq_reachable_init tq_step.enqueue])
  obtain q where get: "wq_get (pq ?s1) = (Item ?k, q)" and q: "\<not> wq_shuttingDown q"
    by (simp add: pool_init_def wq_new_def wq_add_def wq_get_def)
  let ?s2 = "?s1\<lparr>pq := q, pcs := (pcs ?s1)[0 := Fetched ?k]\<rparr>"
  have s2: "tq_reachable 1 ?s2"
    by (rule tq_reachable_step [OF s1 tq_step.fetch [OF _ _ get]]) (simp_all add: pool_init_def)
  let ?s3 = "?s2\<lparr>pcs := (pcs ?s2)[0 := Handling ?k (lim_NumRequeues ?k (lim ?s2))]\<rparr>"
  have "tq_reachable 1 ?s3"
    by (rule tq_reachable_step [OF s2 tq_step.requeues]) (simp_all add: pool_init_def)
  moreover have "pcs ?s3 = [Handling ?k 0]" "chan ?s3 = []" "\<not> wq_shuttingDown (pq ?s3)"
    using q by (simp_all add: pool_init_def new_limiter_def)
  ultimately show ?thesis by blast
qed

lemma key_handled_by_one_worker_witness:
  "\<exists>s i j. tq_reachable 1 s \<and> pcs s ! i = Handling ''acme/web'' 0 \<and> pcs s ! j = Handling ''acme/web'' 0 \<and> i = j"
proof -
  from handling_run obtain s where s: "tq_reachable 1 s" "pcs s = [Handling ''acme/web'' 0]" by blast
  have "(0 :: nat) = 0"
    by (rule key_handled_by_one_worker [OF s(1)]) (simp_all add: s(2))
  with s show ?thesis by (metis nth_Cons_0)
qed

lemma failed_key_is_retried_witness:
  "\<exists>s. tq_reachable 1 s \<and> (''acme/web'' \<in> wq_dirty (pq s) \<or> ''acme/web'' \<in> fst ` set (chan s)
    \<or> ''acme/web'' \<in> dom (waiting s) \<or> (\<exists>p \<in> set (pcs s). p = Fetched ''acme/web'' \<or> (\<exists>m. p = Handling ''acme/web'' m)))"
proof -
  from handling_run obtain s where s: "tq_reachable 1 s" "pcs s = [Handling ''acme/web'' 0]" "chan s = []"
    "\<not> wq_shuttingDown (pq s)" by blast
  let ?s = "(AddRateLimited ''acme/web'' s)\<lparr>pcs := (pcs s)[0 := Ending ''acme/web'']\<rparr>"
  have r: "tq_reachable 1 ?s"
    by (rule tq_reachable_step [OF s(1) tq_step.fail]) (simp_all add: s chan_capacity_def)
  have "0 < lim_NumRequeues ''acme/web'' (lim ?s)" "\<not> wq_shuttingDown (pq ?s)"
    using s(4) by simp_all
  from failed_key_is_retried [OF r this(2,1)] r show ?thesis by blast
qed

section \<open>Backoff\<close>

text \<open>
  C31: the wait before a retry is the longer one of two: the backoff of the key, 300 ms doubled for each
  failure so far and capped at 1000 s, and the wait for a token of the bucket that all keys share,
  which has no cap. It is the backoff of the key while the bucket still has a token. Each failure
  adds one to the number of requeues the sync function is given, success resets it.
\<close>

theorem retry_backoff:
  assumes "baseDelay (exponential r) = 300 * 10 ^ 6" "maxDelay (exponential r) = 1000 * 10 ^ 9"
  shows "fst (lim_When now k r) = max (int (min (300 * 10 ^ 6 * 2 ^ lim_NumRequeues k r) (1000 * 10 ^ 9)))
          (fst (bucket_take now 1 (tokens r)))
    \<and> (1 \<le> avail (snd (bucket_adjust now (tokens r))) \<longrightarrow>
        fst (lim_When now k r) = int (min (300 * 10 ^ 6 * 2 ^ lim_NumRequeues k r) (1000 * 10 ^ 9)))
    \<and> lim_NumRequeues k (snd (lim_When now k r)) = lim_NumRequeues k r + 1
    \<and> lim_NumRequeues k (lim_Forget k r) = 0"
proof -
  have "exp_delay (exponential r) n = min (300 * 10 ^ 6 * 2 ^ n) (1000 * 10 ^ 9)" for n
    using exp_delay_min [of "exponential r" n] assms by simp
  then have "fst (lim_When now k r) = max (int (min (300 * 10 ^ 6 * 2 ^ lim_NumRequeues k r) (1000 * 10 ^ 9)))
      (fst (bucket_take now 1 (tokens r)))"
    by (cases "bucket_take now 1 (tokens r)") (simp add: lim_When_def exp_When_def)
  moreover have "fst (bucket_take now 1 (tokens r)) = 0" if "1 \<le> avail (snd (bucket_adjust now (tokens r)))"
    using that by (auto simp: bucket_take_def Let_def split: prod.splits)
  ultimately show ?thesis by simp
qed

lemma retry_backoff_witness:
  "fst (lim_When 0 ''acme/web'' (new_limiter 0)) = 300 * 10 ^ 6"
proof -
  have "1 \<le> avail (snd (bucket_adjust 0 (tokens (new_limiter 0))))"
    by (simp add: bucket_adjust_def new_limiter_def)
  then show ?thesis
    using retry_backoff [of "new_limiter 0" 0 "''acme/web''"] by (simp add: new_limiter_def)
qed

section \<open>Shutdown\<close>

definition done_inv :: "nat \<Rightarrow> 'k pool \<Rightarrow> bool" where
  "done_inv n s \<longleftrightarrow> length (pcs s) = n \<and> \<not> crashed s \<and> (workerDone s \<longrightarrow> 0 < n \<and> (\<forall>i < n. pcs s ! i = Exited))"

lemma done_inv_step:
  assumes "tq_step s s'" "done_inv n s" "n \<le> 1"
  shows "done_inv n s'"
  using assms
  by (induction rule: tq_step.induct) (auto simp: done_inv_def nth_list_update)

lemma done_inv_reachable: "tq_reachable n s \<Longrightarrow> n \<le> 1 \<Longrightarrow> done_inv n s"
proof (induction rule: tq_reachable_induct)
  case (init t)
  show ?case by (simp add: done_inv_def pool_init_def)
qed (rule done_inv_step)

lemma shutdown_run:
  assumes "1 \<le> n"
  shows "\<exists>s :: 'k pool. tq_reachable n s \<and> workerDone s \<and> (2 \<le> n \<longrightarrow> (\<exists>s'. tq_step s s' \<and> crashed s'))"
proof -
  let ?s0 = "pool_init n 0 :: 'k pool"
  let ?s1 = "?s0\<lparr>pq := wq_shutdown (pq ?s0)\<rparr>"
  have s1: "tq_reachable n ?s1"
    by (rule tq_reachable_step [OF tq_reachable_init tq_step.shutdown])
  have get: "wq_get (pq ?s1) = (Quit, pq ?s1)"
    by (simp add: pool_init_def wq_get_def wq_shutdown_def wq_new_def)
  let ?s2 = "?s1\<lparr>pcs := (pcs ?s1)[0 := Exited], workerDone := True\<rparr>"
  have s2: "tq_reachable n ?s2"
    by (rule tq_reachable_step [OF s1 tq_step.quit [OF _ _ get]]) (use assms in \<open>simp_all add: pool_init_def\<close>)
  have get2: "wq_get (pq ?s2) = (Quit, pq ?s1)" using get by simp
  have "tq_step ?s2 (?s2\<lparr>crashed := True\<rparr>)" if "2 \<le> n"
    by (rule tq_step.quit_again [OF _ _ get2, of 1]) (use that in \<open>simp_all add: pool_init_def\<close>)
  with s2 show ?thesis by (intro exI [of _ ?s2]) auto
qed

text \<open>
  The acknowledgement of a shutdown works for exactly one worker: with two workers or more the
  second one to see the closed queue closes the channel \<open>workerDone\<close> again, which panics; with one
  worker that never happens; with none (\<open>Run\<close> returning early because the caches did not sync) the
  channel is never closed, so \<open>shutdown\<close> waits for ever.
\<close>

lemma shutdown_needs_one_worker:
  "((\<exists>s :: 'k pool. tq_reachable n s \<and> crashed s) \<longleftrightarrow> 2 \<le> n)
    \<and> ((\<exists>s :: 'k pool. tq_reachable n s \<and> workerDone s) \<longleftrightarrow> 1 \<le> n)"
proof (intro conjI iffI)
  assume "\<exists>s :: 'k pool. tq_reachable n s \<and> crashed s"
  then obtain s :: "'k pool" where "tq_reachable n s" "crashed s" by blast
  then show "2 \<le> n" using done_inv_reachable [of n s] by (cases "n \<le> 1") (auto simp: done_inv_def)
next
  assume "2 \<le> n"
  then show "\<exists>s :: 'k pool. tq_reachable n s \<and> crashed s"
    using shutdown_run [of n] tq_reachable_step by (metis Suc_leD numeral_2_eq_2 One_nat_def)
next
  assume "\<exists>s :: 'k pool. tq_reachable n s \<and> workerDone s"
  then obtain s :: "'k pool" where "tq_reachable n s" "workerDone s" by blast
  then show "1 \<le> n" using done_inv_reachable [of n s] by (cases n) (auto simp: done_inv_def)
next
  assume "1 \<le> n"
  then show "\<exists>s :: 'k pool. tq_reachable n s \<and> workerDone s" using shutdown_run [of n] by blast
qed

end
