(* ===== verification/Cluster_Machine.thy ===== *)
theory Cluster_Machine
  imports Domain_Safety
begin

text \<open>
  The domain controller at work in its cluster: the API server, the watch that feeds the informer,
  the informer's store, which lags behind the server, and any number of workers that run
  \<open>syncDomain\<close> at the same time. A worker takes the actions of the code one by one: \<open>code_act\<close>
  is the set of actions \<open>syncDomain\<close> makes after a history of answers, over all environments. The two
  other operations of the controller that write claims are steps as well: the PUT of \<open>claimDomains\<close>,
  by which an ingress takes over an existing claim, and the POST of \<open>updateDomain\<close>, which recovers a
  claim whose spec was changed. The server and the watch are not code of the repository; they are the
  rules \<open>answered\<close> and \<open>cl_step\<close>, with the documented behaviour of Kubernetes: each write of an object
  gives it a fresh resource version, a PUT with an outdated resource version is refused, and the
  watch, which is taken not to be interrupted by a new list, reports the writes of an object in
  their order.
\<close>

section \<open>State\<close>

type_synonym object_id = "string \<times> string"

definition id_of :: "Domain \<Rightarrow> object_id" where
  "id_of d = (Namespace d, Name d)"

datatype watch_event = Stored Domain | Removed object_id

fun event_id :: "watch_event \<Rightarrow> object_id" where
  "event_id (Stored d) = id_of d"
| "event_id (Removed k) = k"

fun apply_event :: "watch_event \<Rightarrow> (object_id \<rightharpoonup> Domain) \<Rightarrow> (object_id \<rightharpoonup> Domain)" where
  "apply_event (Stored d) m = m(id_of d \<mapsto> d)"
| "apply_event (Removed k) m = m(k := None)"

text \<open>
  \<open>api\<close> is what the server holds, \<open>feed\<close> the events the informer has not handled yet, \<open>cache\<close> its
  store, \<open>written\<close> every object the server ever stored, \<open>jobs\<close> the key each worker is at and what
  it has done for it so far, \<open>updates\<close> the old and the new object of every update the informer
  handed to its handler.
\<close>

record cluster =
  api :: "object_id \<rightharpoonup> Domain"
  feed :: "watch_event list"
  cache :: "object_id \<rightharpoonup> Domain"
  written :: "Domain set"
  jobs :: "nat \<rightharpoonup> string \<times> act list"
  updates :: "(Domain \<times> Domain) set"

definition cluster_init :: cluster where
  "cluster_init = \<lparr>api = Map.empty, feed = [], cache = Map.empty, written = {}, jobs = Map.empty, updates = {}\<rparr>"

fun updates_of :: "watch_event \<Rightarrow> (object_id \<rightharpoonup> Domain) \<Rightarrow> (Domain \<times> Domain) set" where
  "updates_of (Stored d) m = (case m (id_of d) of None \<Rightarrow> {} | Some old \<Rightarrow> {(old, d)})"
| "updates_of (Removed k) m = {}"

definition store_obj :: "Domain \<Rightarrow> cluster \<Rightarrow> cluster" where
  "store_obj d s = s\<lparr>api := (api s)(id_of d \<mapsto> d), feed := feed s @ [Stored d], written := insert d (written s)\<rparr>"

definition remove_obj :: "object_id \<Rightarrow> cluster \<Rightarrow> cluster" where
  "remove_obj k s = s\<lparr>api := (api s)(k := None), feed := feed s @ [Removed k]\<rparr>"

definition fresh_version :: "cluster \<Rightarrow> string \<Rightarrow> bool" where
  "fresh_version s v \<longleftrightarrow> (\<forall>d \<in> written s. ResourceVersion d \<noteq> v)"

text \<open>\<open>GetByKey\<close> of the store, whose keys are those of \<open>MetaNamespaceKeyFunc\<close>.\<close>

definition cached :: "(object_id \<rightharpoonup> Domain) \<Rightarrow> string \<Rightarrow> Domain option \<Rightarrow> bool" where
  "cached m key v = (case v of
      None \<Rightarrow> \<forall>d \<in> ran m. meta_key d \<noteq> key
    | Some d \<Rightarrow> d \<in> ran m \<and> meta_key d = key)"

section \<open>Steps\<close>

text \<open>
  What the code may do next. The world of an environment is a number, which is enough to give every
  answer: the number of answers given before.
\<close>

definition code_act :: "Config \<Rightarrow> string \<Rightarrow> act list \<Rightarrow> act \<Rightarrow> bool" where
  "code_act cfg key h e \<longleftrightarrow> (\<exists>(E :: nat env) n w t. fair_ranges E \<and> trace_of (syncDomain E cfg key n) w = h @ e # t)"

text \<open>
  The answers the cluster gives to a worker: reads of the store never fail, a PUT is applied only
  on the version it carries, and one that is answered with an error may have been applied or not.
  Nothing is assumed of the other actions; what a PATCH or a DELETE does to an object is among the
  steps \<open>touch\<close> and \<open>remove\<close>.
\<close>

inductive answered :: "cluster \<Rightarrow> act \<Rightarrow> cluster \<Rightarrow> bool" where
  read_one: "cached (cache s) key v \<Longrightarrow> answered s (ReadDomain key (Inr v)) s"
| read_all: "set ds = ran (cache s) \<Longrightarrow> answered s (ReadDomains (Inr ds)) s"
| put: "api s (id_of d) = Some d0 \<Longrightarrow> ResourceVersion d0 = ResourceVersion d \<Longrightarrow> fresh_version s v
    \<Longrightarrow> answered s (Call (domain_put d) r) (store_obj (d\<lparr>ResourceVersion := v\<rparr>) s)"
| put_refused: "res_err r \<noteq> None \<Longrightarrow> answered s (Call (domain_put d) r) s"
| other: "(\<forall>d r. e \<noteq> Call (domain_put d) r) \<Longrightarrow> (\<forall>k r. e \<noteq> ReadDomain k r) \<Longrightarrow> (\<forall>r. e \<noteq> ReadDomains r)
    \<Longrightarrow> answered s e s"

text \<open>
  The PUT of \<open>claimDomains\<close> for a claim \<open>dm\<close> that the store had, and what \<open>updateDomain\<close> posts for an
  update from \<open>old\<close> to \<open>new\<close>.
\<close>

definition claim_puts :: "Ingress \<Rightarrow> Domain \<Rightarrow> Domain \<Rightarrow> bool" where
  "claim_puts ing dm x \<longleftrightarrow> (\<exists>(E :: nat env) d w r. d \<in> set (getHostsFromIngress ing)
     \<and> trace_of (claim_one E ing d) w = [ReadDomain (meta_key d) (Inr (Some dm)), Call (domain_put x) r])"

definition recovers :: "Domain \<Rightarrow> Domain \<Rightarrow> Domain \<Rightarrow> bool" where
  "recovers old new d \<longleftrightarrow> (\<exists>(E :: nat env) w r.
     Call (domain_request POST (Namespace d) None (DomainBody d)) r \<in> set (trace_of (updateDomain E old new) w))"

text \<open>
  \<open>create\<close>, \<open>touch\<close> and \<open>remove\<close> are the users and the server, and the new claims that \<open>claimDomains\<close>
  posts: whoever writes an object does not set its phase to OK, and changes the spec of an object
  whose phase is OK only when \<open>edits\<close> allows it. \<open>claim\<close> and \<open>recover\<close> are the controller's other
  writes; neither looks at the hosts of other claims. A worker may stop at any point.
\<close>

inductive cl_step :: "bool \<Rightarrow> Config \<Rightarrow> cluster \<Rightarrow> cluster \<Rightarrow> bool" for edits cfg where
  create: "api s (id_of d) = None \<Longrightarrow> fresh_version s (ResourceVersion d) \<Longrightarrow> Phase (Status d) \<noteq> DomainStatusOK
    \<Longrightarrow> cl_step edits cfg s (store_obj d s)"
| touch: "api s (id_of d) = Some d0 \<Longrightarrow> fresh_version s (ResourceVersion d)
    \<Longrightarrow> Phase (Status d) = DomainStatusOK \<longrightarrow> Phase (Status d0) = DomainStatusOK
    \<Longrightarrow> Phase (Status d0) = DomainStatusOK \<longrightarrow> edits \<or> Spec d = Spec d0
    \<Longrightarrow> cl_step edits cfg s (store_obj d s)"
| remove: "cl_step edits cfg s (remove_obj k s)"
| deliver: "feed s = e # rest \<Longrightarrow> cl_step edits cfg s (s\<lparr>feed := rest, cache := apply_event e (cache s),
      updates := updates_of e (cache s) \<union> updates s\<rparr>)"
| claim: "AutoClaim cfg \<Longrightarrow> dm \<in> written s \<Longrightarrow> claim_puts ing dm x \<Longrightarrow> answered s (Call (domain_put x) r) s'
    \<Longrightarrow> cl_step edits cfg s s'"
| recover: "(old, new) \<in> updates s \<Longrightarrow> recovers old new d \<Longrightarrow> api s (id_of d) = None \<Longrightarrow> fresh_version s v
    \<Longrightarrow> cl_step edits cfg s (store_obj (d\<lparr>ResourceVersion := v\<rparr>) s)"
| start: "jobs s i = None \<Longrightarrow> cl_step edits cfg s (s\<lparr>jobs := (jobs s)(i \<mapsto> (key, []))\<rparr>)"
| stop: "cl_step edits cfg s (s\<lparr>jobs := (jobs s)(i := None)\<rparr>)"
| work: "jobs s i = Some (key, h) \<Longrightarrow> code_act cfg key h e \<Longrightarrow> answered s e s'
    \<Longrightarrow> cl_step edits cfg s (s'\<lparr>jobs := (jobs s)(i \<mapsto> (key, h @ [e]))\<rparr>)"

definition cl_reachable :: "bool \<Rightarrow> Config \<Rightarrow> cluster \<Rightarrow> bool" where
  "cl_reachable edits cfg s \<longleftrightarrow> (cl_step edits cfg)\<^sup>*\<^sup>* cluster_init s"

lemma cl_reachable_step: "cl_reachable b cfg s \<Longrightarrow> cl_step b cfg s s' \<Longrightarrow> cl_reachable b cfg s'"
  unfolding cl_reachable_def by simp

lemma cl_reachable_induct [consumes 1, case_names init step]:
  assumes "cl_reachable b cfg s" "P cluster_init"
    and "\<And>s s'. cl_reachable b cfg s \<Longrightarrow> P s \<Longrightarrow> cl_step b cfg s s' \<Longrightarrow> P s'"
  shows "P s"
proof -
  from assms(1) have "(cl_step b cfg)\<^sup>*\<^sup>* cluster_init s" by (simp add: cl_reachable_def)
  then have "cl_reachable b cfg s \<and> P s"
  proof (induction rule: rtranclp_induct)
    case base
    from assms(2) show ?case by (simp add: cl_reachable_def)
  next
    case (step s s')
    then have "cl_reachable b cfg s'" using cl_reachable_step by blast
    with step assms(3) show ?case by blast
  qed
  then show ?thesis ..
qed

lemma store_obj_simps [simp]:
  "api (store_obj d s) = (api s)(id_of d \<mapsto> d)" "feed (store_obj d s) = feed s @ [Stored d]"
  "cache (store_obj d s) = cache s" "written (store_obj d s) = insert d (written s)"
  "jobs (store_obj d s) = jobs s" "updates (store_obj d s) = updates s"
  by (simp_all add: store_obj_def)

lemma remove_obj_simps [simp]:
  "api (remove_obj k s) = (api s)(k := None)" "feed (remove_obj k s) = feed s @ [Removed k]"
  "cache (remove_obj k s) = cache s" "written (remove_obj k s) = written s" "jobs (remove_obj k s) = jobs s"
  "updates (remove_obj k s) = updates s"
  by (simp_all add: remove_obj_def)

section \<open>What is known of a step of the code\<close>

text \<open>What \<open>updateDomain\<close> posts has the spec and the phase of the old object, whose hosts were changed.\<close>

lemma recovers_old:
  assumes "recovers old new d"
  shows "Spec old \<noteq> Spec new \<and> Spec d = Spec old \<and> Phase (Status d) = Phase (Status old)"
proof -
  have inj: "d = d'" if "domain_request POST n None (DomainBody d) = domain_request POST n' None (DomainBody d')" for n n' d'
    using that by (simp add: domain_request_def)
  have post: "emits_only (\<lambda>e. \<forall>n d r. e = Call (domain_request POST n None (DomainBody d)) r \<longrightarrow>
      Spec old \<noteq> Spec new \<and> Spec d = Spec old \<and> Phase (Status d) = Phase (Status old)) (updateDomain E old new)"
    for E :: "nat env"
    unfolding updateDomain_def Let_def
    by (intro emits_intros) (auto simp: domain_request_def recovered_domain_def)
  from assms obtain E :: "nat env" and w r
    where "Call (domain_request POST (Namespace d) None (DomainBody d)) r \<in> set (trace_of (updateDomain E old new) w)"
    by (auto simp: recovers_def)
  with post [of E] show ?thesis unfolding emits_only_def by blast
qed

text \<open>The handler reads its resource first, and only then.\<close>

definition not_read :: "act \<Rightarrow> bool" where
  "not_read e \<longleftrightarrow> (\<forall>k r. e \<noteq> ReadDomain k r)"

lemma not_read_simps [simp]:
  "not_read (Call q r)" "not_read (ReadDomains l)" "not_read (ReadClock t)" "not_read (Eventf o' ty rs m)"
  "not_read ApisTotalDec" "\<not> not_read (ReadDomain k v)"
  by (simp_all add: not_read_def)

lemma kong_not_read: "is_kong_get e \<Longrightarrow> not_read e" "is_kong_delete n e \<Longrightarrow> not_read e"
  by (cases e; simp)+

lemma deletes_not_read: "emits_only not_read (delete_apis (apiKong_Delete E) w apis)"
  by (rule emits_only_mono [OF kong.delete_apis_emits]) (auto intro: kong_not_read)

lemma regexp_not_read: "emits_only not_read (apiKong_ListByRegexp E None p)"
  by (rule emits_only_mono [OF kong.regexp_reads]) (rule kong_not_read)

lemma list_not_read: "emits_only not_read (apiKong_List (page_bound E) E None)"
  by (rule emits_only_mono [OF kong.list_reads]) (rule kong_not_read)

lemmas not_read_intros = deletes_not_read regexp_not_read list_not_read emits_intros

lemma gone_not_read: "emits_only not_read (syncDomain_gone E cfg)"
proof -
  have hosts: "emits_only not_read (range_hosts E m)" for m
    by (simp add: emits_only_def trace_of_def range_hosts_def split: prod.splits)
  show ?thesis
    unfolding syncDomain_gone_def wipe_shared_def wipe_host_def list_domains_def
    by (intro hosts not_read_intros) simp_all
qed

lemma delete_not_read: "emits_only not_read (syncDomain_delete E d)"
  unfolding syncDomain_delete_def purge_domain_def list_domains_def do_raw_def send_def
  by (intro not_read_intros) simp_all

lemma phase_not_read: "emits_only not_read (syncDomain_phase E cfg d)"
  unfolding syncDomain_phase_def sync_new_def sync_pending_primary_def sync_pending_shared_def
    sync_ok_def sync_failed_def list_domains_def do_raw_def send_def time_now_def record_event_def Let_def
  by (intro emits_intros) simp_all

lemma syncDomain_trace:
  "\<exists>r t. trace_of (syncDomain E cfg key n) w = ReadDomain key r # t \<and> (\<forall>e \<in> set t. not_read e)"
proof -
  obtain r w' where r: "dom_get E key w = (r, w')" by (cases "dom_get E key w")
  let ?rest = "\<lambda>obj. case obj of None \<Rightarrow> syncDomain_gone E cfg
     | Some d \<Rightarrow> if \<not> IsValidDomain d then
           bnd (updateDomainStatus E d ''Invalid'' ''The domain specified on the resource is invalid''
             DomainStatusFailed) (\<lambda>_. ret (Inr ()))
        else if IsMarkedForDeletion d then syncDomain_delete E d else syncDomain_phase E cfg d"
  have rest: "emits_only not_read (?rest obj)" for obj
    by (intro emits_intros gone_not_read delete_not_read phase_not_read) simp_all
  have run: "trace_of (syncDomain E cfg key n) w =
      ReadDomain key r # (case r of Inl e \<Rightarrow> [] | Inr obj \<Rightarrow> trace_of (?rest obj) w')"
    using r by (cases r) (simp_all add: syncDomain_def trace_of_def get_domain_def tryE_def bnd_def ask_def
        ret_def split: prod.splits outcome.splits)
  show ?thesis
    unfolding run using emits_onlyD [OF rest] by (cases r) auto
qed

lemma code_act_shape:
  assumes "code_act cfg key h e"
  shows "(h = [] \<longrightarrow> (\<exists>r. e = ReadDomain key r)) \<and> (h \<noteq> [] \<longrightarrow> not_read e)"
proof -
  from assms obtain E :: "nat env" and n w t where "trace_of (syncDomain E cfg key n) w = h @ e # t"
    by (auto simp: code_act_def)
  with syncDomain_trace [of E cfg key n w] show ?thesis by (cases h) auto
qed

lemma code_act_contract:
  assumes "code_act cfg key h e"
  shows "domain_action cfg key h e"
proof -
  from assms obtain E :: "nat env" and n w t where "fair_ranges E"
    "trace_of (syncDomain E cfg key n) w = h @ e # t" by (auto simp: code_act_def)
  from hoareD [OF syncDomain_action [OF this(1)] _ this(2)] show ?thesis by simp
qed

end
