(* ===== verification/Cluster_Invariant.thy ===== *)
theory Cluster_Invariant
  imports Cluster_Machine
begin

text \<open>
  The invariant of the cluster behind the uniqueness of the owner of a primary domain. It follows
  the argument: the claim a worker is about to grant is in the store for as long as the grant can
  still succeed, and a claim with phase OK is in the store too, so of two workers that both saw no
  rival one must have seen the other's claim.
\<close>

declare phase_defs [simp del] IsPrimary_iff [simp del]

section \<open>Versions\<close>

fun stored :: "watch_event list \<Rightarrow> Domain list" where
  "stored [] = []"
| "stored (Stored d # es) = d # stored es"
| "stored (Removed k # es) = stored es"

lemma stored_append [simp]: "stored (es @ es') = stored es @ stored es'"
  by (induction es rule: stored.induct) auto

lemma set_stored: "set (stored es) = {d. Stored d \<in> set es}"
  by (induction es rule: stored.induct) auto

text \<open>
  The pending events lead from the store to what the server holds; an object is known by its
  resource version, and is either in the store or still on its way.
\<close>

definition versions :: "(object_id \<rightharpoonup> Domain) \<Rightarrow> watch_event list \<Rightarrow> (object_id \<rightharpoonup> Domain) \<Rightarrow> Domain set \<Rightarrow> bool" where
  "versions A F K W \<longleftrightarrow> fold apply_event F K = A \<and> ran A \<subseteq> W \<and> ran K \<subseteq> W \<and> set (stored F) \<subseteq> W
     \<and> inj_on ResourceVersion W \<and> distinct (stored F) \<and> set (stored F) \<inter> ran K = {}
     \<and> (\<forall>k d. A k = Some d \<or> K k = Some d \<longrightarrow> id_of d = k)"

lemma ran_update: "ran (m(k \<mapsto> v)) \<subseteq> insert v (ran m)" "ran (m(k := None)) \<subseteq> ran m"
  by (auto simp: ran_def)

lemma versions_store:
  assumes "versions A F K W" "\<forall>w \<in> W. ResourceVersion w \<noteq> ResourceVersion d"
  shows "versions (A(id_of d \<mapsto> d)) (F @ [Stored d]) K (insert d W)"
  using assms ran_update(1) [of A "id_of d" d]
  by (auto simp: versions_def dest: ranI)

lemma versions_remove:
  "versions A F K W \<Longrightarrow> versions (A(k := None)) (F @ [Removed k]) K W"
  using ran_update(2) [of A k] by (auto simp: versions_def)

lemma ran_apply_event: "ran (apply_event e m) \<subseteq> set (stored [e]) \<union> ran m"
  using ran_update by (cases e) fastforce+

lemma versions_deliver:
  assumes "versions A (e # F) K W"
  shows "versions A F (apply_event e K) W"
proof -
  have F: "stored (e # F) = stored [e] @ stored F" by (cases e) simp_all
  have id: "id_of d = k" if "apply_event e K k = Some d" for k d
    using that assms by (cases e) (auto simp: versions_def simp del: split_paired_All split: if_splits)
  have "ran (apply_event e K) \<subseteq> W" "set (stored F) \<inter> ran (apply_event e K) = {}"
    using assms F ran_apply_event [of e K] by (auto simp: versions_def)
  with assms F id show ?thesis by (simp add: versions_def)
qed

lemma fold_last:
  "fold apply_event F K k = Some d \<Longrightarrow> d \<notin> set (stored F) \<Longrightarrow> K k = Some d \<and> (\<forall>e \<in> set F. event_id e \<noteq> k)"
proof (induction F arbitrary: K rule: stored.induct)
  case (2 x es)
  then show ?case by (fastforce split: if_splits)
next
  case (3 k' es)
  then show ?case by (fastforce split: if_splits)
qed simp

lemma versions_quiet:
  assumes "versions A F K W" "A (id_of d) = Some d" "d \<in> ran K"
  shows "K (id_of d) = Some d \<and> (\<forall>e \<in> set F. event_id e \<noteq> id_of d)"
  using assms fold_last [of F K "id_of d" d] by (auto simp: versions_def)

text \<open>This holds of every run, with edits and with \<open>AutoClaim\<close>.\<close>

lemma versions_answered:
  assumes "answered s e s'" "versions (api s) (feed s) (cache s) (written s)"
  shows "versions (api s') (feed s') (cache s') (written s')"
  using assms(1)
proof cases
  case (put d d0 v r)
  with versions_store [OF assms(2), of "d\<lparr>ResourceVersion := v\<rparr>"] show ?thesis by (simp add: fresh_version_def)
qed (use assms(2) in simp_all)

lemma versions_reachable:
  "cl_reachable b cfg s \<Longrightarrow> versions (api s) (feed s) (cache s) (written s)"
proof (induction rule: cl_reachable_induct)
  case init
  show ?case by (simp add: cluster_init_def versions_def)
next
  case (step s s')
  from step(2) show ?case
  proof (cases rule: cl_step.cases)
    case (deliver e rest)
    with versions_deliver step(3) show ?thesis by simp
  next
    case claim
    from versions_answered [OF claim(4) step(3)] show ?thesis .
  next
    case (work i key h e s1)
    with versions_answered [OF work(4) step(3)] show ?thesis by simp
  qed (use versions_store [OF step(3)] versions_remove [OF step(3)] step(3) in \<open>simp_all add: fresh_version_def flip: fun_upd_def\<close>)
qed

section \<open>Owners\<close>

lemma rival_cong:
  assumes "id_of d = id_of d'" "Spec d = Spec d'" "id_of b = id_of b'" "Spec b = Spec b'"
  shows "rival d b \<longleftrightarrow> rival d' b'"
  using assms by (auto simp: rival_def same_resource_def id_of_def IsPrimary_def GetPrimaryDomain_def)

lemma rival_sym: "IsPrimary d \<Longrightarrow> rival d b \<longleftrightarrow> IsPrimary b \<and> rival b d"
  by (auto simp: rival_def same_resource_def)

definition stable :: "watch_event list \<Rightarrow> (object_id \<rightharpoonup> Domain) \<Rightarrow> object_id \<Rightarrow> DomainSpec \<Rightarrow> bool" where
  "stable F K k sp \<longleftrightarrow> (\<exists>d. K k = Some d \<and> Spec d = sp)
     \<and> (\<forall>e \<in> set F. event_id e = k \<longrightarrow> (\<exists>d. e = Stored d \<and> Spec d = sp))"

abbreviation ok_phase :: "Domain \<Rightarrow> bool" where
  "ok_phase d \<equiv> Phase (Status d) = DomainStatusOK"

text \<open>\<open>H\<close> are the resources the workers have read, \<open>C\<close> those for which a worker saw no rival.\<close>

definition owners :: "(object_id \<rightharpoonup> Domain) \<Rightarrow> watch_event list \<Rightarrow> (object_id \<rightharpoonup> Domain) \<Rightarrow> Domain set \<Rightarrow> Domain set \<Rightarrow> bool" where
  "owners A F K H C \<longleftrightarrow>
     (\<forall>d \<in> H. A (id_of d) = Some d \<longrightarrow> K (id_of d) = Some d \<and> (\<forall>e \<in> set F. event_id e \<noteq> id_of d))
   \<and> (\<forall>k b. A k = Some b \<longrightarrow> ok_phase b \<longrightarrow> stable F K k (Spec b))
   \<and> (\<forall>d \<in> C. \<forall>k b. A (id_of d) = Some d \<longrightarrow> IsPrimary d \<longrightarrow> A k = Some b \<longrightarrow> ok_phase b \<longrightarrow> \<not> rival d b)
   \<and> (\<forall>d \<in> C. \<forall>b \<in> C. A (id_of d) = Some d \<longrightarrow> A (id_of b) = Some b \<longrightarrow> IsPrimary d \<longrightarrow> \<not> rival d b)
   \<and> (\<forall>k l a b. A k = Some a \<longrightarrow> A l = Some b \<longrightarrow> ok_phase a \<longrightarrow> ok_phase b \<longrightarrow> IsPrimary a \<longrightarrow> \<not> rival a b)"

lemma ownersI:
  assumes "\<And>d. d \<in> H \<Longrightarrow> A (id_of d) = Some d \<Longrightarrow> K (id_of d) = Some d \<and> (\<forall>e \<in> set F. event_id e \<noteq> id_of d)"
    and "\<And>k b. A k = Some b \<Longrightarrow> ok_phase b \<Longrightarrow> stable F K k (Spec b)"
    and "\<And>d k b. d \<in> C \<Longrightarrow> A (id_of d) = Some d \<Longrightarrow> IsPrimary d \<Longrightarrow> A k = Some b \<Longrightarrow> ok_phase b \<Longrightarrow> \<not> rival d b"
    and "\<And>d b. d \<in> C \<Longrightarrow> b \<in> C \<Longrightarrow> A (id_of d) = Some d \<Longrightarrow> A (id_of b) = Some b \<Longrightarrow> IsPrimary d \<Longrightarrow> \<not> rival d b"
    and "\<And>k l a b. A k = Some a \<Longrightarrow> A l = Some b \<Longrightarrow> ok_phase a \<Longrightarrow> ok_phase b \<Longrightarrow> IsPrimary a \<Longrightarrow> \<not> rival a b"
  shows "owners A F K H C"
  unfolding owners_def using assms by blast

lemma ownersD:
  assumes "owners A F K H C"
  shows "d \<in> H \<Longrightarrow> A (id_of d) = Some d \<Longrightarrow> K (id_of d) = Some d \<and> (\<forall>e \<in> set F. event_id e \<noteq> id_of d)"
    and "A k = Some b \<Longrightarrow> ok_phase b \<Longrightarrow> stable F K k (Spec b)"
    and "d \<in> C \<Longrightarrow> A (id_of d) = Some d \<Longrightarrow> IsPrimary d \<Longrightarrow> A k = Some b \<Longrightarrow> ok_phase b \<Longrightarrow> \<not> rival d b"
    and "d \<in> C \<Longrightarrow> b \<in> C \<Longrightarrow> A (id_of d) = Some d \<Longrightarrow> A (id_of b) = Some b \<Longrightarrow> IsPrimary d \<Longrightarrow> \<not> rival d b"
    and "A k = Some a \<Longrightarrow> A l = Some b \<Longrightarrow> ok_phase a \<Longrightarrow> ok_phase b \<Longrightarrow> IsPrimary a \<Longrightarrow> \<not> rival a b"
  using assms unfolding owners_def by blast+

lemma owners_mono: "owners A F K H C \<Longrightarrow> H' \<subseteq> H \<Longrightarrow> C' \<subseteq> C \<Longrightarrow> owners A F K H' C'"
  by (rule ownersI) (auto dest: ownersD)

lemma stable_append: "stable F K k sp \<Longrightarrow> (event_id e = k \<Longrightarrow> \<exists>d. e = Stored d \<and> Spec d = sp) \<Longrightarrow> stable (F @ [e]) K k sp"
  by (auto simp: stable_def)

lemma stable_deliver: "stable (e # F) K k sp \<Longrightarrow> stable F (apply_event e K) k sp"
  by (cases e) (auto simp: stable_def)

lemma versions_id:
  assumes "versions A F K W"
  shows "A k = Some d \<Longrightarrow> id_of d = k" "K k = Some d \<Longrightarrow> id_of d = k"
  using assms unfolding versions_def by blast+

lemma stable_key:
  assumes "versions A F K W" "stable F K k sp"
  shows "\<exists>d \<in> ran K. id_of d = k \<and> Spec d = sp"
proof -
  from assms(2) obtain d where d: "K k = Some d" "Spec d = sp" by (auto simp: stable_def)
  with versions_id(2) [OF assms(1)] show ?thesis by (blast intro: ranI)
qed

text \<open>A write that grants nothing: a creation, a change of the spec of a claim that is not OK, or any
  change of the rest.\<close>

lemma owners_update:
  assumes own: "owners A F K H C" and sub: "H \<subseteq> W" "C \<subseteq> W"
    and fresh: "\<forall>w \<in> W. ResourceVersion w \<noteq> ResourceVersion d"
    and keep: "ok_phase d \<Longrightarrow> \<exists>d0. A (id_of d) = Some d0 \<and> ok_phase d0 \<and> Spec d = Spec d0 \<and> id_of d = id_of d0"
  shows "owners (A(id_of d \<mapsto> d)) (F @ [Stored d]) K H C"
proof -
  let ?A = "A(id_of d \<mapsto> d)"
  have old: "A (id_of c) = Some c \<and> id_of c \<noteq> id_of d" if "c \<in> W" "?A (id_of c) = Some c" for c
    using that fresh by (cases "id_of c = id_of d") auto
  have ok: "\<exists>b'. A k = Some b' \<and> ok_phase b' \<and> Spec b = Spec b' \<and> id_of b = id_of b' \<and> (k = id_of d \<or> b = b')"
    if "?A k = Some b" "ok_phase b" for k b
    using that keep by (cases "k = id_of d") auto
  show ?thesis
  proof (rule ownersI)
    fix c
    assume "c \<in> H" "?A (id_of c) = Some c"
    with old sub ownersD(1) [OF own, of c] show "K (id_of c) = Some c \<and> (\<forall>e \<in> set (F @ [Stored d]). event_id e \<noteq> id_of c)"
      by fastforce
  next
    fix k b
    assume b: "?A k = Some b" "ok_phase b"
    from ok [OF b] obtain b' where b': "A k = Some b'" "ok_phase b'" "Spec b = Spec b'" by blast
    from ownersD(2) [OF own b'(1,2)] b' b(1) show "stable (F @ [Stored d]) K k (Spec b)"
      by (auto intro: stable_append split: if_splits)
  next
    fix c k b
    assume c: "c \<in> C" "?A (id_of c) = Some c" "IsPrimary c" and b: "?A k = Some b" "ok_phase b"
    from ok [OF b] obtain b' where b': "A k = Some b'" "ok_phase b'" "Spec b = Spec b'" "id_of b = id_of b'" by blast
    with ownersD(3) [OF own c(1) _ c(3) b'(1,2)] old sub c show "\<not> rival c b"
      using rival_cong [of c c b b'] by auto
  next
    fix c b
    assume "c \<in> C" "b \<in> C" "?A (id_of c) = Some c" "?A (id_of b) = Some b" "IsPrimary c"
    with ownersD(4) [OF own, of c b] old sub show "\<not> rival c b" by blast
  next
    fix k l a b
    assume a: "?A k = Some a" "ok_phase a" "IsPrimary a" and b: "?A l = Some b" "ok_phase b"
    from ok [OF a(1,2)] obtain a' where a': "A k = Some a'" "ok_phase a'" "Spec a = Spec a'" "id_of a = id_of a'" by blast
    from ok [OF b] obtain b' where b': "A l = Some b'" "ok_phase b'" "Spec b = Spec b'" "id_of b = id_of b'" by blast
    have "IsPrimary a'" using a(3) a'(3) by (simp add: IsPrimary_def)
    with ownersD(5) [OF own a'(1) b'(1) a'(2) b'(2)] show "\<not> rival a b"
      using rival_cong [OF a'(4,3) b'(4,3)] by simp
  qed
qed

lemma owners_remove:
  assumes own: "owners A F K H C"
  shows "owners (A(k := None)) (F @ [Removed k]) K H C"
proof (rule ownersI)
  show "K (id_of d) = Some d \<and> (\<forall>e \<in> set (F @ [Removed k]). event_id e \<noteq> id_of d)"
    if "d \<in> H" "(A(k := None)) (id_of d) = Some d" for d
    using that ownersD(1) [OF own, of d] by (auto split: if_splits)
  show "stable (F @ [Removed k]) K l (Spec b)" if "(A(k := None)) l = Some b" "ok_phase b" for l b
    using that ownersD(2) [OF own, of l b] by (auto intro: stable_append split: if_splits)
qed (auto split: if_splits dest: ownersD(3-5) [OF own])

lemma owners_deliver:
  assumes own: "owners A (e # F) K H C"
  shows "owners A F (apply_event e K) H C"
proof (rule ownersI)
  show "apply_event e K (id_of d) = Some d \<and> (\<forall>e \<in> set F. event_id e \<noteq> id_of d)"
    if "d \<in> H" "A (id_of d) = Some d" for d
    using ownersD(1) [OF own that] by (cases e) auto
qed (auto intro: stable_deliver dest: ownersD(2-5) [OF own])

text \<open>A worker reads its resource; then it lists the store.\<close>

lemma owners_read:
  assumes own: "owners A F K H C" and "versions A F K W" "d \<in> ran K"
  shows "owners A F K (insert d H) C"
  by (rule ownersI) (use versions_quiet [OF assms(2) _ assms(3)] in \<open>auto dest: ownersD [OF own]\<close>)

lemma owners_list:
  assumes own: "owners A F K H C" and ver: "versions A F K W" and sub: "C \<subseteq> H"
    and D: "D \<subseteq> H" "\<forall>d \<in> D. \<forall>b \<in> ran K. \<not> rival d b"
  shows "owners A F K H (C \<union> D)"
proof (rule ownersI)
  fix d k b
  assume d: "d \<in> C \<union> D" "A (id_of d) = Some d" "IsPrimary d" and b: "A k = Some b" "ok_phase b"
  show "\<not> rival d b"
  proof (cases "d \<in> C")
    case True
    then show ?thesis by (rule ownersD(3) [OF own _ d(2,3) b])
  next
    case False
    have "id_of b = k" using ver b(1) unfolding versions_def by blast
    moreover obtain b' where "b' \<in> ran K" "id_of b' = k" "Spec b' = Spec b"
      using stable_key [OF ver ownersD(2) [OF own b]] by blast
    ultimately show ?thesis using False d(1) D(2) rival_cong [of d d b b'] by auto
  qed
next
  fix d b
  assume db: "d \<in> C \<union> D" "b \<in> C \<union> D" "A (id_of d) = Some d" "A (id_of b) = Some b" "IsPrimary d"
  have "d \<in> ran K" "b \<in> ran K" using db sub D(1) ownersD(1) [OF own] by (blast intro: ranI)+
  with db D(2) ownersD(4) [OF own, of d b] show "\<not> rival d b" using rival_sym [of d b] by blast
qed (auto dest: ownersD [OF own])

text \<open>A grant: the claim is held by a worker that saw no rival, and has not changed since.\<close>

lemma owners_grant:
  assumes own: "owners A F K H C" and sub: "H \<subseteq> W" "C \<subseteq> W" and d: "d \<in> H" "A (id_of d) = Some d" "IsPrimary d \<Longrightarrow> d \<in> C"
    and x: "id_of x = id_of d" "Spec x = Spec d" "\<forall>w \<in> W. ResourceVersion w \<noteq> ResourceVersion x"
  shows "owners (A(id_of x \<mapsto> x)) (F @ [Stored x]) K H C"
proof -
  let ?A = "A(id_of x \<mapsto> x)"
  have old: "A (id_of c) = Some c \<and> id_of c \<noteq> id_of d" if "c \<in> W" "?A (id_of c) = Some c" for c
    using that x(1,3) by (cases "id_of c = id_of d") auto
  have prim: "IsPrimary x \<longleftrightarrow> IsPrimary d" using x(2) by (simp add: IsPrimary_def)
  have quiet: "K (id_of d) = Some d \<and> (\<forall>e \<in> set F. event_id e \<noteq> id_of d)" by (rule ownersD(1) [OF own d(1,2)])
  have fresh_owner: "\<not> rival c x" if "c \<in> C" "?A (id_of c) = Some c" "IsPrimary c" for c
  proof
    assume "rival c x"
    then have r: "rival c d" using rival_cong [of c c x d] x by simp
    then have "IsPrimary d" by (simp add: rival_def)
    with r that old sub ownersD(4) [OF own that(1) d(3)] d(2) show False by blast
  qed
  have free: "\<not> rival x b" if "A k = Some b" "ok_phase b" "IsPrimary x" for k b
    using ownersD(3) [OF own d(3) d(2) _ that(1,2)] that(3) prim rival_cong [of x d b b] x by simp
  show ?thesis
  proof (rule ownersI)
    fix c
    assume "c \<in> H" "?A (id_of c) = Some c"
    with old sub ownersD(1) [OF own, of c] x(1)
    show "K (id_of c) = Some c \<and> (\<forall>e \<in> set (F @ [Stored x]). event_id e \<noteq> id_of c)"
      by fastforce
  next
    fix k b
    assume b: "?A k = Some b" "ok_phase b"
    show "stable (F @ [Stored x]) K k (Spec b)"
    proof (cases "k = id_of x")
      case True
      with b quiet x show ?thesis by (auto simp: stable_def)
    next
      case False
      with b ownersD(2) [OF own, of k b] show ?thesis by (auto intro: stable_append)
    qed
  next
    fix c k b
    assume c: "c \<in> C" "?A (id_of c) = Some c" "IsPrimary c" and b: "?A k = Some b" "ok_phase b"
    from c old sub have "A (id_of c) = Some c" by blast
    with c b fresh_owner [OF c] ownersD(3) [OF own c(1) _ c(3), of k b] show "\<not> rival c b"
      by (cases "k = id_of x") auto
  next
    fix c b
    assume "c \<in> C" "b \<in> C" "?A (id_of c) = Some c" "?A (id_of b) = Some b" "IsPrimary c"
    with ownersD(4) [OF own, of c b] old sub show "\<not> rival c b" by blast
  next
    fix k l a b
    assume a: "?A k = Some a" "ok_phase a" "IsPrimary a" and b: "?A l = Some b" "ok_phase b"
    have "a = x \<or> A k = Some a" using a(1) by (cases "k = id_of x") simp_all
    moreover have "b = x \<or> A l = Some b" using b(1) by (cases "l = id_of x") simp_all
    ultimately consider "a = x" "b = x" | "a = x" "A l = Some b" | "b = x" "A k = Some a"
      | "A k = Some a" "A l = Some b" by blast
    then show "\<not> rival a b"
    proof cases
      case 1
      then show ?thesis by (simp add: rival_def same_resource_def)
    next
      case 2
      with free b a show ?thesis by blast
    next
      case 3
      have "rival x a" "IsPrimary x" if "rival a x"
        using that rival_sym [OF a(3), of x] by (simp_all add: rival_def)
      with 3 free [OF 3(2) a(2)] show ?thesis by blast
    next
      case 4
      with ownersD(5) [OF own] a b show ?thesis by blast
    qed
  qed
qed

section \<open>Updates of granted claims\<close>

text \<open>No update the informer sees, or will see, changes the spec of a claim that was OK.\<close>

definition spec_kept :: "(Domain \<times> Domain) set \<Rightarrow> bool" where
  "spec_kept U \<longleftrightarrow> (\<forall>(old, new) \<in> U. ok_phase old \<longrightarrow> Spec new = Spec old)"

fun kept :: "watch_event list \<Rightarrow> (object_id \<rightharpoonup> Domain) \<Rightarrow> bool" where
  "kept [] K \<longleftrightarrow> True"
| "kept (e # F) K \<longleftrightarrow> spec_kept (updates_of e K) \<and> kept F (apply_event e K)"

lemma spec_kept_simps [simp]: "spec_kept {}" "spec_kept (U \<union> V) \<longleftrightarrow> spec_kept U \<and> spec_kept V"
  by (auto simp: spec_kept_def)

lemma kept_append: "kept (F @ [e]) K \<longleftrightarrow> kept F K \<and> spec_kept (updates_of e (fold apply_event F K))"
  by (induction F arbitrary: K) auto

lemma spec_kept_stored:
  "spec_kept (updates_of (Stored d) A) \<longleftrightarrow> (\<forall>d0. A (id_of d) = Some d0 \<longrightarrow> ok_phase d0 \<longrightarrow> Spec d = Spec d0)"
  by (auto simp: spec_kept_def split: option.splits)

lemma kept_store:
  assumes "versions A F K W" "kept F K" "\<And>d0. A (id_of d) = Some d0 \<Longrightarrow> ok_phase d0 \<Longrightarrow> Spec d = Spec d0"
  shows "kept (F @ [Stored d]) K"
  using assms spec_kept_stored [of d A] by (simp add: kept_append versions_def)

lemma spec_kept_recover:
  assumes "spec_kept U" "(old, new) \<in> U" "recovers old new d"
  shows "\<not> ok_phase d"
  using assms recovers_old [OF assms(3)] by (auto simp: spec_kept_def)

section \<open>What the workers know\<close>

definition read_in :: "act list \<Rightarrow> Domain \<Rightarrow> bool" where
  "read_in h d \<longleftrightarrow> (\<exists>key rest. h = ReadDomain key (Inr (Some d)) # rest)"

definition cleared :: "act list \<Rightarrow> Domain \<Rightarrow> bool" where
  "cleared h d \<longleftrightarrow> (\<exists>ds. ReadDomains (Inr ds) \<in> set h \<and> (\<forall>dm \<in> set ds. \<not> rival d dm))"

definition held :: "(nat \<rightharpoonup> string \<times> act list) \<Rightarrow> Domain set" where
  "held J = {d. \<exists>i key h. J i = Some (key, h) \<and> read_in h d}"

definition clear :: "(nat \<rightharpoonup> string \<times> act list) \<Rightarrow> Domain set" where
  "clear J = {d. \<exists>i key h. J i = Some (key, h) \<and> read_in h d \<and> cleared h d}"

definition good_history :: "Domain set \<Rightarrow> act list \<Rightarrow> bool" where
  "good_history W h \<longleftrightarrow> (\<forall>k d. ReadDomain k (Inr (Some d)) \<in> set h \<longrightarrow> d \<in> W \<and> read_in h d)
     \<and> (\<forall>l. ReadDomains l \<in> set h \<longrightarrow> (\<exists>ds. l = Inr ds \<and> set ds \<subseteq> W))"

definition cluster_inv :: "cluster \<Rightarrow> bool" where
  "cluster_inv s \<longleftrightarrow> versions (api s) (feed s) (cache s) (written s)
     \<and> owners (api s) (feed s) (cache s) (held (jobs s)) (clear (jobs s))
     \<and> (\<forall>i key h. jobs s i = Some (key, h) \<longrightarrow> good_history (written s) h)
     \<and> kept (feed s) (cache s) \<and> spec_kept (updates s)"

lemma read_in_append: "read_in (h @ [e]) d \<longleftrightarrow> read_in h d \<or> h = [] \<and> (\<exists>k. e = ReadDomain k (Inr (Some d)))"
  by (cases h) (auto simp: read_in_def)

lemma cleared_append: "cleared (h @ [e]) d \<longleftrightarrow> cleared h d \<or> (\<exists>ds. e = ReadDomains (Inr ds) \<and> (\<forall>dm \<in> set ds. \<not> rival d dm))"
  by (auto simp: cleared_def)

lemma held_update: "held (J(i \<mapsto> (key, h))) \<subseteq> held J \<union> {d. read_in h d}"
  "clear (J(i \<mapsto> (key, h))) \<subseteq> clear J \<union> {d. read_in h d \<and> cleared h d}"
  "held (J(i := None)) \<subseteq> held J" "clear (J(i := None)) \<subseteq> clear J"
  by (auto simp: held_def clear_def split: if_splits)

lemma clear_held: "clear J \<subseteq> held J"
  by (auto simp: clear_def held_def)

lemma held_written: "\<forall>i key h. J i = Some (key, h) \<longrightarrow> good_history W h \<Longrightarrow> held J \<subseteq> W"
  by (fastforce simp: held_def good_history_def read_in_def)

lemma good_history_mono: "good_history W h \<Longrightarrow> W \<subseteq> W' \<Longrightarrow> good_history W' h"
  unfolding good_history_def by blast

lemma good_history_append:
  assumes "good_history W h" "h = [] \<or> not_read e" "\<And>l. e = ReadDomains l \<Longrightarrow> \<exists>ds. l = Inr ds \<and> set ds \<subseteq> W"
    "\<And>k d. e = ReadDomain k (Inr (Some d)) \<Longrightarrow> d \<in> W"
  shows "good_history W (h @ [e])"
  using assms by (auto simp: good_history_def read_in_append not_read_def)

lemma read_known: "good_history W h \<Longrightarrow> ReadDomain k (Inr (Some d)) \<in> set h \<Longrightarrow> read_in h d"
  unfolding good_history_def by blast

lemma listing_known:
  assumes "good_history W h" "ReadDomains l \<in> set h" "\<forall>ds. l = Inr ds \<longrightarrow> (\<forall>dm \<in> set ds. \<not> rival d dm)"
  shows "cleared h d"
proof -
  from assms(1,2) obtain ds where "l = Inr ds" by (auto simp: good_history_def)
  with assms(2,3) show ?thesis by (auto simp: cleared_def)
qed

section \<open>What a PUT of the code carries\<close>

lemma set_status_version [simp]:
  "ResourceVersion (set_status d rs m ph t) = ResourceVersion d" "ResourceVersion (pending_claim d) = ResourceVersion d"
  "id_of (set_status d rs m ph t) = id_of d" "id_of (pending_claim d) = id_of d"
  by (simp_all add: set_status_def pending_claim_def id_of_def)

lemma domain_put_not [simp]: "domain_put d \<noteq> release_request d'" "domain_put d \<noteq> remove_request d'" "domain_put d \<noteq> kong_delete n"
  by (auto simp: domain_put_def release_request_def remove_request_def kong_delete_def domain_request_def kong_request_def)

lemma put_from_read:
  assumes "domain_action cfg key h (Call (domain_put x) r)"
  shows "\<exists>d. id_of x = id_of d \<and> ResourceVersion x = ResourceVersion d \<and> Spec x = Spec d
    \<and> (ReadDomain key (Inr (Some d)) \<in> set h \<or> (\<exists>ds. ReadDomains (Inr ds) \<in> set h \<and> d \<in> set ds))
    \<and> (ok_phase x \<longrightarrow> ReadDomain key (Inr (Some d)) \<in> set h
        \<and> (IsPrimary d \<longrightarrow> (\<exists>l. ReadDomains l \<in> set h \<and> (\<forall>ds. l = Inr ds \<longrightarrow> (\<forall>dm \<in> set ds. \<not> rival d dm)))))"
  using assms
  by (cases rule: domain_action.cases) (auto simp: reconciled_def gone_def snapshot_def split: if_splits)

section \<open>The invariant is kept\<close>

lemma cluster_invI:
  assumes "versions (api s) (feed s) (cache s) (written s)"
    and "owners (api s) (feed s) (cache s) H C" "held (jobs s) \<subseteq> H" "clear (jobs s) \<subseteq> C"
    and "\<And>i key h. jobs s i = Some (key, h) \<Longrightarrow> good_history (written s) h"
    and "kept (feed s) (cache s)" "spec_kept (updates s)"
  shows "cluster_inv s"
  using assms owners_mono unfolding cluster_inv_def by blast

lemma cluster_invD:
  assumes "cluster_inv s"
  shows "versions (api s) (feed s) (cache s) (written s)"
    and "owners (api s) (feed s) (cache s) (held (jobs s)) (clear (jobs s))"
    and "jobs s i = Some (key, h) \<Longrightarrow> good_history (written s) h"
    and "held (jobs s) \<subseteq> written s" "clear (jobs s) \<subseteq> written s"
    and "kept (feed s) (cache s)" "spec_kept (updates s)"
  using assms held_written [of "jobs s" "written s"] clear_held unfolding cluster_inv_def by blast+

lemma cluster_inv_update:
  assumes inv: "cluster_inv s" and fresh: "fresh_version s (ResourceVersion d)"
    and "ok_phase d \<Longrightarrow> \<exists>d0. api s (id_of d) = Some d0 \<and> ok_phase d0 \<and> Spec d = Spec d0"
    and "\<And>d0. api s (id_of d) = Some d0 \<Longrightarrow> ok_phase d0 \<Longrightarrow> Spec d = Spec d0"
  shows "cluster_inv (store_obj d s)"
proof (rule cluster_invI [OF _ _ order_refl order_refl])
  have new: "\<forall>w \<in> written s. ResourceVersion w \<noteq> ResourceVersion d" using fresh by (simp add: fresh_version_def)
  then show "versions (api (store_obj d s)) (feed (store_obj d s)) (cache (store_obj d s)) (written (store_obj d s))"
    using versions_store [OF cluster_invD(1) [OF inv]] by simp
  have "\<exists>d0. api s (id_of d) = Some d0 \<and> ok_phase d0 \<and> Spec d = Spec d0 \<and> id_of d = id_of d0" if "ok_phase d"
  proof -
    from assms(3) [OF that] obtain d0 where d0: "api s (id_of d) = Some d0" "ok_phase d0" "Spec d = Spec d0" by blast
    with versions_id(1) [OF cluster_invD(1) [OF inv] d0(1)] show ?thesis by metis
  qed
  from owners_update [OF cluster_invD(2,4,5) [OF inv] new this]
  show "owners (api (store_obj d s)) (feed (store_obj d s)) (cache (store_obj d s))
      (held (jobs (store_obj d s))) (clear (jobs (store_obj d s)))" by simp
  show "good_history (written (store_obj d s)) h" if "jobs (store_obj d s) i = Some (key, h)" for i key h
    using that good_history_mono [OF cluster_invD(3) [OF inv]] by (simp add: subset_insertI)
  show "kept (feed (store_obj d s)) (cache (store_obj d s))"
    using kept_store [OF cluster_invD(1,6) [OF inv] assms(4)] by simp
  show "spec_kept (updates (store_obj d s))" using cluster_invD(7) [OF inv] by simp
qed

text \<open>An action of a worker changes its own history only; what it adds to the facts is in \<open>H\<close> and \<open>C\<close>.\<close>

lemma cluster_inv_job:
  assumes "cluster_inv s" "owners (api s) (feed s) (cache s) H C" "good_history (written s) h"
    and "held (jobs s) \<union> {d. read_in h d} \<subseteq> H" "clear (jobs s) \<union> {d. read_in h d \<and> cleared h d} \<subseteq> C"
  shows "cluster_inv (s\<lparr>jobs := (jobs s)(i \<mapsto> (key, h))\<rparr>)"
proof (rule cluster_invI [where H = H and C = C])
  show "held (jobs (s\<lparr>jobs := (jobs s)(i \<mapsto> (key, h))\<rparr>)) \<subseteq> H"
    using held_update(1) [of "jobs s" i key h] assms(4) by auto
  show "clear (jobs (s\<lparr>jobs := (jobs s)(i \<mapsto> (key, h))\<rparr>)) \<subseteq> C"
    using held_update(2) [of "jobs s" i key h] assms(5) by auto
qed (use assms(2,3) cluster_invD(1,3,6,7) [OF assms(1)] in \<open>auto split: if_splits\<close>)

lemma cluster_inv_append:
  assumes inv: "cluster_inv s" and job: "jobs s i = Some (key, h)" and e: "h \<noteq> []" "not_read e" "\<forall>r. e \<noteq> ReadDomains r"
  shows "cluster_inv (s\<lparr>jobs := (jobs s)(i \<mapsto> (key, h @ [e]))\<rparr>)"
proof (rule cluster_inv_job [OF inv cluster_invD(2) [OF inv]])
  show "good_history (written s) (h @ [e])"
    using e by (intro good_history_append cluster_invD(3) [OF inv job]) (auto simp: not_read_def)
qed (use e job in \<open>auto simp: read_in_append cleared_append held_def clear_def not_read_def\<close>)

lemma cluster_inv_put:
  assumes inv: "cluster_inv s" and job: "jobs s i = Some (key, h)" and act: "code_act cfg key h (Call (domain_put x) r)"
    and api: "api s (id_of x) = Some d0" "ResourceVersion d0 = ResourceVersion x" and fresh: "fresh_version s v"
  shows "cluster_inv (store_obj (x\<lparr>ResourceVersion := v\<rparr>) s)"
proof -
  let ?x = "x\<lparr>ResourceVersion := v\<rparr>"
  have x: "id_of ?x = id_of x" "Spec ?x = Spec x" "ok_phase ?x = ok_phase x" by (simp_all add: id_of_def)
  note W = cluster_invD(1) [OF inv] and hist = cluster_invD(3) [OF inv job]
  from put_from_read [OF code_act_contract [OF act]] obtain d where d: "id_of x = id_of d"
    "ResourceVersion x = ResourceVersion d" "Spec x = Spec d"
    "ReadDomain key (Inr (Some d)) \<in> set h \<or> (\<exists>ds. ReadDomains (Inr ds) \<in> set h \<and> d \<in> set ds)"
    and grant: "ok_phase x \<Longrightarrow> ReadDomain key (Inr (Some d)) \<in> set h
        \<and> (IsPrimary d \<longrightarrow> (\<exists>l. ReadDomains l \<in> set h \<and> (\<forall>ds. l = Inr ds \<longrightarrow> (\<forall>dm \<in> set ds. \<not> rival d dm))))"
    by blast
  have "d \<in> written s" using d(4) hist by (auto simp: good_history_def)
  moreover have "d0 \<in> written s" using W api(1) by (auto simp: versions_def intro: ranI)
  ultimately have "d0 = d" using W api(2) d(2) by (auto simp: versions_def dest: inj_onD)
  with api d(1) have live: "api s (id_of d) = Some d" by simp
  show ?thesis
  proof (cases "ok_phase x")
    case False
    with x fresh live d(1,3) show ?thesis by (intro cluster_inv_update [OF inv]) simp_all
  next
    case True
    from grant [OF True] have read: "read_in h d" and seen: "IsPrimary d \<Longrightarrow> cleared h d"
      using read_known [OF hist] listing_known [OF hist] by blast+
    from read seen job have dH: "d \<in> held (jobs s)" "IsPrimary d \<Longrightarrow> d \<in> clear (jobs s)"
      by (auto simp: held_def clear_def)
    have new: "\<forall>w \<in> written s. ResourceVersion w \<noteq> ResourceVersion ?x" using fresh by (simp add: fresh_version_def)
    show ?thesis
    proof (rule cluster_invI [OF _ _ order_refl order_refl])
      show "versions (api (store_obj ?x s)) (feed (store_obj ?x s)) (cache (store_obj ?x s)) (written (store_obj ?x s))"
        using versions_store [OF W new] by simp
      show "owners (api (store_obj ?x s)) (feed (store_obj ?x s)) (cache (store_obj ?x s))
          (held (jobs (store_obj ?x s))) (clear (jobs (store_obj ?x s)))"
        using owners_grant [OF cluster_invD(2,4,5) [OF inv] dH(1) live dH(2) _ _ new] x d(1,3) by simp
      show "good_history (written (store_obj ?x s)) h'" if "jobs (store_obj ?x s) j = Some (k, h')" for j k h'
        using that good_history_mono [OF cluster_invD(3) [OF inv]] by (simp add: subset_insertI)
      show "kept (feed (store_obj ?x s)) (cache (store_obj ?x s))"
        using kept_store [OF W cluster_invD(6) [OF inv], of ?x] live d(1,3) x(1,2) by simp
      show "spec_kept (updates (store_obj ?x s))" using cluster_invD(7) [OF inv] by simp
    qed
  qed
qed

lemma cluster_inv_work:
  assumes inv: "cluster_inv s" and job: "jobs s i = Some (key, h)" and act: "code_act cfg key h e" and ans: "answered s e s'"
  shows "cluster_inv (s'\<lparr>jobs := (jobs s)(i \<mapsto> (key, h @ [e]))\<rparr>)"
  using ans
proof cases
  case (read_one key' v)
  with code_act_shape [OF act] have h: "h = []" by auto
  have K: "d \<in> ran (cache s)" if "v = Some d" for d
    using read_one(3) that by (simp add: cached_def)
  have W: "ran (cache s) \<subseteq> written s" using cluster_invD(1) [OF inv] by (simp add: versions_def)
  have "owners (api s) (feed s) (cache s) (held (jobs s) \<union> set_option v) (clear (jobs s))"
    using owners_read [OF cluster_invD(2,1) [OF inv]] K cluster_invD(2) [OF inv] by (cases v) auto
  moreover have "good_history (written s) (h @ [e])"
    using h K W by (auto simp: good_history_def read_one(1) read_in_def)
  ultimately show ?thesis
    unfolding read_one(2)
    by (rule cluster_inv_job [OF inv]) (auto simp: h read_one(1) read_in_def cleared_def)
next
  case (read_all ds)
  with code_act_shape [OF act] have h: "h \<noteq> []" by auto
  have W: "ran (cache s) \<subseteq> written s" using cluster_invD(1) [OF inv] by (simp add: versions_def)
  let ?D = "{d. read_in h d \<and> (\<forall>b \<in> ran (cache s). \<not> rival d b)}"
  have "?D \<subseteq> held (jobs s)" using job by (auto simp: held_def)
  from owners_list [OF cluster_invD(2,1) [OF inv] clear_held this]
  have "owners (api s) (feed s) (cache s) (held (jobs s)) (clear (jobs s) \<union> ?D)" by simp
  moreover have "good_history (written s) (h @ [e])"
    using cluster_invD(3) [OF inv job] read_all(3) W by (intro good_history_append) (auto simp: read_all(1))
  ultimately show ?thesis
    unfolding read_all(2)
    by (rule cluster_inv_job [OF inv])
      (use h job read_all(3) in \<open>auto simp: read_all(1) read_in_append cleared_append held_def clear_def\<close>)
next
  case (put x d0 v r)
  with code_act_shape [OF act] have h: "h \<noteq> []" by auto
  have "cluster_inv s'" unfolding put(2)
    using cluster_inv_put [OF inv job act [unfolded put(1)] put(3,4,5)] .
  from cluster_inv_append [OF this, of i key h e] job h show ?thesis by (simp add: put(1,2))
next
  case (put_refused r x)
  with code_act_shape [OF act] have "h \<noteq> []" by auto
  with put_refused show ?thesis by (auto intro: cluster_inv_append [OF inv job])
next
  case other
  with code_act_shape [OF act] have "h \<noteq> []" by blast
  with other show ?thesis by (auto intro!: cluster_inv_append [OF inv job] simp: not_read_def)
qed

lemma cluster_inv_step:
  assumes "cl_step False cfg s s'" "cluster_inv s" "\<not> AutoClaim cfg"
  shows "cluster_inv s'"
  using assms(1)
proof cases
  case (create d)
  with assms(2) show ?thesis by (auto intro: cluster_inv_update)
next
  case (touch d d0)
  with assms(2) show ?thesis by (auto intro: cluster_inv_update)
next
  case (remove k)
  note own = owners_remove [OF cluster_invD(2) [OF assms(2)], of k]
  show ?thesis unfolding remove
    by (rule cluster_invI [OF _ _ order_refl order_refl])
      (use own versions_remove [OF cluster_invD(1) [OF assms(2)]] cluster_invD(3,6,7) [OF assms(2)] in \<open>auto simp: kept_append\<close>)
next
  case (deliver e rest)
  note inv = cluster_invD [OF assms(2)]
  show ?thesis unfolding deliver(1)
    by (rule cluster_invI [OF _ _ order_refl order_refl])
      (use owners_deliver inv(1,2) versions_deliver deliver(2) inv(3,6,7) in auto)
next
  case claim
  with assms(3) show ?thesis by blast
next
  case (recover old new d v)
  have "\<not> ok_phase d" using spec_kept_recover [OF cluster_invD(7) [OF assms(2)] recover(2,3)] .
  with recover assms(2) show ?thesis by (auto simp: id_of_def intro: cluster_inv_update)
next
  case (start i key)
  show ?thesis unfolding start(1)
    by (rule cluster_inv_job [OF assms(2) cluster_invD(2) [OF assms(2)]])
      (auto simp: good_history_def read_in_def)
next
  case (stop i)
  note inv = cluster_invD [OF assms(2)]
  show ?thesis unfolding stop
    by (rule cluster_invI [where H = "held (jobs s)" and C = "clear (jobs s)"])
      (use inv(1,2,3,6,7) held_update(3,4) in \<open>auto split: if_splits\<close>)
next
  case (work i key h e s1)
  with cluster_inv_work [OF assms(2)] show ?thesis by blast
qed

lemma cluster_inv_reachable: "cl_reachable False cfg s \<Longrightarrow> \<not> AutoClaim cfg \<Longrightarrow> cluster_inv s"
proof (induction rule: cl_reachable_induct)
  case init
  show ?case by (simp add: cluster_inv_def cluster_init_def versions_def owners_def held_def clear_def)
qed (rule cluster_inv_step)

end
