(* ===== verification/Cluster_Safety.thy ===== *)
theory Cluster_Safety
  imports Cluster_Invariant
begin

text \<open>
  Who owns a host: over all interleavings of any number of workers, the users and the watch, a
  primary domain has at most one claim with phase OK, although every worker decides on a store
  that lags behind the server. And the ways in which this design fails: the spec of a granted claim
  can be changed to a host that is taken, by a user or by the controller itself with \<open>AutoClaim\<close>, and
  two claims that wait for the same host keep each other from it for ever.
\<close>

declare phase_defs [simp del] IsPrimary_iff [simp del]

section \<open>Runs\<close>

text \<open>An environment that gives one resource and one listing, and lets every request succeed.\<close>

definition scripted :: "Domain \<Rightarrow> Domain list \<Rightarrow> nat env" where
  "scripted d ds =
     \<lparr>do_request = (\<lambda>q w. (ok_json (JObj []), w)), dom_list = (\<lambda>w. (Inr ds, w)), dom_get = (\<lambda>k w. (Inr (Some d), w)),
      svc_list = (\<lambda>w. (Inr [], w)), svc_get = (\<lambda>k w. (Inr None, w)), ing_get = (\<lambda>k w. (Inr None, w)),
      now = (\<lambda>w. (0, w)), sleep = (\<lambda>d w. ((), w)), page_bound = 1, host_order = (\<lambda>m w. (m, w))\<rparr>"

lemma fair_scripted: "fair_ranges (scripted d ds)"
  by (simp add: fair_ranges_def scripted_def)

definition granted :: "Domain \<Rightarrow> Domain" where
  "granted d = set_status d '''' ''Primary domain claimed with success'' DomainStatusOK 0"

definition grantable :: "Domain \<Rightarrow> bool" where
  "grantable d \<longleftrightarrow> active d \<and> IsPrimary d \<and> Phase (Status d) = DomainStatusPending
     \<and> Name d \<noteq> '''' \<and> valid_segment (Name d) \<and> valid_segment (Namespace d)"

lemma grant_trace:
  assumes "grantable d" "\<forall>dm \<in> set ds. \<not> rival d dm"
  shows "\<exists>t. trace_of (syncDomain (scripted d ds) cfg key 0) 0 =
    [ReadDomain key (Inr (Some d)), ReadDomains (Inr ds), ReadClock 0, Call (domain_put (granted d)) (ok_json (JObj []))] @ t"
proof -
  have "registered_primary d ds = None" using assms(2) registered_primary_None by simp
  with assms(1) show ?thesis
    by (simp add: grantable_def active_def syncDomain_def syncDomain_phase_def sync_pending_primary_def
        updateDomainStatus_def scripted_def run_defs trace_of_def granted_def set_status_def domain_put_def
        domain_request_def ok_json_def Let_def)
qed

lemma code_act_prefix:
  "fair_ranges E \<Longrightarrow> trace_of (syncDomain (E :: nat env) cfg key n) w = h @ e # t \<Longrightarrow> code_act cfg key h e"
  unfolding code_act_def by blast

text \<open>The watch catches up.\<close>

lemma settle:
  "cl_reachable b cfg s \<Longrightarrow> \<exists>s'. cl_reachable b cfg s' \<and> api s' = api s \<and> jobs s' = jobs s \<and> written s' = written s
    \<and> feed s' = [] \<and> cache s' = fold apply_event (feed s) (cache s)"
proof (induction "feed s" arbitrary: s)
  case Nil
  then show ?case by fastforce
next
  case (Cons e rest)
  let ?s = "s\<lparr>feed := rest, cache := apply_event e (cache s), updates := updates_of e (cache s) \<union> updates s\<rparr>"
  have "cl_reachable b cfg ?s"
    by (rule cl_reachable_step [OF Cons.prems cl_step.deliver]) (simp add: Cons.hyps(2) [symmetric])
  from Cons.hyps(1) [OF _ this] Cons.hyps(2) [symmetric] show ?case by simp
qed

lemma settled:
  assumes "cl_reachable b cfg s"
  shows "\<exists>s'. cl_reachable b cfg s' \<and> api s' = api s \<and> jobs s' = jobs s \<and> written s' = written s
    \<and> feed s' = [] \<and> cache s' = api s"
proof -
  have "fold apply_event (feed s) (cache s) = api s"
    using versions_reachable [OF assms] by (simp add: versions_def)
  with settle [OF assms] show ?thesis by simp
qed

text \<open>A worker takes the actions of a run of the code that leave the cluster as it is.\<close>

lemma answered_jobs:
  assumes "answered s e s'"
  shows "answered (s\<lparr>jobs := J\<rparr>) e (s'\<lparr>jobs := J\<rparr>)"
  using assms
proof cases
  case (put d d0 v r)
  have "answered (s\<lparr>jobs := J\<rparr>) e (store_obj (d\<lparr>ResourceVersion := v\<rparr>) (s\<lparr>jobs := J\<rparr>))"
    unfolding put(1) by (rule answered.put [of _ _ d0]) (use put(3-5) in \<open>simp_all add: fresh_version_def\<close>)
  moreover have "store_obj x (s\<lparr>jobs := J\<rparr>) = (store_obj x s)\<lparr>jobs := J\<rparr>" for x
    by (cases s) (simp add: store_obj_def)
  ultimately show ?thesis by (simp add: put(2))
qed (auto intro: answered.intros)

lemma work_run:
  assumes "cl_reachable b cfg s" "jobs s i = Some (key, h)" "\<forall>e \<in> set t. answered s e s"
    and "fair_ranges E" "trace_of (syncDomain (E :: nat env) cfg key n) w = h @ t @ rest"
  shows "cl_reachable b cfg (s\<lparr>jobs := (jobs s)(i \<mapsto> (key, h @ t))\<rparr>)"
  using assms(3,5)
proof (induction t arbitrary: rest rule: rev_induct)
  case Nil
  from assms(1,2) show ?case by (simp add: fun_upd_idem)
next
  case (snoc e t)
  let ?s = "s\<lparr>jobs := (jobs s)(i \<mapsto> (key, h @ t))\<rparr>"
  have "cl_reachable b cfg ?s" using snoc.prems by (intro snoc.IH [of "e # rest"]) simp_all
  moreover have "code_act cfg key (h @ t) e"
    using snoc.prems(2) by (intro code_act_prefix [OF assms(4), of cfg key n w _ _ rest]) simp
  moreover have "answered ?s e ?s" using snoc.prems(1) by (intro answered_jobs) simp
  ultimately have "cl_reachable b cfg (?s\<lparr>jobs := (jobs ?s)(i \<mapsto> (key, (h @ t) @ [e]))\<rparr>)"
    by (intro cl_reachable_step [OF _ cl_step.work]) simp_all
  moreover have "?s\<lparr>jobs := (jobs ?s)(i \<mapsto> (key, (h @ t) @ [e]))\<rparr> = s\<lparr>jobs := (jobs s)(i \<mapsto> (key, h @ t @ [e]))\<rparr>"
    by simp
  ultimately show ?case by (simp only:)
qed

text \<open>One worker grants a claim that has no rival, with the store up to date.\<close>

lemma grant_run:
  assumes reach: "cl_reachable False cfg s" and d: "api s (id_of d) = Some d" "grantable d"
    and alone: "\<forall>dm \<in> ran (api s). \<not> rival d dm" "finite (ran (api s))"
    and idle: "jobs s = Map.empty" and v: "fresh_version s v"
  shows "\<exists>s'. cl_reachable False cfg s' \<and> api s' = (api s)(id_of d \<mapsto> (granted d)\<lparr>ResourceVersion := v\<rparr>)
    \<and> jobs s' = Map.empty \<and> written s' = insert ((granted d)\<lparr>ResourceVersion := v\<rparr>) (written s)"
proof -
  let ?x = "(granted d)\<lparr>ResourceVersion := v\<rparr>" and ?key = "meta_key d" and ?r = "ok_json (JObj [])"
  obtain s1 where s1: "cl_reachable False cfg s1" "api s1 = api s" "jobs s1 = Map.empty" "written s1 = written s"
    "cache s1 = api s" using settled [OF reach] idle by auto
  obtain ds where ds: "set ds = ran (api s)" using finite_list [OF alone(2)] by blast
  let ?h = "[ReadDomain ?key (Inr (Some d)), ReadDomains (Inr ds), ReadClock 0]"
  obtain t where t: "trace_of (syncDomain (scripted d ds) cfg ?key 0) 0 = ?h @ Call (domain_put (granted d)) ?r # t"
    using grant_trace [OF d(2), of ds cfg ?key] alone(1) ds by auto
  let ?s2 = "s1\<lparr>jobs := [0 \<mapsto> (?key, [])]\<rparr>" and ?s3 = "s1\<lparr>jobs := [0 \<mapsto> (?key, ?h)]\<rparr>"
  have s2: "cl_reachable False cfg ?s2"
    using cl_reachable_step [OF s1(1) cl_step.start [of s1 0]] s1(3) by simp
  have reads: "\<forall>e \<in> set ?h. answered ?s2 e ?s2"
    using s1(5) d(1) ds by (auto simp: cached_def intro!: answered.read_one answered.read_all answered.other intro: ranI)
  have "cl_reachable False cfg (?s2\<lparr>jobs := (jobs ?s2)(0 \<mapsto> (?key, [] @ ?h))\<rparr>)"
    by (rule work_run [OF s2 _ reads fair_scripted]) (use t in simp_all)
  then have s3: "cl_reachable False cfg ?s3" by simp
  let ?s4 = "(store_obj ?x ?s3)\<lparr>jobs := [0 \<mapsto> (?key, ?h @ [Call (domain_put (granted d)) ?r])]\<rparr>"
  have "answered ?s3 (Call (domain_put (granted d)) ?r) (store_obj ?x ?s3)"
    by (rule answered.put [of _ _ d]) (use s1 d v in \<open>auto simp: granted_def fresh_version_def\<close>)
  then have "cl_reachable False cfg ?s4"
    using cl_reachable_step [OF s3 cl_step.work [OF _ code_act_prefix [OF fair_scripted t], of ?s3 0]] by simp
  from cl_reachable_step [OF this cl_step.stop [of _ _ _ 0]]
  have "cl_reachable False cfg (?s4\<lparr>jobs := Map.empty\<rparr>)" by simp
  moreover have "id_of ?x = id_of d" by (simp add: granted_def id_of_def set_status_def)
  ultimately show ?thesis using s1(2,4) by (intro exI [of _ "?s4\<lparr>jobs := Map.empty\<rparr>"]) simp
qed

lemma claim_run:
  assumes reach: "cl_reachable False cfg s" and new: "api s (id_of d) = None" "grantable d"
    and alone: "\<forall>dm \<in> ran (api s). \<not> rival d dm" "finite (ran (api s))"
    and idle: "jobs s = Map.empty" and v: "fresh_version s (ResourceVersion d)" "fresh_version s v" "v \<noteq> ResourceVersion d"
  shows "\<exists>s'. cl_reachable False cfg s' \<and> api s' = (api s)(id_of d \<mapsto> (granted d)\<lparr>ResourceVersion := v\<rparr>)
    \<and> jobs s' = Map.empty \<and> written s' = {(granted d)\<lparr>ResourceVersion := v\<rparr>, d} \<union> written s"
proof -
  have ran: "ran ((api s)(id_of d \<mapsto> d)) = insert d (ran (api s))" using new(1) by simp
  have self: "\<not> rival d d" by (simp add: rival_def same_resource_def)
  have "cl_reachable False cfg (store_obj d s)"
    by (rule cl_reachable_step [OF reach cl_step.create]) (use new v in \<open>auto simp: grantable_def\<close>)
  from grant_run [OF this _ new(2)] ran self alone idle v show ?thesis
    by (fastforce simp: fresh_version_def)
qed

definition other_domain :: Domain where
  "other_domain = (mk_domain ''intruder'' ''acme-org'' ''other.org'' '''' DomainStatusPending)\<lparr>ResourceVersion := ''2''\<rparr>"

lemma sample_domains [simp]:
  "grantable pending_domain" "grantable other_domain" "id_of pending_domain = (''acme'', ''acme-org'')"
  "id_of other_domain = (''intruder'', ''acme-org'')" "ResourceVersion pending_domain = ''1''"
  "ResourceVersion other_domain = ''2''" "GetPrimaryDomain pending_domain = ''acme.org''"
  "GetPrimaryDomain other_domain = ''other.org''" "IsPrimary pending_domain" "IsPrimary other_domain"
  by (simp_all add: grantable_def active_def pending_domain_def other_domain_def mk_domain_def IsValidDomain_iff
      IsMarkedForDeletion_def valid_segment_def id_of_def GetPrimaryDomain_def IsPrimary_def)

lemma version_update [simp]:
  fixes d :: Domain
  shows "GetPrimaryDomain (d\<lparr>ResourceVersion := v\<rparr>) = GetPrimaryDomain d" "IsPrimary (d\<lparr>ResourceVersion := v\<rparr>) = IsPrimary d"
    "id_of (d\<lparr>ResourceVersion := v\<rparr>) = id_of d" "id_of (d\<lparr>ResourceVersion := v, Spec := sp\<rparr>) = id_of d"
  by (simp_all add: GetPrimaryDomain_def IsPrimary_def id_of_def)

lemma granted_simps [simp]:
  "id_of (granted d) = id_of d" "Phase (Status (granted d)) = DomainStatusOK"
  "GetPrimaryDomain (granted d) = GetPrimaryDomain d" "IsPrimary (granted d) = IsPrimary d"
  "Spec (granted d) = Spec d"
  by (simp_all add: granted_def id_of_def set_status_def GetPrimaryDomain_def IsPrimary_def)

lemma first_owner:
  "\<exists>s. cl_reachable False cfg s \<and> api s = [(''acme'', ''acme-org'') \<mapsto> (granted pending_domain)\<lparr>ResourceVersion := ''3''\<rparr>]
    \<and> jobs s = Map.empty \<and> written s = {(granted pending_domain)\<lparr>ResourceVersion := ''3''\<rparr>, pending_domain}"
  using claim_run [of cfg cluster_init pending_domain "''3''"]
  by (simp add: cl_reachable_def cluster_init_def fresh_version_def)

lemma two_owners:
  "\<exists>s. cl_reachable False cfg s \<and> api s = [(''acme'', ''acme-org'') \<mapsto> (granted pending_domain)\<lparr>ResourceVersion := ''3''\<rparr>,
      (''intruder'', ''acme-org'') \<mapsto> (granted other_domain)\<lparr>ResourceVersion := ''4''\<rparr>]
    \<and> jobs s = Map.empty \<and> written s = {(granted pending_domain)\<lparr>ResourceVersion := ''3''\<rparr>, pending_domain,
      (granted other_domain)\<lparr>ResourceVersion := ''4''\<rparr>, other_domain}"
proof -
  from first_owner obtain s where s: "cl_reachable False cfg s"
    "api s = [(''acme'', ''acme-org'') \<mapsto> (granted pending_domain)\<lparr>ResourceVersion := ''3''\<rparr>]" "jobs s = Map.empty"
    "written s = {(granted pending_domain)\<lparr>ResourceVersion := ''3''\<rparr>, pending_domain}" by blast
  with claim_run [OF s(1), of other_domain "''4''"] s show ?thesis
    by (simp add: fresh_version_def rival_def)
qed

section \<open>Properties\<close>

text \<open>
  C3: without \<open>AutoClaim\<close>, and as long as no user sets the phase OK by hand or changes the spec of
  a claim that is OK, no interleaving of any number of workers with the users, the recoveries of
  \<open>updateDomain\<close> and a watch that lags, but is not interrupted, makes two claims of the same
  primary domain OK.
\<close>

theorem one_owner:
  assumes "cl_reachable False cfg s" "\<not> AutoClaim cfg" "api s k = Some a" "api s l = Some b"
    and "Phase (Status a) = DomainStatusOK" "Phase (Status b) = DomainStatusOK"
    and "IsPrimary a" "IsPrimary b" "GetPrimaryDomain a = GetPrimaryDomain b"
  shows "k = l"
proof -
  note inv = cluster_invD [OF cluster_inv_reachable [OF assms(1,2)]]
  from ownersD(5) [OF inv(2) assms(3-7)] assms(8,9) have "same_resource a b" by (simp add: rival_def)
  then have "id_of a = id_of b" by (simp add: same_resource_def id_of_def)
  with versions_id(1) [OF inv(1)] assms(3,4) show ?thesis by blast
qed

lemma one_owner_witness:
  "\<exists>s a. cl_reachable False sample_config s \<and> api s (''acme'', ''acme-org'') = Some a \<and> Phase (Status a) = DomainStatusOK
    \<and> {k. \<exists>b. api s k = Some b \<and> Phase (Status b) = DomainStatusOK \<and> IsPrimary b \<and> GetPrimaryDomain b = ''acme.org''}
        = {(''acme'', ''acme-org'')}"
proof -
  let ?a = "(granted pending_domain)\<lparr>ResourceVersion := ''3''\<rparr>"
  have manual: "\<not> AutoClaim sample_config" by (simp add: sample_config_def)
  from first_owner obtain s where s: "cl_reachable False sample_config s" "api s = [(''acme'', ''acme-org'') \<mapsto> ?a]" by blast
  have a: "IsPrimary ?a" "GetPrimaryDomain ?a = ''acme.org''" "Phase (Status ?a) = DomainStatusOK"
    by simp_all
  from s(2) have at: "api s (''acme'', ''acme-org'') = Some ?a" by simp
  have "k = (''acme'', ''acme-org'')"
    if "api s k = Some b" "Phase (Status b) = DomainStatusOK" "IsPrimary b" "GetPrimaryDomain b = ''acme.org''" for k b
    using one_owner [OF s(1) manual that(1) at that(2) a(3) that(3) a(1)] that(4) a(2) by simp
  with s(1) at a show ?thesis by blast
qed

text \<open>
  The same is false once the spec of a granted claim may be edited: the phase stays OK, the
  controller does not check the new host, and two claims own the same primary domain.
\<close>

lemma edited_spec_steals_host:
  "\<exists>s k l a b. cl_reachable True cfg s \<and> k \<noteq> l \<and> api s k = Some a \<and> api s l = Some b
    \<and> Phase (Status a) = DomainStatusOK \<and> Phase (Status b) = DomainStatusOK
    \<and> IsPrimary a \<and> IsPrimary b \<and> GetPrimaryDomain a = GetPrimaryDomain b"
proof -
  let ?a = "(granted pending_domain)\<lparr>ResourceVersion := ''3''\<rparr>" and ?b = "(granted other_domain)\<lparr>ResourceVersion := ''4''\<rparr>"
  let ?k = "(''acme'', ''acme-org'')" and ?l = "(''intruder'', ''acme-org'')"
  let ?b' = "?b\<lparr>ResourceVersion := ''5'', Spec := Spec pending_domain\<rparr>"
  from two_owners obtain s where s: "cl_reachable False cfg s" "api s = [?k \<mapsto> ?a, ?l \<mapsto> ?b]"
    "written s = {?a, pending_domain, ?b, other_domain}" by blast
  have more: "cl_step False cfg x y \<Longrightarrow> cl_step True cfg x y" for x y
    by (erule cl_step.cases) (auto intro: cl_step.intros)
  have "(cl_step True cfg)\<^sup>*\<^sup>* cluster_init s"
    using s(1) mono_rtranclp [of "cl_step False cfg" "cl_step True cfg"] more by (auto simp: cl_reachable_def)
  then have reach: "cl_reachable True cfg s" by (simp add: cl_reachable_def)
  have id: "id_of ?b' = ?l" by simp
  have "cl_reachable True cfg (store_obj ?b' s)"
    by (rule cl_reachable_step [OF reach cl_step.touch [of _ _ ?b]]) (use s id in \<open>simp_all add: fresh_version_def\<close>)
  moreover have "api (store_obj ?b' s) ?k = Some ?a" "api (store_obj ?b' s) ?l = Some ?b'" using s(2) id by simp_all
  moreover have "Sub (Spec pending_domain) = []" by (simp add: pending_domain_def mk_domain_def)
  then have "IsPrimary ?a" "IsPrimary ?b'" "GetPrimaryDomain ?a = GetPrimaryDomain ?b'"
    "Phase (Status ?a) = DomainStatusOK" "Phase (Status ?b') = DomainStatusOK"
    by (simp_all add: GetPrimaryDomain_def IsPrimary_def)
  moreover have "?k \<noteq> ?l" by simp
  ultimately show ?thesis
    by (intro exI conjI)
qed

text \<open>An ingress that claims the host of somebody else.\<close>

definition stealing_ingress :: Ingress where
  "stealing_ingress = (mk_ingress ''intruder'' ''routes'' [\<lparr>Host = ''acme.org'', HTTP = None\<rparr>])\<lparr>
     Annotations := [''kolihub.io/acme.org'' \<mapsto> ''primary'']\<rparr>"

lemma stealing_claim:
  "\<exists>d. getHostsFromIngress stealing_ingress = [d] \<and> meta_key d = ''intruder/acme-org'' \<and> IsValidDomain d
    \<and> Spec d = Spec pending_domain \<and> Spec d \<noteq> Spec other_domain"
  by (rule exI [of _ "claim_of_host stealing_ingress ''acme.org''"])
    (simp add: getHostsFromIngress_def stealing_ingress_def mk_ingress_def claim_of_host_def genMetaNameFromHost_def
      meta_key_def IsValidDomain_iff pending_domain_def other_domain_def mk_domain_def map_get_def Let_def)

text \<open>
  C38: with \<open>AutoClaim\<close> the controller breaks the ownership by itself, although no user sets a phase
  or edits a granted claim: for an ingress it puts a new spec on the claim of the namespace that has
  the name made of the host, and leaves its phase OK, whatever host the claim was granted for. So a
  state can be reached in which two claims of one primary domain are OK.
\<close>

theorem auto_claim_steals_host:
  assumes "AutoClaim cfg"
  shows "\<exists>s k l a b. cl_reachable False cfg s \<and> k \<noteq> l \<and> api s k = Some a \<and> api s l = Some b
    \<and> Phase (Status a) = DomainStatusOK \<and> Phase (Status b) = DomainStatusOK
    \<and> IsPrimary a \<and> IsPrimary b \<and> GetPrimaryDomain a = GetPrimaryDomain b"
proof -
  let ?a = "(granted pending_domain)\<lparr>ResourceVersion := ''3''\<rparr>" and ?b = "(granted other_domain)\<lparr>ResourceVersion := ''4''\<rparr>"
  let ?k = "(''acme'', ''acme-org'')" and ?l = "(''intruder'', ''acme-org'')"
  let ?x = "?b\<lparr>Spec := Spec pending_domain\<rparr>" and ?r = "ok_json (JObj [])"
  let ?x' = "?x\<lparr>ResourceVersion := ''5''\<rparr>"
  from two_owners obtain s where s: "cl_reachable False cfg s" "api s = [?k \<mapsto> ?a, ?l \<mapsto> ?b]"
    "written s = {?a, pending_domain, ?b, other_domain}" by blast
  obtain d where d: "getHostsFromIngress stealing_ingress = [d]" "meta_key d = ''intruder/acme-org''" "IsValidDomain d"
    "Spec d = Spec pending_domain" "Spec d \<noteq> Spec other_domain" using stealing_claim by blast
  have b: "Namespace ?b = ''intruder''" "Name ?b = ''acme-org''"
    by (simp_all add: granted_def set_status_def other_domain_def mk_domain_def)
  have "trace_of (claim_one (scripted ?b []) stealing_ingress d) 0 =
      [ReadDomain (meta_key d) (Inr (Some ?b)), Call (domain_put ?x) ?r]"
    using d b
    by (simp add: claim_one_def scripted_def run_defs trace_of_def domain_put_def domain_request_def ok_json_def
        stealing_ingress_def mk_ingress_def)
  with d(1) have puts: "claim_puts stealing_ingress ?b ?x" unfolding claim_puts_def by force
  have id: "id_of ?x = ?l" using b by (simp add: id_of_def)
  have "answered s (Call (domain_put ?x) ?r) (store_obj ?x' s)"
    by (rule answered.put [of _ _ ?b]) (use s id in \<open>simp_all add: fresh_version_def\<close>)
  from cl_reachable_step [OF s(1) cl_step.claim [OF assms _ puts this]] s(3)
  have reach: "cl_reachable False cfg (store_obj ?x' s)" by simp
  have "id_of ?x' = ?l" using b by (simp add: id_of_def)
  then have at: "api (store_obj ?x' s) ?k = Some ?a" "api (store_obj ?x' s) ?l = Some ?x'" using s(2) by simp_all
  have "Sub (Spec pending_domain) = []" by (simp add: pending_domain_def mk_domain_def)
  then have "IsPrimary ?a" "IsPrimary ?x'" "GetPrimaryDomain ?a = GetPrimaryDomain ?x'"
    "Phase (Status ?a) = DomainStatusOK" "Phase (Status ?x') = DomainStatusOK"
    by (simp_all add: GetPrimaryDomain_def IsPrimary_def)
  moreover have "?k \<noteq> ?l" by simp
  ultimately show ?thesis using reach at by (intro exI conjI)
qed

lemma auto_claim_steals_host_witness:
  "\<exists>s k l a b. cl_reachable False (sample_config\<lparr>AutoClaim := True\<rparr>) s \<and> k \<noteq> l \<and> api s k = Some a \<and> api s l = Some b
    \<and> Phase (Status a) = DomainStatusOK \<and> Phase (Status b) = DomainStatusOK
    \<and> IsPrimary a \<and> IsPrimary b \<and> GetPrimaryDomain a = GetPrimaryDomain b"
  by (rule auto_claim_steals_host) simp

section \<open>Two claims of one host\<close>

text \<open>
  The steps that leave two objects in place: whatever is written to them, their spec stays.
\<close>

definition keeps :: "object_id \<Rightarrow> DomainSpec \<Rightarrow> cluster \<Rightarrow> bool" where
  "keeps k sp s \<longleftrightarrow> (\<exists>d. api s k = Some d \<and> Spec d = sp)"

definition step_keeping :: "Config \<Rightarrow> (object_id \<times> DomainSpec) set \<Rightarrow> cluster \<Rightarrow> cluster \<Rightarrow> bool" where
  "step_keeping cfg ks s s' \<longleftrightarrow> cl_step False cfg s s' \<and> (\<forall>(k, sp) \<in> ks. keeps k sp s')"

definition claims_of :: "string \<Rightarrow> Domain \<Rightarrow> bool" where
  "claims_of p d \<longleftrightarrow> IsPrimary d \<and> GetPrimaryDomain d = p"

text \<open>Both objects stay in the store, so no worker finds the host free.\<close>

definition starved :: "string \<Rightarrow> (object_id \<times> DomainSpec) set \<Rightarrow> cluster \<Rightarrow> bool" where
  "starved p ks s \<longleftrightarrow> cluster_inv s \<and> (\<forall>(k, sp) \<in> ks. stable (feed s) (cache s) k sp)
     \<and> (\<forall>d \<in> clear (jobs s). \<not> claims_of p d)
     \<and> (\<forall>k d. api s k = Some d \<longrightarrow> claims_of p d \<longrightarrow> \<not> ok_phase d)"

lemma claims_of_spec: "Spec d = Spec d' \<Longrightarrow> claims_of p d \<longleftrightarrow> claims_of p d'"
  by (simp add: claims_of_def IsPrimary_def GetPrimaryDomain_def)

lemma stable_keep:
  assumes "cl_step False cfg s s'" "keeps k sp s'" "stable (feed s) (cache s) k sp" "cluster_inv s" "\<not> AutoClaim cfg"
  shows "stable (feed s') (cache s') k sp"
  using assms(1)
proof cases
  case (create d)
  with assms(2,3) show ?thesis by (auto simp: keeps_def intro!: stable_append)
next
  case (touch d d0)
  with assms(2,3) show ?thesis by (auto simp: keeps_def intro!: stable_append)
next
  case (remove k')
  with assms(2,3) show ?thesis by (auto simp: keeps_def intro!: stable_append split: if_splits)
next
  case (deliver e rest)
  with assms(3) show ?thesis by (auto dest: stable_deliver)
next
  case claim
  with assms(5) show ?thesis by blast
next
  case (recover old new d v)
  with assms(2,3) show ?thesis by (auto simp: keeps_def id_of_def intro!: stable_append)
next
  case (work i key h e s1)
  from work(4) show ?thesis
    by cases (use work(1) assms(2,3) in \<open>auto simp: keeps_def intro!: stable_append\<close>)
qed (use assms(3) in simp_all)

text \<open>A listing shows both objects, so it clears no claim of the host.\<close>

lemma listing_shows_rival:
  assumes ks: "(k, sp) \<in> ks" "(l, sp') \<in> ks" "k \<noteq> l" and p: "\<forall>(k, sp) \<in> ks. Sub sp = [] \<and> PrimaryDomain sp = p"
    and stable: "\<forall>(k, sp) \<in> ks. stable F K k sp" and ver: "versions A F K W"
    and d: "claims_of p d" "\<forall>dm \<in> ran K. \<not> rival d dm"
  shows False
proof -
  have "id_of d = j" if js: "(j, s) \<in> ks" for j s
  proof -
    obtain c where c: "c \<in> ran K" "id_of c = j" "Spec c = s"
      using stable_key [OF ver, of j s] stable js by blast
    with p js have "IsPrimary c" "GetPrimaryDomain c = p" by (auto simp: IsPrimary_def GetPrimaryDomain_def)
    with c(1) d have "same_resource d c" by (auto simp: claims_of_def rival_def)
    with c(2) show ?thesis by (simp add: same_resource_def id_of_def)
  qed
  with ks show False by metis
qed

lemma clear_append:
  assumes "d \<in> clear (J(i \<mapsto> (key, h @ [e])))" "J i = Some (key, h)"
  shows "d \<in> clear J \<or> (\<exists>ds. e = ReadDomains (Inr ds) \<and> (\<forall>dm \<in> set ds. \<not> rival d dm))"
proof (cases "read_in (h @ [e]) d \<and> cleared (h @ [e]) d")
  case True
  then consider "read_in h d" "cleared h d"
    | ds where "e = ReadDomains (Inr ds)" "\<forall>dm \<in> set ds. \<not> rival d dm"
    by (auto simp: read_in_append cleared_append) (simp add: cleared_def)
  then show ?thesis using assms(2) by cases (auto simp: clear_def)
next
  case False
  with assms(1) show ?thesis by (auto simp: clear_def split: if_splits)
qed

lemma grant_clear:
  assumes inv: "cluster_inv s" and job: "jobs s i = Some (key, h)" and act: "code_act cfg key h (Call (domain_put x) r)"
    and x: "ok_phase x" "IsPrimary x"
  shows "\<exists>d \<in> clear (jobs s). Spec x = Spec d"
proof -
  note hist = cluster_invD(3) [OF inv job]
  from put_from_read [OF code_act_contract [OF act]] x(1) obtain d where d: "Spec x = Spec d"
    "ReadDomain key (Inr (Some d)) \<in> set h"
    "IsPrimary d \<longrightarrow> (\<exists>l. ReadDomains l \<in> set h \<and> (\<forall>ds. l = Inr ds \<longrightarrow> (\<forall>dm \<in> set ds. \<not> rival d dm)))" by blast
  from x(2) d(1) have "IsPrimary d" by (simp add: IsPrimary_def)
  with d read_known [OF hist] listing_known [OF hist] have "read_in h d \<and> cleared h d" by blast
  with job d(1) show ?thesis by (auto simp: clear_def)
qed

lemma starved_step:
  assumes step: "step_keeping cfg ks s s'" and starved: "starved p ks s" and auto: "\<not> AutoClaim cfg"
    and ks: "(k, sp) \<in> ks" "(l, sp') \<in> ks" "k \<noteq> l" and p: "\<forall>(k, sp) \<in> ks. Sub sp = [] \<and> PrimaryDomain sp = p"
  shows "starved p ks s'"
proof -
  from step have cl: "cl_step False cfg s s'" and keep: "\<forall>(k, sp) \<in> ks. keeps k sp s'" by (simp_all add: step_keeping_def)
  from starved have inv: "cluster_inv s" and stab: "\<forall>(k, sp) \<in> ks. stable (feed s) (cache s) k sp"
    and blind: "\<And>d. d \<in> clear (jobs s) \<Longrightarrow> \<not> claims_of p d"
    and none: "\<And>k d. api s k = Some d \<Longrightarrow> claims_of p d \<Longrightarrow> \<not> ok_phase d" by (auto simp: starved_def)
  have stab': "\<forall>(k, sp) \<in> ks. stable (feed s') (cache s') k sp"
    using stable_keep [OF cl] keep stab inv auto by blast
  have "(\<forall>d \<in> clear (jobs s'). \<not> claims_of p d) \<and> (\<forall>k d. api s' k = Some d \<longrightarrow> claims_of p d \<longrightarrow> \<not> ok_phase d)"
    using cl
  proof cases
    case (create d)
    with blind none show ?thesis by simp
  next
    case (touch d d0)
    have "\<not> ok_phase d" if "claims_of p d"
      using that touch(2,4,5) none [of "id_of d" d0] claims_of_spec [of d d0] by auto
    with touch blind none show ?thesis by simp
  next
    case (remove k')
    with blind none show ?thesis by simp
  next
    case (deliver e rest)
    with blind none show ?thesis by simp
  next
    case claim
    with auto show ?thesis by blast
  next
    case (recover old new d v)
    have "\<not> ok_phase d" using spec_kept_recover [OF cluster_invD(7) [OF inv] recover(2,3)] .
    with recover blind none show ?thesis by simp
  next
    case (start i key)
    with blind none held_update(2) [of "jobs s" i key "[]"] show ?thesis by (auto simp: read_in_def)
  next
    case (stop i)
    with blind none held_update(4) [of "jobs s" i] show ?thesis by auto
  next
    case (work i key h e s1)
    have "\<not> claims_of p d" if "d \<in> clear (jobs s')" for d
    proof
      assume d: "claims_of p d"
      from that work(1) have "d \<in> clear ((jobs s)(i \<mapsto> (key, h @ [e])))" by simp
      from clear_append [OF this work(2)] blind d obtain ds where e: "e = ReadDomains (Inr ds)"
        and free: "\<forall>dm \<in> set ds. \<not> rival d dm" by blast
      from work(4) e have "set ds = ran (cache s)" by (auto elim: answered.cases)
      with listing_shows_rival [OF ks p stab cluster_invD(1) [OF inv] d] free show False by simp
    qed
    moreover have "\<not> ok_phase x" if x: "api s' j = Some x" "claims_of p x" for j x
      using work(4)
    proof cases
      case (put y d0 v r)
      show ?thesis
      proof (cases "j = id_of y")
        case True
        with x(1) work(1) put(2) have xy: "x = y\<lparr>ResourceVersion := v\<rparr>" by simp
        then have y: "claims_of p y" "ok_phase y = ok_phase x" using x(2) by (simp_all add: claims_of_def)
        have "\<not> ok_phase y"
        proof
          assume "ok_phase y"
          with grant_clear [OF inv work(2) work(3) [unfolded put(1)]] y(1)
          obtain d where "d \<in> clear (jobs s)" "Spec y = Spec d" by (auto simp: claims_of_def)
          with blind y(1) claims_of_spec show False by blast
        qed
        with y(2) show ?thesis by simp
      next
        case False
        with x none work(1) put(2) show ?thesis by simp
      qed
    qed (use x none work(1) in simp_all)
    ultimately show ?thesis by blast
  qed
  with stab' cluster_inv_step [OF cl inv auto] show ?thesis by (simp add: starved_def)
qed

text \<open>
  C26: two claims of one primary domain, neither of them OK (two claims posted at the same time, or
  two rejected ones after the owner is gone), keep each other from it for ever, under the
  conditions of C3: from a state in which the store has caught up with the server and no worker is
  in a reconciliation, and as long as nobody removes one of the two claims or changes its spec, no
  worker, retry or restart of a worker makes any claim of that domain OK.
\<close>

theorem duplicates_starve:
  assumes "cl_reachable False cfg s" "\<not> AutoClaim cfg" "feed s = []" "jobs s = Map.empty"
    and "api s k = Some a" "api s l = Some b" "k \<noteq> l"
    and "IsPrimary a" "IsPrimary b" "GetPrimaryDomain a = p" "GetPrimaryDomain b = p"
    and "\<forall>m d. api s m = Some d \<and> IsPrimary d \<and> GetPrimaryDomain d = p \<longrightarrow> Phase (Status d) \<noteq> DomainStatusOK"
    and "(step_keeping cfg {(k, Spec a), (l, Spec b)})\<^sup>*\<^sup>* s s'"
  shows "\<forall>m d. api s' m = Some d \<and> IsPrimary d \<and> GetPrimaryDomain d = p \<longrightarrow> Phase (Status d) \<noteq> DomainStatusOK"
proof -
  let ?ks = "{(k, Spec a), (l, Spec b)}"
  have inv: "cluster_inv s" by (rule cluster_inv_reachable [OF assms(1,2)])
  with assms(3) have "cache s = api s" using cluster_invD(1) [OF inv] by (simp add: versions_def)
  with assms(3-6) have "\<forall>(k, sp) \<in> ?ks. stable (feed s) (cache s) k sp" by (simp add: stable_def)
  moreover have "clear (jobs s) = {}" using assms(4) by (simp add: clear_def)
  ultimately have "starved p ?ks s"
    using inv assms(12) unfolding starved_def claims_of_def by blast
  with assms(13) have "starved p ?ks s'"
  proof (induction rule: rtranclp_induct)
    case (step y z)
    show ?case
      by (rule starved_step [OF step(2) step(3) [OF step(4)] assms(2), of k "Spec a" l "Spec b"])
        (use assms(7-11) in \<open>simp_all add: IsPrimary_def GetPrimaryDomain_def\<close>)
  qed simp
  then show ?thesis unfolding starved_def claims_of_def by blast
qed

definition rival_domain :: Domain where
  "rival_domain = (mk_domain ''intruder'' ''acme-org'' ''acme.org'' '''' DomainStatusPending)\<lparr>ResourceVersion := ''2''\<rparr>"

lemma two_claims:
  "\<exists>s. cl_reachable False cfg s \<and> feed s = [] \<and> jobs s = Map.empty
    \<and> api s = [(''acme'', ''acme-org'') \<mapsto> pending_domain, (''intruder'', ''acme-org'') \<mapsto> rival_domain]"
proof -
  have id: "id_of rival_domain = (''intruder'', ''acme-org'')" "ResourceVersion rival_domain = ''2''"
    "Phase (Status rival_domain) = DomainStatusPending" "Phase (Status pending_domain) = DomainStatusPending"
    by (simp_all add: rival_domain_def pending_domain_def mk_domain_def id_of_def)
  let ?s1 = "store_obj pending_domain cluster_init"
  have "cl_reachable False cfg ?s1"
    by (rule cl_reachable_step [OF _ cl_step.create])
      (simp_all add: cl_reachable_def cluster_init_def fresh_version_def id)
  then have "cl_reachable False cfg (store_obj rival_domain ?s1)"
    by (rule cl_reachable_step [OF _ cl_step.create]) (simp_all add: cluster_init_def fresh_version_def id)
  from settled [OF this] show ?thesis by (auto simp: cluster_init_def id)
qed

lemma duplicates_starve_witness:
  "\<exists>s i h. cl_reachable False sample_config s \<and> jobs s i = Some (''acme/acme-org'', h)
    \<and> api s (''acme'', ''acme-org'') = Some pending_domain \<and> api s (''intruder'', ''acme-org'') = Some rival_domain
    \<and> {m. \<exists>d. api s m = Some d \<and> IsPrimary d \<and> GetPrimaryDomain d = ''acme.org'' \<and> Phase (Status d) = DomainStatusOK} = {}"
proof -
  let ?k = "(''acme'', ''acme-org'')" and ?l = "(''intruder'', ''acme-org'')"
  have manual: "\<not> AutoClaim sample_config" by (simp add: sample_config_def)
  from two_claims obtain s where s: "cl_reachable False sample_config s" "feed s = []" "jobs s = Map.empty"
    "api s = [?k \<mapsto> pending_domain, ?l \<mapsto> rival_domain]" by blast
  let ?s = "s\<lparr>jobs := (jobs s)(0 \<mapsto> (''acme/acme-org'', []))\<rparr>"
  have start: "cl_step False sample_config s ?s" using s(3) by (intro cl_step.start) simp
  then have run: "(step_keeping sample_config {(?k, Spec pending_domain), (?l, Spec rival_domain)})\<^sup>*\<^sup>* s ?s"
    using s(4) by (intro r_into_rtranclp) (simp add: step_keeping_def keeps_def)
  have "\<forall>m d. api ?s m = Some d \<and> IsPrimary d \<and> GetPrimaryDomain d = ''acme.org'' \<longrightarrow> Phase (Status d) \<noteq> DomainStatusOK"
  proof (rule duplicates_starve [OF s(1) manual s(2,3) _ _ _ _ _ _ _ _ run])
    show "IsPrimary pending_domain" "IsPrimary rival_domain" "GetPrimaryDomain pending_domain = ''acme.org''"
      "GetPrimaryDomain rival_domain = ''acme.org''"
      by (simp_all add: pending_domain_def rival_domain_def mk_domain_def IsPrimary_def GetPrimaryDomain_def)
    show "\<forall>m d. api s m = Some d \<and> IsPrimary d \<and> GetPrimaryDomain d = ''acme.org'' \<longrightarrow> Phase (Status d) \<noteq> DomainStatusOK"
      using s(4) by (auto simp: pending_domain_def rival_domain_def mk_domain_def split: if_splits)
  qed (use s(4) in simp_all)
  moreover have "cl_reachable False sample_config ?s" by (rule cl_reachable_step [OF s(1) start])
  moreover have "jobs ?s 0 = Some (''acme/acme-org'', [])" "api ?s ?k = Some pending_domain" "api ?s ?l = Some rival_domain"
    using s(4) by simp_all
  ultimately show ?thesis by blast
qed

end
