(* ===== verification/Kong_Plugin.thy ===== *)
theory Kong_Plugin
  imports Kong_Api "HOL-Library.AList" "HOL-Library.List_Lexorder" "HOL-Library.Char_ord"
begin

text \<open>
  \<open>pkg/kong/plugin.go\<close> and \<open>pkg/kong/client.go\<close>: the client of the plugins of a Kong API, with the
  JSON of its objects and the URL a request is sent to (\<open>rest.Request.URL\<close> over \<open>path.Join\<close>). A
  \<open>PluginSchema\<close> is a Go map, kept as the list of its entries; \<open>Marshal\<close> writes them in key order.
\<close>

section \<open>The path of a request\<close>

text \<open>\<open>path.Clean\<close> on the segments of a path; \<open>acc\<close> holds those kept so far, the last one first.\<close>

fun clean_segments :: "bool \<Rightarrow> string list \<Rightarrow> string list \<Rightarrow> string list" where
  "clean_segments rooted acc [] = rev acc"
| "clean_segments rooted acc (s # ss) =
     (if s = '''' \<or> s = ''.'' then clean_segments rooted acc ss
      else if s = ''..'' then
        (case acc of
           [] \<Rightarrow> clean_segments rooted (if rooted then [] else [''..'']) ss
         | a # as \<Rightarrow> clean_segments rooted (if a = ''..'' then ''..'' # acc else as) ss)
      else clean_segments rooted (s # acc) ss)"

definition path_Clean :: "string \<Rightarrow> string" where
  "path_Clean p =
     (if p = '''' then ''.''
      else
        let rooted = (hd p = CHR ''/'');
            out = join_with CHR ''/'' (clean_segments rooted [] (split_on CHR ''/'' p))
        in if rooted then CHR ''/'' # out else if out = '''' then ''.'' else out)"

definition path_Join :: "string list \<Rightarrow> string" where
  "path_Join es =
     (case dropWhile (\<lambda>e. e = '''') es of
        [] \<Rightarrow> ''''
      | es' \<Rightarrow> path_Clean (join_with CHR ''/'' es'))"

text \<open>\<open>Suffix(segment)\<close>: the segment is not validated.\<close>

definition set_suffix :: "string \<Rightarrow> request \<Rightarrow> request" where
  "set_suffix segment q = q\<lparr>suffix := path_Join [suffix q, path_Join [segment]]\<rparr>"

definition URL_path :: "string \<Rightarrow> request \<Rightarrow> string" where
  "URL_path pathPrefix q =
     (let p0 = pathPrefix;
          p1 = (case req_namespace q of
                  Some ns \<Rightarrow> if 0 < length ns then path_Join [p0, ''namespaces'', ns] else p0
                | None \<Rightarrow> p0);
          p2 = (if length (resource q) \<noteq> 0 then path_Join [p1, lower (resource q)] else p1);
          name = (case req_name q of Some n \<Rightarrow> n | None \<Rightarrow> '''')
      in if length name \<noteq> 0 \<or> length (suffix q) \<noteq> 0 \<or> length (sub_resource q) \<noteq> 0
         then path_Join [p2, name, sub_resource q, suffix q]
         else p2)"

section \<open>JSON of plugins\<close>

definition empty_Plugin :: Plugin where
  "empty_Plugin = \<lparr>Plugin_UID = '''', APIUID = '''', Plugin_Name = '''', ConsumerID = '''', Config = None,
     Enabled = False, Plugin_CreatedAt = 0\<rparr>"

definition empty_PluginList :: PluginList where
  "empty_PluginList = \<lparr>Plugin_Total = 0, Plugin_Items = [], Plugin_NextPage = ''''\<rparr>"

text \<open>A document is decoded into the map the field holds; null sets it to nil.\<close>

definition dec_schema :: "json \<Rightarrow> PluginSchema \<Rightarrow> PluginSchema decoded" where
  "dec_schema j old = (case j of
      JObj ms \<Rightarrow> (Some (fold (\<lambda>(k, v). AList.update k v) ms (elems old)), False)
    | JNull \<Rightarrow> (None, False) | _ \<Rightarrow> (old, True))"

definition dec_Plugin_field :: "string \<Rightarrow> json \<Rightarrow> Plugin \<Rightarrow> Plugin decoded" where
  "dec_Plugin_field k j p =
     (if k = ''id'' then apfst (\<lambda>v. p\<lparr>Plugin_UID := v\<rparr>) (dec_string j (Plugin_UID p))
      else if k = ''api_id'' then apfst (\<lambda>v. p\<lparr>APIUID := v\<rparr>) (dec_string j (APIUID p))
      else if k = ''name'' then apfst (\<lambda>v. p\<lparr>Plugin_Name := v\<rparr>) (dec_string j (Plugin_Name p))
      else if k = ''consumer_id'' then apfst (\<lambda>v. p\<lparr>ConsumerID := v\<rparr>) (dec_string j (ConsumerID p))
      else if k = ''config'' then apfst (\<lambda>v. p\<lparr>Config := v\<rparr>) (dec_schema j (Config p))
      else if k = ''enabled'' then apfst (\<lambda>v. p\<lparr>Enabled := v\<rparr>) (dec_bool j (Enabled p))
      else if k = ''created_at''
        then apfst (\<lambda>v. p\<lparr>Plugin_CreatedAt := v\<rparr>) (dec_int64 j (Plugin_CreatedAt p))
      else (p, False))"

definition dec_Plugin :: "json \<Rightarrow> Plugin \<Rightarrow> Plugin decoded" where
  "dec_Plugin = dec_object dec_Plugin_field"

definition dec_Plugins :: "json \<Rightarrow> Plugin list \<Rightarrow> (Plugin list) decoded" where
  "dec_Plugins j old = (case j of
      JArr js \<Rightarrow> (map (\<lambda>x. fst (dec_Plugin x empty_Plugin)) js,
                  list_ex (\<lambda>x. snd (dec_Plugin x empty_Plugin)) js)
    | JNull \<Rightarrow> ([], False) | _ \<Rightarrow> (old, True))"

definition dec_PluginList_field :: "string \<Rightarrow> json \<Rightarrow> PluginList \<Rightarrow> PluginList decoded" where
  "dec_PluginList_field k j l =
     (if k = ''total'' then apfst (\<lambda>v. l\<lparr>Plugin_Total := v\<rparr>) (dec_int64 j (Plugin_Total l))
      else if k = ''data'' then apfst (\<lambda>v. l\<lparr>Plugin_Items := v\<rparr>) (dec_Plugins j (Plugin_Items l))
      else if k = ''next'' then apfst (\<lambda>v. l\<lparr>Plugin_NextPage := v\<rparr>) (dec_string j (Plugin_NextPage l))
      else (l, False))"

definition dec_PluginList :: "json \<Rightarrow> PluginList \<Rightarrow> PluginList decoded" where
  "dec_PluginList = dec_object dec_PluginList_field"

definition enc_schema :: "PluginSchema \<Rightarrow> json" where
  "enc_schema s = (case s of None \<Rightarrow> JNull | Some ms \<Rightarrow> JObj (sort_key fst ms))"

definition enc_Plugin :: "Plugin \<Rightarrow> json" where
  "enc_Plugin p = JObj (
     omit (Plugin_UID p = '''') ''id'' (JStr (Plugin_UID p))
     @ omit (APIUID p = '''') ''api_id'' (JStr (APIUID p))
     @ [(''name'', JStr (Plugin_Name p))]
     @ omit (ConsumerID p = '''') ''consumer_id'' (JStr (ConsumerID p))
     @ [(''config'', enc_schema (Config p))]
     @ omit (\<not> Enabled p) ''enabled'' (JBool (Enabled p))
     @ omit (Plugin_CreatedAt p = 0) ''created_at'' (JInt (sint (Plugin_CreatedAt p))))"

section \<open>The methods\<close>

text \<open>\<open>CoreClient.Plugin(apiNameOrID)\<close> fixes the API: the argument \<open>nameOrID\<close> of every method.\<close>

definition plugin_request :: "string \<Rightarrow> verb \<Rightarrow> body \<Rightarrow> request" where
  "plugin_request nameOrID v b = (kong_request v (Some nameOrID) b)\<lparr>sub_resource := ''plugins''\<rparr>"

text \<open>\<open>return x, json.Unmarshal(data, x)\<close>: the target comes back with the error.\<close>

definition decode_reply :: "(json \<Rightarrow> 'a \<Rightarrow> 'a decoded) \<Rightarrow> 'a \<Rightarrow> rest_result \<Rightarrow> 'a option \<times> go_error option" where
  "decode_reply dec target r = (case res_err r of
      Some e \<Rightarrow> (None, Some e)
    | None \<Rightarrow> apfst Some (unmarshal dec (payload_of (res_body r)) target))"

definition plugin_Get :: "'w env \<Rightarrow> string \<Rightarrow> string \<Rightarrow> ('w, Plugin option \<times> go_error option) run" where
  "plugin_Get E nameOrID pluginID =
     bnd (send E (set_suffix pluginID (plugin_request nameOrID GET NoBody)))
       (\<lambda>r. ret (decode_reply dec_Plugin empty_Plugin r))"

text \<open>The selector is not looked at, and only the first page is read.\<close>

definition plugin_List :: "'w env \<Rightarrow> string \<Rightarrow> 'selector \<Rightarrow> ('w, PluginList option \<times> go_error option) run" where
  "plugin_List E nameOrID selector =
     bnd (send E (plugin_request nameOrID GET NoBody))
       (\<lambda>r. ret (decode_reply dec_PluginList empty_PluginList r))"

definition plugin_UpdateOrCreate :: "'w env \<Rightarrow> string \<Rightarrow> Plugin \<Rightarrow> ('w, Plugin option \<times> go_error option) run" where
  "plugin_UpdateOrCreate E nameOrID data =
     bnd (send E (plugin_request nameOrID PUT (JsonBody (enc_Plugin data))))
       (\<lambda>r. ret (decode_reply dec_Plugin empty_Plugin r))"

definition plugin_Delete :: "'w env \<Rightarrow> string \<Rightarrow> string \<Rightarrow> ('w, go_error + unit) run" where
  "plugin_Delete E nameOrID pluginID =
     bnd (send E (set_suffix pluginID (plugin_request nameOrID DELETE NoBody))) (\<lambda>r.
       ret (case res_err r of Some e \<Rightarrow> Inl e | None \<Rightarrow> Inr ()))"

section \<open>Properties\<close>

lemma lower_plugin_fields [simp]:
  "lower ''api_id'' = ''api_id''" "lower ''consumer_id'' = ''consumer_id''" "lower ''config'' = ''config''"
  "lower ''enabled'' = ''enabled''" "lower ''apis'' = ''apis''"
  by (simp_all add: lower_def lower_char_def Let_def)

text \<open>
  Decoding the JSON of a plugin into another plugin never fails, replaces the name, the
  settings it mentions and whatever else is set, and keeps the rest: a plugin that is to be disabled
  decodes to the \<open>enabled\<close> the target had, so a disabled plugin cannot be told from one that says
  nothing.
\<close>

lemma plugin_json_merge:
  "dec_Plugin (enc_Plugin p) old =
    (\<lparr>Plugin_UID = (if Plugin_UID p = '''' then Plugin_UID old else Plugin_UID p),
      APIUID = (if APIUID p = '''' then APIUID old else APIUID p),
      Plugin_Name = Plugin_Name p,
      ConsumerID = (if ConsumerID p = '''' then ConsumerID old else ConsumerID p),
      Config = (case Config p of None \<Rightarrow> None
         | Some ms \<Rightarrow> Some (fold (\<lambda>(k, v). AList.update k v) (sort_key fst ms) (elems (Config old)))),
      Enabled = (Enabled p \<or> Enabled old),
      Plugin_CreatedAt = (if Plugin_CreatedAt p = 0 then Plugin_CreatedAt old else Plugin_CreatedAt p)\<rparr>, False)"
  unfolding dec_Plugin_def enc_Plugin_def dec_object_def
  by (cases p; cases old; cases "Config p")
    (auto simp add: dec_members_append dec_members_Cons dec_members_omit dec_Plugin_field_def
      dec_string_def dec_bool_def dec_int64_def dec_schema_def enc_schema_def)

section \<open>Paths\<close>

lemma clean_plain:
  "\<forall>s \<in> set ss. s \<notin> {'''', ''.'', ''..''} \<Longrightarrow> clean_segments r acc (ss @ ts) = clean_segments r (rev ss @ acc) ts"
  by (induction ss arbitrary: acc) auto

lemma split_on_segments:
  "c \<notin> set x \<Longrightarrow> split_on c (x @ c # y) = x # split_on c y" "c \<notin> set x \<Longrightarrow> split_on c x = [x]"
  by (simp_all add: split_on_append split_on_no_sep)

lemma segment_plain: "valid_segment s \<Longrightarrow> CHR ''/'' \<notin> set s"
  by (simp add: valid_segment_def)

definition plain :: "string \<Rightarrow> bool" where
  "plain s \<longleftrightarrow> valid_segment s \<and> s \<noteq> ''''"

lemma plainD: "plain s \<Longrightarrow> CHR ''/'' \<notin> set s \<and> s \<noteq> '''' \<and> s \<noteq> ''.'' \<and> s \<noteq> ''..''"
  by (simp add: plain_def valid_segment_def)

lemma apis_path [simp]: "path_Join [''/'', ''apis''] = ''/apis''"
  by (simp add: path_Join_def path_Clean_def Let_def)

text \<open>A path below \<open>/apis\<close> whose first segments are plain and whose rest is cleaned.\<close>

lemma join_below:
  assumes "plain n" "CHR ''/'' \<notin> set s"
  shows "path_Join [''/apis'', n, ''plugins'', s] =
    CHR ''/'' # join_with CHR ''/'' (clean_segments True [''plugins'', n, ''apis''] [s])"
proof -
  note n = plainD [OF assms(1)]
  have "split_on CHR ''/'' (''/apis/'' @ n @ ''/plugins/'' @ s) = [[], ''apis'', n, ''plugins'', s]"
    using n assms(2) split_on_append [of "CHR ''/''" n "''plugins/'' @ s"] by (simp add: split_on_no_sep)
  with n show ?thesis by (simp add: path_Join_def path_Clean_def Let_def)
qed

lemma join_suffix: "path_Join ['''', path_Join [s]] = (if s = '''' then '''' else s)"
  if "CHR ''/'' \<notin> set s" "s \<noteq> ''.''" for s
  using that by (cases s; cases "s = ''..''") (auto simp: path_Join_def path_Clean_def split_on_no_sep Let_def)

lemma api_url: "plain n \<Longrightarrow> URL_path ''/'' (kong_request v (Some n) b) = ''/apis/'' @ n"
proof -
  assume n: "plain n"
  note n' = plainD [OF n]
  have "split_on CHR ''/'' (''/apis/'' @ n @ ''//'') = [[], ''apis'', n, [], []]"
    using n' split_on_append [of "CHR ''/''" n "''/''"] by simp
  with n' show ?thesis by (simp add: URL_path_def kong_request_def path_Join_def path_Clean_def Let_def lower_plugin_fields)
qed

lemma plugin_url:
  assumes "plain n" "CHR ''/'' \<notin> set s" "s \<noteq> ''.''"
  shows "URL_path ''/'' (set_suffix s (plugin_request n v b)) =
    CHR ''/'' # join_with CHR ''/'' (clean_segments True [''plugins'', n, ''apis''] [s])"
  using join_below [OF assms(1,2)] join_suffix [OF assms(2,3)] plainD [OF assms(1)]
  by (auto simp: URL_path_def set_suffix_def plugin_request_def kong_request_def Let_def)

text \<open>
  A plugin is addressed below its API, as long as its identifier is one path segment; but the
  identifier is not validated, so deleting the plugin \<open>..\<close> of an API sends the request that
  deletes the API itself, and the empty identifier addresses the whole collection.
\<close>

lemma plugin_paths:
  assumes "valid_segment n" "n \<noteq> ''''"
  shows "(\<forall>id. valid_segment id \<and> id \<noteq> '''' \<longrightarrow>
      URL_path ''/'' (set_suffix id (plugin_request n v b)) = ''/apis/'' @ n @ ''/plugins/'' @ id)
    \<and> URL_path ''/'' (set_suffix ''..'' (plugin_request n v b)) = URL_path ''/'' (kong_request v (Some n) b)
    \<and> URL_path ''/'' (set_suffix '''' (plugin_request n v b)) = ''/apis/'' @ n @ ''/plugins''"
proof -
  have n: "plain n" using assms by (simp add: plain_def)
  have "URL_path ''/'' (set_suffix id (plugin_request n v b)) = ''/apis/'' @ n @ ''/plugins/'' @ id" if "plain id" for id
    using plugin_url [OF n, of id] plainD [OF that] by simp
  then show ?thesis
    using plugin_url [OF n, of "''..''"] plugin_url [OF n, of "''''"] api_url [OF n] by (simp add: plain_def)
qed

lemma plugin_paths_witness:
  "URL_path ''/'' (set_suffix ''..'' (plugin_request ''shop'' DELETE NoBody)) = ''/apis/shop''"
  using plugin_paths [of "''shop''" DELETE NoBody] api_url [of "''shop''" DELETE NoBody]
  by (simp add: plain_def valid_segment_def)

end
