(* ===== verification/Startup.thy ===== *)
theory Startup
  imports Kong_Plugin Domain_Controller
begin

text \<open>
  How the program starts: \<open>cmd/main.go\<close> (the version of Kong, the default namespace, the flow of
  \<open>main\<close>), the registration of the custom resource in \<open>pkg/controller/utils.go\<close> (\<open>CreateCRD\<close>,
  \<open>waitCRDReady\<close> over \<open>wait.Poll\<close>) and \<open>pkg/version\<close>. The errors of the clients (\<open>Client_Setup\<close>), the
  decoding of typed objects and the timer of \<open>wait.Poll\<close> are library code: the record \<open>launch\<close>.
\<close>

section \<open>What the process finds\<close>

record build_info =
  version_var :: string
  gitCommit_var :: string
  buildDate_var :: string
  runtime_Version :: string
  runtime_Compiler :: string
  runtime_GOOS :: string
  runtime_GOARCH :: string

record crd_condition =
  CondType :: string
  CondStatus :: string
  CondReason :: string

text \<open>
  \<open>decode_object\<close> is the error of decoding the body of a typed answer, \<open>conditions_of\<close> the
  conditions of a decoded \<open>CustomResourceDefinition\<close>; \<open>next_tick\<close> is the next receive from the
  channel of \<open>wait.Poll\<close>: a tick, or False once it is closed.
\<close>

record 'w launch =
  print_version :: bool
  build :: build_info
  pod_namespace_env :: string
  kong_client_error :: "go_error option"
  cluster_config_error :: "go_error option"
  ext_client_error :: "go_error option"
  kube_client_error :: "go_error option"
  decode_object :: "payload option \<Rightarrow> go_error option"
  conditions_of :: "payload option \<Rightarrow> crd_condition list"
  next_tick :: "'w \<Rightarrow> bool \<times> 'w"

section \<open>The version of the binary\<close>

record Info =
  Info_Version :: string
  GitCommit :: string
  BuildDate :: string
  GoVersion :: string
  Compiler :: string
  Platform :: string

definition version_Get :: "build_info \<Rightarrow> Info" where
  "version_Get b = \<lparr>Info_Version = version_var b, GitCommit = gitCommit_var b, BuildDate = buildDate_var b,
     GoVersion = runtime_Version b, Compiler = runtime_Compiler b,
     Platform = runtime_GOOS b @ ''/'' @ runtime_GOARCH b\<rparr>"

definition enc_Info :: "Info \<Rightarrow> json" where
  "enc_Info i = JObj [(''Version'', JStr (Info_Version i)), (''gitCommit'', JStr (GitCommit i)),
     (''buildDate'', JStr (BuildDate i)), (''goVersion'', JStr (GoVersion i)),
     (''compiler'', JStr (Compiler i)), (''platform'', JStr (Platform i))]"

section \<open>The version of Kong\<close>

definition minimalMinorKongVersion :: int where
  "minimalMinorKongVersion = 10"

text \<open>\<open>strconv.Atoi\<close>: an optional sign, then decimal digits, within 64 bits.\<close>

definition digit_value :: "char \<Rightarrow> int option" where
  "digit_value c = (let n = (of_char c :: nat) in if 48 \<le> n \<and> n \<le> 57 then Some (int n - 48) else None)"

fun read_digits :: "int \<Rightarrow> string \<Rightarrow> int option" where
  "read_digits acc [] = Some acc"
| "read_digits acc (c # cs) = (case digit_value c of
      None \<Rightarrow> None
    | Some k \<Rightarrow> read_digits (10 * acc + k) cs)"

definition Atoi :: "string \<Rightarrow> int option" where
  "Atoi s =
     (let (neg, digits) = (case s of
            [] \<Rightarrow> (False, [])
          | c # cs \<Rightarrow> if c = CHR ''-'' then (True, cs) else if c = CHR ''+'' then (False, cs) else (False, s))
      in if digits = [] then None
         else case read_digits 0 digits of
           None \<Rightarrow> None
         | Some n \<Rightarrow> (let i = (if neg then - n else n) in if int64_range i then Some i else None))"

definition root_request :: request where
  "root_request = \<lparr>srv = KongAdmin, verb_of = GET, resource = '''', req_namespace = None, req_name = None,
     sub_resource = '''', suffix = '''', params = [], req_body = NoBody\<rparr>"

definition zero_KongVersion :: KongVersion where
  "zero_KongVersion = \<lparr>Major = 0, Minor = 0, Patch = 0\<rparr>"

text \<open>The last member of a key wins when an object is decoded into a map.\<close>

definition json_member :: "string \<Rightarrow> (string \<times> json) list \<Rightarrow> json option" where
  "json_member k ms = map_of (rev ms) k"

definition parse_version :: "string \<Rightarrow> KongVersion \<times> go_error option" where
  "parse_version s =
     (let v = split_on CHR ''.'' s in
      if length v < 3 then (zero_KongVersion, Some (PlainErr ''version not in semantic version''))
      else case find (\<lambda>p. Atoi p = None) v of
        Some p \<Rightarrow> (zero_KongVersion, Some (PlainErr (''failed converting version: '' @ p)))
      | None \<Rightarrow> (\<lparr>Major = the (Atoi (v ! 0)), Minor = the (Atoi (v ! 1)), Patch = the (Atoi (v ! 2))\<rparr>, None))"

definition getKongVersion :: "'w env \<Rightarrow> ('w, KongVersion \<times> go_error option) run" where
  "getKongVersion E =
     bnd (send E root_request) (\<lambda>r. case res_err r of
       Some e \<Rightarrow> ret (zero_KongVersion, Some e)
     | None \<Rightarrow>
         (case payload_json (payload_of (res_body r)) of
            None \<Rightarrow> ret (zero_KongVersion, Some (PlainErr ''invalid JSON''))
          | Some (JObj ms) \<Rightarrow>
              (case json_member ''version'' ms of
                 None \<Rightarrow> ret (zero_KongVersion, Some (PlainErr ''could not extract a version from object''))
               | Some (JStr s) \<Rightarrow> ret (parse_version s)
               | Some j \<Rightarrow> panic ''interface conversion: interface {} is not string'')
          | Some JNull \<Rightarrow> ret (zero_KongVersion, Some (PlainErr ''could not extract a version from object''))
          | Some j \<Rightarrow> ret (zero_KongVersion, Some (PlainErr ''json: cannot unmarshal value''))))"

section \<open>The custom resource\<close>

definition global_request :: "verb \<Rightarrow> string \<Rightarrow> string option \<Rightarrow> body \<Rightarrow> request" where
  "global_request v res n b = \<lparr>srv = CoreServer, verb_of = v, resource = res, req_namespace = None, req_name = n,
     sub_resource = '''', suffix = '''', params = [], req_body = b\<rparr>"

definition crd_json :: json where
  "crd_json = JObj [(''metadata'', JObj [(''name'', JStr ResourceName)]),
     (''spec'', JObj [(''group'', JStr (GV_Group SchemeGroupVersion)), (''version'', JStr (GV_Version SchemeGroupVersion)),
        (''names'', JObj [(''plural'', JStr ResourcePlural), (''kind'', JStr ResourceKind)]),
        (''scope'', JStr ''Namespaced'')])]"

definition crd_create :: request where
  "crd_create = global_request POST ''customresourcedefinitions'' None (JsonBody crd_json)"

definition crd_get :: request where
  "crd_get = global_request GET ''customresourcedefinitions'' (Some ResourceName) NoBody"

text \<open>\<open>Do().Into(result)\<close>.\<close>

definition typed_error :: "'w launch \<Rightarrow> rest_result \<Rightarrow> go_error option" where
  "typed_error L r = (case res_err r of Some e \<Rightarrow> Some e | None \<Rightarrow> decode_object L (res_body r))"

fun crd_ready :: "crd_condition list \<Rightarrow> go_error + bool" where
  "crd_ready [] = Inr False"
| "crd_ready (c # cs) =
     (if CondType c = ''Established'' then (if CondStatus c = ''True'' then Inr True else crd_ready cs)
      else if CondType c = ''NamesAccepted'' then
        (if CondStatus c = ''False'' then Inl (PlainErr (''Name conflict: '' @ CondReason c)) else crd_ready cs)
      else crd_ready cs)"

definition crd_condition_met :: "'w env \<Rightarrow> 'w launch \<Rightarrow> ('w, go_error + bool) run" where
  "crd_condition_met E L =
     bnd (send E crd_get) (\<lambda>r. case typed_error L r of
       Some e \<Rightarrow> ret (Inl e)
     | None \<Rightarrow> ret (crd_ready (conditions_of L (res_body r))))"

text \<open>
  \<open>wait.WaitFor\<close>: the condition is tried after each receive, and once more when the channel is
  closed. What stands for the channel is the number of ticks it can give at most, since the poller
  closes it when the timeout is over: one for each interval within the timeout, of which some may be
  skipped (\<open>next_tick\<close>). A timeout of zero, which has no end, does not occur.
\<close>

definition ErrWaitTimeout :: go_error where
  "ErrWaitTimeout = PlainErr ''timed out waiting for the condition''"

fun WaitFor :: "nat \<Rightarrow> int \<Rightarrow> 'w launch \<Rightarrow> ('w, go_error + bool) run \<Rightarrow> ('w, go_error + unit) run" where
  "WaitFor 0 interval L fn = tryE id fn (\<lambda>ok. ret (if ok then Inr () else Inl ErrWaitTimeout))"
| "WaitFor (Suc ticks) interval L fn =
     bnd (ask (next_tick L) (\<lambda>_. Sleep interval)) (\<lambda>channel_open.
     tryE id fn (\<lambda>ok. if ok then ret (Inr ())
       else if \<not> channel_open then ret (Inl ErrWaitTimeout)
       else WaitFor ticks interval L fn))"

definition poller :: "int \<Rightarrow> int \<Rightarrow> nat" where
  "poller interval timeout = nat (timeout div interval)"

definition Poll :: "int \<Rightarrow> int \<Rightarrow> 'w launch \<Rightarrow> ('w, go_error + bool) run \<Rightarrow> ('w, go_error + unit) run" where
  "Poll interval timeout L condition = WaitFor (poller interval timeout) interval L condition"

definition waitCRDReady :: "'w env \<Rightarrow> 'w launch \<Rightarrow> ('w, go_error + unit) run" where
  "waitCRDReady E L = Poll (1 * 1000000000) (30 * 1000000000) L (crd_condition_met E L)"

definition CreateCRD :: "'w env \<Rightarrow> 'w launch \<Rightarrow> ('w, go_error + unit) run" where
  "CreateCRD E L =
     bnd (send E crd_create) (\<lambda>r. case typed_error L r of
       None \<Rightarrow> waitCRDReady E L
     | Some e \<Rightarrow> if IsAlreadyExists e then waitCRDReady E L else ret (Inl e))"

section \<open>The flow of main\<close>

definition defaultNamespace :: string where
  "defaultNamespace = ''kong-system''"

definition namespace_create :: request where
  "namespace_create = global_request POST ''namespaces'' None
     (JsonBody (JObj [(''metadata'', JObj [(''name'', JStr defaultNamespace)])]))"

definition createDefaultNamespace :: "'w env \<Rightarrow> 'w launch \<Rightarrow> ('w, go_error + unit) run" where
  "createDefaultNamespace E L =
     bnd (send E namespace_create) (\<lambda>r. case typed_error L r of
       None \<Rightarrow> ret (Inr ())
     | Some e \<Rightarrow> if IsAlreadyExists e then ret (Inr ())
         else ret (Inl (errorf ''Failed creating default namespace ['' '']'' e)))"

text \<open>
  How \<open>main\<close> ends: the process exits after printing, it dies with a fatal error, or the controller
  and the monitoring server run, with the configuration they got and whether the version of Kong
  was reported as unsupported.
\<close>

datatype main_result = Exit0 json string | Fatal string | Serving Config bool

definition showVersion :: "'w env \<Rightarrow> 'w launch \<Rightarrow> ('w, main_result) run" where
  "showVersion E L =
     (let b = enc_Info (version_Get (build L))
      in if kong_client_error L \<noteq> None then ret (Exit0 b '''')
         else bnd (getKongVersion E) (\<lambda>(kongVersion, e).
           ret (Exit0 b (''Kong Version: '' @ KongVersion_String kongVersion))))"

definition unsupported :: "KongVersion \<times> go_error option \<Rightarrow> bool" where
  "unsupported r \<longleftrightarrow> snd r = None \<and> Minor (fst r) < minimalMinorKongVersion"

text \<open>The client setters panic or end the process when a configuration is refused.\<close>

definition main_namespace :: "'w env \<Rightarrow> 'w launch \<Rightarrow> Config \<Rightarrow> ('w, go_error + Config) run" where
  "main_namespace E L cfg =
     (if length (pod_namespace_env L) = 0 then
        tryE id (createDefaultNamespace E L) (\<lambda>_. ret (Inr cfg))
      else ret (Inr (cfg\<lparr>PodNamespace := pod_namespace_env L\<rparr>)))"

definition main_prepare :: "'w env \<Rightarrow> 'w launch \<Rightarrow> Config \<Rightarrow> bool \<Rightarrow> ('w, main_result) run" where
  "main_prepare E L cfg warned =
     (case (if length (ApiServerHost cfg) = 0 then cluster_config_error L else None) of
        Some e \<Rightarrow> ret (Fatal (''error creating client configuration: '' @ err_msg e))
      | None \<Rightarrow>
     (case ext_client_error L of
        Some e \<Rightarrow> ret (Fatal (''failed retrieving extensions client: '' @ err_msg e))
      | None \<Rightarrow>
     (case kube_client_error L of
        Some e \<Rightarrow> panic (err_msg e)
      | None \<Rightarrow>
     bnd (main_namespace E L cfg) (\<lambda>r. case r of
        Inl e \<Rightarrow> ret (Fatal (err_msg e))
      | Inr cfg' \<Rightarrow>
     bnd (CreateCRD E L) (\<lambda>r. case r of
        Inl e \<Rightarrow> ret (Fatal (''failed creating domains CRD: '' @ err_msg e))
      | Inr _ \<Rightarrow> ret (Serving cfg' warned))))))"

definition main :: "'w env \<Rightarrow> 'w launch \<Rightarrow> Config \<Rightarrow> ('w, main_result) run" where
  "main E L cfg =
     (if print_version L then showVersion E L
      else case kong_client_error L of
        Some e \<Rightarrow> ret (Fatal (''failed retrieving client config for kong: '' @ err_msg e))
      | None \<Rightarrow> bnd (getKongVersion E) (\<lambda>v. main_prepare E L cfg (unsupported v)))"

end
