(* ===== verification/Startup_Safety.thy ===== *)
theory Startup_Safety
  imports Startup Sample_World
begin

text \<open>
  What the start of the program guarantees: the version of Kong is read back as it was printed, a
  version that is not a string stops the process, \<open>CreateCRD\<close> returns nil only when the server has
  said that the resource is established, within a bounded number of polls, and the controller is
  only started after that.
\<close>

section \<open>Numbers\<close>

lemma digit_value_digit_char: "k < 10 \<Longrightarrow> digit_value (digit_char k) = Some (int k)"
  by (simp add: digit_value_def of_char_digit_char Let_def)

lemma read_digits_append:
  "read_digits acc (xs @ ys) = (case read_digits acc xs of None \<Rightarrow> None | Some a \<Rightarrow> read_digits a ys)"
  by (induction xs arbitrary: acc) (auto split: option.splits)

lemma read_digits_show: "read_digits 0 (show_base 10 n) = Some (int n)"
proof (induction n rule: less_induct)
  case (less n)
  show ?case
  proof (cases "n < 10")
    case True
    then show ?thesis by (simp add: show_base_small digit_value_digit_char)
  next
    case False
    then have "read_digits 0 (show_base 10 (n div 10)) = Some (int (n div 10))" by (intro less.IH) simp
    moreover have "10 * int (n div 10) + int (n mod 10) = int n"
      by (metis mult_div_mod_eq of_nat_add of_nat_mult of_nat_numeral)
    ultimately show ?thesis
      using False by (simp add: show_base_big read_digits_append digit_value_digit_char)
  qed
qed

lemma plus_no_digit: "CHR ''+'' \<notin> digit_chars"
proof
  assume "CHR ''+'' \<in> digit_chars"
  then obtain k where "k < 16" "CHR ''+'' = digit_char k" by (auto simp: digit_chars_def)
  then have "(of_char CHR ''+'' :: nat) = (if k < 10 then 48 + k else 87 + k)" by (simp add: of_char_digit_char)
  then show False by (simp split: if_splits)
qed

lemma show_base_10_start: "hd (show_base 10 n) \<noteq> CHR ''-''" "hd (show_base 10 n) \<noteq> CHR ''+''" "CHR ''.'' \<notin> set (show_base 10 n)"
proof -
  have hd: "hd (show_base 10 n) \<in> digit_chars"
    using show_base_digits [of 10 n] show_base_not_Nil [of 10 n] by (auto dest: hd_in_set)
  then show "hd (show_base 10 n) \<noteq> CHR ''-''" by auto
  with hd show "hd (show_base 10 n) \<noteq> CHR ''+''" using plus_no_digit by auto
  show "CHR ''.'' \<notin> set (show_base 10 n)" using show_base_digits [of 10 n] by auto
qed

lemma Atoi_show_int: "int64_range i \<Longrightarrow> Atoi (show_int i) = Some i"
proof -
  assume i: "int64_range i"
  note start = show_base_10_start [of "nat i"]
  obtain c cs where "show_base 10 (nat i) = c # cs"
    using show_base_not_Nil [of 10 "nat i"] by (cases "show_base 10 (nat i)") auto
  with start i read_digits_show [of "nat i"] read_digits_show [of "nat (- i)"] show ?thesis
    using show_base_not_Nil [of 10 "nat (- i)"] by (auto simp: Atoi_def show_int_def Let_def)
qed

lemma show_int_no_dot: "CHR ''.'' \<notin> set (show_int i)"
  using show_base_10_start(3) by (auto simp: show_int_def)

section \<open>The version of Kong\<close>

lemma parse_version_show:
  assumes "int64_range M" "int64_range m" "int64_range p"
  shows "parse_version (show_int M @ ''.'' @ show_int m @ ''.'' @ show_int p) = (\<lparr>Major = M, Minor = m, Patch = p\<rparr>, None)"
proof -
  have "split_on CHR ''.'' (show_int M @ ''.'' @ show_int m @ ''.'' @ show_int p) = [show_int M, show_int m, show_int p]"
    using split_on_append [OF show_int_no_dot, of M] split_on_append [OF show_int_no_dot, of m]
      split_on_no_sep [OF show_int_no_dot, of p] by simp
  with assms show ?thesis by (simp add: parse_version_def Atoi_show_int)
qed

definition version_reply :: "json \<Rightarrow> rest_result" where
  "version_reply j = \<lparr>res_body = Some (Payload '''' (Some (JObj [(''version'', j)]))), res_status = 200, res_err = None\<rparr>"

lemma send_root: "send E root_request = ask (do_request E root_request) (Call root_request)"
  by (simp add: send_def request_error_def root_request_def)

text \<open>
  A Kong that reports its version as a semantic version is read back exactly; it is reported as
  unsupported whenever its minor number is below 10, whatever the major number, so also for 1.0.0;
  and a version that is not a string panics.
\<close>

lemma getKongVersion_roundtrip:
  assumes "int64_range M" "int64_range m" "int64_range p"
    and "fst (do_request E root_request w) = version_reply j"
  shows "(j = JStr (show_int M @ ''.'' @ show_int m @ ''.'' @ show_int p) \<longrightarrow>
      result_of (getKongVersion E) w = Done (\<lparr>Major = M, Minor = m, Patch = p\<rparr>, None)
      \<and> (unsupported (\<lparr>Major = M, Minor = m, Patch = p\<rparr>, None) \<longleftrightarrow> m < 10))
    \<and> ((\<forall>s. j \<noteq> JStr s) \<longrightarrow> (\<exists>s. result_of (getKongVersion E) w = Panic s))"
proof -
  obtain w' where w': "do_request E root_request w = (version_reply j, w')" using assms(4) by (cases "do_request E root_request w") auto
  have run: "result_of (getKongVersion E) w = (case j of JStr s \<Rightarrow> Done (parse_version s)
      | _ \<Rightarrow> Panic ''interface conversion: interface {} is not string'')"
    by (cases j) (simp_all add: getKongVersion_def send_root w' version_reply_def payload_of_def json_member_def
        result_of_def go_defs)
  show ?thesis
    unfolding run using parse_version_show [OF assms(1-3)]
    by (cases j) (auto simp: unsupported_def minimalMinorKongVersion_def)
qed

definition version_env :: "json \<Rightarrow> unit env" where
  "version_env j = static_env (\<lambda>q. version_reply j) [] [] []"

lemma getKongVersion_roundtrip_witness:
  "result_of (getKongVersion (version_env (JStr ''1.0.3''))) () = Done (\<lparr>Major = 1, Minor = 0, Patch = 3\<rparr>, None)
    \<and> unsupported (\<lparr>Major = 1, Minor = 0, Patch = 3\<rparr>, None)"
proof -
  have d: "show_int 1 = ''1''" "show_int 0 = ''0''" "show_int 3 = ''3''"
    by (simp_all add: show_int_def show_base_small digit_char_def char_of_def bit_Suc bit_0)
  have "int64_range 1" "int64_range 0" "int64_range 3" by (simp_all add: int64_range_def)
  from getKongVersion_roundtrip [OF this, of "version_env (JStr ''1.0.3'')" "()" "JStr ''1.0.3''"] d show ?thesis
    by (simp add: version_env_def)
qed

section \<open>The custom resource\<close>

text \<open>An answer that says the resource is established.\<close>

definition says_established :: "'w launch \<Rightarrow> act \<Rightarrow> bool" where
  "says_established L e \<longleftrightarrow> (\<exists>r. e = Call crd_get r \<and> typed_error L r = None
     \<and> (\<exists>c \<in> set (conditions_of L (res_body r)). CondType c = ''Established'' \<and> CondStatus c = ''True''))"

definition is_crd_get :: "act \<Rightarrow> bool" where
  "is_crd_get e \<longleftrightarrow> (\<exists>r. e = Call crd_get r)"

lemma is_crd_get_simps [simp]: "is_crd_get (Call crd_get r)" "\<not> is_crd_get (Sleep d)"
  by (simp_all add: is_crd_get_def)

lemma send_crd_get: "send E crd_get = ask (do_request E crd_get) (Call crd_get)"
  by (simp add: send_def request_error_def crd_get_def global_request_def valid_segment_def ResourceName_def
      ResourcePlural_def GroupName_def)

lemma crd_ready_True: "crd_ready cs = Inr True \<Longrightarrow> \<exists>c \<in> set cs. CondType c = ''Established'' \<and> CondStatus c = ''True''"
  by (induction cs) (auto split: if_splits)

lemma crd_condition_met_run:
  "\<exists>r. trace_of (crd_condition_met E L) w = [Call crd_get r]
    \<and> (result_of (crd_condition_met E L) w = Done (Inr True) \<longrightarrow> says_established L (Call crd_get r))
    \<and> (\<exists>x. result_of (crd_condition_met E L) w = Done x)"
proof -
  obtain r w' where r: "do_request E crd_get w = (r, w')" by (cases "do_request E crd_get w")
  then show ?thesis
    by (cases "typed_error L r")
      (auto simp: crd_condition_met_def send_crd_get trace_of_def result_of_def go_defs says_established_def
        dest: crd_ready_True)
qed

text \<open>One triple for the polling loop: it ends, polls at most once more than it has ticks, and returns nil
  right after an answer that says the resource is established.\<close>

lemma WaitFor_run:
  "\<exists>x t w'. WaitFor ticks interval L (crd_condition_met E L) w = (Done x, t, w')
    \<and> length (filter is_crd_get t) \<le> Suc ticks \<and> (x = Inr () \<longrightarrow> t \<noteq> [] \<and> says_established L (last t))"
proof (induction ticks arbitrary: w)
  case 0
  obtain r y w' where "crd_condition_met E L w = (Done y, [Call crd_get r], w')"
    "y = Inr True \<longrightarrow> says_established L (Call crd_get r)"
    using crd_condition_met_run [of E L w]
    by (cases "crd_condition_met E L w") (auto simp: trace_of_def result_of_def)
  then show ?case by (cases y) (auto simp: tryE_def bnd_def ret_def split: if_splits)
next
  case (Suc n)
  obtain opn w1 where tick: "next_tick L w = (opn, w1)" by (cases "next_tick L w")
  obtain r y w2 where cond: "crd_condition_met E L w1 = (Done y, [Call crd_get r], w2)"
    "y = Inr True \<longrightarrow> says_established L (Call crd_get r)"
    using crd_condition_met_run [of E L w1]
    by (cases "crd_condition_met E L w1") (auto simp: trace_of_def result_of_def)
  from Suc.IH [of w2] obtain x t w' where rest: "WaitFor n interval L (crd_condition_met E L) w2 = (Done x, t, w')"
    "length (filter is_crd_get t) \<le> Suc n" "x = Inr () \<longrightarrow> t \<noteq> [] \<and> says_established L (last t)" by blast
  show ?case
  proof (cases y)
    case (Inl e)
    with tick cond show ?thesis by (simp add: tryE_def bnd_def ret_def ask_def)
  next
    case (Inr ok)
    then show ?thesis
      using tick cond rest by (cases ok; cases opn) (auto simp: tryE_def bnd_def ret_def ask_def)
  qed
qed

lemma waitCRDReady_polls: "waitCRDReady E L = WaitFor 30 1000000000 L (crd_condition_met E L)"
  by (simp add: waitCRDReady_def Poll_def poller_def)

lemma waitCRDReady_run:
  obtains x t w' where "waitCRDReady E L w = (Done x, t, w')" "length (filter is_crd_get t) \<le> 31"
    "x = Inr () \<longrightarrow> t \<noteq> [] \<and> says_established L (last t)"
  using WaitFor_run [of 30 1000000000 L E w] by (fastforce simp: waitCRDReady_polls)

lemma send_global [simp]:
  "send E crd_create = ask (do_request E crd_create) (Call crd_create)"
  "send E namespace_create = ask (do_request E namespace_create) (Call namespace_create)"
  by (simp_all add: send_def request_error_def crd_create_def namespace_create_def global_request_def)

lemma CreateCRD_run:
  "\<exists>x r t w'. CreateCRD E L w = (Done x, Call crd_create r # t, w')
    \<and> length (filter is_crd_get t) \<le> 31
    \<and> (x = Inr () \<longrightarrow> t \<noteq> [] \<and> says_established L (last t))
    \<and> (\<forall>e. typed_error L r = Some e \<longrightarrow> \<not> IsAlreadyExists e \<longrightarrow> x = Inl e \<and> t = [])"
proof -
  obtain r w1 where r: "do_request E crd_create w = (r, w1)" by (cases "do_request E crd_create w")
  obtain x t w' where wait: "waitCRDReady E L w1 = (Done x, t, w')" "length (filter is_crd_get t) \<le> 31"
    "x = Inr () \<longrightarrow> t \<noteq> [] \<and> says_established L (last t)"
    by (rule waitCRDReady_run)
  show ?thesis
  proof (cases "\<exists>e. typed_error L r = Some e \<and> \<not> IsAlreadyExists e")
    case True
    with r show ?thesis by (auto simp: CreateCRD_def bnd_def ask_def ret_def)
  next
    case False
    with r wait show ?thesis
      by (cases "typed_error L r") (auto simp: CreateCRD_def bnd_def ask_def)
  qed
qed

text \<open>
  C29: \<open>CreateCRD\<close> always returns, after one create request and at most 31 polls; it returns nil only
  when the last thing it heard is that the resource is established, and an error of the create
  request other than \<open>AlreadyExists\<close> comes back at once, without a poll.
\<close>

theorem CreateCRD_established:
  "\<exists>x r t w'. CreateCRD E L w = (Done x, Call crd_create r # t, w')
    \<and> length (filter is_crd_get t) \<le> 31
    \<and> (x = Inr () \<longrightarrow> t \<noteq> [] \<and> says_established L (last t))
    \<and> (\<forall>e. typed_error L r = Some e \<longrightarrow> \<not> IsAlreadyExists e \<longrightarrow> x = Inl e \<and> t = [])"
  by (rule CreateCRD_run)

section \<open>The flow of main\<close>

text \<open>The namespace of the domains exists after \<open>main_namespace\<close>: it was created or was there.\<close>

definition namespace_ensured :: "'w launch \<Rightarrow> act list \<Rightarrow> bool" where
  "namespace_ensured L t \<longleftrightarrow> (\<exists>r. Call namespace_create r \<in> set t
     \<and> (\<forall>e. typed_error L r = Some e \<longrightarrow> IsAlreadyExists e))"

lemma main_namespace_run:
  "\<exists>x t w'. main_namespace E L cfg w = (Done x, t, w')
    \<and> (\<forall>cfg'. x = Inr cfg' \<longrightarrow>
        (if pod_namespace_env L = [] then cfg' = cfg \<and> namespace_ensured L t
         else cfg' = cfg\<lparr>PodNamespace := pod_namespace_env L\<rparr>))"
proof (cases "pod_namespace_env L = []")
  case True
  obtain r w1 where r: "do_request E namespace_create w = (r, w1)" by (cases "do_request E namespace_create w")
  with True show ?thesis
    by (cases "typed_error L r")
      (auto simp: main_namespace_def createDefaultNamespace_def go_defs namespace_ensured_def)
next
  case False
  then show ?thesis by (simp add: main_namespace_def ret_def)
qed

definition started :: "'w launch \<Rightarrow> Config \<Rightarrow> Config \<Rightarrow> act list \<Rightarrow> bool" where
  "started L cfg cfg' t \<longleftrightarrow> t \<noteq> [] \<and> says_established L (last t)
     \<and> (if pod_namespace_env L = [] then cfg' = cfg \<and> namespace_ensured L t
        else cfg' = cfg\<lparr>PodNamespace := pod_namespace_env L\<rparr>)"

lemma main_prepare_started:
  assumes "main_prepare E L cfg warned w = (Done (Serving cfg' b), t, w')"
  shows "started L cfg cfg' t \<and> b = warned"
proof -
  obtain x1 t1 w1 where ns: "main_namespace E L cfg w = (Done x1, t1, w1)"
    "\<forall>cfg'. x1 = Inr cfg' \<longrightarrow> (if pod_namespace_env L = [] then cfg' = cfg \<and> namespace_ensured L t1
       else cfg' = cfg\<lparr>PodNamespace := pod_namespace_env L\<rparr>)"
    using main_namespace_run [of E L cfg w] by blast
  obtain x2 r2 t2 w2 where crd: "CreateCRD E L w1 = (Done x2, Call crd_create r2 # t2, w2)"
    "x2 = Inr () \<longrightarrow> t2 \<noteq> [] \<and> says_established L (last t2)"
    using CreateCRD_run [of E L w1] by blast
  from assms ns crd show ?thesis
    by (auto simp: main_prepare_def bnd_def ret_def panic_def started_def namespace_ensured_def
        split: option.splits sum.splits if_splits)
qed

lemma started_prefix: "started L cfg cfg' t \<Longrightarrow> started L cfg cfg' (t1 @ t)"
  by (auto simp: started_def namespace_ensured_def split: if_splits)

lemma main_started:
  assumes "main E L cfg w = (Done (Serving cfg' warned), t, w')"
  shows "started L cfg cfg' t \<and> (\<exists>v. result_of (getKongVersion E) w = Done v \<and> warned = unsupported v)"
proof -
  obtain v t1 w1 t2 w2 where v: "getKongVersion E w = (Done v, t1, w1)"
    and prep: "main_prepare E L cfg (unsupported v) w1 = (Done (Serving cfg' warned), t2, w2)" and t: "t = t1 @ t2"
    using assms by (auto simp: main_def showVersion_def bnd_def ret_def Let_def split: if_splits option.splits prod.splits outcome.splits)
  show ?thesis
    using started_prefix [of L cfg cfg' t2 t1] main_prepare_started [OF prep] by (auto simp: t v result_of_def)
qed

text \<open>
  C23: the controller is only started when the custom resource was said to be established, as the last
  thing that was asked, and when the namespace given by the environment is set or \<open>kong-system\<close>
  was created or existed; the namespace of the configuration changes only by the environment, and
  the version of Kong never keeps the controller from starting.
\<close>

theorem main_serves_ready:
  assumes "main E L cfg w = (Done (Serving cfg' warned), t, w')"
  shows "t \<noteq> [] \<and> says_established L (last t)
    \<and> (if pod_namespace_env L = [] then cfg' = cfg \<and> namespace_ensured L t
       else cfg' = cfg\<lparr>PodNamespace := pod_namespace_env L\<rparr>)
    \<and> (\<exists>v. result_of (getKongVersion E) w = Done v \<and> warned = unsupported v)"
  using main_started [OF assms] by (simp add: started_def)

section \<open>A start\<close>

text \<open>A server that knows the resource, and a Kong of version 0.10.0.\<close>

definition start_answers :: "request \<Rightarrow> rest_result" where
  "start_answers q = (if srv q = KongAdmin then version_reply (JStr ''0.10.0'')
     else if verb_of q = POST then err_answer AlreadyExists 409 else ok_json JNull)"

definition start_launch :: "unit launch" where
  "start_launch =
     \<lparr>print_version = False,
      build = \<lparr>version_var = [], gitCommit_var = [], buildDate_var = [], runtime_Version = [],
        runtime_Compiler = [], runtime_GOOS = [], runtime_GOARCH = []\<rparr>,
      pod_namespace_env = [], kong_client_error = None, cluster_config_error = None,
      ext_client_error = None, kube_client_error = None, decode_object = (\<lambda>_. None),
      conditions_of = (\<lambda>_. [\<lparr>CondType = ''NamesAccepted'', CondStatus = ''True'', CondReason = []\<rparr>,
        \<lparr>CondType = ''Established'', CondStatus = ''True'', CondReason = []\<rparr>]),
      next_tick = (\<lambda>w. (True, w))\<rparr>"

definition start_env :: "unit env" where
  "start_env = static_env start_answers [] [] []"

lemma start_launch_simps [simp]:
  "print_version start_launch = False" "pod_namespace_env start_launch = []"
  "kong_client_error start_launch = None" "cluster_config_error start_launch = None"
  "ext_client_error start_launch = None" "kube_client_error start_launch = None"
  "decode_object start_launch = (\<lambda>_. None)" "next_tick start_launch = (\<lambda>w. (True, w))"
  "crd_ready (conditions_of start_launch b) = Inr True"
  by (simp_all add: start_launch_def)

lemma start_answers_simps [simp]:
  "start_answers root_request = version_reply (JStr ''0.10.0'')"
  "start_answers crd_create = err_answer AlreadyExists 409"
  "start_answers namespace_create = err_answer AlreadyExists 409"
  "start_answers crd_get = ok_json JNull"
  by (simp_all add: start_answers_def root_request_def crd_create_def namespace_create_def crd_get_def global_request_def)

lemma start_sends [simp]:
  "send start_env root_request = ask (do_request start_env root_request) (Call root_request)"
  "send start_env crd_get = ask (do_request start_env crd_get) (Call crd_get)"
  by (simp_all add: send_root send_crd_get)

lemma start_env_request [simp]: "do_request start_env q w = (start_answers q, w)"
  by (simp add: start_env_def)

lemma start_CreateCRD:
  "CreateCRD start_env start_launch () =
    (Done (Inr ()), [Call crd_create (err_answer AlreadyExists 409), Sleep 1000000000, Call crd_get (ok_json JNull)], ())"
  using start_sends
  by (simp add: CreateCRD_def waitCRDReady_polls numeral_eq_Suc crd_condition_met_def go_defs typed_error_def err_answer_def
      ok_json_def)

lemma start_version:
  "getKongVersion start_env () =
    (Done (\<lparr>Major = 0, Minor = 10, Patch = 0\<rparr>, None), [Call root_request (version_reply (JStr ''0.10.0''))], ())"
  by (simp add: getKongVersion_def go_defs version_reply_def payload_of_def json_member_def parse_version_def
      Atoi_def digit_value_def Let_def int64_range_def)

lemma start_main:
  "main start_env start_launch sample_config () =
    (Done (Serving sample_config False),
     [Call root_request (version_reply (JStr ''0.10.0'')), Call namespace_create (err_answer AlreadyExists 409),
      Call crd_create (err_answer AlreadyExists 409), Sleep 1000000000, Call crd_get (ok_json JNull)], ())"
  by (simp add: main_def main_prepare_def main_namespace_def createDefaultNamespace_def start_version start_CreateCRD
      bnd_def ret_def tryE_def ask_def typed_error_def err_answer_def sample_config_def unsupported_def minimalMinorKongVersion_def)

lemma CreateCRD_established_witness:
  "\<exists>r t w'. CreateCRD start_env start_launch () = (Done (Inr ()), Call crd_create r # t, w')
    \<and> length (filter is_crd_get t) \<le> 31 \<and> says_established start_launch (last t)"
  using CreateCRD_established [of start_env start_launch "()"] by (auto simp: start_CreateCRD)

lemma main_serves_ready_witness:
  "\<exists>t w'. main start_env start_launch sample_config () = (Done (Serving sample_config False), t, w')
    \<and> says_established start_launch (last t) \<and> namespace_ensured start_launch t"
  using main_serves_ready [OF start_main] by (simp add: start_main)

end
