(* ===== verification/Monitoring.thy ===== *)
theory Monitoring
  imports Go_Prelude "HOL-Library.AList" "HOL-Library.Word"
begin

text \<open>
  \<open>pkg/controller/monitoring\<close>: the health checks (\<open>healthz.go\<close>) and the monitoring server
  (\<open>serve.go\<close>), over the multiplexer of \<open>net/http\<close>. A check reads the world and may change it.
  The multiplexer is modelled for clean paths and patterns that start with a slash, which are the
  only ones the program registers.
\<close>

section \<open>The multiplexer of net/http\<close>

record http_request =
  URL_Path :: string
  URL_Query :: "string \<rightharpoonup> string list"

record response =
  code :: int
  resp_body :: string

record 'w checker =
  check_Name :: string
  Check :: "http_request \<Rightarrow> 'w \<Rightarrow> go_error option \<times> 'w"

datatype 'w handler =
    RootHealthz "'w checker list"
  | Adapted "http_request \<Rightarrow> 'w \<Rightarrow> go_error option \<times> 'w"
  | Metrics
  | Redirect string

record 'w entry =
  explicit :: bool
  handler_of :: "'w handler"
  pattern :: string

text \<open>What the monitoring server does: it listens until an error, and pauses.\<close>

datatype served = Listened string "go_error option" | Pause int

type_synonym 'w mux = "(string \<times> 'w entry) list"

definition is_explicit :: "'w mux \<Rightarrow> string \<Rightarrow> bool" where
  "is_explicit m p \<longleftrightarrow> (case map_of m p of Some e \<Rightarrow> explicit e | None \<Rightarrow> False)"

text \<open>A pattern \<open>/tree/\<close> also inserts an implicit redirect for \<open>/tree\<close>.\<close>

definition mux_Handle :: "string \<Rightarrow> 'w handler \<Rightarrow> (served, 'w mux, unit) go" where
  "mux_Handle p h m =
     (if p = '''' then (Panic ''http: invalid pattern '', [], m)
      else if is_explicit m p then (Panic (''http: multiple registrations for '' @ p), [], m)
      else
        let m1 = AList.update p \<lparr>explicit = True, handler_of = h, pattern = p\<rparr> m;
            m2 = (if last p = CHR ''/'' \<and> \<not> is_explicit m1 (butlast p)
                  then AList.update (butlast p) \<lparr>explicit = False, handler_of = Redirect p, pattern = p\<rparr> m1
                  else m1)
        in (Done (), [], m2))"

text \<open>An exact pattern wins, then the longest one that ends in a slash and is a prefix.\<close>

definition longest :: "string list \<Rightarrow> string" where
  "longest ps = fold (\<lambda>p best. if length best < length p then p else best) ps ''''"

definition mux_match :: "'w mux \<Rightarrow> string \<Rightarrow> 'w handler option" where
  "mux_match m path =
     (case map_of m path of
        Some e \<Rightarrow> Some (handler_of e)
      | None \<Rightarrow> map_option handler_of (map_of m (longest
          (filter (\<lambda>p. p \<noteq> '''' \<and> last p = CHR ''/'' \<and> take (length p) path = p) (map fst m)))))"

section \<open>Health checks\<close>

definition newline :: string where
  "newline = [char_of (10::nat)]"

text \<open>\<open>http.Error\<close> and a plain write.\<close>

definition http_Error :: "string \<Rightarrow> int \<Rightarrow> response" where
  "http_Error msg c = \<lparr>code = c, resp_body = msg @ newline\<rparr>"

definition written :: "string \<Rightarrow> response" where
  "written s = \<lparr>code = 200, resp_body = s\<rparr>"

definition PingHealthz :: "'w checker" where
  "PingHealthz = \<lparr>check_Name = ''ping'', Check = (\<lambda>r w. (None, w))\<rparr>"

definition NamedCheck :: "string \<Rightarrow> (http_request \<Rightarrow> 'w \<Rightarrow> go_error option \<times> 'w) \<Rightarrow> 'w checker" where
  "NamedCheck n f = \<lparr>check_Name = n, Check = f\<rparr>"

text \<open>\<open>strconv.Quote\<close>, for names that are printable but for the ASCII control characters.\<close>

definition quote_char :: "char \<Rightarrow> string" where
  "quote_char c =
     (let n = (of_char c :: nat); esc = (\<lambda>k. [char_of (92::nat), k]) in
      if n = 34 \<or> n = 92 then esc c
      else if n = 7 then esc CHR ''a'' else if n = 8 then esc CHR ''b'' else if n = 12 then esc CHR ''f''
      else if n = 10 then esc CHR ''n'' else if n = 13 then esc CHR ''r'' else if n = 9 then esc CHR ''t''
      else if n = 11 then esc CHR ''v''
      else if n < 32 \<or> n = 127 then esc CHR ''x'' @ [digit_char (n div 16), digit_char (n mod 16)]
      else [c])"

definition quoted :: "string \<Rightarrow> string" where
  "quoted s = char_of (34::nat) # concat (map quote_char s) @ [char_of (34::nat)]"

definition checkerNames :: "'w checker list \<Rightarrow> string list option" where
  "checkerNames checks = (if 0 < length checks then Some (map (\<lambda>c. quoted (check_Name c)) checks) else None)"

text \<open>The loop of \<open>handleRootHealthz\<close>, with \<open>failed\<close> and \<open>verboseOut\<close>.\<close>

fun root_loop :: "'w checker list \<Rightarrow> http_request \<Rightarrow> bool \<Rightarrow> string \<Rightarrow> 'w \<Rightarrow> (bool \<times> string) \<times> 'w" where
  "root_loop [] r failed out w = ((failed, out), w)"
| "root_loop (c # cs) r failed out w =
     (case Check c r w of
        (Some err, w') \<Rightarrow>
          root_loop cs r True (out @ ''[-]'' @ check_Name c @ '' failed: reason withheld'' @ newline) w'
      | (None, w') \<Rightarrow> root_loop cs r failed (out @ ''[+]'' @ check_Name c @ '' ok'' @ newline) w')"

definition handleRootHealthz :: "'w checker list \<Rightarrow> http_request \<Rightarrow> 'w \<Rightarrow> response \<times> 'w" where
  "handleRootHealthz checks r w =
     (case root_loop checks r False '''' w of
        ((failed, out), w') \<Rightarrow>
          (if failed then http_Error (out @ ''healthz check failed'') 500
           else if URL_Query r ''verbose'' = None then written ''ok''
           else written (out @ ''healthz check passed'' @ newline), w'))"

definition adaptCheckToHandler ::
    "(http_request \<Rightarrow> 'w \<Rightarrow> go_error option \<times> 'w) \<Rightarrow> http_request \<Rightarrow> 'w \<Rightarrow> response \<times> 'w" where
  "adaptCheckToHandler c r w =
     (case c r w of
        (Some err, w') \<Rightarrow> (http_Error (''internal server error: '' @ err_msg err) 500, w')
      | (None, w') \<Rightarrow> (written ''ok'', w'))"

fun install_checks :: "'w checker list \<Rightarrow> (served, 'w mux, unit) go" where
  "install_checks [] = ret ()"
| "install_checks (c # cs) =
     bnd (mux_Handle (''/healthz/'' @ check_Name c) (Adapted (Check c))) (\<lambda>_. install_checks cs)"

definition InstallHandler :: "'w checker list \<Rightarrow> (served, 'w mux, unit) go" where
  "InstallHandler checks0 =
     (let checks = (if length checks0 = 0 then [PingHealthz] else checks0)
      in bnd (mux_Handle ''/healthz'' (RootHealthz checks)) (\<lambda>_. install_checks checks))"

text \<open>The page of the metrics library and that of a redirect are not spelt out.\<close>

datatype answer = Response response | MetricsPage | MovedTo string

definition ServeHTTP :: "'w mux \<Rightarrow> http_request \<Rightarrow> 'w \<Rightarrow> answer \<times> 'w" where
  "ServeHTTP m r w =
     (case mux_match m (URL_Path r) of
        Some (RootHealthz checks) \<Rightarrow> apfst Response (handleRootHealthz checks r w)
      | Some (Adapted c) \<Rightarrow> apfst Response (adaptCheckToHandler c r w)
      | Some Metrics \<Rightarrow> (MetricsPage, w)
      | Some (Redirect url) \<Rightarrow> (MovedTo url, w)
      | None \<Rightarrow> (Response (http_Error ''404 page not found'' 404), w))"

section \<open>The monitoring server\<close>

text \<open>The process: the \<open>sync.Once\<close>, the default multiplexer and the world.\<close>

record 'w process =
  once_done :: bool
  default_mux :: "'w mux"
  net :: 'w

definition on_mux :: "(served, 'w mux, unit) go \<Rightarrow> (served, 'w process, unit) go" where
  "on_mux f p = (case f (default_mux p) of (r, t, m) \<Rightarrow> (r, t, p\<lparr>default_mux := m\<rparr>))"

definition DefaultHealthz :: "'w checker list \<Rightarrow> (served, 'w process, unit) go" where
  "DefaultHealthz checks p =
     (if once_done p then (Done (), [], p) else on_mux (InstallHandler checks) (p\<lparr>once_done := True\<rparr>))"

definition JoinHostPort :: "string \<Rightarrow> string \<Rightarrow> string" where
  "JoinHostPort host port =
     (if CHR '':'' \<in> set host \<or> CHR ''%'' \<in> set host then ''['' @ host @ '']:'' @ port else host @ '':'' @ port)"

text \<open>\<open>http.ListenAndServe\<close> is an argument: it returns when it fails to listen or to accept.\<close>

definition serve :: "(string \<Rightarrow> 'w \<Rightarrow> go_error option \<times> 'w) \<Rightarrow> string \<Rightarrow> 32 word
    \<Rightarrow> (served, 'w process, unit) go" where
  "serve listen bindAddress port =
     (let addr = JoinHostPort bindAddress (show_int (sint port))
      in bnd (ask (\<lambda>p. case listen addr (net p) of (e, w) \<Rightarrow> (e, p\<lparr>net := w\<rparr>)) (Listened addr)) (\<lambda>_. ret ()))"

text \<open>The first \<open>n\<close> passes of \<open>wait.Until\<close> with \<open>wait.NeverStop\<close>; a panic ends the process.\<close>

fun passes :: "nat \<Rightarrow> int \<Rightarrow> (served, 'w process, unit) go \<Rightarrow> (served, 'w process, unit) go" where
  "passes 0 period f = ret ()"
| "passes (Suc n) period f = bnd f (\<lambda>_. bnd (emit (Pause period)) (\<lambda>_. passes n period f))"

definition ListenAndServeHealthz :: "nat \<Rightarrow> (string \<Rightarrow> 'w \<Rightarrow> go_error option \<times> 'w) \<Rightarrow> string \<Rightarrow> 32 word
    \<Rightarrow> (served, 'w process, unit) go" where
  "ListenAndServeHealthz n listen bindAddress port =
     (if 0 < sint port then
        bnd (DefaultHealthz []) (\<lambda>_. passes n 5000000000 (serve listen bindAddress port))
      else ret ())"

definition ListenAndServeAll :: "nat \<Rightarrow> (string \<Rightarrow> 'w \<Rightarrow> go_error option \<times> 'w) \<Rightarrow> string \<Rightarrow> 32 word
    \<Rightarrow> (served, 'w process, unit) go" where
  "ListenAndServeAll n listen bindAddress port =
     (if 0 < sint port then
        bnd (DefaultHealthz []) (\<lambda>_. passes n 5000000000
          (bnd (on_mux (mux_Handle ''/metrics'' Metrics)) (\<lambda>_. serve listen bindAddress port)))
      else ret ())"

section \<open>What is registered\<close>

lemma ping_name [simp]: "check_Name PingHealthz = ''ping''"
  by (simp add: PingHealthz_def)

text \<open>The abstraction of a multiplexer: its explicit patterns.\<close>

definition explicit_at :: "'w mux \<Rightarrow> string \<rightharpoonup> 'w handler" where
  "explicit_at m p =
     (case map_of m p of Some e \<Rightarrow> if explicit e then Some (handler_of e) else None | None \<Rightarrow> None)"

lemma is_explicit_iff: "is_explicit m p \<longleftrightarrow> explicit_at m p \<noteq> None"
  by (simp add: is_explicit_def explicit_at_def split: option.splits)

lemma explicit_at_match: "explicit_at m p = Some h \<Longrightarrow> mux_match m p = Some h"
  by (simp add: explicit_at_def mux_match_def split: option.splits if_splits)

lemma explicit_at_Nil [simp]: "explicit_at [] = Map.empty"
  by (simp add: explicit_at_def fun_eq_iff)

lemma explicit_at_update:
  "explicit_at (AList.update p e m) = (explicit_at m)(p := if explicit e then Some (handler_of e) else None)"
  by (auto simp: explicit_at_def update_conv' fun_eq_iff)

lemma mux_Handle_new:
  assumes "explicit_at m p = None" "p \<noteq> ''''"
  obtains m' where "mux_Handle p h m = (Done (), [], m')" "explicit_at m' = (explicit_at m)(p \<mapsto> h)"
  using assms by (auto simp: mux_Handle_def is_explicit_iff explicit_at_update Let_def fun_upd_idem fun_eq_iff split: if_splits)

lemma mux_Handle_again:
  "explicit_at m p \<noteq> None \<Longrightarrow> p \<noteq> '''' \<Longrightarrow>
    mux_Handle p h m = (Panic (''http: multiple registrations for '' @ p), [], m)"
  by (simp add: mux_Handle_def is_explicit_iff)

definition check_path :: "'w checker \<Rightarrow> string" where
  "check_path c = ''/healthz/'' @ check_Name c"

definition check_routes :: "'w checker list \<Rightarrow> string \<rightharpoonup> 'w handler" where
  "check_routes cs = map_of (map (\<lambda>c. (check_path c, Adapted (Check c))) cs)"

lemma check_routes_simps [simp]:
  "check_routes [] = Map.empty"
  "check_routes (c # cs) = (check_routes cs)(check_path c \<mapsto> Adapted (Check c))"
  "dom (check_routes cs) = check_path ` set cs"
  by (auto simp: check_routes_def dom_map_of_conv_image_fst image_iff)

lemma install_checks_Cons:
  "install_checks (c # cs) = bnd (mux_Handle (check_path c) (Adapted (Check c))) (\<lambda>_. install_checks cs)"
  by (simp add: check_path_def)

lemma install_checks_run:
  "if distinct (map check_path cs) \<and> set (map check_path cs) \<inter> dom (explicit_at m) = {}
   then \<exists>m'. install_checks cs m = (Done (), [], m') \<and> explicit_at m' = explicit_at m ++ check_routes cs
   else \<exists>s m'. install_checks cs m = (Panic s, [], m')"
proof (induction cs arbitrary: m)
  case Nil
  then show ?case by (simp add: ret_def check_routes_def)
next
  case (Cons c cs)
  show ?case
  proof (cases "explicit_at m (check_path c) = None")
    case True
    obtain m1 where m1: "mux_Handle (check_path c) (Adapted (Check c)) m = (Done (), [], m1)"
      "explicit_at m1 = (explicit_at m)(check_path c \<mapsto> Adapted (Check c))"
      by (rule mux_Handle_new [OF True]) (simp_all add: check_path_def)
    have run: "install_checks (c # cs) m = install_checks cs m1"
      unfolding install_checks_Cons using m1(1) by (simp add: bnd_def)
    have fits: "distinct (map check_path (c # cs)) \<and> set (map check_path (c # cs)) \<inter> dom (explicit_at m) = {}
        \<longleftrightarrow> distinct (map check_path cs) \<and> set (map check_path cs) \<inter> dom (explicit_at m1) = {}"
      using True by (auto simp: m1(2))
    have "check_path c \<notin> check_path ` set cs \<Longrightarrow>
        explicit_at m1 ++ check_routes cs = explicit_at m ++ check_routes (c # cs)"
      using m1(2) map_add_upd_left [of "check_path c" "check_routes cs"] by simp
    with Cons.IH [of m1] fits show ?thesis
      unfolding run by (cases "distinct (map check_path cs) \<and> set (map check_path cs) \<inter> dom (explicit_at m1) = {}") auto
  next
    case False
    with mux_Handle_again [OF False] show ?thesis
      unfolding install_checks_Cons by (auto simp: check_path_def bnd_def)
  qed
qed

lemma check_path_inj: "inj_on check_path cs \<longleftrightarrow> inj_on check_Name cs" "check_path c \<noteq> ''/healthz''"
  by (auto simp: inj_on_def check_path_def)

lemma distinct_check_path: "distinct (map check_path cs) \<longleftrightarrow> distinct (map check_Name cs)"
  by (simp add: distinct_map check_path_inj)

definition effective :: "'w checker list \<Rightarrow> 'w checker list" where
  "effective cs = (if cs = [] then [PingHealthz] else cs)"

lemma InstallHandler_run:
  assumes "explicit_at m ''/healthz'' = None"
  shows "if distinct (map check_Name (effective cs)) \<and> set (map check_path (effective cs)) \<inter> dom (explicit_at m) = {}
    then \<exists>m'. InstallHandler cs m = (Done (), [], m')
      \<and> explicit_at m' = (explicit_at m)(''/healthz'' \<mapsto> RootHealthz (effective cs)) ++ check_routes (effective cs)
    else \<exists>s m'. InstallHandler cs m = (Panic s, [], m')"
proof -
  obtain m1 where m1: "mux_Handle ''/healthz'' (RootHealthz (effective cs)) m = (Done (), [], m1)"
    "explicit_at m1 = (explicit_at m)(''/healthz'' \<mapsto> RootHealthz (effective cs))"
    by (rule mux_Handle_new [OF assms]) simp_all
  have "InstallHandler cs = bnd (mux_Handle ''/healthz'' (RootHealthz (effective cs))) (\<lambda>_. install_checks (effective cs))"
    unfolding InstallHandler_def effective_def Let_def by simp
  then have "InstallHandler cs m = install_checks (effective cs) m1"
    using m1(1) by (simp add: bnd_def)
  moreover have inter: "set (map check_path (effective cs)) \<inter> dom (explicit_at m1) = set (map check_path (effective cs)) \<inter> dom (explicit_at m)"
    using check_path_inj(2) m1(2) by auto
  ultimately show ?thesis
    using install_checks_run [of "effective cs" m1, unfolded distinct_check_path inter, unfolded m1(2)] by (simp only:)
qed

lemma InstallHandler_again:
  "explicit_at m ''/healthz'' \<noteq> None \<Longrightarrow> \<exists>s m'. InstallHandler cs m = (Panic s, [], m')"
  using mux_Handle_again [of m "''/healthz''"] by (auto simp: InstallHandler_def Let_def bnd_def)

text \<open>
  Installing the checks in a fresh multiplexer succeeds exactly when their names are distinct;
  then \<open>/healthz\<close> is answered by all of them (by \<open>ping\<close> when there are none), \<open>/healthz/\<close> and a
  name by the check of that name, and a second installation panics.
\<close>

lemma InstallHandler_routes:
  "(distinct (map check_Name (effective cs)) \<longleftrightarrow> fst (InstallHandler cs []) = Done ())
    \<and> (\<forall>m. InstallHandler cs [] = (Done (), [], m) \<longrightarrow>
        mux_match m ''/healthz'' = Some (RootHealthz (effective cs))
        \<and> (\<forall>c \<in> set (effective cs). mux_match m (''/healthz/'' @ check_Name c) = Some (Adapted (Check c)))
        \<and> (\<forall>cs2. \<exists>s m2. InstallHandler cs2 m = (Panic s, [], m2)))"
proof (cases "distinct (map check_Name (effective cs))")
  case True
  then obtain m where m: "InstallHandler cs [] = (Done (), [], m)"
    "explicit_at m = [''/healthz'' \<mapsto> RootHealthz (effective cs)] ++ check_routes (effective cs)"
    using InstallHandler_run [of "[]" cs] by auto
  have root: "explicit_at m ''/healthz'' = Some (RootHealthz (effective cs))"
    using check_path_inj(2) by (subst m(2), subst map_add_dom_app_simps(3)) (auto dest: sym)
  have each: "explicit_at m (check_path c) = Some (Adapted (Check c))" if "c \<in> set (effective cs)" for c
  proof -
    have "check_routes (effective cs) (check_path c) = Some (Adapted (Check c))"
      unfolding check_routes_def using that True
      by (intro map_of_is_SomeI) (auto simp: comp_def distinct_check_path)
    then show ?thesis by (simp add: m(2))
  qed
  show ?thesis
    using True m(1) explicit_at_match [OF root] explicit_at_match [OF each] InstallHandler_again [of m] root
    by (auto simp: check_path_def)
next
  case False
  then show ?thesis using InstallHandler_run [of "[]" cs] by auto
qed

lemma InstallHandler_routes_witness:
  "\<exists>m. InstallHandler [] [] = (Done (), [], m :: unit mux)
    \<and> mux_match m ''/healthz/ping'' = Some (Adapted (Check PingHealthz))"
proof -
  obtain m :: "unit mux" where m: "InstallHandler [] [] = (Done (), [], m)"
    using InstallHandler_run [of "[] :: unit mux" "[]"] by (auto simp: effective_def)
  then have "\<forall>c \<in> set (effective []). mux_match m (''/healthz/'' @ check_Name c) = Some (Adapted (Check c))"
    using InstallHandler_routes [of "[] :: unit checker list"] by blast
  then have "mux_match m (''/healthz/'' @ check_Name PingHealthz) = Some (Adapted (Check PingHealthz))"
    by (simp add: effective_def)
  then have "mux_match m ''/healthz/ping'' = Some (Adapted (Check PingHealthz))" by simp
  with m show ?thesis by (intro exI conjI)
qed

section \<open>What is answered\<close>

text \<open>The names of the checks with their verdicts, in the order in which they run.\<close>

fun outcomes :: "'w checker list \<Rightarrow> http_request \<Rightarrow> 'w \<Rightarrow> (string \<times> bool) list" where
  "outcomes [] r w = []"
| "outcomes (c # cs) r w = (case Check c r w of (e, w') \<Rightarrow> (check_Name c, e = None) # outcomes cs r w')"

fun verdict_line :: "string \<times> bool \<Rightarrow> string" where
  "verdict_line (n, ok) = (if ok then ''[+]'' @ n @ '' ok'' @ newline else ''[-]'' @ n @ '' failed: reason withheld'' @ newline)"

definition root_report :: "(string \<times> bool) list \<Rightarrow> bool \<Rightarrow> response" where
  "root_report os verbose =
     (let lines = concat (map verdict_line os) in
      if list_all snd os then (if verbose then written (lines @ ''healthz check passed'' @ newline) else written ''ok'')
      else http_Error (lines @ ''healthz check failed'') 500)"

lemma root_loop_outcomes:
  "fst (root_loop cs r failed out w) =
    (failed \<or> \<not> list_all snd (outcomes cs r w), out @ concat (map verdict_line (outcomes cs r w)))"
  by (induction cs arbitrary: failed out w) (auto split: prod.splits option.splits)

text \<open>
  The answer of \<open>/healthz\<close> is a function of the names of the checks, of which of them fail and
  of whether \<open>verbose\<close> is asked for: the text of an error never reaches it; it is 200 exactly when
  every check passes.
\<close>

lemma handleRootHealthz_report:
  "fst (handleRootHealthz cs r w) = root_report (outcomes cs r w) (URL_Query r ''verbose'' \<noteq> None)
    \<and> (code (fst (handleRootHealthz cs r w)) = 200 \<longleftrightarrow> list_all snd (outcomes cs r w))"
  using root_loop_outcomes [of cs r False "[]" w]
  by (cases "root_loop cs r False [] w") (auto simp: handleRootHealthz_def root_report_def Let_def http_Error_def written_def)

section \<open>The retry of the monitoring server\<close>

definition fresh :: "'w \<Rightarrow> 'w process" where
  "fresh w = \<lparr>once_done = False, default_mux = [], net = w\<rparr>"

lemma DefaultHealthz_fresh:
  fixes w :: 'w
  obtains m where "DefaultHealthz [] (fresh w) = (Done (), [], \<lparr>once_done = True, default_mux = m, net = w\<rparr>)"
    "explicit_at m ''/metrics'' = None"
proof -
  obtain m :: "'w mux" where m: "InstallHandler [] [] = (Done (), [], m)"
    "explicit_at m = [''/healthz'' \<mapsto> RootHealthz (effective [])] ++ check_routes (effective [])"
    using InstallHandler_run [of "[] :: 'w mux" "[]"] by (auto simp: effective_def)
  then have "explicit_at m ''/metrics'' = None" by (simp add: effective_def check_path_def PingHealthz_def)
  with m(1) show ?thesis by (intro that [of m]) (simp_all add: DefaultHealthz_def fresh_def on_mux_def)
qed

lemma serve_run:
  "\<exists>t p'. serve listen b port p = (Done (), t, p') \<and> default_mux p' = default_mux p"
  by (auto simp: serve_def Let_def go_defs split: prod.splits)

lemma passes_serve: "\<exists>t p'. passes n k (serve listen b port) p = (Done (), t, p')"
proof (induction n arbitrary: p)
  case 0
  then show ?case by (simp add: ret_def)
next
  case (Suc n)
  obtain t p' where "serve listen b port p = (Done (), t, p')" using serve_run by blast
  moreover obtain t2 p2 where "passes n k (serve listen b port) p' = (Done (), t2, p2)" using Suc.IH by blast
  ultimately show ?case by (simp add: bnd_def emit_def)
qed

text \<open>
  C35: when \<open>http.ListenAndServe\<close> returns, the second pass of the loop of \<open>ListenAndServeAll\<close>
  registers \<open>/metrics\<close> again and panics, whatever the reason of the return; the loop of
  \<open>ListenAndServeHealthz\<close> goes on for ever.
\<close>

theorem monitoring_retry_panics:
  assumes "0 < sint port"
  shows "result_of (ListenAndServeAll 1 listen b port) (fresh w) = Done ()
    \<and> result_of (ListenAndServeAll (n + 2) listen b port) (fresh w) = Panic ''http: multiple registrations for /metrics''
    \<and> result_of (ListenAndServeHealthz n listen b port) (fresh w) = Done ()"
proof -
  obtain m where m: "DefaultHealthz [] (fresh w) = (Done (), [], \<lparr>once_done = True, default_mux = m, net = w\<rparr>)"
    "explicit_at m ''/metrics'' = None" by (rule DefaultHealthz_fresh)
  obtain m1 where m1: "mux_Handle ''/metrics'' Metrics m = (Done (), [], m1)"
    "explicit_at m1 = (explicit_at m)(''/metrics'' \<mapsto> Metrics)"
    by (rule mux_Handle_new [OF m(2)]) simp_all
  obtain t p' where s: "serve listen b port \<lparr>once_done = True, default_mux = m1, net = w\<rparr> = (Done (), t, p')"
    "default_mux p' = m1"
    using serve_run [of listen b port "\<lparr>once_done = True, default_mux = m1, net = w\<rparr>"] by auto
  have again: "mux_Handle ''/metrics'' Metrics m1 = (Panic ''http: multiple registrations for /metrics'', [], m1)"
    using mux_Handle_again [of m1 "''/metrics''"] m1(2) by simp
  obtain t3 p3 where "passes n 5000000000 (serve listen b port) \<lparr>once_done = True, default_mux = m, net = w\<rparr> = (Done (), t3, p3)"
    using passes_serve by blast
  with assms m m1 s again show ?thesis
    by (simp add: ListenAndServeAll_def ListenAndServeHealthz_def result_of_def bnd_def on_mux_def emit_def ret_def numeral_2_eq_2)
qed

lemma monitoring_retry_panics_witness:
  "result_of (ListenAndServeAll 2 (\<lambda>a w. (Some (PlainErr ''address already in use''), w)) ''0.0.0.0'' 20251) (fresh ())
    = Panic ''http: multiple registrations for /metrics''"
  using monitoring_retry_panics [of 20251 "\<lambda>a w. (Some (PlainErr ''address already in use''), w)" "''0.0.0.0''" "()" 0]
  by (simp add: numeral_2_eq_2)

end
