(* ===== verification/Queue_Metrics.thy ===== *)
theory Queue_Metrics
  imports Go_Prelude Work_Queue "HOL-Library.Word"
begin

unbundle bit_operations_syntax

text \<open>
  \<open>pkg/controller/metrics.go\<close>: the metrics of the controller and those it gives its work queues,
  with the registration they go through (the vendored \<open>prometheus\<close> client: the names, the FNV-1a
  identifiers and the registry) and the metrics of a queue (\<open>workqueue/metrics.go\<close>).
\<close>

section \<open>Identifiers\<close>

definition offset64 :: "64 word" where "offset64 = 14695981039346656037"

definition prime64 :: "64 word" where "prime64 = 1099511628211"

definition hashAddByte :: "64 word \<Rightarrow> 8 word \<Rightarrow> 64 word" where
  "hashAddByte h b = (h XOR ucast b) * prime64"

fun hashAdd :: "64 word \<Rightarrow> string \<Rightarrow> 64 word" where
  "hashAdd h [] = h"
| "hashAdd h (c # s) = hashAdd (hashAddByte h (of_char c)) s"

definition separatorByte :: "8 word" where "separatorByte = 255"

section \<open>Metrics\<close>

record Opts =
  Opts_Namespace :: string
  Subsystem :: string
  Opts_Name :: string
  Help :: string

datatype metric = Gauge Opts | Counter Opts | Summary Opts

fun opts_of :: "metric \<Rightarrow> Opts" where
  "opts_of (Gauge o1) = o1" | "opts_of (Counter o1) = o1" | "opts_of (Summary o1) = o1"

definition BuildFQName :: "string \<Rightarrow> string \<Rightarrow> string \<Rightarrow> string" where
  "BuildFQName ns sub name =
     (if name = '''' then ''''
      else if ns \<noteq> '''' \<and> sub \<noteq> '''' then join_with CHR ''_'' [ns, sub, name]
      else if ns \<noteq> '''' then join_with CHR ''_'' [ns, name]
      else if sub \<noteq> '''' then join_with CHR ''_'' [sub, name]
      else name)"

definition name_start :: "char \<Rightarrow> bool" where
  "name_start c \<longleftrightarrow> (let n = (of_char c :: nat) in (97 \<le> n \<and> n \<le> 122) \<or> (65 \<le> n \<and> n \<le> 90) \<or> n = 95)"

definition name_char :: "char \<Rightarrow> bool" where
  "name_char c \<longleftrightarrow> (let n = (of_char c :: nat) in name_start c \<or> (48 \<le> n \<and> n \<le> 57) \<or> n = 58)"

text \<open>\<open>metricNameRE\<close>.\<close>

definition metric_name :: "string \<Rightarrow> bool" where
  "metric_name s \<longleftrightarrow> s \<noteq> '''' \<and> name_start (hd s) \<and> list_all name_char (tl s)"

record desc =
  fqName :: string
  desc_help :: string
  desc_id :: "64 word"
  dimHash :: "64 word"
  desc_err :: bool

text \<open>\<open>NewDesc\<close> without labels, which no metric of the program has.\<close>

definition NewDesc :: "string \<Rightarrow> string \<Rightarrow> desc" where
  "NewDesc n h =
     (if h = '''' \<or> \<not> metric_name n then \<lparr>fqName = n, desc_help = h, desc_id = 0, dimHash = 0, desc_err = True\<rparr>
      else \<lparr>fqName = n, desc_help = h, desc_id = hashAddByte (hashAdd offset64 n) separatorByte,
            dimHash = hashAddByte (hashAdd offset64 h) separatorByte, desc_err = False\<rparr>)"

definition desc_of :: "metric \<Rightarrow> desc" where
  "desc_of m = (let o1 = opts_of m in NewDesc (BuildFQName (Opts_Namespace o1) (Subsystem o1) (Opts_Name o1)) (Help o1))"

section \<open>The registry\<close>

record registry =
  collectorsByID :: "64 word set"
  descIDs :: "64 word set"
  dimHashesByName :: "string \<rightharpoonup> 64 word"

text \<open>\<open>Register\<close> for a collector with one descriptor: its identifier is that of the descriptor.\<close>

definition Register :: "metric \<Rightarrow> registry \<Rightarrow> (go_error + unit) \<times> registry" where
  "Register m reg =
     (let d = desc_of m in
      if desc_err d then (Inl (PlainErr ''descriptor is invalid''), reg)
      else if dimHashesByName reg (fqName d) \<notin> {None, Some (dimHash d)}
        then (Inl (PlainErr ''a previously registered descriptor has different label names or a different help string''), reg)
      else if desc_id d \<in> collectorsByID reg then (Inl (PlainErr ''duplicate metrics collector registration attempted''), reg)
      else if desc_id d \<in> descIDs reg then (Inl (PlainErr ''descriptor already exists''), reg)
      else (Inr (), \<lparr>collectorsByID = insert (desc_id d) (collectorsByID reg), descIDs = insert (desc_id d) (descIDs reg),
              dimHashesByName = (dimHashesByName reg)(fqName d \<mapsto> dimHash d)\<rparr>))"

text \<open>\<open>MustRegister\<close> panics on an error.\<close>

definition MustRegister :: "metric \<Rightarrow> ('e, registry, unit) go" where
  "MustRegister m reg =
     (case Register m reg of (Inl e, reg') \<Rightarrow> (Panic (err_msg e), [], reg') | (Inr _, reg') \<Rightarrow> (Done (), [], reg'))"

section \<open>The metrics of the controller\<close>

definition apisTotal :: metric where
  "apisTotal = Gauge \<lparr>Opts_Namespace = ''kong_ingress'', Subsystem = ''controller'', Opts_Name = ''total_kong_apis'',
     Help = ''Total number of Kong apis''\<rparr>"

definition apisFailed :: metric where
  "apisFailed = Counter \<lparr>Opts_Namespace = ''kong_ingress'', Subsystem = ''controller'', Opts_Name = ''apis_failed'',
     Help = ''Total number of requests that failed on creating a new api on Kong''\<rparr>"

definition init_metrics :: "('e, registry, unit) go" where
  "init_metrics = bnd (MustRegister apisTotal) (\<lambda>_. MustRegister apisFailed)"

definition NewDepthMetric :: "string \<Rightarrow> metric" where
  "NewDepthMetric name = Gauge \<lparr>Opts_Namespace = '''', Subsystem = name, Opts_Name = ''depth'',
     Help = ''Current depth of workqueue: '' @ name\<rparr>"

definition NewAddsMetric :: "string \<Rightarrow> metric" where
  "NewAddsMetric name = Counter \<lparr>Opts_Namespace = '''', Subsystem = name, Opts_Name = ''adds'',
     Help = ''Total number of adds handled by workqueue: '' @ name\<rparr>"

definition NewLatencyMetric :: "string \<Rightarrow> metric" where
  "NewLatencyMetric name = Summary \<lparr>Opts_Namespace = '''', Subsystem = name, Opts_Name = ''queue_latency'',
     Help = ''How long an item stays in workqueue'' @ name @ '' before being requested.''\<rparr>"

definition NewWorkDurationMetric :: "string \<Rightarrow> metric" where
  "NewWorkDurationMetric name = Summary \<lparr>Opts_Namespace = '''', Subsystem = name, Opts_Name = ''work_duration'',
     Help = ''How long processing an item from workqueue'' @ name @ '' takes.''\<rparr>"

definition NewRetriesMetric :: "string \<Rightarrow> metric" where
  "NewRetriesMetric name = Counter \<lparr>Opts_Namespace = '''', Subsystem = name, Opts_Name = ''retries'',
     Help = ''Total number of retries handled by workqueue: '' @ name\<rparr>"

text \<open>
  The provider registers what it makes and drops the error; \<open>SetProvider\<close> has put it in place before
  the first queue is made. A queue without a name has no metrics.
\<close>

definition queue_metrics :: "string \<Rightarrow> metric list" where
  "queue_metrics name =
     (if name = '''' then []
      else [NewDepthMetric name, NewAddsMetric name, NewLatencyMetric name, NewWorkDurationMetric name,
            NewRetriesMetric name])"

fun register_all :: "metric list \<Rightarrow> registry \<Rightarrow> (go_error + unit) list \<times> registry" where
  "register_all [] reg = ([], reg)"
| "register_all (m # ms) reg =
     (case Register m reg of (e, reg1) \<Rightarrow> (case register_all ms reg1 of (es, reg2) \<Rightarrow> (e # es, reg2)))"

definition queue_names :: "string list" where
  "queue_names = [''kong_ingress_queue'', ''kong_domain_queue'', ''kong_service_queue'']"

definition controller_metrics :: "metric list" where
  "controller_metrics = apisTotal # apisFailed # concat (map queue_metrics queue_names)"

section \<open>The names of the controller do not clash\<close>

text \<open>The identifiers on integers, where they are computed.\<close>

fun fnv :: "int \<Rightarrow> string \<Rightarrow> int" where
  "fnv h [] = h"
| "fnv h (c # s) = fnv (((h XOR of_char c) * 1099511628211) mod 18446744073709551616) s"

lemma uint_hashAddByte: "uint (hashAddByte h b) = ((uint h XOR uint b) * 1099511628211) mod 18446744073709551616"
  by (simp add: hashAddByte_def prime64_def uint_word_ariths uint_xor uint_up_ucast is_up)

lemma uint_of_char: "uint (of_char c :: 8 word) = of_char c"
  by (cases c) (simp add: of_char_def)

lemma uint_hashAdd: "uint (hashAdd h s) = fnv (uint h) s"
  by (induction s arbitrary: h) (simp_all add: uint_hashAddByte uint_of_char)

lemma desc_id_fnv:
  "metric_name n \<Longrightarrow> h \<noteq> '''' \<Longrightarrow> uint (desc_id (NewDesc n h)) = fnv (fnv 14695981039346656037 n) [CHR 0xFF]"
  by (simp add: NewDesc_def uint_hashAddByte uint_hashAdd offset64_def separatorByte_def)

definition metric_fq :: "metric \<Rightarrow> string" where
  "metric_fq m = fqName (desc_of m)"

definition metric_id :: "metric \<Rightarrow> 64 word" where
  "metric_id m = desc_id (desc_of m)"

lemma queue_metrics_nonempty: "queue_metrics (c # name) =
  [NewDepthMetric (c # name), NewAddsMetric (c # name), NewLatencyMetric (c # name), NewWorkDurationMetric (c # name),
   NewRetriesMetric (c # name)]"
  by (simp add: queue_metrics_def)

lemma controller_metrics_list:
  "controller_metrics = [apisTotal, apisFailed,
     NewDepthMetric ''kong_ingress_queue'', NewAddsMetric ''kong_ingress_queue'', NewLatencyMetric ''kong_ingress_queue'',
     NewWorkDurationMetric ''kong_ingress_queue'', NewRetriesMetric ''kong_ingress_queue'',
     NewDepthMetric ''kong_domain_queue'', NewAddsMetric ''kong_domain_queue'', NewLatencyMetric ''kong_domain_queue'',
     NewWorkDurationMetric ''kong_domain_queue'', NewRetriesMetric ''kong_domain_queue'',
     NewDepthMetric ''kong_service_queue'', NewAddsMetric ''kong_service_queue'', NewLatencyMetric ''kong_service_queue'',
     NewWorkDurationMetric ''kong_service_queue'', NewRetriesMetric ''kong_service_queue'']"
  by (simp add: controller_metrics_def queue_names_def queue_metrics_nonempty)

lemmas metric_defs = apisTotal_def apisFailed_def NewDepthMetric_def NewAddsMetric_def NewLatencyMetric_def
  NewWorkDurationMetric_def NewRetriesMetric_def

text \<open>A name all of whose characters may start a name.\<close>

definition plain_name :: "string \<Rightarrow> bool" where
  "plain_name s \<longleftrightarrow> s \<noteq> [] \<and> list_all name_start s"

lemma plain_names:
  "plain_name ''kong_ingress_controller''" "plain_name ''kong_ingress_queue''" "plain_name ''kong_domain_queue''"
  "plain_name ''kong_service_queue''" "plain_name ''total_kong_apis''" "plain_name ''apis_failed''" "plain_name ''depth''"
  "plain_name ''adds''" "plain_name ''queue_latency''" "plain_name ''work_duration''" "plain_name ''retries''"
  by (simp_all add: plain_name_def name_start_def)

lemma name_char_start: "name_start c \<Longrightarrow> name_char c"
  by (simp add: name_char_def Let_def)

lemma name_char_underscore: "name_char CHR ''_''"
  by (simp add: name_char_def name_start_def)

lemma metric_name_join: "plain_name s \<Longrightarrow> plain_name t \<Longrightarrow> metric_name (s @ CHR ''_'' # t)"
  by (cases s) (auto simp: plain_name_def metric_name_def list_all_iff name_char_start name_char_underscore)

lemma queue_metric_valid:
  "plain_name name \<Longrightarrow> m \<in> set (queue_metrics name) \<Longrightarrow> \<not> desc_err (desc_of m)"
  using plain_names(7-11) metric_name_join [of name]
  by (auto simp: queue_metrics_def metric_defs desc_of_def BuildFQName_def NewDesc_def plain_name_def split: if_splits)

lemma controller_metric_valid: "m \<in> set controller_metrics \<Longrightarrow> \<not> desc_err (desc_of m)"
proof -
  have "\<not> desc_err (desc_of apisTotal)" "\<not> desc_err (desc_of apisFailed)"
    using metric_name_join [OF plain_names(1) plain_names(5)] metric_name_join [OF plain_names(1) plain_names(6)]
    by (simp_all add: metric_defs desc_of_def BuildFQName_def NewDesc_def)
  then show "m \<in> set controller_metrics \<Longrightarrow> ?thesis"
    using queue_metric_valid plain_names(2-4) by (auto simp: controller_metrics_def queue_names_def)
qed

section \<open>Registration\<close>

definition known :: "registry \<Rightarrow> metric \<Rightarrow> bool" where
  "known reg m \<longleftrightarrow> metric_id m \<in> collectorsByID reg \<union> descIDs reg \<or> metric_fq m \<in> dom (dimHashesByName reg)"

lemma Register_new:
  assumes "\<not> desc_err (desc_of m)" "\<not> known reg m"
  obtains reg' where "Register m reg = (Inr (), reg')"
    "\<And>m'. known reg' m' \<longleftrightarrow> known reg m' \<or> metric_id m' = metric_id m \<or> metric_fq m' = metric_fq m"
proof -
  let ?d = "desc_of m"
  let ?reg = "\<lparr>collectorsByID = insert (desc_id ?d) (collectorsByID reg), descIDs = insert (desc_id ?d) (descIDs reg),
    dimHashesByName = (dimHashesByName reg)(fqName ?d \<mapsto> dimHash ?d)\<rparr>"
  have "Register m reg = (Inr (), ?reg)"
    using assms by (simp add: Register_def known_def metric_id_def metric_fq_def Let_def domIff)
  moreover have "known ?reg m' \<longleftrightarrow> known reg m' \<or> metric_id m' = metric_id m \<or> metric_fq m' = metric_fq m" for m'
    by (auto simp: known_def metric_id_def metric_fq_def)
  ultimately show ?thesis by (rule that)
qed

lemma register_all_new:
  assumes "\<forall>m \<in> set ms. \<not> desc_err (desc_of m) \<and> \<not> known reg m"
    and "distinct (map metric_id ms)" "distinct (map metric_fq ms)"
  shows "fst (register_all ms reg) = replicate (length ms) (Inr ())"
  using assms
proof (induction ms arbitrary: reg)
  case (Cons m ms)
  obtain reg' where reg': "Register m reg = (Inr (), reg')"
    "\<And>m'. known reg' m' \<longleftrightarrow> known reg m' \<or> metric_id m' = metric_id m \<or> metric_fq m' = metric_fq m"
    by (rule Register_new [of m reg]) (use Cons.prems in auto)
  have "fst (register_all ms reg') = replicate (length ms) (Inr ())"
  proof (rule Cons.IH)
    show "\<forall>m' \<in> set ms. \<not> desc_err (desc_of m') \<and> \<not> known reg' m'"
      using Cons.prems reg'(2) by (metis distinct.simps(2) image_eqI list.set_intros(2) list.simps(9) list.set_map)
  qed (use Cons.prems in auto)
  with reg'(1) show ?case by (auto split: prod.splits)
qed simp

lemma metric_id_fq: "\<not> desc_err (desc_of m) \<Longrightarrow> uint (metric_id m) = fnv (fnv 14695981039346656037 (metric_fq m)) [CHR 0xFF]"
  using desc_id_fnv by (auto simp: metric_id_def metric_fq_def desc_of_def NewDesc_def Let_def split: if_splits)

lemma metric_fq_eq:
  "metric_fq m = BuildFQName (Opts_Namespace (opts_of m)) (Subsystem (opts_of m)) (Opts_Name (opts_of m))"
  by (simp add: metric_fq_def desc_of_def NewDesc_def Let_def)

lemma controller_fqs:
  "map metric_fq controller_metrics =
    [''kong_ingress_controller_total_kong_apis'', ''kong_ingress_controller_apis_failed'',
     ''kong_ingress_queue_depth'', ''kong_ingress_queue_adds'', ''kong_ingress_queue_queue_latency'',
     ''kong_ingress_queue_work_duration'', ''kong_ingress_queue_retries'',
     ''kong_domain_queue_depth'', ''kong_domain_queue_adds'', ''kong_domain_queue_queue_latency'',
     ''kong_domain_queue_work_duration'', ''kong_domain_queue_retries'',
     ''kong_service_queue_depth'', ''kong_service_queue_adds'', ''kong_service_queue_queue_latency'',
     ''kong_service_queue_work_duration'', ''kong_service_queue_retries'']"
  by (simp add: controller_metrics_list metric_defs metric_fq_eq BuildFQName_def)

lemma fnv_names:
  "fnv (fnv 14695981039346656037 ''kong_ingress_controller_total_kong_apis'') [CHR 0xFF] = 4037335836547391869"
  "fnv (fnv 14695981039346656037 ''kong_ingress_controller_apis_failed'') [CHR 0xFF] = 17402675403577625826"
  "fnv (fnv 14695981039346656037 ''kong_ingress_queue_depth'') [CHR 0xFF] = 3795682269148523787"
  "fnv (fnv 14695981039346656037 ''kong_ingress_queue_adds'') [CHR 0xFF] = 1705234713797954330"
  "fnv (fnv 14695981039346656037 ''kong_ingress_queue_queue_latency'') [CHR 0xFF] = 5251762077089024062"
  "fnv (fnv 14695981039346656037 ''kong_ingress_queue_work_duration'') [CHR 0xFF] = 5062073924499794882"
  "fnv (fnv 14695981039346656037 ''kong_ingress_queue_retries'') [CHR 0xFF] = 14541773642861160938"
  "fnv (fnv 14695981039346656037 ''kong_domain_queue_depth'') [CHR 0xFF] = 16723244131204006364"
  "fnv (fnv 14695981039346656037 ''kong_domain_queue_adds'') [CHR 0xFF] = 762721593962151875"
  "fnv (fnv 14695981039346656037 ''kong_domain_queue_queue_latency'') [CHR 0xFF] = 12049754539826558385"
  "fnv (fnv 14695981039346656037 ''kong_domain_queue_work_duration'') [CHR 0xFF] = 1790543941201317813"
  "fnv (fnv 14695981039346656037 ''kong_domain_queue_retries'') [CHR 0xFF] = 9254731665818526353"
  "fnv (fnv 14695981039346656037 ''kong_service_queue_depth'') [CHR 0xFF] = 7614399044783726095"
  "fnv (fnv 14695981039346656037 ''kong_service_queue_adds'') [CHR 0xFF] = 4052438980522288622"
  "fnv (fnv 14695981039346656037 ''kong_service_queue_queue_latency'') [CHR 0xFF] = 18040946929220568658"
  "fnv (fnv 14695981039346656037 ''kong_service_queue_work_duration'') [CHR 0xFF] = 14330278495517141230"
  "fnv (fnv 14695981039346656037 ''kong_service_queue_retries'') [CHR 0xFF] = 17439176050264130654"
  by simp_all

lemma controller_ids:
  "map (uint \<circ> metric_id) controller_metrics =
    [4037335836547391869, 17402675403577625826, 3795682269148523787, 1705234713797954330,
     5251762077089024062, 5062073924499794882, 14541773642861160938, 16723244131204006364,
     762721593962151875, 12049754539826558385, 1790543941201317813, 9254731665818526353,
     7614399044783726095, 4052438980522288622, 18040946929220568658, 14330278495517141230,
     17439176050264130654]"
proof -
  have "map (uint \<circ> metric_id) controller_metrics
      = map (\<lambda>n. fnv (fnv 14695981039346656037 n) [CHR 0xFF]) (map metric_fq controller_metrics)"
    unfolding map_map using metric_id_fq controller_metric_valid by (intro map_cong) auto
  then show ?thesis unfolding controller_fqs by (simp only: list.map fnv_names)
qed

lemma controller_distinct:
  "distinct (map metric_id controller_metrics)" "distinct (map metric_fq controller_metrics)"
proof -
  have "distinct (map (uint \<circ> metric_id) controller_metrics)" unfolding controller_ids by simp
  then show ids: "distinct (map metric_id controller_metrics)" by (simp add: distinct_map inj_on_def)
  have "inj_on metric_fq (set controller_metrics)"
  proof (rule inj_onI)
    fix m m' assume m: "m \<in> set controller_metrics" "m' \<in> set controller_metrics" "metric_fq m = metric_fq m'"
    then have "uint (metric_id m) = uint (metric_id m')" using metric_id_fq controller_metric_valid by metis
    then have "metric_id m = metric_id m'" by (simp add: word_uint_eq_iff)
    with m(1,2) ids show "m = m'" by (auto simp: distinct_map inj_on_def)
  qed
  with ids show "distinct (map metric_fq controller_metrics)" by (simp add: distinct_map)
qed

lemma init_two:
  "fst (register_all (m1 # m2 # ms) reg) = Inr () # Inr () # es \<Longrightarrow>
    result_of (bnd (MustRegister m1) (\<lambda>_. MustRegister m2)) reg = Done ()"
  by (auto simp: MustRegister_def bnd_def result_of_def split: prod.splits sum.splits)

text \<open>
  The 2 metrics of the controller and the 15 of its queues have valid names and different
  identifiers, so that in any registry that knows none of them \<open>init\<close> does not panic and no
  registration whose error the metrics provider drops fails.
\<close>

lemma controller_metrics_register:
  assumes "\<forall>m \<in> set controller_metrics. \<not> known reg m"
  shows "fst (register_all controller_metrics reg) = replicate 17 (Inr ()) \<and> result_of init_metrics reg = Done ()"
proof -
  have len: "length controller_metrics = 17" by (simp add: controller_metrics_list)
  have all: "fst (register_all controller_metrics reg) = replicate 17 (Inr ())"
    unfolding len [symmetric] using assms controller_metric_valid
    by (intro register_all_new controller_distinct) auto
  have "replicate 17 (Inr ()) = (Inr () # Inr () # replicate 15 (Inr ()) :: (go_error + unit) list)"
    by (simp add: numeral_eq_Suc)
  with all have "result_of init_metrics reg = Done ()"
    unfolding init_metrics_def controller_metrics_def by (metis init_two)
  with all show ?thesis ..
qed

definition empty_registry :: registry where
  "empty_registry = \<lparr>collectorsByID = {}, descIDs = {}, dimHashesByName = Map.empty\<rparr>"

lemma controller_metrics_register_witness:
  "fst (register_all controller_metrics empty_registry) = replicate 17 (Inr ())"
proof -
  have "\<forall>m \<in> set controller_metrics. \<not> known empty_registry m" by (simp add: known_def empty_registry_def)
  then show ?thesis using controller_metrics_register [of empty_registry] by blast
qed

section \<open>The metrics of a queue\<close>

text \<open>
  \<open>defaultQueueMetrics\<close> with the queue whose methods call it; the observations of the two summaries
  are lists, the last one first. Times are integers of nanoseconds.
\<close>

record 'k metered =
  mq :: "'k wqueue"
  depth :: int
  adds :: nat
  latency :: "int list"
  workDuration :: "int list"
  addTimes :: "'k \<rightharpoonup> int"
  processingStartTimes :: "'k \<rightharpoonup> int"

definition metered_new :: "'k metered" where
  "metered_new = \<lparr>mq = wq_new, depth = 0, adds = 0, latency = [], workDuration = [], addTimes = Map.empty,
     processingStartTimes = Map.empty\<rparr>"

definition sinceInMicroseconds :: "int \<Rightarrow> int \<Rightarrow> int" where
  "sinceInMicroseconds now start = (now - start) div 1000"

definition metrics_add :: "'k \<Rightarrow> int \<Rightarrow> 'k metered \<Rightarrow> 'k metered" where
  "metrics_add item now m =
     (let m1 = m\<lparr>adds := adds m + 1, depth := depth m + 1\<rparr>
      in if addTimes m1 item = None then m1\<lparr>addTimes := (addTimes m1)(item \<mapsto> now)\<rparr> else m1)"

definition metrics_get :: "'k \<Rightarrow> int \<Rightarrow> 'k metered \<Rightarrow> 'k metered" where
  "metrics_get item now m =
     (let m1 = m\<lparr>depth := depth m - 1, processingStartTimes := (processingStartTimes m)(item \<mapsto> now)\<rparr>
      in case addTimes m1 item of
           Some startTime \<Rightarrow> m1\<lparr>latency := sinceInMicroseconds now startTime # latency m1,
             addTimes := (addTimes m1)(item := None)\<rparr>
         | None \<Rightarrow> m1)"

definition metrics_done :: "'k \<Rightarrow> int \<Rightarrow> 'k metered \<Rightarrow> 'k metered" where
  "metrics_done item now m =
     (case processingStartTimes m item of
        Some startTime \<Rightarrow> m\<lparr>workDuration := sinceInMicroseconds now startTime # workDuration m,
          processingStartTimes := (processingStartTimes m)(item := None)\<rparr>
      | None \<Rightarrow> m)"

definition metered_add :: "'k \<Rightarrow> int \<Rightarrow> 'k metered \<Rightarrow> 'k metered" where
  "metered_add item now m =
     (if wq_shuttingDown (mq m) \<or> item \<in> wq_dirty (mq m) then m
      else (metrics_add item now m)\<lparr>mq := wq_add item (mq m)\<rparr>)"

definition metered_get :: "int \<Rightarrow> 'k metered \<Rightarrow> 'k got \<times> 'k metered" where
  "metered_get now m =
     (case wq_get (mq m) of
        (Item item, q) \<Rightarrow> (Item item, (metrics_get item now m)\<lparr>mq := q\<rparr>)
      | (other, q) \<Rightarrow> (other, m))"

definition metered_done :: "'k \<Rightarrow> int \<Rightarrow> 'k metered \<Rightarrow> 'k metered" where
  "metered_done item now m = (metrics_done item now m)\<lparr>mq := wq_done item (mq m)\<rparr>"

text \<open>The uses of a queue: \<open>Done\<close> is only called for a key that is being processed.\<close>

inductive metered_run :: "'k metered \<Rightarrow> bool" where
  new: "metered_run metered_new"
| add: "metered_run m \<Longrightarrow> metered_run (metered_add k t m)"
| get: "metered_run m \<Longrightarrow> metered_run (snd (metered_get t m))"
| finish: "metered_run m \<Longrightarrow> k \<in> wq_processing (mq m) \<Longrightarrow> metered_run (metered_done k t m)"
| shutdown: "metered_run m \<Longrightarrow> metered_run (m\<lparr>mq := wq_shutdown (mq m)\<rparr>)"

definition metered_inv :: "'k metered \<Rightarrow> bool" where
  "metered_inv m \<longleftrightarrow> wq_inv (mq m) \<and> finite (wq_dirty (mq m)) \<and> finite (wq_processing (mq m))
     \<and> depth m = int (card (wq_dirty (mq m))) \<and> dom (addTimes m) = wq_dirty (mq m)
     \<and> dom (processingStartTimes m) = wq_processing (mq m)
     \<and> adds m = length (latency m) + card (wq_dirty (mq m))
     \<and> length (latency m) = length (workDuration m) + card (wq_processing (mq m))"

lemma metered_inv_get:
  assumes "metered_inv m"
  shows "metered_inv (snd (metered_get t m))"
proof (cases "wq_get (mq m)")
  case (Pair g q)
  show ?thesis
  proof (cases g)
    case (Item k)
    have inv: "wq_inv (mq m)" using assms by (simp add: metered_inv_def)
    from wq.get_item [OF inv] Pair Item have q: "wq_inv q" "k \<in> wq_dirty (mq m)" "k \<notin> wq_processing (mq m)"
      "wq_dirty q = wq_dirty (mq m) - {k}" "wq_processing q = insert k (wq_processing (mq m))" by auto
    have "k \<in> dom (addTimes m)" using assms q(2) by (simp add: metered_inv_def)
    then obtain t0 where t0: "addTimes m k = Some t0" by blast
    have "0 < card (wq_dirty (mq m))" using assms q(2) by (auto simp: metered_inv_def card_gt_0_iff)
    with assms q t0 Pair Item show ?thesis
      by (auto simp: metered_inv_def metered_get_def metrics_get_def Let_def card_Diff_singleton)
  qed (use assms Pair in \<open>simp_all add: metered_get_def\<close>)
qed

lemma metered_inv_add: "metered_inv m \<Longrightarrow> metered_inv (metered_add k t m)"
  using wq.add_inv [of "mq m" k] wq.add_effect [of k "mq m"]
  by (auto simp: metered_inv_def metered_add_def metrics_add_def Let_def)

lemma metered_inv_done:
  assumes "metered_inv m" "k \<in> wq_processing (mq m)"
  shows "metered_inv (metered_done k t m)"
proof -
  have "k \<in> dom (processingStartTimes m)" using assms by (simp add: metered_inv_def)
  then obtain t0 where "processingStartTimes m k = Some t0" by blast
  moreover have "0 < card (wq_processing (mq m))" using assms by (auto simp: metered_inv_def card_gt_0_iff)
  ultimately show ?thesis
    using assms wq.finish_inv [of "mq m" k] wq.finish_effect [of k "mq m"]
    by (auto simp: metered_inv_def metered_done_def metrics_done_def card_Diff_singleton)
qed

lemma metered_run_inv: "metered_run m \<Longrightarrow> metered_inv m"
proof (induction rule: metered_run.induct)
  case new
  then show ?case by (simp add: metered_inv_def metered_new_def wq.new_inv)
next
  case (shutdown m)
  then show ?case by (simp add: metered_inv_def wq.shutdown_inv wq.shutdown_effect)
qed (simp_all add: metered_inv_add metered_inv_get metered_inv_done)

text \<open>
  C36: through any use of a queue its depth gauge is the number of keys marked as needing work (also
  those added again while they are processed, which \<open>Len\<close> does not count), every addition that
  counted is still marked or had its latency observed once, and every key handed out is still
  processed or had its duration observed once.
\<close>

theorem queue_metrics_exact:
  assumes "metered_run m"
  shows "depth m = int (card (wq_dirty (mq m))) \<and> int (wq_len (mq m)) \<le> depth m
    \<and> adds m = length (latency m) + card (wq_dirty (mq m))
    \<and> length (latency m) = length (workDuration m) + card (wq_processing (mq m))"
proof -
  have inv: "metered_inv m" using metered_run_inv [OF assms] .
  then have "set (wq_queue (mq m)) \<subseteq> wq_dirty (mq m)" "distinct (wq_queue (mq m))" "finite (wq_dirty (mq m))"
    by (auto simp: metered_inv_def wq_inv_def)
  then have "wq_len (mq m) \<le> card (wq_dirty (mq m))"
    unfolding wq_len_def by (metis card_mono distinct_card)
  with inv show ?thesis by (simp add: metered_inv_def)
qed

lemma queue_metrics_exact_witness:
  "depth (metered_add ''a'' 5 (metered_add ''b'' 3 metered_new)) = 2"
proof -
  let ?m = "metered_add ''a'' 5 (metered_add ''b'' 3 metered_new)"
  have "metered_run ?m" by (intro metered_run.intros)
  then have "depth ?m = int (card (wq_dirty (mq ?m)))" using queue_metrics_exact by blast
  also have "wq_dirty (mq ?m) = {''a'', ''b''}"
    by (simp add: metered_add_def metered_new_def metrics_add_def wq_new_def wq_add_def Let_def)
  finally show ?thesis by simp
qed

end
