(* ===== verification/Copy_Safety.thy ===== *)
theory Copy_Safety
  imports Deep_Copy
begin

text \<open>
  What the copies guarantee: the value of the source, fresh memory behind the metadata, and a store
  that only grows, so that every object of the cache keeps its value; and what they do not: the
  slice of the delegates and the time of the status are shared with the source.
\<close>

section \<open>Objects whose references are sound\<close>

definition map_ok :: "heap \<Rightarrow> addr option \<Rightarrow> bool" where
  "map_ok h r \<longleftrightarrow> (case r of None \<Rightarrow> True | Some a \<Rightarrow> a < next_addr h \<and> (\<exists>m. cells h a = Some (StrMap m)))"

definition time_ok :: "heap \<Rightarrow> addr option \<Rightarrow> bool" where
  "time_ok h r \<longleftrightarrow> (case r of None \<Rightarrow> True | Some a \<Rightarrow> a < next_addr h \<and> (\<exists>t. cells h a = Some (TimeCell t)))"

definition strs_ok :: "heap \<Rightarrow> slice_header option \<Rightarrow> bool" where
  "strs_ok h r \<longleftrightarrow> (case r of None \<Rightarrow> True | Some s \<Rightarrow> arr s < next_addr h
     \<and> (\<exists>xs. cells h (arr s) = Some (StrArr xs) \<and> off s + len s \<le> length xs))"

definition meta_ok :: "heap \<Rightarrow> hMeta \<Rightarrow> bool" where
  "meta_ok h m \<longleftrightarrow> map_ok h (hAnnotations m) \<and> time_ok h (hDeletionTimestamp m) \<and> strs_ok h (hFinalizers m)"

definition domain_ok :: "heap \<Rightarrow> hDomain \<Rightarrow> bool" where
  "domain_ok h d \<longleftrightarrow> meta_ok h (hObjectMeta d) \<and> strs_ok h (hDelegates (hSpecField d))
     \<and> time_ok h (hStatusDeletion (hStatusField d))"

lemmas ok_defs = map_ok_def time_ok_def strs_ok_def meta_ok_def domain_ok_def
lemmas read_defs = read_map_def read_time_def read_slice_def read_strs_def
lemmas view_defs = view_def view_spec_def view_status_def

text \<open>A pointer to a sound object, as the cache holds them.\<close>

definition live :: "heap \<Rightarrow> addr \<Rightarrow> hDomain \<Rightarrow> bool" where
  "live h p d \<longleftrightarrow> p < next_addr h \<and> load p h = Some d \<and> domain_ok h d"

section \<open>A store that only grows\<close>

definition grows :: "heap \<Rightarrow> heap \<Rightarrow> bool" where
  "grows h h' \<longleftrightarrow> next_addr h \<le> next_addr h' \<and> (\<forall>a < next_addr h. cells h' a = cells h a)"

lemma grows_refl [simp]: "grows h h"
  by (simp add: grows_def)

lemma grows_trans: "grows h1 h2 \<Longrightarrow> grows h2 h3 \<Longrightarrow> grows h1 h3"
  by (simp add: grows_def)

lemma grows_alloc: "alloc c h = (a, h') \<Longrightarrow> grows h h' \<and> a = next_addr h \<and> a < next_addr h' \<and> cells h' a = Some c"
  by (auto simp: alloc_def grows_def)

lemma grows_store: "grows h h' \<Longrightarrow> next_addr h \<le> a \<Longrightarrow> grows h (store a c h')"
  by (simp add: grows_def store_def)

lemma grows_ok:
  assumes "grows h h'"
  shows "map_ok h r \<Longrightarrow> map_ok h' r" "time_ok h t \<Longrightarrow> time_ok h' t" "strs_ok h s \<Longrightarrow> strs_ok h' s"
  using assms by (auto simp: ok_defs grows_def split: option.splits)

lemma grows_read:
  assumes "grows h h'"
  shows "map_ok h r \<Longrightarrow> read_map h' r = read_map h r" "time_ok h t \<Longrightarrow> read_time h' t = read_time h t"
    "strs_ok h s \<Longrightarrow> read_slice h' s = read_slice h s"
  using assms by (auto simp: ok_defs read_defs grows_def split: option.splits)

lemma grows_view: "grows h h' \<Longrightarrow> domain_ok h d \<Longrightarrow> domain_ok h' d \<and> view h' d = view h d"
  by (auto simp: domain_ok_def meta_ok_def view_defs grows_ok grows_read Let_def)

lemma grows_live: "grows h h' \<Longrightarrow> live h p d \<Longrightarrow> live h' p d \<and> view h' d = view h d"
  using grows_view [of h h' d] by (auto simp: live_def load_def grows_def)

section \<open>The copies\<close>

definition fresh_ref :: "heap \<Rightarrow> addr option \<Rightarrow> bool" where
  "fresh_ref h r \<longleftrightarrow> (case r of None \<Rightarrow> True | Some a \<Rightarrow> next_addr h \<le> a)"

lemma copy_time_ok:
  "time_ok h r \<Longrightarrow> copy_time r h = (r', h') \<Longrightarrow>
    grows h h' \<and> time_ok h' r' \<and> read_time h' r' = read_time h r \<and> fresh_ref h r'"
  by (auto simp: copy_time_def ok_defs read_defs fresh_ref_def grows_def alloc_def split: option.splits)

lemma copy_map_ok:
  "map_ok h r \<Longrightarrow> copy_map r h = (r', h') \<Longrightarrow>
    grows h h' \<and> map_ok h' r' \<and> read_map h' r' = read_map h r \<and> fresh_ref h r'"
  by (auto simp: copy_map_def ok_defs read_defs fresh_ref_def grows_def alloc_def split: option.splits)

lemma copy_strs_ok:
  "strs_ok h r \<Longrightarrow> copy_strs r h = (r', h') \<Longrightarrow>
    grows h h' \<and> strs_ok h' r' \<and> read_slice h' r' = read_slice h r \<and> fresh_ref h (map_option arr r')"
  by (auto simp: copy_strs_def ok_defs read_defs fresh_ref_def grows_def alloc_def slice_of_def split: option.splits)

definition meta_fresh :: "heap \<Rightarrow> hMeta \<Rightarrow> bool" where
  "meta_fresh h m \<longleftrightarrow> fresh_ref h (hAnnotations m) \<and> fresh_ref h (hDeletionTimestamp m)
     \<and> fresh_ref h (map_option arr (hFinalizers m))"

lemma fresh_later: "grows h h' \<Longrightarrow> fresh_ref h' r \<Longrightarrow> fresh_ref h r"
  by (auto simp: fresh_ref_def grows_def split: option.splits)

lemma DeepCopyInto_ok:
  assumes "domain_ok h d" "Domain_DeepCopyInto d h = (d', h')"
  shows "grows h h' \<and> domain_ok h' d' \<and> view h' d' = view h d \<and> meta_fresh h (hObjectMeta d')
    \<and> hSpecField d' = hSpecField d \<and> hStatusField d' = hStatusField d"
proof -
  let ?m = "hObjectMeta d"
  obtain t h1 where t: "copy_time (hDeletionTimestamp ?m) h = (t, h1)" by fastforce
  obtain a h2 where a: "copy_map (hAnnotations ?m) h1 = (a, h2)" by fastforce
  obtain f h3 where f: "copy_strs (hFinalizers ?m) h2 = (f, h3)" by fastforce
  have d': "d' = \<lparr>hObjectMeta = ?m\<lparr>hDeletionTimestamp := t, hAnnotations := a, hFinalizers := f\<rparr>,
      hSpecField = hSpecField d, hStatusField = hStatusField d\<rparr>" "h' = h3"
    using assms(2) t a f by (auto simp: Domain_DeepCopyInto_def ObjectMeta_DeepCopyInto_def
        DomainSpec_DeepCopyInto_def)
  from assms(1) have ok: "time_ok h (hDeletionTimestamp ?m)" "map_ok h (hAnnotations ?m)" "strs_ok h (hFinalizers ?m)"
    "strs_ok h (hDelegates (hSpecField d))" "time_ok h (hStatusDeletion (hStatusField d))"
    by (simp_all add: domain_ok_def meta_ok_def)
  note t1 = copy_time_ok [OF ok(1) t]
  then have g1: "grows h h1" by simp
  note a1 = copy_map_ok [OF grows_ok(1) [OF g1 ok(2)] a]
  then have g2: "grows h1 h2" and g02: "grows h h2" using g1 grows_trans by blast+
  note f1 = copy_strs_ok [OF grows_ok(3) [OF g02 ok(3)] f]
  then have g3: "grows h2 h3" and g13: "grows h1 h3" and g03: "grows h h3" using g1 g2 grows_trans by blast+
  have "view h' d' = view h d"
    unfolding d' view_defs Let_def using t1 a1 f1 g03 g13 g3 ok
    by (simp add: grows_read [OF g13] grows_read [OF g3] grows_read [OF g03] grows_read [OF g1] grows_read [OF g02])
  moreover have "domain_ok h' d'"
    using t1 a1 f1 g03 g13 g3 ok by (simp add: d' domain_ok_def meta_ok_def grows_ok)
  moreover have "meta_fresh h (hObjectMeta d')"
    using t1 a1 f1 g1 g02 fresh_later by (auto simp: d' meta_fresh_def)
  ultimately show ?thesis using g03 by (simp add: d')
qed

text \<open>What a copy through a pointer gives.\<close>

definition copied :: "heap \<Rightarrow> hDomain \<Rightarrow> addr \<Rightarrow> hDomain \<Rightarrow> heap \<Rightarrow> bool" where
  "copied h d c d' h' \<longleftrightarrow> grows h h' \<and> next_addr h \<le> c \<and> live h' c d' \<and> view h' d' = view h d
     \<and> meta_fresh h (hObjectMeta d') \<and> hSpecField d' = hSpecField d \<and> hStatusField d' = hStatusField d"

lemma DeepCopy_copied:
  assumes "live h p d"
  obtains c d' h' where "Domain_DeepCopy (Some p) h = (Some c, h')" "copied h d c d' h'"
proof -
  obtain d' h1 where into: "Domain_DeepCopyInto d h = (d', h1)" by fastforce
  note ok = DeepCopyInto_ok [OF _ into]
  obtain c h2 where c: "alloc (DomainCell d') h1 = (c, h2)" by fastforce
  note g = grows_alloc [OF c]
  from assms have p: "cells h p = Some (DomainCell d)" "domain_ok h d"
    by (auto simp: live_def load_def split: option.splits cell.splits)
  have "grows h h2" using ok p(2) g grows_trans by blast
  moreover have "view h2 d' = view h d \<and> domain_ok h2 d'" using ok p(2) g grows_view by metis
  moreover have "next_addr h \<le> c" using ok p(2) g by (simp add: grows_def)
  ultimately have "copied h d c d' h2" using ok p(2) g by (auto simp: copied_def live_def load_def)
  moreover have "Domain_DeepCopy (Some p) h = (Some c, h2)" using p into c by (simp add: Domain_DeepCopy_def)
  ultimately show ?thesis by (rule that [rotated])
qed

section \<open>Writing to a copy\<close>

lemma modify_cells:
  "load c h = Some d \<Longrightarrow> modify c f h = store c (DomainCell (f d)) h"
  by (simp add: modify_def)

lemma load_store [simp]: "load c (store c (DomainCell x) h) = Some x"
  by (simp add: load_def store_def)

lemma read_store:
  assumes "load c h = Some d"
  shows "read_map (store c (DomainCell x) h) r = read_map h r" "read_time (store c (DomainCell x) h) t = read_time h t"
    "read_slice (store c (DomainCell x) h) s = read_slice h s"
proof -
  have c: "cells h c = Some (DomainCell d)" using assms by (auto simp: load_def split: option.splits cell.splits)
  then show "read_map (store c (DomainCell x) h) r = read_map h r" "read_time (store c (DomainCell x) h) t = read_time h t"
    "read_slice (store c (DomainCell x) h) s = read_slice h s"
    by (auto simp: read_defs store_def map_option_case split: option.splits)
qed

lemma view_store: "load c h = Some d \<Longrightarrow> view (store c (DomainCell x) h) e = view h e"
  by (simp add: view_defs read_store Let_def)

definition cache_kept :: "heap \<Rightarrow> heap \<Rightarrow> bool" where
  "cache_kept h h' \<longleftrightarrow> (\<forall>q e. live h q e \<longrightarrow> live h' q e \<and> view h' e = view h e)"

definition copy_value :: "addr option \<times> heap \<Rightarrow> Domain option" where
  "copy_value r = (case r of (Some c, h) \<Rightarrow> map_option (view h) (load c h) | (None, h) \<Rightarrow> None)"

text \<open>
  After a copy of \<open>d\<close> and a write to the copy the cache is kept, and the copy has the value of the
  written struct.
\<close>

lemma write_to_copy:
  assumes "copied h d c d' h'" "load c h2 = Some d'" "grows h' h2"
  shows "copy_value (Some c, modify c f h2) = Some (view h2 (f d'))" "cache_kept h (modify c f h2)"
proof -
  have m: "modify c f h2 = store c (DomainCell (f d')) h2" using modify_cells [OF assms(2)] .
  then show "copy_value (Some c, modify c f h2) = Some (view h2 (f d'))"
    using view_store [OF assms(2)] by (simp add: copy_value_def)
  have "grows h h2" "next_addr h \<le> c" using assms(1,3) grows_trans by (auto simp: copied_def)
  then have "grows h (modify c f h2)" by (simp add: m grows_store)
  then show "cache_kept h (modify c f h2)" using grows_live by (auto simp: cache_kept_def)
qed

lemma status_copy_ok:
  assumes "live h p d"
  shows "copy_value (status_copy p reason message phase t h) =
      Some ((view h d)\<lparr>Status := (Status (view h d))\<lparr>Phase := phase, Reason := reason, Message := message, LastUpdateTime := t\<rparr>\<rparr>)"
    "cache_kept h (snd (status_copy p reason message phase t h))"
proof -
  obtain c d' h' where run: "Domain_DeepCopy (Some p) h = (Some c, h')" and c: "copied h d c d' h'"
    by (rule DeepCopy_copied [OF assms])
  then have l: "load c h' = Some d'" and v: "view h' d' = view h d" by (auto simp: copied_def live_def)
  show "cache_kept h (snd (status_copy p reason message phase t h))"
    using run write_to_copy(2) [OF c l grows_refl] by (simp add: status_copy_def)
  show "copy_value (status_copy p reason message phase t h) =
      Some ((view h d)\<lparr>Status := (Status (view h d))\<lparr>Phase := phase, Reason := reason, Message := message, LastUpdateTime := t\<rparr>\<rparr>)"
    unfolding status_copy_def run v [symmetric] using write_to_copy(1) [OF c l grows_refl]
    by (simp add: view_defs Let_def)
qed

lemma claim_copy_ok:
  assumes "live h p d" "strs_ok h (hDelegates s)"
  shows "copy_value (claim_copy p s h) =
      Some ((view h d)\<lparr>Spec := view_spec h s,
        Status := (if Phase (Status (view h d)) \<noteq> DomainStatusOK
          then \<lparr>Phase = DomainStatusNew, Message = '''', Reason = '''', LastUpdateTime = zero_time, Status_DeletionTimestamp = None\<rparr>
          else Status (view h d))\<rparr>)"
    "cache_kept h (snd (claim_copy p s h))"
proof -
  obtain c d' h' where run: "Domain_DeepCopy (Some p) h = (Some c, h')" and c: "copied h d c d' h'"
    by (rule DeepCopy_copied [OF assms(1)])
  then have l: "load c h' = Some d'" and v: "view h' d' = view h d" by (auto simp: copied_def live_def)
  show "cache_kept h (snd (claim_copy p s h))"
    using run write_to_copy(2) [OF c l grows_refl] by (simp add: claim_copy_def)
  have "view_spec h' s = view_spec h s"
    using c assms(2) grows_read(3) by (simp add: copied_def view_spec_def)
  then show "copy_value (claim_copy p s h) =
      Some ((view h d)\<lparr>Spec := view_spec h s,
        Status := (if Phase (Status (view h d)) \<noteq> DomainStatusOK
          then \<lparr>Phase = DomainStatusNew, Message = '''', Reason = '''', LastUpdateTime = zero_time, Status_DeletionTimestamp = None\<rparr>
          else Status (view h d))\<rparr>)"
    unfolding claim_copy_def run v [symmetric] using write_to_copy(1) [OF c l grows_refl]
    by (simp add: view_def view_status_def read_time_def Let_def)
qed

lemma new_copy_ok:
  assumes "live h p d"
  shows "copy_value (new_copy p h) =
      Some ((view h d)\<lparr>Status := (Status (view h d))\<lparr>Phase := DomainStatusPending\<rparr>, Finalizers := Some [Finalizer]\<rparr>)"
    "cache_kept h (snd (new_copy p h))"
proof -
  obtain c d' h1 where run: "Domain_DeepCopy (Some p) h = (Some c, h1)" and c: "copied h d c d' h1"
    by (rule DeepCopy_copied [OF assms])
  obtain f h2 where f: "alloc (StrArr [Finalizer]) h1 = (f, h2)" by fastforce
  note g = grows_alloc [OF f]
  then have g12: "grows h1 h2" by simp
  have l1: "live h1 c d'" "view h1 d' = view h d" using c by (auto simp: copied_def)
  with grows_live [OF g12 l1(1)] have l: "load c h2 = Some d'" and v: "view h2 d' = view h d" by (auto simp: live_def)
  show "cache_kept h (snd (new_copy p h))"
    using run f write_to_copy(2) [OF c l g12] by (simp add: new_copy_def)
  have "read_slice h2 (Some \<lparr>arr = f, off = 0, len = 1\<rparr>) = Some [Finalizer]"
    using g by (auto simp: read_defs slice_of_def)
  then show "copy_value (new_copy p h) =
      Some ((view h d)\<lparr>Status := (Status (view h d))\<lparr>Phase := DomainStatusPending\<rparr>, Finalizers := Some [Finalizer]\<rparr>)"
    unfolding new_copy_def run v [symmetric] using f write_to_copy(1) [OF c l g12]
    by (simp add: view_defs Let_def)
qed

text \<open>
  C21: a copied domain has the value of its source; the three places that write to a copy get exactly
  the objects that \<open>updateDomainStatus\<close>, the reconciliation of a new domain and \<open>claimDomains\<close> are
  modelled to put; and none of them changes an object the cache holds.
\<close>

theorem copies_refine_values:
  assumes "live h p d" "strs_ok h (hDelegates s)"
  shows "copy_value (Domain_DeepCopy (Some p) h) = Some (view h d)
    \<and> copy_value (status_copy p reason message phase t h) =
        Some ((view h d)\<lparr>Status := (Status (view h d))\<lparr>Phase := phase, Reason := reason, Message := message, LastUpdateTime := t\<rparr>\<rparr>)
    \<and> copy_value (new_copy p h) =
        Some ((view h d)\<lparr>Status := (Status (view h d))\<lparr>Phase := DomainStatusPending\<rparr>, Finalizers := Some [Finalizer]\<rparr>)
    \<and> copy_value (claim_copy p s h) =
        Some ((view h d)\<lparr>Spec := view_spec h s,
          Status := (if Phase (Status (view h d)) \<noteq> DomainStatusOK
            then \<lparr>Phase = DomainStatusNew, Message = '''', Reason = '''', LastUpdateTime = zero_time, Status_DeletionTimestamp = None\<rparr>
            else Status (view h d))\<rparr>)
    \<and> cache_kept h (snd (Domain_DeepCopy (Some p) h)) \<and> cache_kept h (snd (status_copy p reason message phase t h))
    \<and> cache_kept h (snd (new_copy p h)) \<and> cache_kept h (snd (claim_copy p s h))"
proof -
  obtain c d' h' where run: "Domain_DeepCopy (Some p) h = (Some c, h')" and c: "copied h d c d' h'"
    by (rule DeepCopy_copied [OF assms(1)])
  then have "copy_value (Domain_DeepCopy (Some p) h) = Some (view h d)" "cache_kept h (snd (Domain_DeepCopy (Some p) h))"
    using grows_live by (auto simp: copy_value_def copied_def live_def cache_kept_def)
  with status_copy_ok [OF assms(1)] new_copy_ok [OF assms(1)] claim_copy_ok [OF assms] show ?thesis
    by (intro conjI)
qed

section \<open>Copies of a list\<close>

text \<open>A copied struct: its metadata in fresh memory, its spec and status those of the source.\<close>

definition separate :: "heap \<Rightarrow> hDomain \<Rightarrow> hDomain \<Rightarrow> bool" where
  "separate h d d' \<longleftrightarrow> meta_fresh h (hObjectMeta d') \<and> hSpecField d' = hSpecField d \<and> hStatusField d' = hStatusField d"

lemma separate_later: "grows h h' \<Longrightarrow> separate h' d d' \<Longrightarrow> separate h d d'"
  by (auto simp: separate_def meta_fresh_def fresh_later)

lemma copy_items_ok:
  "\<forall>d \<in> set ds. domain_ok h d \<Longrightarrow> copy_items ds h = (ds', h') \<Longrightarrow>
    grows h h' \<and> (\<forall>d \<in> set ds'. domain_ok h' d) \<and> map (view h') ds' = map (view h) ds \<and> list_all2 (separate h) ds ds'"
proof (induction ds arbitrary: h ds' h')
  case (Cons d ds)
  obtain d1 h1 where d1: "Domain_DeepCopyInto d h = (d1, h1)" by fastforce
  obtain ds1 h2 where ds1: "copy_items ds h1 = (ds1, h2)" by fastforce
  have res: "ds' = d1 # ds1" "h' = h2" using Cons.prems(2) d1 ds1 by auto
  have ok: "grows h h1" "domain_ok h1 d1" "view h1 d1 = view h d" "separate h d d1"
    using DeepCopyInto_ok [OF _ d1] Cons.prems(1) by (simp_all add: separate_def)
  have rest: "\<forall>e \<in> set ds. domain_ok h1 e \<and> view h1 e = view h e"
    using Cons.prems(1) grows_view [OF ok(1)] by simp
  have IH: "grows h1 h2" "\<forall>e \<in> set ds1. domain_ok h2 e" "map (view h2) ds1 = map (view h1) ds"
    "list_all2 (separate h1) ds ds1"
    using Cons.IH [OF _ ds1] rest by simp_all
  have "list_all2 (separate h) ds ds1"
    using IH(4) by (rule list_all2_mono) (rule separate_later [OF ok(1)])
  then show ?case
    using grows_trans [OF ok(1) IH(1)] grows_view [OF IH(1) ok(2)] ok(3,4) IH(2,3) rest
    by (auto simp: res)
qed simp

text \<open>A list whose items are sound.\<close>

definition list_live :: "heap \<Rightarrow> addr \<Rightarrow> hDomainList \<Rightarrow> bool" where
  "list_live h p l \<longleftrightarrow> p < next_addr h \<and> cells h p = Some (ListCell l)
     \<and> (\<forall>s. hItems l = Some s \<longrightarrow> (\<forall>d \<in> set (read_items h s). domain_ok h d) \<and> length (read_items h s) = len s)"

definition list_view :: "heap \<Rightarrow> hDomainList \<Rightarrow> Domain list option" where
  "list_view h l = map_option (\<lambda>s. map (view h) (read_items h s)) (hItems l)"

definition list_items :: "heap \<Rightarrow> hDomainList \<Rightarrow> hDomain list" where
  "list_items h l = (case hItems l of None \<Rightarrow> [] | Some s \<Rightarrow> read_items h s)"

text \<open>What a copy of a list through a pointer gives: a fresh array of separate copies.\<close>

definition list_copied :: "heap \<Rightarrow> hDomainList \<Rightarrow> addr \<Rightarrow> hDomainList \<Rightarrow> heap \<Rightarrow> bool" where
  "list_copied h l c l' h' \<longleftrightarrow> grows h h' \<and> next_addr h \<le> c \<and> list_live h' c l' \<and> list_view h' l' = list_view h l
     \<and> fresh_ref h (map_option arr (hItems l')) \<and> list_all2 (separate h) (list_items h l) (list_items h' l')"

lemmas list_defs = list_copied_def list_live_def list_view_def list_items_def fresh_ref_def

lemma list_copy_ok:
  assumes "list_live h p l"
  obtains c l' h' where "DomainList_DeepCopy (Some p) h = (Some c, h')" "list_copied h l c l' h'"
proof (cases "hItems l")
  case None
  obtain c h1 where c: "alloc (ListCell l) h = (c, h1)" by fastforce
  have "DomainList_DeepCopy (Some p) h = (Some c, h1)"
    using assms None c by (simp add: DomainList_DeepCopy_def DomainList_DeepCopyInto_def list_live_def)
  moreover have "list_copied h l c l h1" using None grows_alloc [OF c] by (auto simp: list_defs)
  ultimately show ?thesis by (rule that)
next
  case (Some s)
  obtain ds h1 where ds: "copy_items (read_items h s) h = (ds, h1)" by fastforce
  obtain b h2 where b: "alloc (DomainArr ds) h1 = (b, h2)" by fastforce
  let ?l = "l\<lparr>hItems := Some \<lparr>arr = b, off = 0, len = len s\<rparr>\<rparr>"
  obtain c h3 where c: "alloc (ListCell ?l) h2 = (c, h3)" by fastforce
  have run: "DomainList_DeepCopy (Some p) h = (Some c, h3)"
    using assms Some ds b c by (simp add: DomainList_DeepCopy_def DomainList_DeepCopyInto_def list_live_def)
  have items: "\<forall>d \<in> set (read_items h s). domain_ok h d" "length (read_items h s) = len s"
    using assms Some by (simp_all add: list_live_def)
  note ok = copy_items_ok [OF items(1) ds]
  note gb = grows_alloc [OF b] and gc = grows_alloc [OF c]
  have len: "length ds = len s" using ok items(2) by (metis length_map)
  have arr: "cells h3 b = Some (DomainArr ds)" using gb gc by (auto simp: grows_def)
  then have read: "read_items h3 \<lparr>arr = b, off = 0, len = len s\<rparr> = ds" by (simp add: read_items_def slice_of_def len)
  have g13: "grows h1 h3" using gb gc grows_trans by blast
  then have "\<forall>d \<in> set ds. domain_ok h3 d \<and> view h3 d = view h1 d" using ok grows_view by blast
  with ok have vals: "map (view h3) ds = map (view h) (read_items h s)" "\<forall>d \<in> set ds. domain_ok h3 d"
    by (auto intro: trans [OF map_cong])
  have g: "grows h h1" "grows h h3" using ok g13 grows_trans by blast+
  then have "next_addr h \<le> b" "next_addr h \<le> c" using gb gc by (auto simp: grows_def)
  with Some gc len read vals ok g have "list_copied h l c ?l h3" by (auto simp: list_defs)
  with run show ?thesis by (rule that)
qed

section \<open>What is shared\<close>

text \<open>An element of a slice is assigned in place, \<open>x.Spec.Delegates[i] = v\<close>.\<close>

definition set_delegate :: "addr \<Rightarrow> nat \<Rightarrow> string \<Rightarrow> heap \<Rightarrow> heap" where
  "set_delegate p i v h = (case load p h of
      Some d \<Rightarrow> (case hDelegates (hSpecField d) of
          Some s \<Rightarrow> (case cells h (arr s) of Some (StrArr xs) \<Rightarrow> store (arr s) (StrArr (xs[off s + i := v])) h | _ \<Rightarrow> h)
        | None \<Rightarrow> h)
    | None \<Rightarrow> h)"

text \<open>
  The copy is not deep: it has the metadata for itself, but the slice of the delegates and the
  deletion time of the status belong to the source too, so that a delegate assigned through the
  copy changes the cached domain.
\<close>

lemma copy_shares_delegates:
  assumes "live h p d" "hDelegates (hSpecField d) = Some s" "i < len s"
    and "Domain_DeepCopy (Some p) h = (Some c, h')" "load c h' = Some d'"
  shows "meta_fresh h (hObjectMeta d') \<and> hSpecField d' = hSpecField d \<and> hStatusField d' = hStatusField d
    \<and> Delegates (Spec (view (set_delegate c i v h') d)) = Some ((read_strs h s)[i := v])"
proof -
  obtain c0 d0 h0 where run: "Domain_DeepCopy (Some p) h = (Some c0, h0)" "copied h d c0 d0 h0"
    by (rule DeepCopy_copied [OF assms(1)])
  with assms(4,5) have c: "copied h d c d' h'" by (auto simp: copied_def live_def)
  have "strs_ok h (Some s)" using assms(1,2) by (simp add: live_def domain_ok_def)
  then obtain xs where xs: "cells h (arr s) = Some (StrArr xs)" "off s + len s \<le> length xs" "arr s < next_addr h"
    by (auto simp: strs_ok_def)
  then have xs': "cells h' (arr s) = Some (StrArr xs)" using c by (simp add: copied_def grows_def)
  have "hDelegates (hSpecField d') = Some s" using c assms(2) by (simp add: copied_def)
  then have set: "set_delegate c i v h' = store (arr s) (StrArr (xs[off s + i := v])) h'"
    using assms(5) xs' by (simp add: set_delegate_def)
  have "slice_of s (xs[off s + i := v]) = (slice_of s xs)[i := v]"
    using assms(3) by (simp add: slice_of_def drop_update_swap take_update_swap)
  then have "Delegates (Spec (view (set_delegate c i v h') d)) = Some ((read_strs h s)[i := v])"
    using assms(2) xs(1) by (simp add: set view_def view_spec_def read_slice_def read_strs_def store_def Let_def)
  with c show ?thesis by (simp add: copied_def)
qed

text \<open>
  C30: a copy is a separate object: a copy of a domain, and \<open>DeepCopyObject\<close> with the same pointer
  in the interface, is a new pointer, whose metadata refer to fresh memory only and whose value is
  that of the source, so that no write to an address the copy brought changes an object of the
  cache; the copy of a list has a fresh array with one such copy for each item; a nil pointer is
  copied to nil, without a typed nil in the interface, and nothing is allocated. The copy is not
  deep: the spec and the status are those of the source with the references in them, and a
  delegate assigned through the copy is read in the source.
\<close>

theorem copies_are_separate:
  assumes "live h p d" "list_live h q l"
  shows "(\<exists>c d' h'. Domain_DeepCopy (Some p) h = (Some c, h') \<and> Domain_DeepCopyObject (Some p) h = (Some (ADomain c), h')
        \<and> next_addr h \<le> c \<and> live h' c d' \<and> view h' d' = view h d \<and> separate h d d' \<and> cache_kept h h'
        \<and> (\<forall>a x. next_addr h \<le> a \<longrightarrow> cache_kept h (store a x h'))
        \<and> (\<forall>s i v. hDelegates (hSpecField d) = Some s \<longrightarrow> i < len s \<longrightarrow>
             Delegates (Spec (view (set_delegate c i v h') d)) = Some ((read_strs h s)[i := v])))
    \<and> (\<exists>c l' h'. DomainList_DeepCopy (Some q) h = (Some c, h') \<and> DomainList_DeepCopyObject (Some q) h = (Some (ADomainList c), h')
        \<and> list_copied h l c l' h' \<and> cache_kept h h' \<and> (\<forall>a x. next_addr h \<le> a \<longrightarrow> cache_kept h (store a x h')))
    \<and> Domain_DeepCopy None h = (None, h) \<and> Domain_DeepCopyObject None h = (None, h)
    \<and> DomainList_DeepCopy None h = (None, h) \<and> DomainList_DeepCopyObject None h = (None, h)"
proof -
  have kept: "grows h h' \<Longrightarrow> cache_kept h h'" for h' using grows_live by (auto simp: cache_kept_def)
  then have put: "grows h h' \<Longrightarrow> next_addr h \<le> a \<Longrightarrow> cache_kept h (store a x h')" for h' a x using grows_store by blast
  obtain c d' h' where c: "Domain_DeepCopy (Some p) h = (Some c, h')" "copied h d c d' h'"
    by (rule DeepCopy_copied [OF assms(1)])
  obtain b l' h2 where b: "DomainList_DeepCopy (Some q) h = (Some b, h2)" "list_copied h l b l' h2"
    by (rule list_copy_ok [OF assms(2)])
  have obj: "Domain_DeepCopyObject (Some p) h = (Some (ADomain c), h')"
      "DomainList_DeepCopyObject (Some q) h = (Some (ADomainList b), h2)"
    using c(1) b(1) by (simp_all add: Domain_DeepCopyObject_def DomainList_DeepCopyObject_def)
  have g: "grows h h'" "grows h h2" "load c h' = Some d'" using c(2) b(2) by (simp_all add: copied_def list_copied_def live_def)
  have nil: "Domain_DeepCopy None h = (None, h)" "Domain_DeepCopyObject None h = (None, h)"
      "DomainList_DeepCopy None h = (None, h)" "DomainList_DeepCopyObject None h = (None, h)"
    by (simp_all add: Domain_DeepCopyObject_def DomainList_DeepCopyObject_def Domain_DeepCopy_def DomainList_DeepCopy_def)
  have "next_addr h \<le> c" "live h' c d'" "view h' d' = view h d" "separate h d d'"
    using c(2) by (simp_all add: copied_def separate_def)
  then show ?thesis
    using c(1) b obj nil kept put g copy_shares_delegates [OF assms(1) _ _ c(1) g(3)] by blast
qed

section \<open>A domain in the store\<close>

definition sample_hdomain :: hDomain where
  "sample_hdomain =
     \<lparr>hObjectMeta = \<lparr>hKind = [], hAPIVersion = [], hName = ''acme'', hNamespace = ''shop'', hResourceVersion = ''7'',
        hAnnotations = None, hFinalizers = None, hDeletionTimestamp = None\<rparr>,
      hSpecField = \<lparr>hPrimaryDomain = ''acme.org'', hSub = [], hDelegates = Some \<lparr>arr = 1, off = 0, len = 1\<rparr>, hParent = []\<rparr>,
      hStatusField = \<lparr>hPhase = ''OK'', hMessage = [], hReason = [], hLastUpdateTime = 0, hStatusDeletion = None\<rparr>\<rparr>"

definition sample_heap :: heap where
  "sample_heap = \<lparr>next_addr = 2, cells = [0 \<mapsto> DomainCell sample_hdomain, 1 \<mapsto> StrArr [''*'']]\<rparr>"

lemma sample_live: "live sample_heap 0 sample_hdomain"
  by (simp add: live_def sample_heap_def load_def ok_defs sample_hdomain_def)

lemma copies_refine_values_witness:
  "copy_value (status_copy 0 [] ''claimed'' ''Pending'' 5 sample_heap) =
    Some ((view sample_heap sample_hdomain)\<lparr>Status := (Status (view sample_heap sample_hdomain))\<lparr>Phase := ''Pending'',
      Reason := [], Message := ''claimed'', LastUpdateTime := 5\<rparr>\<rparr>)"
  using copies_refine_values [OF sample_live, of "hSpecField sample_hdomain" "[]" "''claimed''" "''Pending''" 5] sample_live
  by (simp add: live_def domain_ok_def)

lemma copy_shares_delegates_witness:
  "Delegates (Spec (view (set_delegate 2 0 ''other'' (snd (Domain_DeepCopy (Some 0) sample_heap))) sample_hdomain)) = Some [''other'']"
proof -
  have run: "Domain_DeepCopy (Some 0) sample_heap =
      (Some 2, sample_heap\<lparr>next_addr := 3, cells := (cells sample_heap)(2 \<mapsto> DomainCell sample_hdomain)\<rparr>)"
    by (simp add: sample_heap_def sample_hdomain_def Domain_DeepCopy_def Domain_DeepCopyInto_def ObjectMeta_DeepCopyInto_def
        copy_time_def copy_map_def copy_strs_def alloc_def DomainSpec_DeepCopyInto_def)
  show ?thesis
    using copy_shares_delegates [OF sample_live _ _ run, of "\<lparr>arr = 1, off = 0, len = 1\<rparr>" 0 sample_hdomain "''other''"] run
    by (simp add: sample_hdomain_def sample_heap_def load_def read_strs_def slice_of_def)
qed

definition sample_list :: hDomainList where
  "sample_list = \<lparr>hListKind = [], hListVersion = [], hItems = Some \<lparr>arr = 2, off = 0, len = 1\<rparr>\<rparr>"

definition list_heap :: heap where
  "list_heap = \<lparr>next_addr = 4, cells = [0 \<mapsto> DomainCell sample_hdomain, 1 \<mapsto> StrArr [''*''],
     2 \<mapsto> DomainArr [sample_hdomain], 3 \<mapsto> ListCell sample_list]\<rparr>"

lemma copies_are_separate_witness:
  "\<exists>c b h1 h2. Domain_DeepCopy (Some 0) list_heap = (Some c, h1) \<and> 4 \<le> c
    \<and> DomainList_DeepCopy (Some 3) list_heap = (Some b, h2) \<and> 4 \<le> b
    \<and> Delegates (Spec (view (set_delegate c 0 ''other'' h1) sample_hdomain)) = Some [''other'']"
proof -
  have "live list_heap 0 sample_hdomain"
    by (simp add: live_def list_heap_def load_def ok_defs sample_hdomain_def)
  moreover have "list_live list_heap 3 sample_list"
    by (simp add: list_live_def list_heap_def sample_list_def read_items_def slice_of_def ok_defs sample_hdomain_def)
  ultimately have all: "(\<exists>c h'. Domain_DeepCopy (Some 0) list_heap = (Some c, h') \<and> next_addr list_heap \<le> c
      \<and> (\<forall>s i v. hDelegates (hSpecField sample_hdomain) = Some s \<longrightarrow> i < len s \<longrightarrow>
           Delegates (Spec (view (set_delegate c i v h') sample_hdomain)) = Some ((read_strs list_heap s)[i := v])))
    \<and> (\<exists>c l' h'. DomainList_DeepCopy (Some 3) list_heap = (Some c, h') \<and> list_copied list_heap sample_list c l' h')"
    using copies_are_separate by blast
  have "next_addr list_heap = 4" "hDelegates (hSpecField sample_hdomain) = Some \<lparr>arr = 1, off = 0, len = 1\<rparr>"
    "read_strs list_heap \<lparr>arr = 1, off = 0, len = 1\<rparr> = [''*'']"
    by (simp_all add: list_heap_def sample_hdomain_def read_strs_def slice_of_def)
  with all show ?thesis by (fastforce simp: list_copied_def)
qed

end
