(* ===== verification/Controller_Run.thy ===== *)
theory Controller_Run
  imports Task_Queue Ingress_Controller
begin

text \<open>
  \<open>Run\<close> of \<open>pkg/controller/controller.go\<close> with the three task queues \<open>NewKongController\<close> makes: the
  wait for the caches, the goroutines of the workers, and the deferred shutdowns, as a step
  relation in which the main goroutine, the workers, the informers and the closing of the stop
  channel interleave. \<open>Run(1, wait.NeverStop)\<close> is the call of \<open>cmd/main.go\<close>.
\<close>

section \<open>State\<close>

text \<open>The queues are ordered as \<open>Run\<close> defers their shutdowns.\<close>

fun defer_position :: "queue_name \<Rightarrow> nat" where
  "defer_position IngQueue = 0" | "defer_position DomQueue = 1" | "defer_position SvcQueue = 2"

instantiation queue_name :: linorder
begin

definition less_eq_queue_name :: "queue_name \<Rightarrow> queue_name \<Rightarrow> bool" where
  "a \<le> b \<longleftrightarrow> defer_position a \<le> defer_position b"

definition less_queue_name :: "queue_name \<Rightarrow> queue_name \<Rightarrow> bool" where
  "a < b \<longleftrightarrow> defer_position a < defer_position b"

instance
proof
  show "a = b" if "a \<le> b" "b \<le> a" for a b :: queue_name
    using that by (cases a; cases b) (simp_all add: less_eq_queue_name_def)
qed (auto simp: less_eq_queue_name_def less_queue_name_def)

end

text \<open>Where the main goroutine is; \<open>Closing qs\<close> has the shutdowns of \<open>qs\<close> ahead of it.\<close>

datatype main_pc = Syncing | Serve | Closing "queue_name list" | Awaiting queue_name "queue_name list" | Returned

text \<open>\<open>unstarted q\<close> counts the goroutines of a queue that have not run yet.\<close>

record 'k controller =
  queues :: "queue_name \<Rightarrow> 'k pool"
  unstarted :: "queue_name \<Rightarrow> nat"
  stop_closed :: bool
  ing_synced :: bool
  svc_synced :: bool
  dom_synced :: bool
  main_at :: main_pc

definition NewKongController :: "int \<Rightarrow> 'k controller" where
  "NewKongController t =
     \<lparr>queues = (\<lambda>q. pool_init 0 t), unstarted = (\<lambda>q. 0), stop_closed = False, ing_synced = False, svc_synced = False,
      dom_synced = False, main_at = Syncing\<rparr>"

text \<open>The deferred calls run in the reverse order.\<close>

definition deferred :: "queue_name list" where
  "deferred = rev [IngQueue, DomQueue, SvcQueue]"

definition set_pool :: "queue_name \<Rightarrow> 'k pool \<Rightarrow> 'k controller \<Rightarrow> 'k controller" where
  "set_pool q p s = s\<lparr>queues := (queues s)(q := p)\<rparr>"

section \<open>Steps\<close>

text \<open>
  \<open>work\<close> is any step of the workers, the event handlers or the delaying queue of one task queue; the
  shutdown of a queue is a step of the main goroutine. A goroutine that finds the stop channel
  closed when it starts returns without calling the worker (\<open>wait.Until\<close>).
\<close>

inductive run_rule :: "nat \<Rightarrow> 'k controller \<Rightarrow> 'k controller \<Rightarrow> bool" for workers :: nat where
  close_stop: "run_rule workers s (s\<lparr>stop_closed := True\<rparr>)"
| sync_ing: "run_rule workers s (s\<lparr>ing_synced := True\<rparr>)"
| sync_svc: "run_rule workers s (s\<lparr>svc_synced := True\<rparr>)"
| sync_dom: "run_rule workers s (s\<lparr>dom_synced := True\<rparr>)"
| synced: "main_at s = Syncing \<Longrightarrow> ing_synced s \<Longrightarrow> svc_synced s
    \<Longrightarrow> run_rule workers s (s\<lparr>main_at := Serve, unstarted := (\<lambda>q. workers)\<rparr>)"
| give_up: "main_at s = Syncing \<Longrightarrow> stop_closed s \<Longrightarrow> run_rule workers s (s\<lparr>main_at := Closing deferred\<rparr>)"
| start: "0 < unstarted s q \<Longrightarrow> \<not> stop_closed s
    \<Longrightarrow> run_rule workers s (set_pool q ((queues s q)\<lparr>pcs := pcs (queues s q) @ [Idle]\<rparr>)
      (s\<lparr>unstarted := (unstarted s)(q := unstarted s q - 1)\<rparr>))"
| skip: "0 < unstarted s q \<Longrightarrow> stop_closed s
    \<Longrightarrow> run_rule workers s (s\<lparr>unstarted := (unstarted s)(q := unstarted s q - 1)\<rparr>)"
| work: "tq_step (queues s q) p \<Longrightarrow> wq_shuttingDown (pq p) = wq_shuttingDown (pq (queues s q))
    \<Longrightarrow> run_rule workers s (set_pool q p s)"
| stopped: "main_at s = Serve \<Longrightarrow> stop_closed s \<Longrightarrow> run_rule workers s (s\<lparr>main_at := Closing deferred\<rparr>)"
| shutdown: "main_at s = Closing (q # qs)
    \<Longrightarrow> run_rule workers s (set_pool q ((queues s q)\<lparr>pq := wq_shutdown (pq (queues s q))\<rparr>) (s\<lparr>main_at := Awaiting q qs\<rparr>))"
| acknowledged: "main_at s = Awaiting q qs \<Longrightarrow> workerDone (queues s q)
    \<Longrightarrow> run_rule workers s (s\<lparr>main_at := Closing qs\<rparr>)"
| finished: "main_at s = Closing [] \<Longrightarrow> run_rule workers s (s\<lparr>main_at := Returned\<rparr>)"

text \<open>The panic of a worker ends the process.\<close>

definition run_step :: "nat \<Rightarrow> 'k controller \<Rightarrow> 'k controller \<Rightarrow> bool" where
  "run_step workers s s' \<longleftrightarrow> (\<forall>q. \<not> crashed (queues s q)) \<and> run_rule workers s s'"

definition run_reachable :: "nat \<Rightarrow> 'k controller \<Rightarrow> bool" where
  "run_reachable workers s \<longleftrightarrow> (\<exists>t. (run_step workers)\<^sup>*\<^sup>* (NewKongController t) s)"

lemma set_pool_simps [simp]:
  "queues (set_pool q p s) = (queues s)(q := p)" "unstarted (set_pool q p s) = unstarted s"
  "stop_closed (set_pool q p s) = stop_closed s" "ing_synced (set_pool q p s) = ing_synced s"
  "svc_synced (set_pool q p s) = svc_synced s" "dom_synced (set_pool q p s) = dom_synced s"
  "main_at (set_pool q p s) = main_at s"
  by (simp_all add: set_pool_def)

lemma run_reachable_step: "run_reachable n s \<Longrightarrow> run_step n s s' \<Longrightarrow> run_reachable n s'"
  unfolding run_reachable_def by (meson rtranclp.rtrancl_into_rtrancl)

lemma run_reachable_induct [consumes 1, case_names init step]:
  assumes "run_reachable n s" "\<And>t. P (NewKongController t)"
    and "\<And>s s'. run_reachable n s \<Longrightarrow> P s \<Longrightarrow> run_step n s s' \<Longrightarrow> P s'"
  shows "P s"
proof -
  from assms(1) obtain t where "(run_step n)\<^sup>*\<^sup>* (NewKongController t) s" by (auto simp: run_reachable_def)
  then have "run_reachable n s \<and> P s"
  proof (induction rule: rtranclp_induct)
    case base
    then show ?case using assms(2) by (auto simp: run_reachable_def)
  next
    case (step s s')
    then show ?case using assms(3) run_reachable_step by blast
  qed
  then show ?thesis ..
qed

section \<open>Events\<close>

text \<open>The notifications of the three informers, and the handler \<open>NewKongController\<close> has for each.\<close>

datatype kube_event =
    IngressAdded Ingress
  | IngressUpdated Ingress Ingress
  | IngressDeleted "Ingress informer_obj"
  | ServiceAdded "Service informer_obj"
  | ServiceUpdated Service Service
  | ServiceDeleted "Service informer_obj"
  | DomainAdded "Domain informer_obj"
  | DomainUpdated Domain Domain
  | DomainDeleted "Domain informer_obj"

fun handle_event :: "'w env \<Rightarrow> kube_event \<Rightarrow> ('w, unit) run" where
  "handle_event E (IngressAdded ing) = add_ingress ing"
| "handle_event E (IngressUpdated old new) = update_ingress old new"
| "handle_event E (IngressDeleted obj) = delete_ingress obj"
| "handle_event E (ServiceAdded obj) = add_service obj"
| "handle_event E (ServiceUpdated old new) = update_service old new"
| "handle_event E (ServiceDeleted obj) = delete_service obj"
| "handle_event E (DomainAdded obj) = addDomain obj"
| "handle_event E (DomainUpdated old new) = updateDomain E old new"
| "handle_event E (DomainDeleted obj) = deleteDomain obj"

text \<open>\<open>TaskQueue.Add\<close>: the key of an object of the informers or of a tombstone always exists.\<close>

definition TaskQueue_Add :: "'k \<Rightarrow> 'k pool \<Rightarrow> 'k pool" where
  "TaskQueue_Add key t = t\<lparr>pq := wq_add key (pq t)\<rparr>"

fun deliver :: "act list \<Rightarrow> string controller \<Rightarrow> string controller" where
  "deliver [] s = s"
| "deliver (Enqueue q key # t) s = deliver t (set_pool q (TaskQueue_Add key (queues s q)) s)"
| "deliver (_ # t) s = deliver t s"

section \<open>Who is running\<close>

text \<open>The goroutines of a queue, those that have not run yet included.\<close>

definition goroutines :: "'k controller \<Rightarrow> queue_name \<Rightarrow> nat" where
  "goroutines s q = unstarted s q + length (pcs (queues s q))"

lemma tq_step_workers: "tq_step p p' \<Longrightarrow> length (pcs p') = length (pcs p)"
  by (induction rule: tq_step.induct) simp_all

lemma tq_step_done: "tq_step p p' \<Longrightarrow> workerDone p' \<Longrightarrow> workerDone p \<or> pcs p \<noteq> []"
  by (induction rule: tq_step.induct) auto

text \<open>No worker exists before the two caches were seen synchronised, nor more of them than asked for.\<close>

definition run_inv :: "nat \<Rightarrow> 'k controller \<Rightarrow> bool" where
  "run_inv n s \<longleftrightarrow> (main_at s = Syncing \<longrightarrow> (\<forall>q. goroutines s q = 0))
     \<and> (\<forall>q. goroutines s q \<noteq> 0 \<longrightarrow> ing_synced s \<and> svc_synced s)
     \<and> (\<forall>q. goroutines s q \<le> n) \<and> (\<forall>q. workerDone (queues s q) \<longrightarrow> pcs (queues s q) \<noteq> [])"

lemma run_inv_reachable: "run_reachable n s \<Longrightarrow> run_inv n s"
proof (induction rule: run_reachable_induct)
  case (init t)
  then show ?case by (simp add: run_inv_def NewKongController_def goroutines_def pool_init_def)
next
  case (step s s')
  from step.hyps(2) have "run_rule n s s'" by (simp add: run_step_def)
  then show ?case using step.IH
  proof (induction rule: run_rule.induct)
    case (work s q p)
    then have "pcs p = [] \<longleftrightarrow> pcs (queues s q) = []" using tq_step_workers by fastforce
    with work tq_step_workers [OF work(1)] tq_step_done [OF work(1)] show ?case
      by (auto simp: run_inv_def goroutines_def)
  next
    case (start s q)
    then show ?case by (auto simp: run_inv_def goroutines_def)
  next
    case (skip s q)
    then show ?case by (auto simp: run_inv_def goroutines_def intro: order_trans [OF diff_le_self])
  next
    case (synced s)
    then show ?case by (auto simp: run_inv_def goroutines_def)
  qed (auto simp: run_inv_def goroutines_def)
qed

end
