(* ===== verification/Run_Safety.thy ===== *)
theory Run_Safety
  imports Controller_Run Queue_Safety
begin

text \<open>
  What \<open>Run\<close> guarantees: no worker before the caches of the ingresses and the services, the
  domains not being waited for; a return that waits for the worker of each queue, which therefore
  never happens when a worker was not started; and, with one worker for each queue, a way to
  return from any state.
\<close>

section \<open>The queues of a run\<close>

definition queues_inv :: "'k controller \<Rightarrow> bool" where
  "queues_inv s \<longleftrightarrow> (\<forall>q. pool_inv (queues s q) \<and> finite (wq_dirty (pq (queues s q))))
     \<and> (\<forall>q qs. main_at s = Awaiting q qs \<longrightarrow> wq_shuttingDown (pq (queues s q)))"

lemma tq_step_keeps_done: "tq_step p p' \<Longrightarrow> workerDone p \<Longrightarrow> workerDone p'"
  by (induction rule: tq_step.induct) simp_all

lemma tq_step_finite: "tq_step p p' \<Longrightarrow> finite (wq_dirty (pq p)) \<Longrightarrow> finite (wq_dirty (pq p'))"
proof (induction rule: tq_step.induct)
  case (fetch i s k q)
  then show ?case by (auto simp: wq_get_Item)
qed (auto simp: wq.add_effect wq.finish_effect wq.shutdown_effect AddRateLimited_def AddAfter_def receive_def
    split: prod.splits)

lemma pool_inv_start: "pool_inv p \<Longrightarrow> pool_inv (p\<lparr>pcs := pcs p @ [Idle]\<rparr>)"
proof -
  have "holders k (pcs p @ [Idle]) = holders k (pcs p)" for k
    by (auto simp: holders_def nth_append)
  then show "pool_inv p \<Longrightarrow> pool_inv (p\<lparr>pcs := pcs p @ [Idle]\<rparr>)" by (simp add: pool_inv_def)
qed

lemma queues_inv_reachable: "run_reachable n s \<Longrightarrow> queues_inv s"
proof (induction rule: run_reachable_induct)
  case (init t)
  have "pool_inv (pool_init 0 t)" by (rule pool_inv_init)
  then show ?case by (simp add: queues_inv_def NewKongController_def pool_init_def wq.new_inv)
next
  case (step s s')
  from step.hyps(2) have "run_rule n s s'" by (simp add: run_step_def)
  then show ?case using step.IH
  proof (induction rule: run_rule.induct)
    case (work s q p)
    have "pool_inv (queues s q)" "finite (wq_dirty (pq (queues s q)))" using work(3) by (simp_all add: queues_inv_def)
    with pool_inv_step [OF work(1)] tq_step_finite [OF work(1)] have "pool_inv p" "finite (wq_dirty (pq p))" by blast+
    with work(2,3) show ?case by (auto simp: queues_inv_def)
  next
    case (start s q)
    then show ?case by (auto simp: queues_inv_def pool_inv_start)
  next
    case (shutdown s q qs)
    then have "pool_inv ((queues s q)\<lparr>pq := wq_shutdown (pq (queues s q))\<rparr>)"
      using pool_inv_step [OF tq_step.shutdown] by (auto simp: queues_inv_def)
    with shutdown show ?case by (auto simp: queues_inv_def wq.shutdown_effect)
  qed (auto simp: queues_inv_def)
qed

text \<open>With one worker no queue panics, and a worker is done when it has exited.\<close>

lemma done_inv_run: "run_reachable n s \<Longrightarrow> n \<le> 1 \<Longrightarrow> done_inv (length (pcs (queues s q))) (queues s q)"
proof (induction arbitrary: q rule: run_reachable_induct)
  case (init t)
  then show ?case by (simp add: NewKongController_def done_inv_def pool_init_def)
next
  case (step s s')
  from step.hyps(2) have rule: "run_rule n s s'" by (simp add: run_step_def)
  have one: "goroutines s q \<le> 1" for q
    using run_inv_reachable [OF step.hyps(1)] step.prems by (auto simp: run_inv_def intro: order_trans)
  from step.IH [OF step.prems] have IH: "done_inv (length (pcs (queues s q))) (queues s q)" for q .
  from rule one IH show ?case
  proof (induction rule: run_rule.induct)
    case (work s q' p)
    have "length (pcs (queues s q')) \<le> 1" using work(3) [of q'] by (simp add: goroutines_def)
    then have "done_inv (length (pcs p)) p"
      using done_inv_step [OF work(1)] work(4) tq_step_workers [OF work(1)] by metis
    with work(4) show ?case by simp
  next
    case (start s q')
    have "pcs (queues s q') = []" using start(1) start(3) [of q'] by (cases "pcs (queues s q')") (auto simp: goroutines_def)
    with start(4) [of q'] start(4) [of q] show ?case by (auto simp: done_inv_def)
  next
    case (shutdown s q' qs)
    then show ?case by (auto simp: done_inv_def)
  qed (auto simp: done_inv_def)
qed

lemma tq_step_exited: "tq_step p p' \<Longrightarrow> Exited \<in> set (pcs p') \<Longrightarrow> Exited \<in> set (pcs p) \<or> workerDone p'"
  by (induction rule: tq_step.induct) (auto dest!: set_update_subset_insert [THEN subsetD])

lemma exited_done: "run_reachable n s \<Longrightarrow> Exited \<in> set (pcs (queues s q)) \<Longrightarrow> workerDone (queues s q)"
proof (induction arbitrary: q rule: run_reachable_induct)
  case (init t)
  then show ?case by (simp add: NewKongController_def pool_init_def)
next
  case (step s s')
  from step.hyps(2) have "run_rule n s s'" by (simp add: run_step_def)
  then show ?case using step.IH step.prems
  proof (induction rule: run_rule.induct)
    case (work s q' p)
    then show ?case using tq_step_exited [OF work(1)] tq_step_keeps_done [OF work(1)] by (auto split: if_splits)
  qed (auto split: if_splits)
qed

section \<open>One worker at a queue\<close>

text \<open>The steps of a queue that neither crash it nor open or close it.\<close>

definition kept :: "'k pool \<Rightarrow> 'k pool \<Rightarrow> bool" where
  "kept p p' \<longleftrightarrow> tq_step p p' \<and> wq_shuttingDown (pq p') = wq_shuttingDown (pq p) \<and> \<not> crashed p"

fun rank :: "'k pc \<Rightarrow> nat" where
  "rank (Fetched k) = 3" | "rank (Handling k n) = 2" | "rank (Ending k) = 1" | "rank _ = 0"

definition work_left :: "'k pool \<Rightarrow> nat" where
  "work_left p = 4 * card (wq_dirty (pq p)) + rank (hd (pcs p))"

text \<open>A queue with one worker, which has not exited.\<close>

definition single :: "'k pool \<Rightarrow> bool" where
  "single p \<longleftrightarrow> pool_inv p \<and> finite (wq_dirty (pq p)) \<and> done_inv 1 p \<and> \<not> workerDone p
     \<and> (\<exists>c. pcs p = [c] \<and> c \<noteq> Exited)"

lemma single_step:
  assumes "single p" "tq_step p p'" "wq_shuttingDown (pq p') = wq_shuttingDown (pq p)" "pcs p' = [c]" "c \<noteq> Exited"
  shows "kept p p' \<and> single p'"
proof -
  from assms(1) have p: "pool_inv p" "finite (wq_dirty (pq p))" "done_inv 1 p" by (simp_all add: single_def)
  have "pool_inv p'" "finite (wq_dirty (pq p'))" "done_inv 1 p'"
    using pool_inv_step [OF assms(2) p(1)] tq_step_finite [OF assms(2) p(2)] done_inv_step [OF assms(2) p(3)] by simp_all
  moreover have "\<not> workerDone p'" using \<open>done_inv 1 p'\<close> assms(4,5) by (auto simp: done_inv_def)
  moreover have "\<not> crashed p" using p(3) by (simp add: done_inv_def)
  ultimately show ?thesis using assms by (simp add: single_def kept_def)
qed

text \<open>
  A worker goes on by one step, with less work left, unless it waits for the queue; the keys that
  need work stay, but for the one it takes.
\<close>

lemma advance:
  assumes "single p" "pcs p \<noteq> [Idle] \<or> wq_queue (pq p) \<noteq> []"
  obtains p' where "kept p p'" "single p'" "work_left p' < work_left p" "wq_shuttingDown (pq p') = wq_shuttingDown (pq p)"
    "\<And>k. k \<in> wq_dirty (pq p) \<Longrightarrow> k \<in> wq_dirty (pq p') \<or> pcs p' = [Fetched k]"
proof -
  from assms(1) obtain c where c: "pcs p = [c]" "c \<noteq> Exited" and p: "pool_inv p" "finite (wq_dirty (pq p))"
    by (auto simp: single_def)
  show ?thesis
  proof (cases c)
    case Idle
    then obtain k rest where "wq_queue (pq p) = k # rest" using assms(2) c by (cases "wq_queue (pq p)") auto
    then obtain q where get: "wq_get (pq p) = (Item k, q)" by (auto simp: wq_get_def)
    have inv: "wq_inv (pq p)" using p(1) by (simp add: pool_inv_def)
    from wq.get_item [OF inv get] have q: "k \<in> wq_dirty (pq p)" "wq_dirty q = wq_dirty (pq p) - {k}"
      "wq_shuttingDown q = wq_shuttingDown (pq p)" by simp_all
    have card: "card (wq_dirty (pq p)) = Suc (card (wq_dirty q))" using card_Suc_Diff1 [OF p(2) q(1)] q(2) by simp
    let ?p = "p\<lparr>pq := q, pcs := (pcs p)[0 := Fetched k]\<rparr>"
    have "tq_step p ?p" using get Idle c by (intro tq_step.fetch) simp_all
    from single_step [OF assms(1) this, of "Fetched k"] show ?thesis
      using q c card by (intro that [of ?p]) (auto simp: work_left_def)
  next
    case (Fetched k)
    let ?p = "p\<lparr>pcs := (pcs p)[0 := Handling k (lim_NumRequeues k (lim p))]\<rparr>"
    have "tq_step p ?p" using Fetched c by (intro tq_step.requeues) simp_all
    from single_step [OF assms(1) this, of "Handling k (lim_NumRequeues k (lim p))"] show ?thesis
      using c Fetched by (intro that [of ?p]) (auto simp: work_left_def)
  next
    case (Handling k n)
    let ?p = "p\<lparr>lim := lim_Forget k (lim p), pcs := (pcs p)[0 := Ending k]\<rparr>"
    have "tq_step p ?p" using Handling c by (intro tq_step.succeed) simp_all
    from single_step [OF assms(1) this, of "Ending k"] show ?thesis
      using c Handling by (intro that [of ?p]) (auto simp: work_left_def)
  next
    case (Ending k)
    let ?p = "p\<lparr>pq := wq_done k (pq p), pcs := (pcs p)[0 := Idle]\<rparr>"
    have "tq_step p ?p" using Ending c by (intro tq_step.finish) simp_all
    from single_step [OF assms(1) this, of Idle] show ?thesis
      using c Ending by (intro that [of ?p]) (auto simp: work_left_def wq.finish_effect)
  next
    case Exited
    with c show ?thesis by simp
  qed
qed

lemma drain:
  "single p \<Longrightarrow> wq_shuttingDown (pq p) \<Longrightarrow> \<exists>p'. kept\<^sup>*\<^sup>* p p' \<and> workerDone p' \<and> length (pcs p') = 1"
proof (induction "work_left p" arbitrary: p rule: less_induct)
  case less
  show ?case
  proof (cases "pcs p = [Idle] \<and> wq_queue (pq p) = []")
    case True
    let ?p = "p\<lparr>pcs := (pcs p)[0 := Exited], workerDone := True\<rparr>"
    have "wq_get (pq p) = (Quit, pq p)" using True less.prems(2) by (simp add: wq_get_def)
    then have "tq_step p ?p" using True less.prems(1) by (intro tq_step.quit) (simp_all add: single_def)
    then have "kept p ?p" using less.prems(1) by (simp add: kept_def single_def done_inv_def)
    with True show ?thesis by (intro exI [of _ ?p]) auto
  next
    case False
    then obtain p' where p': "kept p p'" "single p'" "work_left p' < work_left p" "wq_shuttingDown (pq p')"
      using advance [OF less.prems(1)] less.prems(2) by metis
    from less.hyps [OF p'(3,2,4)] p'(1) show ?thesis by (meson converse_rtranclp_into_rtranclp)
  qed
qed

text \<open>A key that needs work gets to the handler, whatever is queued before it.\<close>

lemma reach_key:
  "single p \<Longrightarrow> k \<in> wq_dirty (pq p) \<Longrightarrow> \<exists>p' m. kept\<^sup>*\<^sup>* p p' \<and> pcs p' = [Handling k m]"
proof (induction "work_left p" arbitrary: p rule: less_induct)
  case less
  have "wq_queue (pq p) \<noteq> []" if "pcs p = [Idle]"
  proof -
    have "wq_processing (pq p) = {}" using less.prems(1) that by (auto simp: single_def pool_inv_def holders_def)
    with less.prems show ?thesis by (auto simp: single_def pool_inv_def wq_inv_def)
  qed
  then obtain p' where p': "kept p p'" "single p'" "work_left p' < work_left p"
    "k \<in> wq_dirty (pq p') \<or> pcs p' = [Fetched k]"
    using advance [OF less.prems(1)] less.prems(2) by metis
  from p'(4) show ?case
  proof
    assume "k \<in> wq_dirty (pq p')"
    from less.hyps [OF p'(3,2) this] p'(1) show ?thesis by (meson converse_rtranclp_into_rtranclp)
  next
    assume f: "pcs p' = [Fetched k]"
    let ?p = "p'\<lparr>pcs := (pcs p')[0 := Handling k (lim_NumRequeues k (lim p'))]\<rparr>"
    have "tq_step p' ?p" using f by (intro tq_step.requeues) simp_all
    with single_step [OF p'(2) this, of "Handling k (lim_NumRequeues k (lim p'))"] f have "kept p' ?p" by simp
    with p'(1) have "kept\<^sup>*\<^sup>* p ?p" by (meson converse_rtranclp_into_rtranclp rtranclp.rtrancl_refl)
    with f show ?thesis by (intro exI [of _ ?p]) auto
  qed
qed

section \<open>From the steps of a queue to steps of the run\<close>

lemma set_pool_idem [simp]: "set_pool q (queues s q) s = s" "set_pool q p2 (set_pool q p1 s) = set_pool q p2 s"
  by (simp_all add: set_pool_def)

lemma lift_kept:
  assumes "kept\<^sup>*\<^sup>* (queues s q) p" "\<forall>q'. \<not> crashed (queues s q')"
  shows "(run_step n)\<^sup>*\<^sup>* s (set_pool q p s)"
  using assms(1)
proof (induction rule: rtranclp_induct)
  case (step p1 p2)
  have "run_rule n (set_pool q p1 s) (set_pool q p2 (set_pool q p1 s))"
    using step.hyps(2) by (intro run_rule.work) (simp_all add: kept_def)
  then have "run_step n (set_pool q p1 s) (set_pool q p2 s)"
    using step.hyps(2) assms(2) by (simp add: run_step_def kept_def)
  with step.IH show ?case by simp
qed simp

lemma run_steps_reachable: "run_reachable n s \<Longrightarrow> (run_step n)\<^sup>*\<^sup>* s s' \<Longrightarrow> run_reachable n s'"
  unfolding run_reachable_def by (meson rtranclp_trans)

lemma not_crashed: "run_reachable 1 s \<Longrightarrow> \<not> crashed (queues s q)"
  using done_inv_run [of 1 s q] by (simp add: done_inv_def)

section \<open>Returning\<close>

text \<open>The shutdowns that are still to come; \<open>Serve\<close> has all of them ahead.\<close>

fun owes :: "main_pc \<Rightarrow> queue_name \<Rightarrow> bool" where
  "owes Serve q = True"
| "owes (Closing qs) q = (q \<in> set qs)"
| "owes (Awaiting q' qs) q = (q = q' \<or> q \<in> set qs)"
| "owes _ q = False"

lemma deferred_all [simp]: "q \<in> set deferred"
  by (cases q) (simp_all add: deferred_def)

lemma settled_reachable:
  "run_reachable n s \<Longrightarrow> main_at s \<noteq> Syncing \<Longrightarrow> \<not> owes (main_at s) q \<Longrightarrow> workerDone (queues s q)"
proof (induction arbitrary: q rule: run_reachable_induct)
  case (init t)
  then show ?case by (simp add: NewKongController_def)
next
  case (step s s')
  from step.hyps(2) have "run_rule n s s'" by (simp add: run_step_def)
  then show ?case using step.IH step.prems
  proof (induction rule: run_rule.induct)
    case (work s q' p)
    then show ?case using tq_step_keeps_done [OF work(1)] by auto
  next
    case (acknowledged s q' qs)
    then show ?case by (cases "q = q'") auto
  qed auto
qed

text \<open>The shutdowns that are left are in the reverse of the order of the queues.\<close>

fun in_order :: "main_pc \<Rightarrow> bool" where
  "in_order (Closing qs) = sorted_wrt (>) qs"
| "in_order (Awaiting q qs) = sorted_wrt (>) (q # qs)"
| "in_order _ = True"

lemma in_order_reachable: "run_reachable n s \<Longrightarrow> in_order (main_at s)"
proof (induction rule: run_reachable_induct)
  case (init t)
  then show ?case by (simp add: NewKongController_def)
next
  case (step s s')
  have "in_order (Closing deferred)" by (simp add: deferred_def less_queue_name_def)
  with step.IH have "run_rule n s s' \<Longrightarrow> in_order (main_at s')"
    by (auto elim!: run_rule.cases)
  with step.hyps(2) show ?case by (simp add: run_step_def)
qed

lemma hang_step:
  assumes "run_step n s s'" "owes (main_at s) q" "goroutines s q = 0" "\<not> workerDone (queues s q)"
  shows "owes (main_at s') q \<and> goroutines s' q = 0 \<and> \<not> workerDone (queues s' q)"
proof -
  from assms(1) have "run_rule n s s'" by (simp add: run_step_def)
  then show ?thesis using assms(2-4)
  proof (induction rule: run_rule.induct)
    case (work s q' p)
    then show ?case
      using tq_step_workers [OF work(1)] tq_step_done [OF work(1)] by (auto simp: goroutines_def)
  qed (auto simp: goroutines_def)
qed

lemma hang:
  assumes "(run_step n)\<^sup>*\<^sup>* s s'" "owes (main_at s) q" "goroutines s q = 0" "\<not> workerDone (queues s q)"
  shows "main_at s' \<noteq> Returned"
proof -
  from assms(1) have "owes (main_at s') q \<and> goroutines s' q = 0 \<and> \<not> workerDone (queues s' q)"
    by (induction rule: rtranclp_induct) (use assms(2-4) hang_step in blast)+
  then show ?thesis by auto
qed

lemma await_worker:
  assumes "run_reachable 1 s" "main_at s = Awaiting q qs" "pcs (queues s q) \<noteq> []"
  shows "\<exists>p. (run_step 1)\<^sup>*\<^sup>* s (set_pool q p s) \<and> workerDone p \<and> length (pcs p) = 1"
proof -
  have one: "length (pcs (queues s q)) = 1"
    using run_inv_reachable [OF assms(1)] assms(3) by (cases "pcs (queues s q)") (auto simp: run_inv_def goroutines_def dest: spec [of _ q])
  have "done_inv 1 (queues s q)" using done_inv_run [OF assms(1), of q] one by simp
  show ?thesis
  proof (cases "workerDone (queues s q)")
    case True
    with one show ?thesis by (intro exI [of _ "queues s q"]) simp
  next
    case False
    show ?thesis
    proof (cases "pcs (queues s q) = [Exited]")
      case True
      with exited_done [OF assms(1), of q] \<open>\<not> workerDone (queues s q)\<close> show ?thesis by simp
    next
      case False
      then have "single (queues s q)"
        using queues_inv_reachable [OF assms(1)] one \<open>\<not> workerDone (queues s q)\<close> \<open>done_inv 1 (queues s q)\<close>
        by (auto simp: single_def queues_inv_def length_Suc_conv)
      moreover have "wq_shuttingDown (pq (queues s q))"
        using queues_inv_reachable [OF assms(1)] assms(2) by (simp add: queues_inv_def)
      ultimately obtain p where "kept\<^sup>*\<^sup>* (queues s q) p" "workerDone p" "length (pcs p) = 1" using drain by blast
      then show ?thesis using lift_kept not_crashed [OF assms(1)] by blast
    qed
  qed
qed

lemma close_all:
  assumes "run_reachable 1 s" "main_at s = Closing qs" "\<forall>q. pcs (queues s q) \<noteq> []"
  shows "\<exists>s'. (run_step 1)\<^sup>*\<^sup>* s s' \<and> main_at s' = Returned"
  using assms
proof (induction qs arbitrary: s)
  case Nil
  then have "run_step 1 s (s\<lparr>main_at := Returned\<rparr>)"
    using not_crashed by (auto simp: run_step_def intro: run_rule.finished)
  then show ?case by (intro exI [of _ "s\<lparr>main_at := Returned\<rparr>"]) auto
next
  case (Cons q qs)
  let ?s1 = "set_pool q ((queues s q)\<lparr>pq := wq_shutdown (pq (queues s q))\<rparr>) (s\<lparr>main_at := Awaiting q qs\<rparr>)"
  have s1: "run_step 1 s ?s1"
    using Cons.prems(1,2) not_crashed by (auto simp: run_step_def intro: run_rule.shutdown)
  have r1: "run_reachable 1 ?s1" using run_reachable_step [OF Cons.prems(1) s1] .
  obtain p where p: "(run_step 1)\<^sup>*\<^sup>* ?s1 (set_pool q p ?s1)" "workerDone p" "length (pcs p) = 1"
    using await_worker [OF r1, of q qs] Cons.prems(3) by auto
  let ?s2 = "set_pool q p ?s1"
  have r2: "run_reachable 1 ?s2" using run_steps_reachable [OF r1 p(1)] .
  have s3: "run_step 1 ?s2 (?s2\<lparr>main_at := Closing qs\<rparr>)"
    unfolding run_step_def using not_crashed [OF r2] p(2) by (intro conjI allI run_rule.acknowledged [of _ q]) simp_all
  have "\<forall>q'. pcs (queues (?s2\<lparr>main_at := Closing qs\<rparr>) q') \<noteq> []" using Cons.prems(3) p(3) by auto
  from Cons.IH [OF run_reachable_step [OF r2 s3] _ this] obtain s' where
    "(run_step 1)\<^sup>*\<^sup>* (?s2\<lparr>main_at := Closing qs\<rparr>) s'" "main_at s' = Returned" by auto
  moreover have "(run_step 1)\<^sup>*\<^sup>* s (?s2\<lparr>main_at := Closing qs\<rparr>)"
    using s1 p(1) s3 by (meson converse_rtranclp_into_rtranclp rtranclp.rtrancl_into_rtrancl)
  ultimately show ?case by (meson rtranclp_trans)
qed

lemma can_return:
  assumes "run_reachable 1 s" "stop_closed s" "\<forall>q. pcs (queues s q) \<noteq> []"
  shows "\<exists>s'. (run_step 1)\<^sup>*\<^sup>* s s' \<and> main_at s' = Returned"
proof (cases "main_at s")
  case Syncing
  with run_inv_reachable [OF assms(1)] assms(3) show ?thesis by (auto simp: run_inv_def goroutines_def)
next
  case Serve
  have step: "run_step 1 s (s\<lparr>main_at := Closing deferred\<rparr>)"
    using Serve assms(1,2) not_crashed by (auto simp: run_step_def intro: run_rule.stopped)
  from close_all [OF run_reachable_step [OF assms(1) step]] assms(3) obtain s' where
    "(run_step 1)\<^sup>*\<^sup>* (s\<lparr>main_at := Closing deferred\<rparr>) s'" "main_at s' = Returned" by auto
  with step show ?thesis by (meson converse_rtranclp_into_rtranclp)
next
  case (Closing qs)
  then show ?thesis using close_all assms by blast
next
  case (Awaiting q qs)
  obtain p where p: "(run_step 1)\<^sup>*\<^sup>* s (set_pool q p s)" "workerDone p" "length (pcs p) = 1"
    using await_worker [OF assms(1) Awaiting] assms(3) by auto
  have r: "run_reachable 1 (set_pool q p s)" using run_steps_reachable [OF assms(1) p(1)] .
  have step: "run_step 1 (set_pool q p s) ((set_pool q p s)\<lparr>main_at := Closing qs\<rparr>)"
    unfolding run_step_def using not_crashed [OF r] p(2) Awaiting by (intro conjI allI run_rule.acknowledged [of _ q]) simp_all
  have "\<forall>q'. pcs (queues ((set_pool q p s)\<lparr>main_at := Closing qs\<rparr>) q') \<noteq> []" using assms(3) p(3) by auto
  from close_all [OF run_reachable_step [OF r step] _ this] obtain s' where
    "(run_step 1)\<^sup>*\<^sup>* ((set_pool q p s)\<lparr>main_at := Closing qs\<rparr>) s'" "main_at s' = Returned" by auto
  with p(1) step show ?thesis by (meson converse_rtranclp_into_rtranclp rtranclp_trans)
next
  case Returned
  then show ?thesis by blast
qed

section \<open>Events\<close>

text \<open>The queue of an event, and the keys a delivery adds.\<close>

lemma deliver_queues:
  "queues (deliver t s) q = fold TaskQueue_Add (List.map_filter (\<lambda>e. case e of Enqueue q' k \<Rightarrow> if q' = q then Some k else None | _ \<Rightarrow> None) t) (queues s q)"
  by (induction t s rule: deliver.induct) (auto simp: map_filter_simps)

lemma TaskQueue_Add_simps [simp]:
  "pcs (TaskQueue_Add k p) = pcs p" "workerDone (TaskQueue_Add k p) = workerDone p" "crashed (TaskQueue_Add k p) = crashed p"
  "wq_shuttingDown (pq (TaskQueue_Add k p)) = wq_shuttingDown (pq p)"
  "wq_dirty (pq (TaskQueue_Add k p)) = (if wq_shuttingDown (pq p) then wq_dirty (pq p) else insert k (wq_dirty (pq p)))"
  by (simp_all add: TaskQueue_Add_def wq.add_effect)

lemma fold_Add_simps [simp]:
  "pcs (fold TaskQueue_Add ks p) = pcs p" "workerDone (fold TaskQueue_Add ks p) = workerDone p"
  "crashed (fold TaskQueue_Add ks p) = crashed p" "wq_shuttingDown (pq (fold TaskQueue_Add ks p)) = wq_shuttingDown (pq p)"
  "wq_dirty (pq (fold TaskQueue_Add ks p)) = (if wq_shuttingDown (pq p) then wq_dirty (pq p) else set ks \<union> wq_dirty (pq p))"
  by (induction ks arbitrary: p) auto

lemma deliver_steps:
  assumes "\<forall>q. \<not> crashed (queues s q)"
  shows "(run_step n)\<^sup>*\<^sup>* s (deliver t s)"
  using assms
proof (induction t s rule: deliver.induct)
  case (2 q k t s)
  have "tq_step (queues s q) (TaskQueue_Add k (queues s q))"
    unfolding TaskQueue_Add_def by (rule tq_step.enqueue)
  then have "run_step n s (set_pool q (TaskQueue_Add k (queues s q)) s)"
    using "2.prems" by (simp add: run_step_def run_rule.work)
  moreover have "\<forall>q'. \<not> crashed (queues (set_pool q (TaskQueue_Add k (queues s q)) s) q')" using "2.prems" by simp
  ultimately show ?case using "2.IH" by (simp add: converse_rtranclp_into_rtranclp)
qed simp_all

lemma deliver_dirty:
  assumes "Enqueue q k \<in> set t" "\<not> wq_shuttingDown (pq (queues s q))"
  shows "k \<in> wq_dirty (pq (queues (deliver t s) q))"
proof -
  have "k \<in> set (List.map_filter (\<lambda>e. case e of Enqueue q' k \<Rightarrow> if q' = q then Some k else None | _ \<Rightarrow> None) t)"
    using assms(1) by (induction t) (auto simp: map_filter_simps split: act.splits)
  with assms(2) show ?thesis by (simp add: deliver_queues)
qed

section \<open>Runs\<close>

text \<open>The run that synchronises, starts the worker of a queue, or all of them, and the one that is stopped.\<close>

definition serving :: "nat \<Rightarrow> 'k controller" where
  "serving n = (NewKongController 0)\<lparr>ing_synced := True, svc_synced := True, main_at := Serve, unstarted := (\<lambda>q. n)\<rparr>"

lemma fresh_not_crashed [simp]: "\<not> crashed (queues (NewKongController t) q)"
  by (simp add: NewKongController_def pool_init_def)

lemma serving_reachable: "run_reachable n (serving n)"
proof -
  let ?s0 = "NewKongController 0"
  let ?s1 = "?s0\<lparr>ing_synced := True\<rparr>"
  let ?s2 = "?s1\<lparr>svc_synced := True\<rparr>"
  have "run_step n ?s0 ?s1" "run_step n ?s1 ?s2" by (auto simp: run_step_def intro: run_rule.intros)
  moreover have "run_step n ?s2 (?s2\<lparr>main_at := Serve, unstarted := (\<lambda>q. n)\<rparr>)"
    unfolding run_step_def by (intro conjI allI run_rule.synced) (simp_all add: NewKongController_def pool_init_def)
  moreover have "?s2\<lparr>main_at := Serve, unstarted := (\<lambda>q. n)\<rparr> = serving n" by (simp add: serving_def)
  ultimately show ?thesis
    unfolding run_reachable_def by (metis rtranclp.rtrancl_into_rtrancl rtranclp.rtrancl_refl)
qed

definition started :: "queue_name \<Rightarrow> 'k controller \<Rightarrow> 'k controller" where
  "started q s = set_pool q ((queues s q)\<lparr>pcs := pcs (queues s q) @ [Idle]\<rparr>) (s\<lparr>unstarted := (unstarted s)(q := unstarted s q - 1)\<rparr>)"

lemma started_reachable:
  assumes "run_reachable n s" "0 < unstarted s q" "\<not> stop_closed s" "\<forall>q. \<not> crashed (queues s q)"
  shows "run_reachable n (started q s)"
proof -
  have "run_step n s (started q s)"
    unfolding run_step_def started_def using assms(4) run_rule.start [OF assms(2,3)] by blast
  then show ?thesis using run_reachable_step [OF assms(1)] by blast
qed

lemma serving_simps [simp]:
  "main_at (serving n) = Serve" "unstarted (serving n) = (\<lambda>q. n)" "\<not> stop_closed (serving n)"
  "\<not> dom_synced (serving n)" "queues (serving n) q = pool_init 0 0"
  by (simp_all add: serving_def NewKongController_def)

lemma pool_init_crashed [simp]: "\<not> crashed (pool_init n t)"
  by (simp add: pool_init_def)

lemma started_simps [simp]:
  "queues (started q s) = (queues s)(q := (queues s q)\<lparr>pcs := pcs (queues s q) @ [Idle]\<rparr>)"
  "unstarted (started q s) = (unstarted s)(q := unstarted s q - 1)" "stop_closed (started q s) = stop_closed s"
  "main_at (started q s) = main_at s" "dom_synced (started q s) = dom_synced s"
  by (simp_all add: started_def)

lemma serve_one: "(pool_init 0 t)\<lparr>pcs := pcs (pool_init 0 t) @ [Idle]\<rparr> = pool_init 1 t"
  by (simp add: pool_init_def)

text \<open>A key of the ingress queue is handled although the domains were never listed.\<close>

lemma handling_kept: "\<exists>p m. kept\<^sup>*\<^sup>* (pool_init 1 t) p \<and> pcs p = [Handling k m]"
proof -
  let ?p0 = "pool_init 1 t"
  let ?p1 = "?p0\<lparr>pq := wq_add k (pq ?p0)\<rparr>"
  obtain q where get: "wq_get (pq ?p1) = (Item k, q)" and q: "\<not> wq_shuttingDown q"
    by (simp add: pool_init_def wq_new_def wq_add_def wq_get_def)
  let ?p2 = "?p1\<lparr>pq := q, pcs := (pcs ?p1)[0 := Fetched k]\<rparr>"
  let ?p3 = "?p2\<lparr>pcs := (pcs ?p2)[0 := Handling k (lim_NumRequeues k (lim ?p2))]\<rparr>"
  have open0: "\<not> wq_shuttingDown (pq ?p0)" "\<not> wq_shuttingDown (pq ?p1)" by (simp_all add: pool_init_def wq_new_def wq.add_effect)
  have "kept ?p0 ?p1" unfolding kept_def using open0 by (intro conjI tq_step.enqueue) simp_all
  moreover have "kept ?p1 ?p2" unfolding kept_def
    using open0 q by (intro conjI tq_step.fetch [OF _ _ get]) (simp_all add: pool_init_def)
  moreover have "kept ?p2 ?p3" unfolding kept_def by (intro conjI tq_step.requeues) (simp_all add: pool_init_def)
  ultimately have "kept\<^sup>*\<^sup>* ?p0 ?p3" by (meson rtranclp.rtrancl_into_rtrancl rtranclp.rtrancl_refl)
  moreover have "pcs ?p3 = [Handling k (lim_NumRequeues k (lim ?p2))]" by (simp add: pool_init_def)
  ultimately show ?thesis by blast
qed

lemma handling_unsynced:
  assumes "1 \<le> n"
  shows "\<exists>s m. run_reachable n s \<and> \<not> dom_synced s \<and> pcs (queues s IngQueue) = [Handling k m]"
proof -
  obtain p m where p: "kept\<^sup>*\<^sup>* (pool_init 1 0) p" "pcs p = [Handling k m]" using handling_kept [of 0 k] by auto
  have r0: "run_reachable n (started IngQueue (serving n))" by (rule started_reachable [OF serving_reachable]) (use assms in simp_all)
  from p(1) have run: "kept\<^sup>*\<^sup>* (queues (started IngQueue (serving n)) IngQueue) p" by (simp add: serve_one)
  have "\<forall>q. \<not> crashed (queues (started IngQueue (serving n)) q)" by simp
  from run_steps_reachable [OF r0 lift_kept [OF run this]]
  have "run_reachable n (set_pool IngQueue p (started IngQueue (serving n)))" .
  with p(2) show ?thesis by (intro exI [of _ "set_pool IngQueue p (started IngQueue (serving n))"]) auto
qed

text \<open>
  A worker of any queue exists only after the caches of the ingresses and of the services were
  synchronised, and there are never more workers than asked for; but the cache of the domains is
  not waited for: an ingress may be handled before any domain is known.
\<close>

lemma workers_after_sync:
  assumes "run_reachable n s"
  shows "(pcs (queues s q) \<noteq> [] \<longrightarrow> ing_synced s \<and> svc_synced s) \<and> length (pcs (queues s q)) \<le> n
    \<and> (1 \<le> n \<longrightarrow> (\<exists>s' m. run_reachable n s' \<and> \<not> dom_synced s' \<and> pcs (queues s' IngQueue) = [Handling k m]))"
proof -
  have inv: "run_inv n s" using run_inv_reachable [OF assms] .
  then have "goroutines s q \<le> n" by (simp add: run_inv_def)
  then have "length (pcs (queues s q)) \<le> n" by (simp add: goroutines_def)
  moreover have "goroutines s q \<noteq> 0 \<longrightarrow> ing_synced s \<and> svc_synced s"
    using inv unfolding run_inv_def by blast
  then have "pcs (queues s q) \<noteq> [] \<longrightarrow> ing_synced s \<and> svc_synced s"
    by (simp add: goroutines_def)
  ultimately show ?thesis using handling_unsynced [of n k] by blast
qed

lemma workers_after_sync_witness:
  "\<exists>s m. run_reachable 1 s \<and> \<not> dom_synced s \<and> pcs (queues s IngQueue) = [Handling ''acme/web'' m]"
  using workers_after_sync [OF serving_reachable [of 1], of IngQueue "''acme/web''"] by blast

text \<open>
  C19: \<open>Run\<close> shuts the queues down once each, in the reverse order of their creation, and only returns
  after the worker of each queue has exited; with one worker for each queue,
  once they have all started and the stop channel is closed, it can return from any state, whatever
  is still queued.
\<close>

theorem run_returns:
  assumes "run_reachable n s"
  shows "(\<forall>q qs. main_at s = Awaiting q qs \<longrightarrow> (\<forall>q' \<in> set qs. q' < q))
    \<and> (main_at s = Returned \<longrightarrow> (\<forall>q. workerDone (queues s q) \<and> pcs (queues s q) \<noteq> []))
    \<and> (n = 1 \<and> stop_closed s \<and> (\<forall>q. pcs (queues s q) \<noteq> []) \<longrightarrow> (\<exists>s'. (run_step n)\<^sup>*\<^sup>* s s' \<and> main_at s' = Returned))"
proof -
  have "workerDone (queues s q) \<and> pcs (queues s q) \<noteq> []" if "main_at s = Returned" for q
    using settled_reachable [OF assms, of q] run_inv_reachable [OF assms] that by (simp add: run_inv_def)
  moreover have "\<forall>q' \<in> set qs. q' < q" if "main_at s = Awaiting q qs" for q qs
    using in_order_reachable [OF assms] that by simp
  ultimately show ?thesis using can_return [of s] assms by blast
qed

definition all_started :: "string controller" where
  "all_started = (started SvcQueue (started DomQueue (started IngQueue (serving 1))))\<lparr>stop_closed := True\<rparr>"

lemma all_started_reachable: "run_reachable 1 all_started"
proof -
  have "run_reachable 1 (started IngQueue (serving 1))" by (rule started_reachable [OF serving_reachable]) simp_all
  then have "run_reachable 1 (started DomQueue (started IngQueue (serving 1)))" by (rule started_reachable) simp_all
  then have r: "run_reachable 1 (started SvcQueue (started DomQueue (started IngQueue (serving 1))))" by (rule started_reachable) simp_all
  show ?thesis
    unfolding all_started_def
    by (rule run_reachable_step [OF r]) (simp add: run_step_def run_rule.close_stop)
qed

lemma all_started_pcs: "pcs (queues all_started q) \<noteq> []"
  by (cases q) (simp_all add: all_started_def)

lemma run_returns_witness: "\<exists>s'. (run_step 1)\<^sup>*\<^sup>* all_started s' \<and> main_at s' = Returned"
  using run_returns [OF all_started_reachable] all_started_pcs by (simp add: all_started_def)

text \<open>
  C20: an event for which a handler queues a key is not lost: the delivery is a step of the run like
  any other, and from there the one worker of the queue can take the key to its sync function,
  whatever is queued before it and wherever the worker is, as long as the queue was open.
\<close>

theorem event_is_handled:
  assumes "run_reachable 1 s" "handle_event E e w = (Done (), t, w')" "Enqueue q k \<in> set t"
    and "pcs (queues s q) \<noteq> []" "\<not> wq_shuttingDown (pq (queues s q))"
    and "\<not> workerDone (queues s q)"
  shows "run_reachable 1 (deliver t s)
    \<and> (\<exists>s' m. (run_step 1)\<^sup>*\<^sup>* (deliver t s) s' \<and> pcs (queues s' q) = [Handling k m])"
proof -
  have r: "run_reachable 1 (deliver t s)"
    using run_steps_reachable [OF assms(1) deliver_steps] not_crashed [OF assms(1)] by blast
  have same: "pcs (queues (deliver t s) q) = pcs (queues s q)" "workerDone (queues (deliver t s) q) = workerDone (queues s q)"
    by (simp_all add: deliver_queues)
  obtain c where c: "pcs (queues (deliver t s) q) = [c]"
    using run_inv_reachable [OF r] assms(4) same(1)
    by (cases "pcs (queues s q)") (auto simp: run_inv_def goroutines_def dest: spec [of _ q])
  then have "c \<noteq> Exited" using exited_done [OF r, of q] assms(6) same(2) by auto
  moreover have "done_inv 1 (queues (deliver t s) q)" using done_inv_run [OF r, of q] c by simp
  ultimately have "single (queues (deliver t s) q)"
    using queues_inv_reachable [OF r] assms(6) c same(2) by (simp add: single_def queues_inv_def)
  from reach_key [OF this deliver_dirty [OF assms(3,5)]] obtain p m where
    p: "kept\<^sup>*\<^sup>* (queues (deliver t s) q) p" "pcs p = [Handling k m]" by blast
  have "(run_step 1)\<^sup>*\<^sup>* (deliver t s) (set_pool q p (deliver t s))"
    using lift_kept [OF p(1)] not_crashed [OF r] by blast
  with r p(2) show ?thesis by (intro conjI exI [of _ "set_pool q p (deliver t s)"]) auto
qed

text \<open>The tombstone of a deleted service reaches the worker of its queue.\<close>

lemma event_is_handled_witness:
  "\<exists>s' m. (run_step 1)\<^sup>*\<^sup>* (deliver [Enqueue SvcQueue ''shop/web''] all_started) s'
    \<and> pcs (queues s' SvcQueue) = [Handling ''shop/web'' m]"
proof -
  have "handle_event E (ServiceDeleted (DeletedFinalStateUnknown ''shop/web'')) w = (Done (), [Enqueue SvcQueue ''shop/web''], w)"
    for E :: "unit env" and w
    by (simp add: delete_service_def service_key_def emit_def)
  from event_is_handled [OF all_started_reachable this, of SvcQueue "''shop/web''"] show ?thesis
    by (simp add: all_started_def pool_init_def wq_new_def)
qed

text \<open>A run that is stopped before the caches are synchronised.\<close>

definition stopped_early :: "'k controller" where
  "stopped_early = (NewKongController 0)\<lparr>stop_closed := True, main_at := Closing deferred\<rparr>"

lemma stopped_early_reachable: "run_reachable n stopped_early"
proof -
  let ?s0 = "NewKongController 0"
  let ?s1 = "?s0\<lparr>stop_closed := True\<rparr>"
  have "run_step n ?s0 ?s1" by (simp add: run_step_def run_rule.close_stop)
  moreover have "run_step n ?s1 (?s1\<lparr>main_at := Closing deferred\<rparr>)"
    unfolding run_step_def by (intro conjI allI run_rule.give_up) (simp_all add: NewKongController_def pool_init_def)
  moreover have "?s1\<lparr>main_at := Closing deferred\<rparr> = stopped_early" by (simp add: stopped_early_def)
  ultimately show ?thesis
    unfolding run_reachable_def by (metis rtranclp.rtrancl_into_rtrancl rtranclp.rtrancl_refl)
qed

text \<open>
  C27: once a queue has no goroutine left that could acknowledge its shutdown, \<open>Run\<close> never returns;
  that happens for any number of workers when the stop channel is closed before the caches are
  synchronised, or before the goroutines of the workers run for the first time.
\<close>

theorem run_hangs:
  assumes "run_reachable n s" "main_at s \<in> {Serve, Closing deferred}" "goroutines s q = 0"
  shows "((run_step n)\<^sup>*\<^sup>* s s' \<longrightarrow> main_at s' \<noteq> Returned)
    \<and> run_reachable n (stopped_early :: 'k controller) \<and> goroutines (stopped_early :: 'k controller) q = 0"
proof -
  have "\<not> workerDone (queues s q)"
    using run_inv_reachable [OF assms(1)] assms(3) by (auto simp: run_inv_def goroutines_def)
  then show ?thesis
    using hang [of n s s' q] assms(2,3) stopped_early_reachable
    by (auto simp: stopped_early_def goroutines_def NewKongController_def pool_init_def)
qed

lemma run_hangs_witness:
  "run_reachable 1 (stopped_early :: string controller)
    \<and> \<not> (\<exists>s'. (run_step 1)\<^sup>*\<^sup>* (stopped_early :: string controller) s' \<and> main_at s' = Returned)"
proof -
  have g: "main_at (stopped_early :: string controller) \<in> {Serve, Closing deferred}"
    "goroutines (stopped_early :: string controller) IngQueue = 0"
    by (simp_all add: stopped_early_def goroutines_def NewKongController_def pool_init_def)
  show ?thesis using run_hangs [OF stopped_early_reachable g] stopped_early_reachable by blast
qed

end
