(* ===== verification/Program.thy ===== *)
theory Program
  imports Startup Controller_Run Monitoring
begin

text \<open>
  The whole process: the flags of \<open>cmd/main.go\<close>, what the informers of \<open>NewKongController\<close> watch, and
  \<open>main\<close> composed with \<open>Run(1, wait.NeverStop)\<close>, the three sync functions and the monitoring server.
\<close>

section \<open>Flags\<close>

text \<open>
  A variable of \<open>init\<close>: its flag, its default and where it is stored. Next to the configuration
  the flags set whether the version is printed. What \<open>pflag\<close> makes of the command line is the
  list of the flags given, with values of the type of the flag.
\<close>

type_synonym flags = "Config \<times> bool"

type_synonym 'a flag_var = "string \<times> 'a \<times> ('a \<Rightarrow> flags \<Rightarrow> flags)"

definition StringVars :: "string flag_var list" where
  "StringVars =
    [(''apiserver'', '''', \<lambda>v. apfst (\<lambda>c. c\<lparr>ApiServerHost := v\<rparr>)),
     (''cert-file'', '''', \<lambda>v. apfst (\<lambda>c. c\<lparr>CertFile := v\<rparr>)),
     (''key-file'', '''', \<lambda>v. apfst (\<lambda>c. c\<lparr>KeyFile := v\<rparr>)),
     (''ca-file'', '''', \<lambda>v. apfst (\<lambda>c. c\<lparr>CAFile := v\<rparr>)),
     (''kong-server'', ''http://kong-admin:8001'', \<lambda>v. apfst (\<lambda>c. c\<lparr>KongAdminHost := v\<rparr>)),
     (''cluster-dns'', ''svc.cluster.local'', \<lambda>v. apfst (\<lambda>c. c\<lparr>ClusterDNS := v\<rparr>)),
     (''pod-namespace'', defaultNamespace, \<lambda>v. apfst (\<lambda>c. c\<lparr>PodNamespace := v\<rparr>)),
     (''healthz-bind-address'', ''0.0.0.0'', \<lambda>v. apfst (\<lambda>c. c\<lparr>HealthzBindAddress := v\<rparr>))]"

definition BoolVars :: "bool flag_var list" where
  "BoolVars =
    [(''auto-claim'', False, \<lambda>v. apfst (\<lambda>c. c\<lparr>AutoClaim := v\<rparr>)),
     (''wipe-on-delete'', False, \<lambda>v. apfst (\<lambda>c. c\<lparr>WipeOnDelete := v\<rparr>)),
     (''version'', False, \<lambda>v. apsnd (\<lambda>_. v)),
     (''tls-insecure'', False, \<lambda>v. apfst (\<lambda>c. c\<lparr>TLSInsecure := v\<rparr>))]"

definition Int64Vars :: "64 word flag_var list" where
  "Int64Vars = [(''resync-on-fail'', 60, \<lambda>v. apfst (\<lambda>c. c\<lparr>ResyncOnFailed := v\<rparr>))]"

definition Int32Vars :: "32 word flag_var list" where
  "Int32Vars = [(''healthz-port'', 20251, \<lambda>v. apfst (\<lambda>c. c\<lparr>HealthzPort := v\<rparr>))]"

definition zero_flags :: flags where
  "zero_flags = (\<lparr>KongAdminHost = '''', ApiServerHost = '''', TLSInsecure = False, CertFile = '''', KeyFile = '''',
     CAFile = '''', ClusterDNS = '''', PodNamespace = '''', AutoClaim = False, WipeOnDelete = False,
     ResyncOnFailed = 0, HealthzBindAddress = '''', HealthzPort = 0\<rparr>, False)"

text \<open>The definition of a variable stores its default.\<close>

definition store_defaults :: "'a flag_var list \<Rightarrow> flags \<Rightarrow> flags" where
  "store_defaults = fold (\<lambda>(name, dflt, store). store dflt)"

definition default_flags :: flags where
  "default_flags =
     store_defaults Int32Vars (store_defaults Int64Vars (store_defaults BoolVars (store_defaults StringVars zero_flags)))"

datatype flag_value = StringFlag string | BoolFlag bool | Int64Flag "64 word" | Int32Flag "32 word"

definition store_flag :: "'a flag_var list \<Rightarrow> string \<Rightarrow> 'a \<Rightarrow> flags \<Rightarrow> flags option" where
  "store_flag vars name v fl = map_option (\<lambda>(dflt, store). store v fl) (map_of vars name)"

fun set_flag :: "string \<times> flag_value \<Rightarrow> flags \<Rightarrow> flags option" where
  "set_flag (name, StringFlag v) fl = store_flag StringVars name v fl"
| "set_flag (name, BoolFlag v) fl = store_flag BoolVars name v fl"
| "set_flag (name, Int64Flag v) fl = store_flag Int64Vars name v fl"
| "set_flag (name, Int32Flag v) fl = store_flag Int32Vars name v fl"

text \<open>An unknown flag ends the process (\<open>ExitOnError\<close>): None.\<close>

fun set_flags :: "(string \<times> flag_value) list \<Rightarrow> flags \<Rightarrow> flags option" where
  "set_flags [] fl = Some fl"
| "set_flags (a # as) fl = Option.bind (set_flag a fl) (set_flags as)"

definition init_flags :: "(string \<times> flag_value) list \<Rightarrow> flags option" where
  "init_flags given = set_flags given default_flags"

section \<open>What the informers watch\<close>

text \<open>The path of an API version below the host (\<open>DefaultServerURL\<close>).\<close>

definition versionedAPIPath :: "string \<Rightarrow> GroupVersion \<Rightarrow> string" where
  "versionedAPIPath apiPath gv =
     (let p = path_Join [''/'', apiPath]
      in if 0 < length (GV_Group gv) then path_Join [p, GV_Group gv, GV_Version gv] else path_Join [p, GV_Version gv])"

text \<open>\<open>main\<close> configures the client of the domains with \<open>/apis\<close> and the version of the scheme.\<close>

definition extClient_prefix :: string where
  "extClient_prefix = path_Join [''/'', versionedAPIPath ''/apis'' SchemeGroupVersion]"

text \<open>The list request of \<open>NewListWatchFromClient\<close>; the parameters of the options are left out.\<close>

definition list_watch :: "server \<Rightarrow> string \<Rightarrow> string \<Rightarrow> request" where
  "list_watch client res ns =
     \<lparr>srv = client, verb_of = GET, resource = res, req_namespace = Some ns, req_name = None,
      sub_resource = '''', suffix = '''', params = [], req_body = NoBody\<rparr>"

definition NamespaceAll :: string where
  "NamespaceAll = ''''"

fun informer :: "queue_name \<Rightarrow> request" where
  "informer IngQueue = list_watch CoreServer ''ingresses'' NamespaceAll"
| "informer SvcQueue = list_watch CoreServer ''services'' NamespaceAll"
| "informer DomQueue = list_watch DomainServer ''domains'' NamespaceAll"

section \<open>The process\<close>

text \<open>The sync function each task queue is made with.\<close>

fun sync_of :: "'w env \<Rightarrow> Config \<Rightarrow> queue_name \<Rightarrow> string \<Rightarrow> nat \<Rightarrow> ('w, go_error + unit) run" where
  "sync_of E cfg IngQueue = syncIngress E cfg"
| "sync_of E cfg DomQueue = syncDomain E cfg"
| "sync_of E cfg SvcQueue = syncServices E cfg"

text \<open>
  \<open>runs\<close> are the syncs that ran, with the queue, the key and the actions, and \<open>handled\<close> the events that
  the informers delivered, with the actions of the handler; of both the last one comes first.
\<close>

record 'w system =
  ctl :: "string controller"
  world :: 'w
  runs :: "(queue_name \<times> string \<times> act list) list"
  handled :: "(kube_event \<times> act list) list"
  dead :: bool

text \<open>
  A step of the process. A sync is one step, at whose end the worker reacts to its result; between
  the steps the world changes as it likes (\<open>outside\<close>). \<open>control\<close> is any step of \<open>Run\<close> and its
  queues that leaves the workers in a sync where they are. A panic of a sync, of an event
  handler or of the monitoring server ends the process, as does closing \<open>workerDone\<close> twice.
\<close>

definition stays :: "'k controller \<Rightarrow> 'k controller \<Rightarrow> bool" where
  "stays c c' \<longleftrightarrow> (\<forall>q i k m. i < length (pcs (queues c q)) \<longrightarrow> pcs (queues c q) ! i = Handling k m
     \<longrightarrow> i < length (pcs (queues c' q)) \<and> pcs (queues c' q) ! i = Handling k m)"

definition in_sync :: "'w system \<Rightarrow> queue_name \<Rightarrow> nat \<Rightarrow> string \<Rightarrow> nat \<Rightarrow> bool" where
  "in_sync s q i k m \<longleftrightarrow> i < length (pcs (queues (ctl s) q)) \<and> pcs (queues (ctl s) q) ! i = Handling k m"

definition after_sync :: "queue_name \<Rightarrow> string \<Rightarrow> string pool \<Rightarrow> act list \<Rightarrow> 'w \<Rightarrow> 'w system \<Rightarrow> 'w system" where
  "after_sync q k p t w s = s\<lparr>ctl := set_pool q p (ctl s), world := w, runs := (q, k, t) # runs s\<rparr>"

inductive sys_rule :: "'w env \<Rightarrow> Config \<Rightarrow> (string \<Rightarrow> 'w \<Rightarrow> go_error option \<times> 'w) \<Rightarrow> 'w system \<Rightarrow> 'w system \<Rightarrow> bool"
  for E cfg listen where
  control: "run_rule 1 (ctl s) c \<Longrightarrow> stays (ctl s) c \<Longrightarrow> sys_rule E cfg listen s (s\<lparr>ctl := c\<rparr>)"
| outside: "sys_rule E cfg listen s (s\<lparr>world := w\<rparr>)"
| event: "handle_event E e (world s) = (Done (), t, w)
    \<Longrightarrow> sys_rule E cfg listen s (s\<lparr>ctl := deliver t (ctl s), world := w, handled := (e, t) # handled s\<rparr>)"
| event_panic: "handle_event E e (world s) = (Panic m, t, w)
    \<Longrightarrow> sys_rule E cfg listen s (s\<lparr>dead := True, world := w, handled := (e, t) # handled s\<rparr>)"
| sync_nil: "in_sync s q i k m \<Longrightarrow> sync_of E cfg q k m (world s) = (Done (Inr ()), t, w)
    \<Longrightarrow> p = queues (ctl s) q
    \<Longrightarrow> sys_rule E cfg listen s (after_sync q k (p\<lparr>lim := lim_Forget k (lim p), pcs := (pcs p)[i := Ending k]\<rparr>) t w s)"
| sync_error: "in_sync s q i k m \<Longrightarrow> sync_of E cfg q k m (world s) = (Done (Inl e), t, w)
    \<Longrightarrow> p = queues (ctl s) q \<Longrightarrow> length (chan p) < chan_capacity \<or> wq_shuttingDown (pq p)
    \<Longrightarrow> sys_rule E cfg listen s (after_sync q k ((AddRateLimited k p)\<lparr>pcs := (pcs p)[i := Ending k]\<rparr>) t w s)"
| sync_panic: "in_sync s q i k m \<Longrightarrow> sync_of E cfg q k m (world s) = (Panic msg, t, w)
    \<Longrightarrow> sys_rule E cfg listen s (s\<lparr>dead := True, world := w, runs := (q, k, t) # runs s\<rparr>)"
| monitor_panic: "result_of (ListenAndServeAll n listen (HealthzBindAddress cfg) (HealthzPort cfg))
      \<lparr>once_done = False, default_mux = [], net = world s\<rparr> = Panic m
    \<Longrightarrow> sys_rule E cfg listen s (s\<lparr>dead := True\<rparr>)"

definition sys_step :: "'w env \<Rightarrow> Config \<Rightarrow> (string \<Rightarrow> 'w \<Rightarrow> go_error option \<times> 'w) \<Rightarrow> 'w system \<Rightarrow> 'w system \<Rightarrow> bool" where
  "sys_step E cfg listen s s' \<longleftrightarrow> \<not> dead s \<and> (\<forall>q. \<not> crashed (queues (ctl s) q)) \<and> sys_rule E cfg listen s s'"

text \<open>
  \<open>program E L listen given w t cfg s\<close>: with the flags given, \<open>main\<close> starts the controller with the
  configuration \<open>cfg\<close> after the actions \<open>t\<close>, and the process gets to \<open>s\<close>.
\<close>

inductive program :: "'w env \<Rightarrow> 'w launch \<Rightarrow> (string \<Rightarrow> 'w \<Rightarrow> go_error option \<times> 'w) \<Rightarrow> (string \<times> flag_value) list
    \<Rightarrow> 'w \<Rightarrow> act list \<Rightarrow> Config \<Rightarrow> 'w system \<Rightarrow> bool" for E L listen given w where
  launched: "init_flags given = Some (cfg0, print_version L) \<Longrightarrow> main E L cfg0 w = (Done (Serving cfg b), t, w1)
    \<Longrightarrow> program E L listen given w t cfg \<lparr>ctl = NewKongController t0, world = w1, runs = [], handled = [], dead = False\<rparr>"
| continued: "program E L listen given w t cfg s \<Longrightarrow> sys_step E cfg listen s s' \<Longrightarrow> program E L listen given w t cfg s'"

end
