(* ===== verification/Program_Safety.thy ===== *)
theory Program_Safety
  imports Program Startup_Safety Run_Safety Ingress_Safety Service_Safety Domain_Safety
begin

text \<open>
  What holds of the whole process: it refines the runs of the queues and every sync in it is a run of
  the sync functions, so that the results about the parts hold of it; nothing is written to Kong
  before the custom resource is established; the flags, and the paths the informers list.
\<close>

section \<open>Flags\<close>

lemma set_flag_PodNamespace:
  assumes "set_flag (name, v) fl = Some fl'"
  shows "PodNamespace (fst fl') = (if name = ''pod-namespace'' then (case v of StringFlag s \<Rightarrow> s) else PodNamespace (fst fl))
    \<and> (name = ''pod-namespace'' \<longrightarrow> (\<exists>s. v = StringFlag s))"
  using assms
  by (cases v)
    (auto simp: store_flag_def StringVars_def BoolVars_def Int64Vars_def Int32Vars_def split: if_splits)

lemma default_flags_PodNamespace: "PodNamespace (fst default_flags) = defaultNamespace"
  by (simp add: default_flags_def store_defaults_def StringVars_def BoolVars_def Int64Vars_def Int32Vars_def zero_flags_def)

text \<open>The last flag given wins.\<close>

lemma set_flags_PodNamespace:
  "set_flags given fl = Some fl' \<Longrightarrow>
    (case map_of (rev given) ''pod-namespace'' of
      None \<Rightarrow> PodNamespace (fst fl') = PodNamespace (fst fl)
    | Some v \<Rightarrow> v = StringFlag (PodNamespace (fst fl')))"
proof (induction given arbitrary: fl)
  case (Cons a as)
  obtain name v where a: "a = (name, v)" by fastforce
  with Cons.prems obtain fl1 where fl1: "set_flag (name, v) fl = Some fl1" "set_flags as fl1 = Some fl'"
    by (auto simp: bind_eq_Some_conv)
  show ?case
    using Cons.IH [OF fl1(2)] set_flag_PodNamespace [OF fl1(1)]
    by (auto simp: a map_add_def split: option.splits)
qed simp

section \<open>What main asks for\<close>

definition main_call :: "act \<Rightarrow> bool" where
  "main_call e \<longleftrightarrow> (case e of Call q r \<Rightarrow> q \<in> {root_request, namespace_create, crd_create, crd_get} | _ \<Rightarrow> True)"

lemma main_call_simps [simp]:
  "main_call (Call root_request r)" "main_call (Call namespace_create r)" "main_call (Call crd_create r)"
  "main_call (Call crd_get r)" "main_call (Sleep d)"
  by (simp_all add: main_call_def)

lemma getKongVersion_emits [emits_intros]: "emits_only main_call (getKongVersion E)"
  unfolding getKongVersion_def send_root by (auto intro!: emits_intros split: json.splits option.splits)

lemma WaitFor_emits [emits_intros]: "emits_only P f \<Longrightarrow> (\<And>d. P (Sleep d)) \<Longrightarrow> emits_only P (WaitFor n i L f)"
  by (induction n) (auto intro!: emits_intros)

lemma CreateCRD_emits [emits_intros]: "emits_only main_call (CreateCRD E L)"
  unfolding CreateCRD_def waitCRDReady_polls crd_condition_met_def send_crd_get send_global by (intro emits_intros) auto

lemma main_emits: "emits_only main_call (main E L cfg)"
  unfolding main_def showVersion_def main_prepare_def main_namespace_def createDefaultNamespace_def send_global Let_def
  by (intro emits_intros) auto

text \<open>
  Outside a pod the controller is started with the namespace of the last \<open>--pod-namespace\<close>, or
  \<open>kong-system\<close>; the only namespace \<open>main\<close> asks to be created is \<open>kong-system\<close> in both cases, so that
  a namespace given by the flag is used but not created.
\<close>

lemma flag_namespace_not_created:
  assumes "init_flags given = Some (cfg, v)" "pod_namespace_env L = []"
    and "main E L cfg w = (Done (Serving cfg' b), t, w')"
  shows "(case map_of (rev given) ''pod-namespace'' of None \<Rightarrow> PodNamespace cfg' = defaultNamespace
      | Some f \<Rightarrow> f = StringFlag (PodNamespace cfg'))
    \<and> (\<forall>q r. Call q r \<in> set t \<longrightarrow> verb_of q = POST \<longrightarrow> resource q = ''namespaces'' \<longrightarrow> q = namespace_create)
    \<and> (\<exists>r. Call namespace_create r \<in> set t)"
proof -
  from main_started [OF assms(3)] assms(2) have "cfg' = cfg" "\<exists>r. Call namespace_create r \<in> set t"
    by (auto simp: Startup_Safety.started_def namespace_ensured_def)
  moreover have "case map_of (rev given) ''pod-namespace'' of None \<Rightarrow> PodNamespace cfg = defaultNamespace
      | Some f \<Rightarrow> f = StringFlag (PodNamespace cfg)"
    using set_flags_PodNamespace [of given default_flags] assms(1)
    by (simp add: init_flags_def default_flags_PodNamespace split: option.splits)
  moreover have "q = namespace_create" if "Call q r \<in> set t" "verb_of q = POST" "resource q = ''namespaces''" for q r
  proof -
    have "main_call (Call q r)"
      using main_emits [of E L cfg] assms(3) that(1) by (auto simp: emits_only_def trace_of_def dest: spec [of _ w])
    with that(2,3) show ?thesis
      by (auto simp: main_call_def root_request_def crd_create_def crd_get_def global_request_def)
  qed
  ultimately show ?thesis by blast
qed

definition namespace_flag :: "(string \<times> flag_value) list" where
  "namespace_flag = [(''pod-namespace'', StringFlag ''edge'')]"

lemma namespace_flag_init: "\<exists>cfg. init_flags namespace_flag = Some (cfg, False) \<and> ApiServerHost cfg = ''''"
  by (simp add: init_flags_def namespace_flag_def store_flag_def StringVars_def default_flags_def store_defaults_def
      BoolVars_def Int64Vars_def Int32Vars_def zero_flags_def)

lemma start_main_any:
  assumes "ApiServerHost cfg = ''''"
  shows "\<exists>t. main start_env start_launch cfg () = (Done (Serving cfg False), t, ())"
  using assms
  by (simp add: main_def main_prepare_def main_namespace_def createDefaultNamespace_def start_version start_CreateCRD
      bnd_def ret_def tryE_def ask_def typed_error_def err_answer_def unsupported_def minimalMinorKongVersion_def)

lemma flag_namespace_not_created_witness:
  "\<exists>cfg t. main start_env start_launch cfg () = (Done (Serving cfg False), t, ()) \<and> PodNamespace cfg = ''edge''
    \<and> \<not> (\<exists>q r. Call q r \<in> set t \<and> verb_of q = POST \<and> resource q = ''namespaces'' \<and> q \<noteq> namespace_create)"
proof -
  obtain cfg where cfg: "init_flags namespace_flag = Some (cfg, False)" "ApiServerHost cfg = ''''"
    using namespace_flag_init by blast
  obtain t where run: "main start_env start_launch cfg () = (Done (Serving cfg False), t, ())"
    using start_main_any [OF cfg(2)] by blast
  from flag_namespace_not_created [OF cfg(1) start_launch_simps(2) run] run show ?thesis
    by (intro exI [of _ cfg] exI [of _ t]) (auto simp: namespace_flag_def)
qed

section \<open>What the informers list\<close>

text \<open>
  The domain informer lists the resource that \<open>CreateCRD\<close> makes, in its group and version, and every
  request for a domain goes below the same path.
\<close>

lemma extClient_prefix_eq: "extClient_prefix = ''/apis/'' @ GV_Group SchemeGroupVersion @ ''/'' @ GV_Version SchemeGroupVersion"
  by code_simp

lemma informer_lists_crd:
  "URL_path extClient_prefix (informer DomQueue) =
    ''/apis/'' @ GV_Group SchemeGroupVersion @ ''/'' @ GV_Version SchemeGroupVersion @ ''/'' @ ResourcePlural"
  by code_simp

section \<open>The process refines its parts\<close>

lemma program_induct [consumes 1, case_names launched continued]:
  assumes "program E L listen given w t cfg s"
    and "\<And>t0 w1. P \<lparr>ctl = NewKongController t0, world = w1, runs = [], handled = [], dead = False\<rparr>"
    and "\<And>s s'. P s \<Longrightarrow> sys_step E cfg listen s s' \<Longrightarrow> P s'"
  shows "P s"
  using assms by (induction rule: program.induct) blast+

text \<open>Every step of the process is none, one or several steps of the run.\<close>

lemma sys_step_runs:
  assumes "sys_step E cfg listen s s'"
  shows "(run_step 1)\<^sup>*\<^sup>* (ctl s) (ctl s')"
proof -
  have ok: "\<forall>q. \<not> crashed (queues (ctl s) q)" and rule: "sys_rule E cfg listen s s'"
    using assms by (simp_all add: sys_step_def)
  note one = r_into_rtranclp [of "run_step 1"]
  have work: "run_step 1 (ctl s) (set_pool q p (ctl s))"
    if "tq_step (queues (ctl s) q) p" "wq_shuttingDown (pq p) = wq_shuttingDown (pq (queues (ctl s) q))" for q p
    using ok run_rule.work [OF that] by (simp add: run_step_def)
  from rule show ?thesis
  proof (cases rule: sys_rule.cases)
    case (control c)
    with ok show ?thesis by (auto simp: run_step_def intro: one)
  next
    case (event e t w)
    with deliver_steps [OF ok] show ?thesis by simp
  next
    case (sync_nil q i k m t w p)
    from sync_nil(2,4) have "tq_step p (p\<lparr>lim := lim_Forget k (lim p), pcs := (pcs p)[i := Ending k]\<rparr>)"
      by (intro tq_step.succeed) (simp_all add: in_sync_def)
    with sync_nil work show ?thesis by (auto simp: after_sync_def intro!: one)
  next
    case (sync_error q i k m e t w p)
    from sync_error(2,4,5) have "tq_step p ((AddRateLimited k p)\<lparr>pcs := (pcs p)[i := Ending k]\<rparr>)"
      by (intro tq_step.fail) (simp_all add: in_sync_def)
    with sync_error work show ?thesis by (auto simp: after_sync_def intro!: one)
  qed simp_all
qed

lemma program_run_reachable:
  assumes "program E L listen given w t cfg s"
  shows "run_reachable 1 (ctl s)"
  using assms
proof (induction rule: program_induct)
  case (launched t0 w1)
  then show ?case by (auto simp: run_reachable_def)
next
  case (continued s s')
  then show ?case using run_steps_reachable sys_step_runs by blast
qed

lemma program_main: "program E L listen given w t cfg s \<Longrightarrow>
    \<exists>cfg0 b w1. main E L cfg0 w = (Done (Serving cfg b), t, w1)"
  by (induction rule: program.induct) blast+

text \<open>What a sync recorded is what its function does in some world, and the caches were synchronised before.\<close>

lemma synced_stays: "run_rule n c c' \<Longrightarrow> ing_synced c \<and> svc_synced c \<Longrightarrow> ing_synced c' \<and> svc_synced c'"
  by (induction rule: run_rule.induct) simp_all

lemma synced_stays_steps:
  "(run_step n)\<^sup>*\<^sup>* c c' \<Longrightarrow> ing_synced c \<and> svc_synced c \<Longrightarrow> ing_synced c' \<and> svc_synced c'"
  by (induction rule: rtranclp_induct) (auto simp: run_step_def dest: synced_stays)

lemma in_sync_synced:
  assumes "run_reachable 1 (ctl s)" "in_sync s q i k m"
  shows "ing_synced (ctl s) \<and> svc_synced (ctl s)"
proof -
  from assms(2) have "goroutines (ctl s) q \<noteq> 0" by (auto simp: goroutines_def in_sync_def)
  with run_inv_reachable [OF assms(1)] show ?thesis unfolding run_inv_def by blast
qed

definition sound_handled :: "'w env \<Rightarrow> 'w system \<Rightarrow> bool" where
  "sound_handled E s \<longleftrightarrow> (\<forall>(e, t) \<in> set (handled s). \<exists>w. t = trace_of (handle_event E e) w)"

lemma program_sound_handled:
  assumes "program E L listen given w t cfg s"
  shows "sound_handled E s"
  using assms
proof (induction rule: program_induct)
  case (launched t0 w1)
  show ?case by (simp add: sound_handled_def)
next
  case (continued s s')
  then have "sys_rule E cfg listen s s'" by (simp add: sys_step_def)
  then show ?case
    using continued(1)
    by (cases rule: sys_rule.cases) (auto simp: sound_handled_def after_sync_def trace_of_def, (metis fst_conv snd_conv)+)
qed

definition sound_runs :: "'w env \<Rightarrow> Config \<Rightarrow> 'w system \<Rightarrow> bool" where
  "sound_runs E cfg s \<longleftrightarrow> (runs s \<noteq> [] \<longrightarrow> ing_synced (ctl s) \<and> svc_synced (ctl s))
     \<and> (\<forall>(q, k, t) \<in> set (runs s). \<exists>n w. t = trace_of (sync_of E cfg q k n) w)"

lemma sound_runs_add:
  assumes "sound_runs E cfg s" "ing_synced c \<and> svc_synced c"
    and "sync_of E cfg q k m w0 = (r, t, w)"
  shows "sound_runs E cfg \<lparr>ctl = c, world = w, runs = (q, k, t) # runs s, handled = hs, dead = d\<rparr>"
proof -
  have "t = trace_of (sync_of E cfg q k m) w0" using assms(3) by (simp add: trace_of_def)
  with assms(1,2) show ?thesis unfolding sound_runs_def by fastforce
qed

lemma sound_runs_step:
  assumes "run_reachable 1 (ctl s)" "sound_runs E cfg s" "sys_step E cfg listen s s'"
  shows "sound_runs E cfg s'"
proof -
  note stays = synced_stays_steps [OF sys_step_runs [OF assms(3)]]
  note synced = in_sync_synced [OF assms(1)]
  from assms(3) have "sys_rule E cfg listen s s'" by (simp add: sys_step_def)
  then show ?thesis
  proof (cases rule: sys_rule.cases)
    case (sync_nil q i k m t w p)
    have "ing_synced (ctl s') \<and> svc_synced (ctl s')" using stays synced [OF sync_nil(2)] .
    from sound_runs_add [OF assms(2) this sync_nil(3), of "handled s" "dead s"] sync_nil(1) show ?thesis
      by (cases s) (simp add: after_sync_def)
  next
    case (sync_error q i k m e t w p)
    have "ing_synced (ctl s') \<and> svc_synced (ctl s')" using stays synced [OF sync_error(2)] .
    from sound_runs_add [OF assms(2) this sync_error(3), of "handled s" "dead s"] sync_error(1) show ?thesis
      by (cases s) (simp add: after_sync_def)
  next
    case (sync_panic q i k m msg t w)
    have "ing_synced (ctl s') \<and> svc_synced (ctl s')" using stays synced [OF sync_panic(2)] .
    from sound_runs_add [OF assms(2) this sync_panic(3), of "handled s" True] sync_panic(1) show ?thesis by (cases s) simp
  qed (use assms(2) stays in \<open>auto simp: sound_runs_def\<close>)
qed

lemma program_sound_runs:
  assumes "program E L listen given w t cfg s"
  shows "sound_runs E cfg s"
proof -
  from assms have "run_reachable 1 (ctl s) \<and> sound_runs E cfg s"
  proof (induction rule: program_induct)
    case (launched t0 w1)
    then show ?case by (auto simp: run_reachable_def sound_runs_def)
  next
    case (continued s s')
    then show ?case using sound_runs_step run_steps_reachable sys_step_runs by blast
  qed
  then show ?thesis ..
qed

section \<open>Writes to Kong\<close>

text \<open>What each queue may write, given what its sync did before.\<close>

fun may_write :: "Config \<Rightarrow> queue_name \<Rightarrow> string \<Rightarrow> act list \<Rightarrow> request \<Rightarrow> bool" where
  "may_write cfg IngQueue k h q \<longleftrightarrow> (\<exists>ing r p api. q = kong_request PUT None (JsonBody (enc_API (api_body cfg ing r p api)))
     \<and> has_path ing r p \<and> all_claimed k ing h)"
| "may_write cfg DomQueue k h q \<longleftrightarrow> (\<exists>name ds. q = kong_request DELETE (Some name) NoBody \<and> ReadDomains (Inr ds) \<in> set h)"
| "may_write cfg SvcQueue k h q \<longleftrightarrow> (\<exists>(api :: API) svc. q = kong_request DELETE (Some (API_Name api)) NoBody
     \<and> ReadService k (Inr (Some svc)) \<in> set h \<and> DeletionTimestamp svc \<noteq> None)"

lemma sync_of_writes:
  assumes "fair_ranges E" "trace_of (sync_of E cfg q k n) w = t1 @ Call rq r # t2"
    and "srv rq = KongAdmin" "verb_of rq \<noteq> GET"
  shows "may_write cfg q k t1 rq"
proof (cases q)
  case IngQueue
  have "justified cfg k t1 (Call rq r)" using hoareD [OF syncIngress_justified] assms(2) IngQueue by simp
  with IngQueue assms(3,4) show ?thesis by (fastforce simp: justified_def)
next
  case DomQueue
  with assms(2) have "domain_action cfg k t1 (Call rq r)" using syncDomain_call [OF assms(1)] by simp
  then show ?thesis
    by (cases rule: domain_action.cases) (use assms(3,4) DomQueue in \<open>auto simp: snapshot_def kong_delete_def\<close>)
next
  case SvcQueue
  have "gc_action cfg k t1 (Call rq r)" using hoareD [OF syncServices_action] assms(2) SvcQueue by simp
  with SvcQueue assms(3,4) show ?thesis by (auto simp: gc_action_def doomed_service_def service_release_def)
qed

text \<open>The handlers send at most the domain that \<open>updateDomain\<close> recovers, to the API server of Kubernetes.\<close>

definition no_kong :: "act \<Rightarrow> bool" where
  "no_kong e \<longleftrightarrow> (\<forall>rq r. e = Call rq r \<longrightarrow> srv rq \<noteq> KongAdmin)"

lemma no_kong_simps [simp]:
  "no_kong (Enqueue q k)" "no_kong (ReadClock c)" "no_kong (Call rq r) \<longleftrightarrow> srv rq \<noteq> KongAdmin"
  by (simp_all add: no_kong_def)

lemma updateDomain_no_kong: "emits_only no_kong (updateDomain E old new)"
  unfolding updateDomain_def Let_def by (intro emits_intros) (auto simp: domain_request_def)

lemma handle_event_no_kong: "emits_only no_kong (handle_event E e)"
  by (cases e)
    (auto simp: add_ingress_def update_ingress_def delete_ingress_def add_service_def update_service_def
      delete_service_def addDomain_def deleteDomain_def updateDomain_no_kong Let_def
      intro!: emits_intros split: informer_obj.splits)

lemma main_reads_kong: "main_call (Call q r) \<Longrightarrow> srv q = KongAdmin \<Longrightarrow> verb_of q = GET"
  by (auto simp: main_call_def root_request_def namespace_create_def crd_create_def crd_get_def global_request_def)

text \<open>
  C11: in the whole process, whatever the interleaving of its workers, handlers and informers with the
  outside. The requests of the process are those of \<open>main\<close>, of the syncs and of the event handlers
  (the informers only list and watch, the monitoring server only answers). \<open>main\<close> only reads from
  Kong; no handler sends Kong anything; and a write to Kong in a sync comes after the custom resource
  was said to be established, with the caches of ingresses and services synchronised, and is made by
  the worker of the ingress queue to register a path of an ingress whose hosts it saw claimed, or by
  one of the others to delete an API, the services' worker only for a service being deleted.
\<close>

theorem program_kong_writes:
  assumes "program E L listen given w t0 cfg s" "fair_ranges E"
  shows "says_established L (last t0)
    \<and> (\<forall>rq r. Call rq r \<in> set t0 \<longrightarrow> srv rq = KongAdmin \<longrightarrow> verb_of rq = GET)
    \<and> (\<forall>q k t1 rq r t2. (q, k, t1 @ Call rq r # t2) \<in> set (runs s) \<longrightarrow> srv rq = KongAdmin \<longrightarrow> verb_of rq \<noteq> GET
         \<longrightarrow> ing_synced (ctl s) \<and> svc_synced (ctl s) \<and> may_write cfg q k t1 rq)
    \<and> (\<forall>e t rq r. (e, t) \<in> set (handled s) \<longrightarrow> Call rq r \<in> set t \<longrightarrow> srv rq \<noteq> KongAdmin)"
proof -
  have "srv rq \<noteq> KongAdmin" if "(e, t) \<in> set (handled s)" "Call rq r \<in> set t" for e t rq r
  proof -
    from that(1) program_sound_handled [OF assms(1)] obtain w' where "t = trace_of (handle_event E e) w'"
      by (auto simp: sound_handled_def)
    with that(2) handle_event_no_kong [of E e] show ?thesis by (force simp: emits_only_def)
  qed
  moreover obtain cfg0 b w1 where main: "main E L cfg0 w = (Done (Serving cfg b), t0, w1)" using program_main [OF assms(1)] by blast
  have "verb_of rq = GET" if "Call rq r \<in> set t0" "srv rq = KongAdmin" for rq r
    using main_emits [of E L cfg0] main that main_reads_kong by (force simp: emits_only_def trace_of_def dest: spec [of _ w])
  moreover have "ing_synced (ctl s) \<and> svc_synced (ctl s) \<and> may_write cfg q k t1 rq"
    if "(q, k, t1 @ Call rq r # t2) \<in> set (runs s)" "srv rq = KongAdmin" "verb_of rq \<noteq> GET" for q k t1 rq r t2
  proof -
    have sound: "sound_runs E cfg s" using program_sound_runs [OF assms(1)] .
    with that(1) obtain n w' where "trace_of (sync_of E cfg q k n) w' = t1 @ Call rq r # t2"
      by (force simp: sound_runs_def)
    with sync_of_writes [OF assms(2) this that(2,3)] sound that(1) show ?thesis by (auto simp: sound_runs_def)
  qed
  ultimately show ?thesis using main_started [OF main] by (simp add: Startup_Safety.started_def)
qed

section \<open>A run of the process\<close>

text \<open>A flag, a cluster with one ingress whose host is claimed, and the process up to the registration of its route.\<close>

definition wipe_flag :: "(string \<times> flag_value) list" where
  "wipe_flag = [(''wipe-on-delete'', BoolFlag True)]"

lemma wipe_flag_init: "init_flags wipe_flag = Some (sample_config, False)"
  by (simp add: init_flags_def wipe_flag_def store_flag_def StringVars_def default_flags_def store_defaults_def
      BoolVars_def Int64Vars_def Int32Vars_def zero_flags_def sample_config_def defaultNamespace_def)

definition acme_env :: "unit env" where
  "acme_env = static_env healthy [acme_domain] [acme_service] [acme_ingress]"

lemma acme_answers [simp]:
  "do_request acme_env q w = (healthy q, w)" "healthy root_request = ok_json (JObj [])" "healthy crd_create = ok_json (JObj [])"
  "healthy crd_get = ok_json (JObj [])" "healthy namespace_create = ok_json (JObj [])"
  by (simp_all add: acme_env_def healthy_def root_request_def crd_create_def crd_get_def namespace_create_def global_request_def)

lemma acme_CreateCRD: "\<exists>t. CreateCRD acme_env start_launch () = (Done (Inr ()), t, ())"
  by (simp add: CreateCRD_def waitCRDReady_polls numeral_eq_Suc crd_condition_met_def go_defs send_crd_get typed_error_def ok_json_def)

lemma acme_version: "\<exists>v t. getKongVersion acme_env () = (Done v, t, ()) \<and> \<not> unsupported v"
  by (simp add: getKongVersion_def send_root bnd_def ask_def ret_def ok_json_def payload_of_def json_member_def unsupported_def)

lemma acme_main: "\<exists>t. main acme_env start_launch sample_config () = (Done (Serving sample_config False), t, ())"
proof -
  obtain t1 where crd: "CreateCRD acme_env start_launch () = (Done (Inr ()), t1, ())" using acme_CreateCRD by blast
  obtain v t2 where v: "getKongVersion acme_env () = (Done v, t2, ())" "\<not> unsupported v" using acme_version by blast
  from v crd show ?thesis
    by (simp add: main_def main_prepare_def main_namespace_def createDefaultNamespace_def bnd_def ret_def tryE_def ask_def
        typed_error_def ok_json_def sample_config_def)
qed

definition calm :: "'k controller \<Rightarrow> bool" where
  "calm c \<longleftrightarrow> (\<forall>q k m. Handling k m \<notin> set (pcs (queues c q)))"

lemma calm_stays: "calm c \<Longrightarrow> stays c c'"
  by (metis calm_def nth_mem stays_def)

lemma program_control:
  assumes "program E L listen given w t cfg \<lparr>ctl = c, world = w', runs = rs, handled = hs, dead = False\<rparr>"
    and "run_step 1 c c'" "calm c"
  shows "program E L listen given w t cfg \<lparr>ctl = c', world = w', runs = rs, handled = hs, dead = False\<rparr>"
proof (rule program.continued [OF assms(1)])
  have "sys_rule E cfg listen \<lparr>ctl = c, world = w', runs = rs, handled = hs, dead = False\<rparr>
      (\<lparr>ctl = c, world = w', runs = rs, handled = hs, dead = False\<rparr>\<lparr>ctl := c'\<rparr>)"
    using assms(2,3) by (intro sys_rule.control) (simp_all add: run_step_def calm_stays)
  then show "sys_step E cfg listen \<lparr>ctl = c, world = w', runs = rs, handled = hs, dead = False\<rparr> \<lparr>ctl = c', world = w', runs = rs, handled = hs, dead = False\<rparr>"
    using assms(2) by (simp add: sys_step_def run_step_def)
qed

lemma calm_simps [simp]:
  "calm (NewKongController t)" "calm (c\<lparr>ing_synced := b\<rparr>) = calm c" "calm (c\<lparr>svc_synced := b\<rparr>) = calm c" "calm (serving n)"
  "calm (started q (serving n))"
  by (simp_all add: calm_def NewKongController_def pool_init_def serving_def started_def)

lemma program_serving:
  assumes "program E L listen given w t cfg \<lparr>ctl = NewKongController 0, world = w', runs = [], handled = [], dead = False\<rparr>"
  shows "program E L listen given w t cfg \<lparr>ctl = started IngQueue (serving 1), world = w', runs = [], handled = [], dead = False\<rparr>"
proof -
  let ?s1 = "(NewKongController 0)\<lparr>ing_synced := True\<rparr> :: string controller"
  let ?s2 = "?s1\<lparr>svc_synced := True\<rparr>"
  have a: "run_step 1 (NewKongController 0) ?s1" and b: "run_step 1 ?s1 ?s2" by (auto simp: run_step_def intro: run_rule.intros)
  have "run_step 1 ?s2 (?s2\<lparr>main_at := Serve, unstarted := (\<lambda>q. 1)\<rparr>)"
    unfolding run_step_def by (intro conjI allI run_rule.synced) (simp_all add: NewKongController_def pool_init_def)
  then have c: "run_step 1 ?s2 (serving 1)" by (simp add: serving_def)
  have d: "run_step 1 (serving 1) (started IngQueue (serving 1))"
    unfolding run_step_def started_def by (intro conjI allI run_rule.start) simp_all
  note p1 = program_control [OF assms a calm_simps(1)]
  note p2 = program_control [OF p1 b]
  note p3 = program_control [OF p2 [simplified] c]
  show ?thesis by (rule program_control [OF p3 d]) simp_all
qed

lemma work_step:
  assumes "tq_step (queues c q) p" "wq_shuttingDown (pq p) = wq_shuttingDown (pq (queues c q))" "\<forall>q. \<not> crashed (queues c q)"
  shows "run_step n c (set_pool q p c)"
  using assms by (simp add: run_step_def run_rule.work)

text \<open>The worker of the ingress queue comes to the key of the ingress.\<close>

lemma program_handling:
  assumes "program acme_env L listen given w t cfg \<lparr>ctl = NewKongController 0, world = (), runs = [], handled = [], dead = False\<rparr>"
  shows "\<exists>c h. program acme_env L listen given w t cfg \<lparr>ctl = c, world = (), runs = [], handled = h, dead = False\<rparr>
    \<and> pcs (queues c IngQueue) = [Handling ''acme/routes'' 0] \<and> (\<forall>q. \<not> crashed (queues c q))"
proof -
  let ?k = "''acme/routes''"
  let ?c1 = "started IngQueue (serving 1) :: string controller"
  let ?h = "[(IngressAdded acme_ingress, [Enqueue IngQueue ?k])]"
  let ?c2 = "deliver [Enqueue IngQueue ?k] ?c1"
  have ev: "handle_event acme_env (IngressAdded acme_ingress) () = (Done (), [Enqueue IngQueue ?k], ())"
    by (simp add: add_ingress_def emit_def isKongIngress_def ingressClass_def acme_ingress_def mk_ingress_def meta_key_def Let_def)
  have two: "program acme_env L listen given w t cfg \<lparr>ctl = ?c2, world = (), runs = [], handled = ?h, dead = False\<rparr>"
    using program.continued [OF program_serving [OF assms]]
      sys_rule.event [where s = "\<lparr>ctl = ?c1, world = (), runs = [], handled = [], dead = False\<rparr>", simplified, OF ev]
    by (simp add: sys_step_def)
  let ?p2 = "queues ?c2 IngQueue"
  have p2: "pcs ?p2 = [Idle]" "\<not> wq_shuttingDown (pq ?p2)" "\<forall>q. \<not> crashed (queues ?c2 q)" "calm ?c2"
    by (simp_all add: TaskQueue_Add_def pool_init_def wq.add_effect wq_new_def calm_def)
  obtain q where get: "wq_get (pq ?p2) = (Item ?k, q)" and q: "\<not> wq_shuttingDown q"
    by (simp add: TaskQueue_Add_def pool_init_def wq_new_def wq_add_def wq_get_def)
  let ?c3 = "set_pool IngQueue (?p2\<lparr>pq := q, pcs := (pcs ?p2)[0 := Fetched ?k]\<rparr>) ?c2"
  have "run_step 1 ?c2 ?c3"
    by (rule work_step [OF tq_step.fetch [OF _ _ get]]) (use p2 q in simp_all)
  note three = program_control [OF two this p2(4)]
  let ?p3 = "queues ?c3 IngQueue"
  let ?c4 = "set_pool IngQueue (?p3\<lparr>pcs := (pcs ?p3)[0 := Handling ?k (lim_NumRequeues ?k (lim ?p3))]\<rparr>) ?c3"
  have c3: "\<forall>q. \<not> crashed (queues ?c3 q)" "calm ?c3" using p2 by (auto simp: calm_def)
  have "run_step 1 ?c3 ?c4"
    by (rule work_step [OF tq_step.requeues]) (use p2 c3 in simp_all)
  note four = program_control [OF three this c3(2)]
  have "lim_NumRequeues ?k (lim ?p3) = 0"
    by (simp add: TaskQueue_Add_def pool_init_def new_limiter_def)
  then have "pcs (queues ?c4 IngQueue) = [Handling ?k 0]" using p2(1) by simp
  moreover have "\<forall>q. \<not> crashed (queues ?c4 q)" using c3(1) by simp
  ultimately show ?thesis using four by blast
qed

lemma acme_sync:
  "\<exists>t1 rq r t2. syncIngress acme_env sample_config ''acme/routes'' 0 () = (Done (Inr ()), t1 @ Call rq r # t2, ())
    \<and> srv rq = KongAdmin \<and> verb_of rq \<noteq> GET"
proof -
  obtain t where t: "syncIngress acme_env sample_config ''acme/routes'' 0 () = (Done (Inr ()), t, ())" "\<exists>e \<in> set t. kong_write e"
    by (simp add: acme_env_def ingress_run_defs)
  then show ?thesis using kong_write_split by blast
qed

lemma program_kong_writes_witness:
  "\<exists>t0 s t1 rq r t2. program acme_env start_launch (\<lambda>a w. (None, w)) wipe_flag () t0 sample_config s
    \<and> (IngQueue, ''acme/routes'', t1 @ Call rq r # t2) \<in> set (runs s) \<and> verb_of rq \<noteq> GET
    \<and> says_established start_launch (last t0) \<and> may_write sample_config IngQueue ''acme/routes'' t1 rq"
proof -
  let ?listen = "\<lambda>a w. (None, w)"
  obtain t0 where "main acme_env start_launch sample_config () = (Done (Serving sample_config False), t0, ())"
    using acme_main by blast
  from program.launched [OF _ this] wipe_flag_init
  have "program acme_env start_launch ?listen wipe_flag () t0 sample_config
      \<lparr>ctl = NewKongController 0, world = (), runs = [], handled = [], dead = False\<rparr>" by simp
  from program_handling [OF this] obtain c h where c: "program acme_env start_launch ?listen wipe_flag () t0 sample_config
      \<lparr>ctl = c, world = (), runs = [], handled = h, dead = False\<rparr>"
    "pcs (queues c IngQueue) = [Handling ''acme/routes'' 0]" "\<forall>q. \<not> crashed (queues c q)" by blast
  let ?s = "\<lparr>ctl = c, world = (), runs = [], handled = h, dead = False\<rparr>"
  obtain t1 rq r t2 where run: "syncIngress acme_env sample_config ''acme/routes'' 0 () = (Done (Inr ()), t1 @ Call rq r # t2, ())"
    and rq: "srv rq = KongAdmin" "verb_of rq \<noteq> GET" using acme_sync by blast
  have "in_sync ?s IngQueue 0 ''acme/routes'' 0" using c(2) by (simp add: in_sync_def)
  from sys_rule.sync_nil [OF this, of acme_env sample_config "t1 @ Call rq r # t2" "()" _ ?listen] run
  obtain s' where "sys_rule acme_env sample_config ?listen ?s s'" and s': "runs s' = [(IngQueue, ''acme/routes'', t1 @ Call rq r # t2)]"
    by (auto simp: after_sync_def)
  then have "sys_step acme_env sample_config ?listen ?s s'" using c(3) by (simp add: sys_step_def)
  from program.continued [OF c(1) this] have p: "program acme_env start_launch ?listen wipe_flag () t0 sample_config s'" .
  have "fair_ranges acme_env" by (simp add: acme_env_def)
  from program_kong_writes [OF p this] s' rq p show ?thesis by fastforce
qed

end
