(* ===== verification/Informers.thy ===== *)
theory Informers
  imports Controller_Run
begin

text \<open>
  The shared informers of \<open>NewKongController\<close> (\<open>tools/cache/shared_informer.go\<close> of client-go): the
  deltas a reflector pops are applied to the indexer and give notifications, which wait in order
  for the event handlers of the controller; the handlers queue keys, and a worker reads the
  indexer when it takes a key. What the reflector lists and watches is left open: any sequence of
  deltas that satisfies what a theorem says of them.
\<close>

section \<open>State\<close>

datatype 'o delta = Sync 'o | Added 'o | Updated 'o | Deleted "'o informer_obj"

datatype 'o notification = updateNotification 'o 'o | addNotification 'o | deleteNotification "'o informer_obj"

text \<open>
  An informer has one listener, the handlers of the controller: \<open>syncing\<close> says that it is among the
  \<open>syncingListeners\<close>, \<open>lastTimer\<close> when the reflector last set the timer of its resync checks.
\<close>

record 'o shared_informer =
  indexer :: "string \<rightharpoonup> 'o"
  pendingNotifications :: "'o notification list"
  syncing :: bool
  nextResync :: int
  lastTimer :: int

definition resyncPeriod :: int where
  "resyncPeriod = 120 * 10 ^ 9"

text \<open>The informer after \<open>AddEventHandler\<close> at time \<open>t0\<close>, whose reflector is run from \<open>t1\<close> on.\<close>

definition NewSharedIndexInformer :: "int \<Rightarrow> int \<Rightarrow> 'o shared_informer" where
  "NewSharedIndexInformer t0 t1 = \<lparr>indexer = Map.empty, pendingNotifications = [], syncing = True,
     nextResync = t0 + resyncPeriod, lastTimer = t1\<rparr>"

section \<open>Applying deltas\<close>

definition distribute :: "'o notification \<Rightarrow> bool \<Rightarrow> 'o shared_informer \<Rightarrow> 'o shared_informer" where
  "distribute n sync s =
     (if sync \<and> \<not> syncing s then s
      else s\<lparr>pendingNotifications := pendingNotifications s @ [n]\<rparr>)"

text \<open>\<open>DeletionHandlingMetaNamespaceKeyFunc\<close>.\<close>

fun informer_key :: "'a ObjectMeta_scheme informer_obj \<Rightarrow> string" where
  "informer_key (Obj x) = meta_key x"
| "informer_key (DeletedFinalStateUnknown key) = key"

fun delta_key :: "'a ObjectMeta_scheme delta \<Rightarrow> string" where
  "delta_key (Sync x) = meta_key x"
| "delta_key (Added x) = meta_key x"
| "delta_key (Updated x) = meta_key x"
| "delta_key (Deleted obj) = informer_key obj"

fun upsert_notification :: "'o option \<Rightarrow> 'o \<Rightarrow> 'o notification" where
  "upsert_notification (Some old) x = updateNotification old x"
| "upsert_notification None x = addNotification x"

definition upsert :: "'a ObjectMeta_scheme \<Rightarrow> bool \<Rightarrow> 'a ObjectMeta_scheme shared_informer
    \<Rightarrow> 'a ObjectMeta_scheme shared_informer" where
  "upsert x isSync s =
     distribute (upsert_notification (indexer s (meta_key x)) x) isSync
       (s\<lparr>indexer := (indexer s)(meta_key x \<mapsto> x)\<rparr>)"

fun HandleDelta :: "'a ObjectMeta_scheme delta \<Rightarrow> 'a ObjectMeta_scheme shared_informer
    \<Rightarrow> 'a ObjectMeta_scheme shared_informer" where
  "HandleDelta (Sync x) s = upsert x True s"
| "HandleDelta (Added x) s = upsert x False s"
| "HandleDelta (Updated x) s = upsert x False s"
| "HandleDelta (Deleted obj) s =
     distribute (deleteNotification obj) False (s\<lparr>indexer := (indexer s)(informer_key obj := None)\<rparr>)"

definition HandleDeltas :: "'a ObjectMeta_scheme delta list \<Rightarrow> 'a ObjectMeta_scheme shared_informer
    \<Rightarrow> 'a ObjectMeta_scheme shared_informer" where
  "HandleDeltas ds s = fold HandleDelta ds s"

section \<open>Resync checks\<close>

definition listener_shouldResync :: "int \<Rightarrow> 'o shared_informer \<Rightarrow> bool" where
  "listener_shouldResync t s \<longleftrightarrow> resyncPeriod \<noteq> 0 \<and> nextResync s \<le> t"

definition determineNextResync :: "int \<Rightarrow> 'o shared_informer \<Rightarrow> 'o shared_informer" where
  "determineNextResync t s = s\<lparr>nextResync := t + resyncPeriod\<rparr>"

definition shouldResync :: "int \<Rightarrow> 'o shared_informer \<Rightarrow> bool \<times> 'o shared_informer" where
  "shouldResync t s =
     (let s1 = s\<lparr>syncing := False\<rparr>
      in if listener_shouldResync t s1 then (True, determineNextResync t (s1\<lparr>syncing := True\<rparr>)) else (False, s1))"

text \<open>The loop of the reflector: a check when the timer fires, then a new timer, set at \<open>later\<close>.\<close>

definition resync_check :: "int \<Rightarrow> int \<Rightarrow> 'o shared_informer \<Rightarrow> 'o shared_informer" where
  "resync_check t later s = (snd (shouldResync t s))\<lparr>lastTimer := later\<rparr>"

section \<open>One informer and the controller\<close>

text \<open>The handlers of \<open>NewKongController\<close> for a notification of each informer.\<close>

fun ingress_event :: "Ingress notification \<Rightarrow> kube_event" where
  "ingress_event (addNotification x) = IngressAdded x"
| "ingress_event (updateNotification old new) = IngressUpdated old new"
| "ingress_event (deleteNotification obj) = IngressDeleted obj"

fun service_event :: "Service notification \<Rightarrow> kube_event" where
  "service_event (addNotification x) = ServiceAdded (Obj x)"
| "service_event (updateNotification old new) = ServiceUpdated old new"
| "service_event (deleteNotification obj) = ServiceDeleted obj"

fun domain_event :: "Domain notification \<Rightarrow> kube_event" where
  "domain_event (addNotification x) = DomainAdded (Obj x)"
| "domain_event (updateNotification old new) = DomainUpdated old new"
| "domain_event (deleteNotification obj) = DomainDeleted obj"

text \<open>
  The controller with one of its informers; \<open>seen\<close> records, for each key, what the indexer held when
  a worker of the queue last read it.
\<close>

record ('o, 'w) feed =
  fctl :: "string controller"
  finf :: "'o shared_informer"
  seen :: "string \<rightharpoonup> 'o"
  fworld :: 'w

definition pcs_of :: "queue_name \<Rightarrow> string controller \<Rightarrow> string pc list" where
  "pcs_of q c = pcs (queues c q)"

definition keeps_fetched :: "queue_name \<Rightarrow> string controller \<Rightarrow> string controller \<Rightarrow> bool" where
  "keeps_fetched q c c' \<longleftrightarrow> (\<forall>k. Fetched k \<in> set (pcs_of q c) \<longrightarrow> Fetched k \<in> set (pcs_of q c'))"

text \<open>
  The steps: a delta, a resync check, a notification given to its handler, the worker that fetched
  a key and reads the indexer as the first thing its sync does, any other step of the controller
  (\<open>control\<close>), and the outside world. \<open>ok\<close> is what is assumed of the deltas, given what the
  indexer holds under the key. A handler that panics ends the process: there is no step.
\<close>

inductive feed_rule :: "nat \<Rightarrow> 'w env \<Rightarrow> queue_name \<Rightarrow> ('a ObjectMeta_scheme notification \<Rightarrow> kube_event)
    \<Rightarrow> (('a ObjectMeta_scheme) option \<Rightarrow> 'a ObjectMeta_scheme delta \<Rightarrow> bool)
    \<Rightarrow> ('a ObjectMeta_scheme, 'w) feed \<Rightarrow> ('a ObjectMeta_scheme, 'w) feed \<Rightarrow> bool"
  for workers E q ev ok where
  delta: "ok (indexer (finf s) (delta_key d)) d
    \<Longrightarrow> feed_rule workers E q ev ok s (s\<lparr>finf := HandleDelta d (finf s)\<rparr>)"
| resync: "lastTimer (finf s) + resyncPeriod \<le> t \<Longrightarrow> t \<le> later
    \<Longrightarrow> feed_rule workers E q ev ok s (s\<lparr>finf := resync_check t later (finf s)\<rparr>)"
| relist: "lastTimer (finf s) \<le> later
    \<Longrightarrow> feed_rule workers E q ev ok s (s\<lparr>finf := (finf s)\<lparr>lastTimer := later\<rparr>\<rparr>)"
| handle: "pendingNotifications (finf s) = n # rest \<Longrightarrow> handle_event E (ev n) (fworld s) = (Done (), t, w)
    \<Longrightarrow> feed_rule workers E q ev ok s
      (s\<lparr>fctl := deliver t (fctl s), finf := (finf s)\<lparr>pendingNotifications := rest\<rparr>, fworld := w\<rparr>)"
| reads: "i < length (pcs_of q (fctl s)) \<Longrightarrow> pcs_of q (fctl s) ! i = Fetched k \<Longrightarrow> p = queues (fctl s) q
    \<Longrightarrow> feed_rule workers E q ev ok s
      (s\<lparr>fctl := set_pool q (p\<lparr>pcs := (pcs p)[i := Handling k (lim_NumRequeues k (lim p))]\<rparr>) (fctl s),
         seen := (seen s)(k := indexer (finf s) k)\<rparr>)"
| control: "run_rule workers (fctl s) c \<Longrightarrow> keeps_fetched q (fctl s) c
    \<Longrightarrow> feed_rule workers E q ev ok s (s\<lparr>fctl := c\<rparr>)"
| outside: "feed_rule workers E q ev ok s (s\<lparr>fworld := w\<rparr>)"

inductive feed_reachable :: "nat \<Rightarrow> 'w env \<Rightarrow> queue_name \<Rightarrow> ('a ObjectMeta_scheme notification \<Rightarrow> kube_event)
    \<Rightarrow> (('a ObjectMeta_scheme) option \<Rightarrow> 'a ObjectMeta_scheme delta \<Rightarrow> bool)
    \<Rightarrow> ('a ObjectMeta_scheme, 'w) feed \<Rightarrow> bool"
  for workers E q ev ok where
  init: "t0 \<le> t1 \<Longrightarrow> feed_reachable workers E q ev ok
    \<lparr>fctl = NewKongController t, finf = NewSharedIndexInformer t0 t1, seen = Map.empty, fworld = w\<rparr>"
| step: "feed_reachable workers E q ev ok s \<Longrightarrow> (\<forall>q. \<not> crashed (queues (fctl s) q)) \<Longrightarrow> feed_rule workers E q ev ok s s'
    \<Longrightarrow> feed_reachable workers E q ev ok s'"

end
