(* ===== verification/Delta_Fifo.thy ===== *)
theory Delta_Fifo
  imports Informers
begin

text \<open>
  The queue between the reflector of an informer and its indexer (\<open>tools/cache/delta_fifo.go\<close>), as
  \<open>shared_informer.go\<close> builds it: keyed by the metadata of the objects, without a compressor, the
  indexer being the store of the known objects. Each method runs under the lock of the queue. With
  it the operations of \<open>reflector.go\<close>: a list replaces the contents, the events of a watch add to them,
  and the loop of \<open>controller.go\<close> pops the deltas of a key and hands them to \<open>HandleDeltas\<close>.
\<close>

section \<open>The queue\<close>

record 'o delta_fifo =
  items :: "string \<rightharpoonup> 'o delta list"
  fifo_queue :: "string list"
  populated :: bool
  initialPopulationCount :: nat

definition NewDeltaFIFO :: "'o delta_fifo" where
  "NewDeltaFIFO = \<lparr>items = Map.empty, fifo_queue = [], populated = False, initialPopulationCount = 0\<rparr>"

definition HasSynced :: "'o delta_fifo \<Rightarrow> bool" where
  "HasSynced f \<longleftrightarrow> populated f \<and> initialPopulationCount f = 0"

text \<open>Of two deletions in a row the one that has the object is kept, the older one of two such.\<close>

fun isDeletionDup :: "'o delta \<Rightarrow> 'o delta \<Rightarrow> 'o delta option" where
  "isDeletionDup (Deleted a) (Deleted (DeletedFinalStateUnknown k)) = Some (Deleted a)"
| "isDeletionDup (Deleted a) (Deleted (Obj x)) = Some (Deleted (Obj x))"
| "isDeletionDup _ _ = None"

definition dedupDeltas :: "'o delta list \<Rightarrow> 'o delta list" where
  "dedupDeltas ds =
     (let n = length ds in
      if n < 2 then ds
      else case isDeletionDup (ds ! (n - 1)) (ds ! (n - 2)) of
             Some out \<Rightarrow> take (n - 2) ds @ [out]
           | None \<Rightarrow> ds)"

definition deltas_of :: "'o delta_fifo \<Rightarrow> string \<Rightarrow> 'o delta list" where
  "deltas_of f k = (case items f k of None \<Rightarrow> [] | Some ds \<Rightarrow> ds)"

fun is_deleted :: "'o delta \<Rightarrow> bool" where
  "is_deleted (Deleted obj) = True"
| "is_deleted _ = False"

fun is_sync :: "'o delta \<Rightarrow> bool" where
  "is_sync (Sync x) = True"
| "is_sync _ = False"

definition willObjectBeDeleted :: "string \<Rightarrow> 'o delta_fifo \<Rightarrow> bool" where
  "willObjectBeDeleted k f \<longleftrightarrow> 0 < length (deltas_of f k) \<and> is_deleted (last (deltas_of f k))"

definition queueAction :: "'a ObjectMeta_scheme delta \<Rightarrow> 'a ObjectMeta_scheme delta_fifo \<Rightarrow> 'a ObjectMeta_scheme delta_fifo" where
  "queueAction d f =
     (let k = delta_key d in
      if is_sync d \<and> willObjectBeDeleted k f then f
      else
        let newDeltas = dedupDeltas (deltas_of f k @ [d])
        in if 0 < length newDeltas
           then f\<lparr>fifo_queue := (if items f k = None then fifo_queue f @ [k] else fifo_queue f),
                  items := (items f)(k \<mapsto> newDeltas)\<rparr>
           else if items f k \<noteq> None then f\<lparr>items := (items f)(k := None)\<rparr>
           else f)"

definition FIFO_Add :: "'a ObjectMeta_scheme \<Rightarrow> 'a ObjectMeta_scheme delta_fifo \<Rightarrow> 'a ObjectMeta_scheme delta_fifo" where
  "FIFO_Add x f = queueAction (Added x) (f\<lparr>populated := True\<rparr>)"

definition FIFO_Update :: "'a ObjectMeta_scheme \<Rightarrow> 'a ObjectMeta_scheme delta_fifo \<Rightarrow> 'a ObjectMeta_scheme delta_fifo" where
  "FIFO_Update x f = queueAction (Updated x) (f\<lparr>populated := True\<rparr>)"

definition FIFO_Delete :: "(string \<rightharpoonup> 'a ObjectMeta_scheme) \<Rightarrow> 'a ObjectMeta_scheme informer_obj
    \<Rightarrow> 'a ObjectMeta_scheme delta_fifo \<Rightarrow> 'a ObjectMeta_scheme delta_fifo" where
  "FIFO_Delete known obj f =
     (let k = informer_key obj; f1 = f\<lparr>populated := True\<rparr>
      in if known k = None \<and> items f1 k = None then f1 else queueAction (Deleted obj) f1)"

text \<open>\<open>ks\<close> are the keys of the known objects, in the order \<open>ListKeys\<close> happens to give.\<close>

definition FIFO_Replace :: "string list \<Rightarrow> 'a ObjectMeta_scheme list \<Rightarrow> 'a ObjectMeta_scheme delta_fifo
    \<Rightarrow> 'a ObjectMeta_scheme delta_fifo" where
  "FIFO_Replace ks xs f =
     (let keys = set (map meta_key xs);
          f1 = fold (\<lambda>x. queueAction (Sync x)) xs f;
          gone = filter (\<lambda>k. k \<notin> keys) ks;
          f2 = fold (\<lambda>k. queueAction (Deleted (DeletedFinalStateUnknown k))) gone f1
      in if \<not> populated f2 then f2\<lparr>populated := True, initialPopulationCount := length xs + length gone\<rparr> else f2)"

definition syncKey :: "(string \<rightharpoonup> 'a ObjectMeta_scheme) \<Rightarrow> string \<Rightarrow> 'a ObjectMeta_scheme delta_fifo
    \<Rightarrow> 'a ObjectMeta_scheme delta_fifo" where
  "syncKey known k f = (case known k of
      None \<Rightarrow> f
    | Some x \<Rightarrow> if 0 < length (deltas_of f (meta_key x)) then f else queueAction (Sync x) f)"

definition FIFO_Resync :: "string list \<Rightarrow> (string \<rightharpoonup> 'a ObjectMeta_scheme) \<Rightarrow> 'a ObjectMeta_scheme delta_fifo
    \<Rightarrow> 'a ObjectMeta_scheme delta_fifo" where
  "FIFO_Resync ks known f = fold (syncKey known) ks f"

text \<open>
  One round of the loop of \<open>Pop\<close>, which waits while the queue is empty: a key without deltas only counts
  down the initial population. \<open>process\<close> never asks for a requeue.
\<close>

fun pop_round :: "'o delta_fifo \<Rightarrow> ('o delta list option \<times> 'o delta_fifo) option" where
  "pop_round f = (case fifo_queue f of
      [] \<Rightarrow> None
    | k # ks \<Rightarrow>
        let f1 = f\<lparr>fifo_queue := ks, initialPopulationCount := initialPopulationCount f - 1\<rparr>
        in (case items f k of
              None \<Rightarrow> Some (None, f1)
            | Some ds \<Rightarrow> Some (Some ds, f1\<lparr>items := (items f)(k := None)\<rparr>)))"

section \<open>The reflector and the indexer\<close>

text \<open>
  \<open>server_view\<close> is what the API server last told the reflector of each object, \<open>popped\<close> the keys
  that have been popped.
\<close>

record 'o mirror =
  mfifo :: "'o delta_fifo"
  minf :: "'o shared_informer"
  server_view :: "string \<rightharpoonup> 'o"
  popped :: "string set"
  overlooked :: "string set"

definition NewMirror :: "int \<Rightarrow> int \<Rightarrow> 'o mirror" where
  "NewMirror t0 t1 = \<lparr>mfifo = NewDeltaFIFO, minf = NewSharedIndexInformer t0 t1, server_view = Map.empty, popped = {},
     overlooked = {}\<rparr>"

datatype 'o reflector_op =
    Relist "string list" "'o list"
  | WatchAdded 'o
  | WatchModified 'o
  | WatchDeleted 'o
  | ForceResync int int "string list"
  | PopOne

definition table :: "'a ObjectMeta_scheme list \<Rightarrow> string \<rightharpoonup> 'a ObjectMeta_scheme" where
  "table xs = map_of (map (\<lambda>x. (meta_key x, x)) xs)"

text \<open>The check of the resync timer, which asks the store to resync if a listener wants it.\<close>

definition reflector_resync :: "int \<Rightarrow> int \<Rightarrow> string list \<Rightarrow> 'a ObjectMeta_scheme mirror \<Rightarrow> 'a ObjectMeta_scheme mirror" where
  "reflector_resync t later ks m =
     (if fst (shouldResync t (minf m))
      then m\<lparr>mfifo := FIFO_Resync ks (indexer (minf m)) (mfifo m), minf := resync_check t later (minf m)\<rparr>
      else m\<lparr>minf := resync_check t later (minf m)\<rparr>)"

definition process_one :: "'a ObjectMeta_scheme mirror \<Rightarrow> 'a ObjectMeta_scheme mirror" where
  "process_one m = (case pop_round (mfifo m) of
      None \<Rightarrow> m
    | Some (None, f) \<Rightarrow> m\<lparr>mfifo := f\<rparr>
    | Some (Some ds, f) \<Rightarrow> m\<lparr>mfifo := f, minf := HandleDeltas ds (minf m), popped := insert (hd (fifo_queue (mfifo m))) (popped m)\<rparr>)"

text \<open>
  A list that comes at a bad moment for a key: the key is listed while its deletion waits in the
  queue, or it is not listed while an object that is not in the indexer yet waits to be added.
  \<open>overlooked\<close> are the keys for which the last list came at such a moment and of which nothing was
  watched since; the code has no such set.
\<close>

definition list_overlooks :: "'a ObjectMeta_scheme list \<Rightarrow> 'a ObjectMeta_scheme delta_fifo \<Rightarrow> (string \<rightharpoonup> 'a ObjectMeta_scheme)
    \<Rightarrow> string \<Rightarrow> bool" where
  "list_overlooks xs f known k \<longleftrightarrow> items f k \<noteq> None
     \<and> (if willObjectBeDeleted k f then k \<in> meta_key ` set xs else k \<notin> meta_key ` set xs \<and> known k = None)"

fun mirror_step :: "'a ObjectMeta_scheme reflector_op \<Rightarrow> 'a ObjectMeta_scheme mirror \<Rightarrow> 'a ObjectMeta_scheme mirror" where
  "mirror_step (Relist ks xs) m =
     m\<lparr>mfifo := FIFO_Replace ks xs (mfifo m), server_view := table xs,
       overlooked := {k. list_overlooks xs (mfifo m) (indexer (minf m)) k}\<rparr>"
| "mirror_step (WatchAdded x) m =
     m\<lparr>mfifo := FIFO_Add x (mfifo m), server_view := (server_view m)(meta_key x \<mapsto> x),
       overlooked := overlooked m - {meta_key x}\<rparr>"
| "mirror_step (WatchModified x) m =
     m\<lparr>mfifo := FIFO_Update x (mfifo m), server_view := (server_view m)(meta_key x \<mapsto> x),
       overlooked := overlooked m - {meta_key x}\<rparr>"
| "mirror_step (WatchDeleted x) m =
     m\<lparr>mfifo := FIFO_Delete (indexer (minf m)) (Obj x) (mfifo m), server_view := (server_view m)(meta_key x := None),
       overlooked := overlooked m - {meta_key x}\<rparr>"
| "mirror_step (ForceResync t later ks) m = reflector_resync t later ks m"
| "mirror_step PopOne m = process_one m"

text \<open>What the operations are given: \<open>ListKeys\<close> gives the keys of the indexer, a list has each key once.\<close>

fun op_given :: "'a ObjectMeta_scheme reflector_op \<Rightarrow> 'a ObjectMeta_scheme mirror \<Rightarrow> bool" where
  "op_given (Relist ks xs) m \<longleftrightarrow> set ks = dom (indexer (minf m)) \<and> distinct ks \<and> distinct (map meta_key xs)"
| "op_given (ForceResync t later ks) m \<longleftrightarrow> set ks = dom (indexer (minf m)) \<and> distinct ks"
| "op_given _ m \<longleftrightarrow> True"

fun mirror_run :: "('a ObjectMeta_scheme reflector_op \<Rightarrow> 'a ObjectMeta_scheme mirror \<Rightarrow> bool)
    \<Rightarrow> 'a ObjectMeta_scheme reflector_op list \<Rightarrow> 'a ObjectMeta_scheme mirror \<Rightarrow> bool" where
  "mirror_run P [] m = True"
| "mirror_run P (x # xs) m = (op_given x m \<and> P x m \<and> mirror_run P xs (mirror_step x m))"

definition mirror_after :: "'a ObjectMeta_scheme reflector_op list \<Rightarrow> 'a ObjectMeta_scheme mirror \<Rightarrow> 'a ObjectMeta_scheme mirror" where
  "mirror_after xs m = fold mirror_step xs m"

section \<open>The whole way from the server to a sync function\<close>

text \<open>
  An informer, from the answers of the server to the workers of its queue: \<open>told\<close> is the server's view,
  \<open>handed\<close> the keys popped and \<open>doubted\<close> those overlooked, as in the mirror.
\<close>

record ('o, 'w) watched =
  wfifo :: "'o delta_fifo"
  told :: "string \<rightharpoonup> 'o"
  handed :: "string set"
  doubted :: "string set"
  wfeed :: "('o, 'w) feed"

definition mirror_of :: "('o, 'w) watched \<Rightarrow> 'o mirror" where
  "mirror_of s = \<lparr>mfifo = wfifo s, minf = finf (wfeed s), server_view = told s, popped = handed s,
     overlooked = doubted s\<rparr>"

definition with_mirror :: "'o mirror \<Rightarrow> ('o, 'w) watched \<Rightarrow> ('o, 'w) watched" where
  "with_mirror m s = \<lparr>wfifo = mfifo m, told = server_view m, handed = popped m, doubted = overlooked m,
     wfeed = (wfeed s)\<lparr>finf := minf m\<rparr>\<rparr>"

definition restart_timer :: "int \<Rightarrow> 'o mirror \<Rightarrow> 'o mirror" where
  "restart_timer later m = m\<lparr>minf := (minf m)\<lparr>lastTimer := later\<rparr>\<rparr>"

text \<open>
  \<open>U\<close> are the objects the server ever has. The resync timer is set after each list and each check of
  it; the steps of the handlers and of the controller are those of the feed, which get no delta but
  those that are popped.
\<close>

inductive watch_rule :: "nat \<Rightarrow> 'w env \<Rightarrow> queue_name \<Rightarrow> ('a ObjectMeta_scheme notification \<Rightarrow> kube_event)
    \<Rightarrow> 'a ObjectMeta_scheme set \<Rightarrow> ('a ObjectMeta_scheme, 'w) watched \<Rightarrow> ('a ObjectMeta_scheme, 'w) watched \<Rightarrow> bool"
  for workers E q ev U where
  list: "op_given (Relist ks xs) (mirror_of s) \<Longrightarrow> set xs \<subseteq> U
    \<Longrightarrow> lastTimer (finf (wfeed s)) \<le> later
    \<Longrightarrow> watch_rule workers E q ev U s (with_mirror (restart_timer later (mirror_step (Relist ks xs) (mirror_of s))) s)"
| event: "x \<in> {WatchAdded y, WatchModified y, WatchDeleted y} \<Longrightarrow> y \<in> U
    \<Longrightarrow> watch_rule workers E q ev U s (with_mirror (mirror_step x (mirror_of s)) s)"
| pop: "watch_rule workers E q ev U s (with_mirror (mirror_step PopOne (mirror_of s)) s)"
| resync: "op_given (ForceResync t later ks) (mirror_of s) \<Longrightarrow> lastTimer (finf (wfeed s)) + resyncPeriod \<le> t \<Longrightarrow> t \<le> later
    \<Longrightarrow> watch_rule workers E q ev U s (with_mirror (mirror_step (ForceResync t later ks) (mirror_of s)) s)"
| control: "feed_rule workers E q ev (\<lambda>_ _. False) (wfeed s) f \<Longrightarrow> lastTimer (finf f) = lastTimer (finf (wfeed s))
    \<Longrightarrow> watch_rule workers E q ev U s (s\<lparr>wfeed := f\<rparr>)"

inductive watch_reachable :: "nat \<Rightarrow> 'w env \<Rightarrow> queue_name \<Rightarrow> ('a ObjectMeta_scheme notification \<Rightarrow> kube_event)
    \<Rightarrow> 'a ObjectMeta_scheme set \<Rightarrow> ('a ObjectMeta_scheme, 'w) watched \<Rightarrow> bool"
  for workers E q ev U where
  init: "t0 \<le> t1 \<Longrightarrow> watch_reachable workers E q ev U
    \<lparr>wfifo = NewDeltaFIFO, told = Map.empty, handed = {}, doubted = {},
     wfeed = \<lparr>fctl = NewKongController t, finf = NewSharedIndexInformer t0 t1, seen = Map.empty, fworld = w\<rparr>\<rparr>"
| step: "watch_reachable workers E q ev U s \<Longrightarrow> (\<forall>q. \<not> crashed (queues (fctl (wfeed s)) q))
    \<Longrightarrow> watch_rule workers E q ev U s s' \<Longrightarrow> watch_reachable workers E q ev U s'"

end
