(* ===== verification/Informer_Safety.thy ===== *)
theory Informer_Safety
  imports Informers Run_Safety Sample_World
begin

text \<open>
  No change of a cache that the controller can see is missed: a key under which the indexer holds something else than what the
  sync function last read is on its way to a worker. What an informer asks of its handlers is the
  locale \<open>queued_changes\<close>; the handlers of the three informers are interpretations of it.
\<close>

section \<open>The queues of a run\<close>

lemma run_queue_inv:
  assumes "run_reachable n s" "\<And>t. J (pool_init 0 t)" "\<And>p p'. J p \<Longrightarrow> tq_step p p' \<Longrightarrow> J p'"
    and "\<And>p. J p \<Longrightarrow> J (p\<lparr>pcs := pcs p @ [Idle]\<rparr>)"
  shows "J (queues s q)"
proof -
  from assms(1) have "\<forall>q. J (queues s q)"
  proof (induction rule: run_reachable_induct)
    case (init t)
    then show ?case using assms(2) by (simp add: NewKongController_def)
  next
    case (step s s')
    from step.hyps(2) have "run_rule n s s'" by (simp add: run_step_def)
    then show ?case using step.IH
      by (induction rule: run_rule.induct) (auto intro: assms(3,4) tq_step.shutdown)
  qed
  then show ?thesis ..
qed

lemma run_retry_inv:
  assumes "run_reachable n s"
  shows "pool_inv (queues s q) \<and> retry_inv (queues s q)"
proof (rule run_queue_inv [OF assms, where J = "\<lambda>p. pool_inv p \<and> retry_inv p"])
  show "pool_inv (pool_init 0 t) \<and> retry_inv (pool_init 0 t)" for t using pool_inv_init retry_inv_init by blast
  show "pool_inv p' \<and> retry_inv p'" if "pool_inv p \<and> retry_inv p" "tq_step p p'" for p p' :: "'a pool"
    using that pool_inv_step retry_inv_step by (auto simp: pool_inv_def)
  show "pool_inv (p\<lparr>pcs := pcs p @ [Idle]\<rparr>) \<and> retry_inv (p\<lparr>pcs := pcs p @ [Idle]\<rparr>)"
    if "pool_inv p \<and> retry_inv p" for p :: "'a pool"
  proof -
    have "holders k (pcs p @ [Idle]) = holders k (pcs p)" for k
      by (auto simp: holders_def nth_append)
    moreover have "active (p\<lparr>pcs := pcs p @ [Idle]\<rparr>) = active p" by (auto simp: active_def)
    ultimately show ?thesis using that by (simp add: pool_inv_def retry_inv_def scheduled_def)
  qed
qed

section \<open>Keys on their way\<close>

definition queues_key :: "'w env \<Rightarrow> queue_name \<Rightarrow> (('a ObjectMeta_scheme) notification \<Rightarrow> kube_event) \<Rightarrow> string
    \<Rightarrow> 'a ObjectMeta_scheme notification \<Rightarrow> bool" where
  "queues_key E q ev k n \<longleftrightarrow> (\<forall>w t w'. handle_event E (ev n) w = (Done (), t, w') \<longrightarrow> Enqueue q k \<in> set t)"

definition waits :: "queue_name \<Rightarrow> string \<Rightarrow> string controller \<Rightarrow> bool" where
  "waits q k c \<longleftrightarrow> k \<in> wq_dirty (pq (queues c q)) \<or> Fetched k \<in> set (pcs_of q c) \<or> wq_shuttingDown (pq (queues c q))"

text \<open>A key marked dirty stays so until a worker fetches it.\<close>

lemma tq_step_waits:
  assumes "tq_step p p'" "k \<in> wq_dirty (pq p) \<or> wq_shuttingDown (pq p)"
  shows "k \<in> wq_dirty (pq p') \<or> Fetched k \<in> set (pcs p') \<or> wq_shuttingDown (pq p')"
  using assms
proof (induction rule: tq_step.induct)
  case (fetch i s k' q)
  then show ?case by (auto simp: wq_get_Item set_update_memI)
qed (auto simp: wq.add_effect wq.finish_effect wq.shutdown_effect AddRateLimited_def AddAfter_def receive_def
    split: prod.splits)

lemma run_rule_waits:
  assumes "run_rule n c c'" "keeps_fetched q c c'" "waits q k c"
  shows "waits q k c'"
proof (cases "Fetched k \<in> set (pcs_of q c)")
  case True
  with assms(2) show ?thesis by (simp add: waits_def keeps_fetched_def)
next
  case False
  with assms(3) have "k \<in> wq_dirty (pq (queues c q)) \<or> wq_shuttingDown (pq (queues c q))" by (simp add: waits_def)
  with assms(1) show ?thesis
  proof (induction rule: run_rule.induct)
    case (work s q' p)
    then show ?case using tq_step_waits [OF work(1), of k] by (cases "q' = q") (auto simp: waits_def pcs_of_def)
  next
    case (shutdown s q' qs)
    then show ?case by (auto simp: waits_def wq.shutdown_effect)
  qed (auto simp: waits_def)
qed

lemma deliver_waits:
  assumes "waits q k c \<or> Enqueue q k \<in> set t"
  shows "waits q k (deliver t c)"
  using assms deliver_dirty [of q k t c] by (auto simp: waits_def pcs_of_def deliver_queues)

text \<open>Nothing is on its way any more: no notification, no key, no retry, and no sync is running.\<close>

definition settled :: "queue_name \<Rightarrow> ('o, 'w) feed \<Rightarrow> bool" where
  "settled q s \<longleftrightarrow> (let p = queues (fctl s) q in pendingNotifications (finf s) = [] \<and> wq_dirty (pq p) = {}
     \<and> \<not> wq_shuttingDown (pq p) \<and> chan p = [] \<and> waiting p = Map.empty \<and> active p = {})"

lemma settled_idle:
  assumes "settled q s"
  shows "pendingNotifications (finf s) = []" "\<not> waits q k (fctl s)"
    "retry_inv (queues (fctl s) q) \<Longrightarrow> failures (exponential (lim (queues (fctl s) q))) k = 0"
proof -
  from assms have "k \<notin> active (queues (fctl s) q)" by (simp add: settled_def Let_def)
  moreover have "k \<in> active (queues (fctl s) q)" if "Fetched k \<in> set (pcs (queues (fctl s) q))"
    using that unfolding active_def by (intro CollectI bexI [of _ "Fetched k"]) simp_all
  ultimately have "Fetched k \<notin> set (pcs (queues (fctl s) q))" by blast
  with assms show "pendingNotifications (finf s) = []" "\<not> waits q k (fctl s)"
    by (simp_all add: settled_def waits_def pcs_of_def Let_def)
  show "failures (exponential (lim (queues (fctl s) q))) k = 0" if "retry_inv (queues (fctl s) q)"
    using that assms by (auto simp: settled_def retry_inv_def scheduled_def Let_def)
qed

section \<open>The contract of the handlers\<close>

text \<open>
  A change the sync function can see queues the key of its object; what it can see of an entry of
  the indexer is its \<open>view\<close>.
\<close>

fun upserts :: "'o delta \<Rightarrow> 'o option" where
  "upserts (Deleted obj) = None"
| "upserts (Sync x) = Some x"
| "upserts (Added x) = Some x"
| "upserts (Updated x) = Some x"

locale queued_changes =
  fixes E :: "'w env"
    and q :: queue_name
    and ev :: "'a ObjectMeta_scheme notification \<Rightarrow> kube_event"
    and ok :: "('a ObjectMeta_scheme) option \<Rightarrow> 'a ObjectMeta_scheme delta \<Rightarrow> bool"
    and view :: "('a ObjectMeta_scheme) option \<Rightarrow> 'v"
  assumes upsert_queues: "ok old d \<Longrightarrow> upserts d = Some x \<Longrightarrow> view old \<noteq> view (Some x)
      \<Longrightarrow> queues_key E q ev (meta_key x) (upsert_notification old x)"
    and delete_queues: "ok old (Deleted obj) \<Longrightarrow> view old \<noteq> view None
      \<Longrightarrow> queues_key E q ev (informer_key obj) (deleteNotification obj)"
begin

definition on_the_way :: "string \<Rightarrow> ('a ObjectMeta_scheme, 'w) feed \<Rightarrow> bool" where
  "on_the_way k s \<longleftrightarrow> (\<exists>n \<in> set (pendingNotifications (finf s)). queues_key E q ev k n) \<or> waits q k (fctl s)"

definition fresh :: "('a ObjectMeta_scheme, 'w) feed \<Rightarrow> bool" where
  "fresh s \<longleftrightarrow> syncing (finf s) \<and> nextResync (finf s) \<le> lastTimer (finf s) + resyncPeriod
     \<and> (\<forall>k. view (indexer (finf s) k) \<noteq> view (seen s k) \<longrightarrow> on_the_way k s)"

text \<open>The effect of a delta: one entry of the indexer, and one notification.\<close>

lemma delta_effect:
  assumes "syncing si"
  shows "\<exists>n. HandleDelta d si = si\<lparr>indexer := (indexer si)(delta_key d := upserts d),
      pendingNotifications := pendingNotifications si @ [n]\<rparr>
    \<and> (ok (indexer si (delta_key d)) d \<longrightarrow> view (indexer si (delta_key d)) \<noteq> view (upserts d)
        \<longrightarrow> queues_key E q ev (delta_key d) n)"
proof (cases d)
  case (Deleted obj)
  with assms delete_queues show ?thesis by (auto simp: distribute_def)
qed (use assms upsert_queues [of _ d] in \<open>auto simp: upsert_def distribute_def\<close>)

lemma fresh_delta:
  assumes "fresh s" "ok (indexer (finf s) (delta_key d)) d"
  shows "fresh (s\<lparr>finf := HandleDelta d (finf s)\<rparr>)"
proof -
  let ?si = "finf s"
  have "syncing ?si" using assms(1) by (simp add: fresh_def)
  from delta_effect [OF this, of d] assms(2) obtain n
    where eq: "HandleDelta d ?si = ?si\<lparr>indexer := (indexer ?si)(delta_key d := upserts d),
      pendingNotifications := pendingNotifications ?si @ [n]\<rparr>"
    and n: "view (indexer ?si (delta_key d)) \<noteq> view (upserts d) \<Longrightarrow> queues_key E q ev (delta_key d) n" by blast
  have "on_the_way k (s\<lparr>finf := HandleDelta d ?si\<rparr>)" if "view (indexer (HandleDelta d ?si) k) \<noteq> view (seen s k)" for k
  proof (cases "k = delta_key d \<and> view (indexer ?si k) \<noteq> view (upserts d)")
    case True
    with n show ?thesis by (auto simp: on_the_way_def eq)
  next
    case False
    with that have "view (indexer ?si k) \<noteq> view (seen s k)" by (auto simp: eq split: if_splits)
    with assms(1) show ?thesis by (auto simp: fresh_def on_the_way_def eq)
  qed
  with assms(1) show ?thesis by (simp add: fresh_def eq)
qed

lemma fresh_mono:
  assumes "fresh s" "syncing (finf s')" "nextResync (finf s') \<le> lastTimer (finf s') + resyncPeriod"
    and "\<And>k. view (indexer (finf s') k) \<noteq> view (seen s' k) \<Longrightarrow> view (indexer (finf s) k) \<noteq> view (seen s k)"
    and "\<And>k. view (indexer (finf s') k) \<noteq> view (seen s' k) \<Longrightarrow> on_the_way k s \<Longrightarrow> on_the_way k s'"
  shows "fresh s'"
  using assms by (auto simp: fresh_def)

lemma fresh_step:
  assumes "feed_rule workers E q ev ok s s'" "fresh s"
  shows "fresh s'"
  using assms(1)
proof (cases rule: feed_rule.cases)
  case (delta d)
  with fresh_delta [OF assms(2)] show ?thesis by simp
next
  case (resync t later)
  from assms(2) resync(2) have "nextResync (finf s) \<le> t" by (simp add: fresh_def)
  then have "finf s' = (finf s)\<lparr>syncing := True, nextResync := t + resyncPeriod, lastTimer := later\<rparr>"
    using resync(1) by (simp add: resync_check_def shouldResync_def listener_shouldResync_def determineNextResync_def
        resyncPeriod_def Let_def)
  with resync assms(2) show ?thesis by (intro fresh_mono [OF assms(2)]) (auto simp: on_the_way_def)
next
  case (relist later)
  with assms(2) show ?thesis by (intro fresh_mono [OF assms(2)]) (auto simp: on_the_way_def fresh_def)
next
  case (handle n rest t w)
  have "waits q k (fctl s')" if "on_the_way k s" "\<not> (\<exists>n \<in> set rest. queues_key E q ev k n)" for k
  proof -
    from that handle(2) have "waits q k (fctl s) \<or> queues_key E q ev k n" by (auto simp: on_the_way_def)
    with handle(3) have "waits q k (fctl s) \<or> Enqueue q k \<in> set t" by (auto simp: queues_key_def)
    with handle(1) show ?thesis using deliver_waits by simp
  qed
  with handle assms(2) show ?thesis by (intro fresh_mono [OF assms(2)]) (auto simp: on_the_way_def fresh_def)
next
  case (reads i k p)
  have "waits q k' (fctl s')" if "waits q k' (fctl s)" "k' \<noteq> k" for k'
  proof -
    have "Fetched k' \<in> set ((pcs p)[i := Handling k (lim_NumRequeues k (lim p))])" if "Fetched k' \<in> set (pcs p)"
    proof -
      from that obtain j where "j < length (pcs p)" "pcs p ! j = Fetched k'" by (auto simp: in_set_conv_nth)
      moreover from this reads(3,4) \<open>k' \<noteq> k\<close> have "j \<noteq> i" by (auto simp: pcs_of_def)
      ultimately show ?thesis by (metis length_list_update nth_list_update_neq nth_mem)
    qed
    with that(1) reads(1,4) show ?thesis by (auto simp: waits_def pcs_of_def)
  qed
  with reads assms(2) show ?thesis by (intro fresh_mono [OF assms(2)]) (auto simp: on_the_way_def fresh_def split: if_splits)
next
  case (control c)
  with run_rule_waits [OF control(2,3)] assms(2) show ?thesis
    by (intro fresh_mono [OF assms(2)]) (auto simp: on_the_way_def fresh_def)
next
  case (outside w)
  with assms(2) show ?thesis by (intro fresh_mono [OF assms(2)]) (auto simp: on_the_way_def fresh_def)
qed

lemma fresh_reachable: "feed_reachable workers E q ev ok s \<Longrightarrow> fresh s"
proof (induction rule: feed_reachable.induct)
  case (init t0 t1 t w)
  then show ?case by (simp add: fresh_def NewSharedIndexInformer_def)
next
  case (step s s')
  then show ?case using fresh_step by blast
qed

lemma settled_view:
  assumes "feed_reachable workers E q ev ok s" "settled q s"
  shows "view (indexer (finf s) k) = view (seen s k)"
proof -
  have "\<not> on_the_way k s" using settled_idle(1,2) [OF assms(2)] by (simp add: on_the_way_def)
  with fresh_reachable [OF assms(1)] show ?thesis by (auto simp: fresh_def)
qed

end

section \<open>The three informers\<close>

lemma feed_run: "feed_reachable workers E q ev ok s \<Longrightarrow> run_reachable workers (fctl s)"
proof (induction rule: feed_reachable.induct)
  case (init t0 t1 t w)
  then show ?case by (auto simp: run_reachable_def)
next
  case (step s s')
  note go = run_reachable_step [OF step.IH]
  from step.hyps(3) show ?case
  proof (cases rule: feed_rule.cases)
    case (handle n rest t w)
    with run_steps_reachable [OF step.IH deliver_steps [OF step.hyps(2)]] show ?thesis by simp
  next
    case (reads i k p)
    have "tq_step p (p\<lparr>pcs := (pcs p)[i := Handling k (lim_NumRequeues k (lim p))]\<rparr>)"
      using reads by (intro tq_step.requeues) (simp_all add: pcs_of_def)
    with reads(1,4) step.hyps(2) go show ?thesis by (simp add: run_step_def run_rule.work)
  next
    case (control c)
    with step.hyps(2) go show ?thesis by (simp add: run_step_def)
  qed (use step.IH in simp_all)
qed

text \<open>
  The API server gives every change of an object a new resource version, so that two objects with
  the same version are the same.
\<close>

definition honest :: "('a ObjectMeta_scheme) option \<Rightarrow> 'a ObjectMeta_scheme delta \<Rightarrow> bool" where
  "honest old d \<longleftrightarrow> (\<forall>x y. old = Some x \<longrightarrow> upserts d = Some y \<longrightarrow> ResourceVersion x = ResourceVersion y \<longrightarrow> x = y)"

text \<open>And an ingress of the controller stays one for as long as it exists.\<close>

definition class_stays :: "Ingress option \<Rightarrow> Ingress delta \<Rightarrow> bool" where
  "class_stays old d \<longleftrightarrow> honest old d \<and> (\<forall>x. old = Some x \<longrightarrow> isKongIngress x
     \<longrightarrow> (\<forall>y. upserts d = Some y \<or> d = Deleted (Obj y) \<longrightarrow> isKongIngress y))"

definition kong_view :: "Ingress option \<Rightarrow> Ingress option" where
  "kong_view x = (case x of None \<Rightarrow> None | Some ing \<Rightarrow> if isKongIngress ing then Some ing else None)"

interpretation svc: queued_changes E SvcQueue service_event honest "\<lambda>x. x" for E
proof unfold_locales
  show "queues_key E SvcQueue service_event (meta_key x) (upsert_notification old x)"
    if "honest old d" "upserts d = Some x" "old \<noteq> Some x" for old d x
    using that by (cases old) (auto simp: queues_key_def add_service_def update_service_def emit_def service_key_def
        honest_def ret_def)
  show "queues_key E SvcQueue service_event (informer_key obj) (deleteNotification obj)" for obj
    by (cases obj) (simp_all add: queues_key_def delete_service_def emit_def service_key_def)
qed

interpretation dom: queued_changes E DomQueue domain_event honest "\<lambda>x. x" for E
proof unfold_locales
  show "queues_key E DomQueue domain_event (meta_key x) (upsert_notification old x)"
    if "honest old d" "upserts d = Some x" "old \<noteq> Some x" for old d x
  proof (cases old)
    case None
    then show ?thesis by (simp add: queues_key_def addDomain_def emit_def domain_key_def)
  next
    case (Some y)
    with that have "ResourceVersion y \<noteq> ResourceVersion x" by (auto simp: honest_def)
    with Some show ?thesis
      by (auto simp: queues_key_def updateDomain_def bnd_def emit_def split: outcome.splits prod.splits)
  qed
  show "queues_key E DomQueue domain_event (informer_key obj) (deleteNotification obj)" for obj
    by (cases obj) (simp_all add: queues_key_def deleteDomain_def emit_def domain_key_def)
qed

interpretation ing: queued_changes E IngQueue ingress_event class_stays kong_view for E
proof unfold_locales
  show "queues_key E IngQueue ingress_event (meta_key x) (upsert_notification old x)"
    if "class_stays old d" "upserts d = Some x" "kong_view old \<noteq> kong_view (Some x)" for old d x
  proof (cases old)
    case None
    with that(3) have "isKongIngress x" by (simp add: kong_view_def split: if_splits)
    with None show ?thesis by (simp add: queues_key_def add_ingress_def emit_def)
  next
    case (Some y)
    with that(1) have c: "class_stays (Some y) d" by simp
    from c that(2) have "isKongIngress y \<longrightarrow> isKongIngress x" unfolding class_stays_def by blast
    moreover from c have "honest (Some y) d" by (simp add: class_stays_def)
    with that(2) have "ResourceVersion y = ResourceVersion x \<longrightarrow> y = x" by (simp add: honest_def)
    ultimately have "isKongIngress x" "ResourceVersion y \<noteq> ResourceVersion x"
      using Some that(3) by (auto simp: kong_view_def split: if_splits)
    with Some show ?thesis by (simp add: queues_key_def update_ingress_def emit_def)
  qed
  show "queues_key E IngQueue ingress_event (informer_key obj) (deleteNotification obj)"
    if "class_stays old (Deleted obj)" "kong_view old \<noteq> kong_view None" for old obj
  proof -
    from that(2) obtain x where "old = Some x" "isKongIngress x" by (auto simp: kong_view_def split: option.splits if_splits)
    with that(1) have "obj = Obj y \<longrightarrow> isKongIngress y" for y unfolding class_stays_def by blast
    then show ?thesis by (cases obj) (simp_all add: queues_key_def delete_ingress_def emit_def panic_def)
  qed
qed

lemma settled_requeues:
  assumes "feed_reachable workers E q ev ok s" "settled q s"
  shows "lim_NumRequeues k (lim (queues (fctl s) q)) = 0"
  using settled_idle(3) [OF assms(2)] run_retry_inv [OF feed_run [OF assms(1)]] by simp

section \<open>A round\<close>

text \<open>The worker of the queue is idle, and nothing is queued.\<close>

definition at_rest :: "queue_name \<Rightarrow> ('o, 'w) feed \<Rightarrow> bool" where
  "at_rest q s \<longleftrightarrow> (let p = queues (fctl s) q in pcs p = [Idle] \<and> wq_queue (pq p) = [] \<and> wq_dirty (pq p) = {}
     \<and> wq_processing (pq p) = {} \<and> \<not> wq_shuttingDown (pq p) \<and> chan p = [] \<and> waiting p = Map.empty)
     \<and> pendingNotifications (finf s) = [] \<and> syncing (finf s) \<and> (\<forall>q. \<not> crashed (queues (fctl s) q))"

lemma at_rest_settled: "at_rest q s \<Longrightarrow> settled q s"
  by (simp add: at_rest_def settled_def active_def Let_def)

text \<open>What a queue looks like while the worker takes a key that was queued to the end of its sync.\<close>

lemma round_pool:
  assumes "pcs p = [Idle]" "wq_queue (pq p) = []" "wq_dirty (pq p) = {}" "wq_processing (pq p) = {}"
    "\<not> wq_shuttingDown (pq p)" "chan p = []" "waiting p = Map.empty" "\<not> crashed p"
  obtains p2 p4 p5 where "tq_step (TaskQueue_Add k p) p2" "pcs p2 = [Fetched k]"
    "tq_step (p2\<lparr>pcs := (pcs p2)[0 := Handling k (lim_NumRequeues k (lim p2))]\<rparr>) p4" "pcs p4 = [Ending k]"
    "tq_step p4 p5" "pcs p5 = [Idle]" "wq_queue (pq p5) = []" "wq_dirty (pq p5) = {}" "wq_processing (pq p5) = {}"
    "chan p5 = []" "waiting p5 = Map.empty"
    "\<forall>x \<in> {p2, p4, p5}. \<not> wq_shuttingDown (pq x) \<and> \<not> crashed x"
proof -
  let ?p1 = "TaskQueue_Add k p"
  define q where "q = snd (wq_get (pq ?p1))"
  have q: "wq_get (pq ?p1) = (Item k, q)" "wq_queue q = []" "wq_dirty q = {}" "wq_processing q = {k}"
    "\<not> wq_shuttingDown q"
    unfolding q_def using assms by (simp_all add: TaskQueue_Add_def wq_add_def wq_get_def Let_def)
  let ?p2 = "?p1\<lparr>pq := q, pcs := (pcs ?p1)[0 := Fetched k]\<rparr>"
  let ?p3 = "?p2\<lparr>pcs := (pcs ?p2)[0 := Handling k (lim_NumRequeues k (lim ?p2))]\<rparr>"
  let ?p4 = "?p3\<lparr>lim := lim_Forget k (lim ?p3), pcs := (pcs ?p3)[0 := Ending k]\<rparr>"
  let ?p5 = "?p4\<lparr>pq := wq_done k (pq ?p4), pcs := (pcs ?p4)[0 := Idle]\<rparr>"
  show ?thesis
  proof (rule that [of ?p2 ?p4 ?p5])
    show "tq_step ?p1 ?p2" by (rule tq_step.fetch [OF _ _ q(1)]) (use assms in simp_all)
    show "tq_step (?p2\<lparr>pcs := (pcs ?p2)[0 := Handling k (lim_NumRequeues k (lim ?p2))]\<rparr>) ?p4"
      by (rule tq_step.succeed) (use assms in simp_all)
    show "tq_step ?p4 ?p5" by (rule tq_step.finish) (use assms in simp_all)
  qed (use assms q in \<open>auto simp: TaskQueue_Add_def wq_done_def Let_def\<close>)
qed

text \<open>
  What is closed under the steps of the controller and its handlers, with no delta and no check of the
  resync timer: the handling of a notification is the same wherever the deltas come from.
\<close>

locale feed_closed =
  fixes n :: nat and E :: "'w env" and q :: queue_name
    and ev :: "'a ObjectMeta_scheme notification \<Rightarrow> kube_event"
    and R :: "('a ObjectMeta_scheme, 'w) feed \<Rightarrow> bool"
  assumes closed: "R s \<Longrightarrow> \<forall>q. \<not> crashed (queues (fctl s) q) \<Longrightarrow> feed_rule n E q ev (\<lambda>_ _. False) s s'
    \<Longrightarrow> lastTimer (finf s') = lastTimer (finf s) \<Longrightarrow> R s'"
begin

lemma pool_step:
  assumes "R s" "\<forall>q. \<not> crashed (queues (fctl s) q)" "tq_step (queues (fctl s) q) p"
    and "wq_shuttingDown (pq p) = wq_shuttingDown (pq (queues (fctl s) q))"
    and "\<forall>k. Fetched k \<in> set (pcs (queues (fctl s) q)) \<longrightarrow> Fetched k \<in> set (pcs p)"
  shows "R (s\<lparr>fctl := set_pool q p (fctl s)\<rparr>)"
  by (rule closed [OF assms(1,2) feed_rule.control [OF run_rule.work [OF assms(3,4)]]])
    (use assms(5) in \<open>simp_all add: keeps_fetched_def pcs_of_def\<close>)

lemma handle_step:
  assumes "R (s\<lparr>finf := si\<rparr>)" "\<forall>q. \<not> crashed (queues (fctl s) q)" "pendingNotifications si = [m]"
    and "handle_event E (ev m) (fworld s) = (Done (), t, w)"
  shows "R (s\<lparr>fctl := deliver t (fctl s), finf := si\<lparr>pendingNotifications := []\<rparr>, fworld := w\<rparr>)"
proof -
  let ?s = "s\<lparr>finf := si\<rparr>"
  have "R (?s\<lparr>fctl := deliver t (fctl ?s), finf := (finf ?s)\<lparr>pendingNotifications := []\<rparr>, fworld := w\<rparr>)"
    by (rule closed [OF assms(1) _ feed_rule.handle [where n = m]]) (use assms(2-4) in simp_all)
  then show ?thesis by simp
qed

text \<open>A change whose handler queues its key is handled by the worker, which reads the new entry.\<close>

lemma handled:
  assumes "at_rest q s" "R (s\<lparr>finf := si\<rparr>)" "pendingNotifications si = [m]" "syncing si"
    and "handle_event E (ev m) (fworld s) = (Done (), [Enqueue q k], w)"
  obtains s' where "R s'" "at_rest q s'" "fworld s' = w" "finf s' = si\<lparr>pendingNotifications := []\<rparr>"
    "seen s' = (seen s)(k := indexer si k)"
proof -
  let ?p = "queues (fctl s) q"
  have rest: "pcs ?p = [Idle]" "wq_queue (pq ?p) = []" "wq_dirty (pq ?p) = {}" "wq_processing (pq ?p) = {}"
    "\<not> wq_shuttingDown (pq ?p)" "chan ?p = []" "waiting ?p = Map.empty" "\<not> crashed ?p"
    and ok: "\<forall>q. \<not> crashed (queues (fctl s) q)"
    using assms(1) by (simp_all add: at_rest_def Let_def)
  obtain p2 p4 p5 where p: "tq_step (TaskQueue_Add k ?p) p2" "pcs p2 = [Fetched k]"
    "tq_step (p2\<lparr>pcs := (pcs p2)[0 := Handling k (lim_NumRequeues k (lim p2))]\<rparr>) p4" "pcs p4 = [Ending k]"
    "tq_step p4 p5" "pcs p5 = [Idle]" "wq_queue (pq p5) = []" "wq_dirty (pq p5) = {}" "wq_processing (pq p5) = {}"
    "chan p5 = []" "waiting p5 = Map.empty"
    and shut: "\<forall>x \<in> {p2, p4, p5}. \<not> wq_shuttingDown (pq x) \<and> \<not> crashed x"
    by (rule round_pool [OF rest])
  let ?s2 = "s\<lparr>fctl := set_pool q (TaskQueue_Add k ?p) (fctl s), finf := si\<lparr>pendingNotifications := []\<rparr>, fworld := w\<rparr>"
  have s2: "R ?s2" using handle_step [OF assms(2) ok assms(3,5)] by simp
  let ?s3 = "?s2\<lparr>fctl := set_pool q p2 (fctl s)\<rparr>"
  have "R (?s2\<lparr>fctl := set_pool q p2 (fctl ?s2)\<rparr>)"
    by (rule pool_step [OF s2]) (use ok p(1) rest shut in simp_all)
  then have s3: "R ?s3" by simp
  let ?p3 = "p2\<lparr>pcs := (pcs p2)[0 := Handling k (lim_NumRequeues k (lim p2))]\<rparr>"
  let ?s4 = "?s2\<lparr>fctl := set_pool q ?p3 (fctl s), seen := (seen s)(k := indexer si k)\<rparr>"
  have "R (?s3\<lparr>fctl := set_pool q ?p3 (fctl ?s3), seen := (seen ?s3)(k := indexer (finf ?s3) k)\<rparr>)"
    by (rule closed [OF s3 _ feed_rule.reads]) (use ok p(2) shut in \<open>simp_all add: pcs_of_def\<close>)
  then have s4: "R ?s4" by simp
  let ?s5 = "?s4\<lparr>fctl := set_pool q p4 (fctl s)\<rparr>"
  have "R (?s4\<lparr>fctl := set_pool q p4 (fctl ?s4)\<rparr>)"
    by (rule pool_step [OF s4]) (use ok p(2,3) shut in simp_all)
  then have s5: "R ?s5" by simp
  let ?s6 = "?s5\<lparr>fctl := set_pool q p5 (fctl s)\<rparr>"
  have "R (?s5\<lparr>fctl := set_pool q p5 (fctl ?s5)\<rparr>)"
    by (rule pool_step [OF s5]) (use ok p(4,5) shut in simp_all)
  then have s6: "R ?s6" by simp
  have "at_rest q ?s6" using ok p(6-11) shut assms(4) by (simp add: at_rest_def)
  with s6 show ?thesis by (rule that) simp_all
qed

text \<open>The worker of a queue is started before anything was listed.\<close>

lemma control_step:
  assumes "R s" "run_step n (fctl s) c" "pcs_of q (fctl s) = []"
  shows "R (s\<lparr>fctl := c\<rparr>)"
proof (rule closed [OF assms(1)])
  show "feed_rule n E q ev (\<lambda>_ _. False) s (s\<lparr>fctl := c\<rparr>)"
    using assms(2,3) by (intro feed_rule.control) (simp_all add: run_step_def keeps_fetched_def)
qed (use assms(2) in \<open>simp_all add: run_step_def\<close>)

lemma served:
  assumes "n = 1" "R \<lparr>fctl = NewKongController 0, finf = NewSharedIndexInformer 0 0, seen = Map.empty, fworld = w\<rparr>"
  obtains s where "R s" "at_rest q s" "finf s = NewSharedIndexInformer 0 0" "seen s = Map.empty" "fworld s = w"
proof -
  let ?c1 = "(NewKongController 0)\<lparr>ing_synced := True\<rparr> :: string controller"
  let ?c2 = "?c1\<lparr>svc_synced := True\<rparr>"
  let ?f = "\<lambda>c. \<lparr>fctl = c, finf = NewSharedIndexInformer 0 0, seen = Map.empty, fworld = w\<rparr>"
  have none: "pcs_of q (NewKongController 0) = []" "pcs_of q ?c1 = []" "pcs_of q ?c2 = []" "pcs_of q (serving 1) = []"
    by (simp_all add: pcs_of_def NewKongController_def pool_init_def)
  have a: "run_step 1 (NewKongController 0) ?c1" and b: "run_step 1 ?c1 ?c2" by (auto simp: run_step_def intro: run_rule.intros)
  have "run_step 1 ?c2 (?c2\<lparr>main_at := Serve, unstarted := (\<lambda>q. 1)\<rparr>)"
    unfolding run_step_def by (intro conjI allI run_rule.synced) (simp_all add: NewKongController_def pool_init_def)
  then have c: "run_step 1 ?c2 (serving 1)" by (simp add: serving_def)
  have d: "run_step 1 (serving 1) (started q (serving 1))"
    unfolding run_step_def started_def by (intro conjI allI run_rule.start) simp_all
  have "R (?f ?c1)" using control_step [OF assms(2), of ?c1] a none assms(1) by simp
  from control_step [OF this, of ?c2] b none assms(1) have "R (?f ?c2)" by simp
  from control_step [OF this, of "serving 1"] c none assms(1) have "R (?f (serving 1))" by simp
  from control_step [OF this, of "started q (serving 1)"] d none assms(1)
  have "R (?f (started q (serving 1)))" by simp
  moreover have "at_rest q (?f (started q (serving 1)))"
    by (simp add: at_rest_def pool_init_def wq_new_def NewSharedIndexInformer_def)
  ultimately show ?thesis by (rule that) simp_all
qed

end

lemma feed_rule_any: "feed_rule n E q ev (\<lambda>_ _. False) s s' \<Longrightarrow> feed_rule n E q ev ok s s'"
  by (induction rule: feed_rule.induct) (blast intro: feed_rule.intros)+

interpretation reach: feed_closed n E q ev "feed_reachable n E q ev ok" for n E q ev ok
  by unfold_locales (blast intro: feed_reachable.step feed_rule_any)

lemma feed_delta:
  assumes "feed_reachable n E q ev ok s" "at_rest q s" "ok (indexer (finf s) (delta_key d)) d"
  shows "feed_reachable n E q ev ok (s\<lparr>finf := HandleDelta d (finf s)\<rparr>)" "syncing (HandleDelta d (finf s))"
proof -
  have "\<forall>q. \<not> crashed (queues (fctl s) q)" using assms(2) by (simp add: at_rest_def Let_def)
  then show "feed_reachable n E q ev ok (s\<lparr>finf := HandleDelta d (finf s)\<rparr>)"
    by (rule feed_reachable.step [OF assms(1) _ feed_rule.delta [where s = s and d = d and ok = ok, OF assms(3)]])
  show "syncing (HandleDelta d (finf s))"
    using assms(2) by (cases d) (simp_all add: at_rest_def upsert_def distribute_def)
qed

lemma feed_round:
  assumes "feed_reachable n E q ev ok s" "at_rest q s" "ok (indexer (finf s) (delta_key d)) d"
    and "pendingNotifications (HandleDelta d (finf s)) = [m]" "handle_event E (ev m) (fworld s) = (Done (), [Enqueue q (delta_key d)], w)"
  obtains s' where "feed_reachable n E q ev ok s'" "at_rest q s'" "fworld s' = w"
    "finf s' = (HandleDelta d (finf s))\<lparr>pendingNotifications := []\<rparr>"
    "seen s' = (seen s)(delta_key d := indexer (HandleDelta d (finf s)) (delta_key d))"
  by (rule reach.handled [OF assms(2) feed_delta(1) [OF assms(1-3)] assms(4) feed_delta(2) [OF assms(1-3)] assms(5)])

lemma feed_serving:
  obtains s where "feed_reachable 1 E q ev ok s" "at_rest q s" "finf s = NewSharedIndexInformer 0 0"
    "seen s = Map.empty" "fworld s = w"
  by (rule reach.served [where n = 1]) (auto intro: feed_reachable.init)

section \<open>Properties\<close>

text \<open>
  C16: a visible change of a cache leads to a sync. The server is taken to give every change of an
  object a new resource version, and an ingress of the controller is taken to keep its class for as
  long as it exists; of an ingress only what concerns the controller counts. Whatever the
  interleaving of deltas, resyncs, handlers and workers: an entry that differs from what the sync
  function last read has a notification that will queue its key, or its key is marked, or a worker
  has just fetched it, until the queue shuts down; so once nothing is on its way, every service,
  domain and ingress is as its sync function last read it, and the last sync of every key returned
  nil.
\<close>

theorem visible_change_is_synced:
  assumes "feed_reachable n E SvcQueue service_event honest s" "feed_reachable n E DomQueue domain_event honest s1"
    and "feed_reachable n E IngQueue ingress_event class_stays s2"
  shows "(indexer (finf s) k \<noteq> seen s k \<longrightarrow> (\<exists>m \<in> set (pendingNotifications (finf s)). queues_key E SvcQueue service_event k m)
      \<or> waits SvcQueue k (fctl s))
    \<and> (indexer (finf s1) k \<noteq> seen s1 k \<longrightarrow> (\<exists>m \<in> set (pendingNotifications (finf s1)). queues_key E DomQueue domain_event k m)
      \<or> waits DomQueue k (fctl s1))
    \<and> (kong_view (indexer (finf s2) k) \<noteq> kong_view (seen s2 k)
      \<longrightarrow> (\<exists>m \<in> set (pendingNotifications (finf s2)). queues_key E IngQueue ingress_event k m)
      \<or> waits IngQueue k (fctl s2))
    \<and> (settled SvcQueue s \<longrightarrow> indexer (finf s) k = seen s k \<and> lim_NumRequeues k (lim (queues (fctl s) SvcQueue)) = 0)
    \<and> (settled DomQueue s1 \<longrightarrow> indexer (finf s1) k = seen s1 k \<and> lim_NumRequeues k (lim (queues (fctl s1) DomQueue)) = 0)
    \<and> (settled IngQueue s2 \<longrightarrow> kong_view (indexer (finf s2) k) = kong_view (seen s2 k)
        \<and> lim_NumRequeues k (lim (queues (fctl s2) IngQueue)) = 0)"
  using svc.fresh_reachable [OF assms(1)] dom.fresh_reachable [OF assms(2)] ing.fresh_reachable [OF assms(3)] svc.settled_view [OF assms(1)] dom.settled_view [OF assms(2)]
    ing.settled_view [OF assms(3)] settled_requeues [OF assms(1)] settled_requeues [OF assms(2)] settled_requeues [OF assms(3)]
  by (simp add: svc.fresh_def svc.on_the_way_def dom.fresh_def dom.on_the_way_def ing.fresh_def ing.on_the_way_def)

lemma visible_change_is_synced_witness:
  "\<exists>s. feed_reachable 1 (static_env healthy [] [] []) SvcQueue service_event honest s \<and> settled SvcQueue s \<and> indexer (finf s) ''acme/web'' = Some acme_service
    \<and> seen s ''acme/web'' = Some acme_service"
proof -
  let ?E = "static_env healthy [] [] []"
  have key: "meta_key acme_service = ''acme/web''" by (simp add: acme_defs mk_defs meta_key_def)
  obtain s0 where s0: "feed_reachable 1 ?E SvcQueue service_event honest s0" "at_rest SvcQueue s0"
    "finf s0 = NewSharedIndexInformer 0 0" "seen s0 = Map.empty" "fworld s0 = undefined" by (rule feed_serving)
  let ?d = "Added acme_service"
  obtain s where s: "feed_reachable 1 ?E SvcQueue service_event honest s" "at_rest SvcQueue s"
    "finf s = (HandleDelta ?d (finf s0))\<lparr>pendingNotifications := []\<rparr>"
    by (rule feed_round [OF s0(1,2), of ?d "addNotification acme_service"])
      (simp_all add: s0 honest_def upsert_def distribute_def NewSharedIndexInformer_def add_service_def emit_def
        service_key_def key)
  obtain s1 where s1: "feed_reachable 1 ?E DomQueue domain_event honest s1" by (rule feed_serving)
  obtain s2 where s2: "feed_reachable 1 ?E IngQueue ingress_event class_stays s2" by (rule feed_serving)
  have "indexer (finf s) ''acme/web'' = Some acme_service"
    by (simp add: s(3) s0 upsert_def distribute_def NewSharedIndexInformer_def key)
  with visible_change_is_synced [OF s(1) s1 s2, of "''acme/web''"] s at_rest_settled [OF s(2)] show ?thesis by auto
qed

text \<open>A change that queues nothing.\<close>

lemma feed_ignored:
  assumes "feed_reachable n E q ev ok s" "at_rest q s" "ok (indexer (finf s) (delta_key d)) d"
    and "pendingNotifications (HandleDelta d (finf s)) = [m]" "handle_event E (ev m) (fworld s) = (Done (), [], w)"
  shows "feed_reachable n E q ev ok
    (s\<lparr>finf := (HandleDelta d (finf s))\<lparr>pendingNotifications := []\<rparr>, fworld := w\<rparr>)"
  using reach.handle_step [OF feed_delta(1) [OF assms(1-3)] _ assms(4,5)] assms(2) by (simp add: at_rest_def Let_def)

text \<open>
  But an ingress that is given to another controller, by its class annotation, is ignored by the
  update handler, which asks for the class of the new object only: everything settles while its
  routes were made by a sync that read the old object.
\<close>

lemma ingress_leaving_class_is_missed:
  assumes "isKongIngress x" "\<not> isKongIngress y" "meta_key y = meta_key x" "ResourceVersion x \<noteq> ResourceVersion y"
  shows "\<exists>s. feed_reachable 1 E IngQueue ingress_event honest s \<and> settled IngQueue s
    \<and> seen s (meta_key x) = Some x \<and> indexer (finf s) (meta_key x) = Some y"
proof -
  obtain s0 where s0: "feed_reachable 1 E IngQueue ingress_event honest s0" "at_rest IngQueue s0"
    "finf s0 = NewSharedIndexInformer 0 0" "seen s0 = Map.empty" "fworld s0 = undefined" by (rule feed_serving)
  obtain s where s: "feed_reachable 1 E IngQueue ingress_event honest s" "at_rest IngQueue s"
    "finf s = (HandleDelta (Added x) (finf s0))\<lparr>pendingNotifications := []\<rparr>"
    "seen s = (seen s0)(meta_key x := indexer (HandleDelta (Added x) (finf s0)) (meta_key x))"
    by (rule feed_round [OF s0(1,2), of "Added x" "addNotification x"])
      (simp_all add: s0 honest_def upsert_def distribute_def NewSharedIndexInformer_def add_ingress_def emit_def assms(1))
  let ?s = "s\<lparr>finf := (HandleDelta (Updated y) (finf s))\<lparr>pendingNotifications := []\<rparr>, fworld := fworld s\<rparr>"
  have "feed_reachable 1 E IngQueue ingress_event honest ?s"
    by (rule feed_ignored [OF s(1,2), of "Updated y" "updateNotification x y"])
      (simp_all add: s(3) s0 honest_def upsert_def distribute_def NewSharedIndexInformer_def update_ingress_def ret_def
        assms(2-4))
  moreover have "settled IngQueue ?s" using at_rest_settled [OF s(2)] by (simp add: settled_def Let_def)
  moreover have "seen ?s (meta_key x) = Some x" "indexer (finf ?s) (meta_key x) = Some y"
    by (simp_all add: s(3,4) s0 upsert_def distribute_def NewSharedIndexInformer_def assms(3))
  ultimately show ?thesis by blast
qed

definition nginx_ingress :: Ingress where
  "nginx_ingress = acme_ingress\<lparr>ResourceVersion := ''2'', Annotations := [ingressClassKey \<mapsto> ''nginx'']\<rparr>"

lemma ingress_leaving_class_is_missed_witness:
  "\<exists>s. feed_reachable 1 (static_env healthy [] [] []) IngQueue ingress_event honest s \<and> settled IngQueue s
    \<and> seen s ''acme/routes'' = Some acme_ingress \<and> indexer (finf s) ''acme/routes'' = Some nginx_ingress"
proof -
  have "isKongIngress acme_ingress" "\<not> isKongIngress nginx_ingress" "meta_key nginx_ingress = meta_key acme_ingress"
    "meta_key acme_ingress = ''acme/routes''" "ResourceVersion acme_ingress \<noteq> ResourceVersion nginx_ingress"
    by (simp_all add: nginx_ingress_def acme_ingress_def mk_ingress_def isKongIngress_def ingressClass_def meta_key_def
        kongIngressClass_def ingressClassKey_def map_get_def Let_def)
  with ingress_leaving_class_is_missed [of acme_ingress nginx_ingress] show ?thesis by simp
qed

end
