(* ===== verification/Delta_Safety.thy ===== *)
theory Delta_Safety
  imports Delta_Fifo Informer_Safety
begin

text \<open>
  The queue of an informer loses nothing: the indexer, once the deltas that wait have been applied, is
  what the API server last told the reflector, under every key for which the last list did not come at
  a bad moment; the two bad moments, and what they cost, are lemmas of their own. When the informer reports that it has
  synced, the whole first list has been handed to the indexer.
\<close>

section \<open>The queue is well formed\<close>

definition fifo_ok :: "'a ObjectMeta_scheme delta_fifo \<Rightarrow> bool" where
  "fifo_ok f \<longleftrightarrow> distinct (fifo_queue f) \<and> set (fifo_queue f) = dom (items f)
     \<and> (\<forall>k ds. items f k = Some ds \<longrightarrow> ds \<noteq> [] \<and> (\<forall>d \<in> set ds. delta_key d = k))"

text \<open>What an entry will be once the deltas that wait for it have been applied.\<close>

definition target :: "'a ObjectMeta_scheme delta_fifo \<Rightarrow> (string \<rightharpoonup> 'a ObjectMeta_scheme) \<Rightarrow> string \<rightharpoonup> 'a ObjectMeta_scheme" where
  "target f known k = (case items f k of None \<Rightarrow> known k | Some ds \<Rightarrow> upserts (last ds))"

lemma dedup_simps:
  "dedupDeltas (ds @ [d]) \<noteq> []" "upserts (last (dedupDeltas (ds @ [d]))) = upserts d"
  "(\<forall>x \<in> set ds. delta_key x = k) \<Longrightarrow> delta_key d = k \<Longrightarrow> \<forall>x \<in> set (dedupDeltas (ds @ [d])). delta_key x = k"
proof -
  have "dedupDeltas (ds @ [d]) = ds @ [d] \<or>
      (\<exists>es e out. ds = es @ [e] \<and> dedupDeltas (ds @ [d]) = es @ [out] \<and> isDeletionDup d e = Some out)"
  proof (cases ds rule: rev_cases)
    case (snoc es e)
    then show ?thesis
      by (auto simp: dedupDeltas_def Let_def nth_append split: option.split)
  qed (simp add: dedupDeltas_def)
  moreover have "out \<in> {d, e} \<and> upserts out = None \<and> upserts d = None" if "isDeletionDup d e = Some out" for d e out :: "'a ObjectMeta_scheme delta"
    using that by (cases "(d, e)" rule: isDeletionDup.cases) auto
  ultimately show "dedupDeltas (ds @ [d]) \<noteq> []" "upserts (last (dedupDeltas (ds @ [d]))) = upserts d"
    "(\<forall>x \<in> set ds. delta_key x = k) \<Longrightarrow> delta_key d = k \<Longrightarrow> \<forall>x \<in> set (dedupDeltas (ds @ [d])). delta_key x = k"
    by fastforce+
qed

lemma deltas_of_keys: "fifo_ok f \<Longrightarrow> \<forall>d \<in> set (deltas_of f k). delta_key d = k"
  by (cases "items f k") (simp_all add: fifo_ok_def deltas_of_def)

definition ignored :: "'a ObjectMeta_scheme delta \<Rightarrow> 'a ObjectMeta_scheme delta_fifo \<Rightarrow> bool" where
  "ignored d f \<longleftrightarrow> is_sync d \<and> willObjectBeDeleted (delta_key d) f"

lemma queueAction_eq:
  "queueAction d f = (if ignored d f then f
    else f\<lparr>fifo_queue := (if items f (delta_key d) = None then fifo_queue f @ [delta_key d] else fifo_queue f),
           items := (items f)(delta_key d \<mapsto> dedupDeltas (deltas_of f (delta_key d) @ [d]))\<rparr>)"
  using dedup_simps(1) [where ds = "deltas_of f (delta_key d)" and d = d] by (simp add: queueAction_def ignored_def Let_def)

lemma queueAction_ok:
  assumes "fifo_ok f"
  shows "fifo_ok (queueAction d f)"
proof (cases "ignored d f")
  case False
  let ?k = "delta_key d"
  let ?new = "dedupDeltas (deltas_of f ?k @ [d])"
  have new: "?new \<noteq> [] \<and> (\<forall>x \<in> set ?new. delta_key x = ?k)"
    using dedup_simps(1,3) [where ds = "deltas_of f ?k" and d = d] deltas_of_keys [OF assms, of ?k] by blast
  have "distinct (fifo_queue f @ [?k])" if "items f ?k = None" using that assms by (auto simp: fifo_ok_def)
  moreover have "dom ((items f)(?k \<mapsto> ?new)) = insert ?k (set (fifo_queue f))" using assms by (simp add: fifo_ok_def)
  moreover have "?k \<in> set (fifo_queue f)" if "items f ?k \<noteq> None" using that assms by (auto simp: fifo_ok_def)
  ultimately show ?thesis using False assms new by (simp add: queueAction_eq fifo_ok_def insert_absorb)
qed (simp add: queueAction_eq assms)

lemma queueAction_target:
  "target (queueAction d f) known k = (if k = delta_key d \<and> \<not> ignored d f then upserts d else target f known k)"
  using dedup_simps(2) [where ds = "deltas_of f (delta_key d)" and d = d] by (auto simp: queueAction_eq target_def)

lemma queueAction_populated [simp]:
  "populated (queueAction d f) = populated f" "initialPopulationCount (queueAction d f) = initialPopulationCount f"
  by (simp_all add: queueAction_eq)

text \<open>The queue grows at its end only.\<close>

lemma queueAction_queue: "\<exists>ks. fifo_queue (queueAction d f) = fifo_queue f @ ks"
  by (simp add: queueAction_eq)

lemma queueAction_other [simp]: "k \<noteq> delta_key d \<Longrightarrow> deltas_of (queueAction d f) k = deltas_of f k"
  by (simp add: queueAction_eq deltas_of_def)

lemma queueAction_deleted [simp]:
  "k \<noteq> delta_key d \<Longrightarrow> willObjectBeDeleted k (queueAction d f) = willObjectBeDeleted k f"
  by (simp add: willObjectBeDeleted_def)

section \<open>Lists and resyncs\<close>

lemma fold_actions_ok: "fifo_ok f \<Longrightarrow> fifo_ok (fold (\<lambda>x. queueAction (g x)) xs f)"
  by (induction xs arbitrary: f) (simp_all add: queueAction_ok)

lemma fold_actions_same [simp]:
  "populated (fold (\<lambda>x. queueAction (g x)) xs f) = populated f"
  "initialPopulationCount (fold (\<lambda>x. queueAction (g x)) xs f) = initialPopulationCount f"
  by (induction xs arbitrary: f) simp_all

lemma fold_actions_queue: "\<exists>ks. fifo_queue (fold (\<lambda>x. queueAction (g x)) xs f) = fifo_queue f @ ks"
proof (induction xs arbitrary: f)
  case (Cons x xs)
  from Cons.IH [of "queueAction (g x) f"] queueAction_queue [of "g x" f] show ?case by auto
qed simp

text \<open>A key that no listed object has, or whose listing is ignored, keeps what waits for it.\<close>

lemma fold_sync_kept:
  "distinct (map meta_key xs) \<Longrightarrow> k \<notin> meta_key ` set xs \<or> willObjectBeDeleted k f
    \<Longrightarrow> target (fold (\<lambda>x. queueAction (Sync x)) xs f) known k = target f known k"
proof (induction xs arbitrary: f)
  case (Cons x xs)
  show ?case
  proof (cases "meta_key x = k")
    case True
    with Cons.prems have "willObjectBeDeleted k f" by auto
    with True have "queueAction (Sync x) f = f" by (simp add: queueAction_eq ignored_def)
    with Cons show ?thesis by auto
  next
    case False
    with Cons show ?thesis by (auto simp: queueAction_target)
  qed
qed simp

lemma willObjectBeDeleted_target: "willObjectBeDeleted k f \<Longrightarrow> target f known k = None"
  by (cases "last (deltas_of f k)") (auto simp: willObjectBeDeleted_def deltas_of_def target_def split: option.splits)

lemma waiting_target:
  assumes "fifo_ok f" "items f k \<noteq> None" "\<not> willObjectBeDeleted k f"
  shows "target f known k \<noteq> None"
proof -
  from assms obtain ds where "items f k = Some ds" "ds \<noteq> []" by (auto simp: fifo_ok_def)
  with assms(3) show ?thesis by (cases "last ds") (auto simp: willObjectBeDeleted_def deltas_of_def target_def)
qed

lemma fold_sync_target:
  "distinct (map meta_key xs) \<Longrightarrow> k \<in> meta_key ` set xs \<Longrightarrow> \<not> willObjectBeDeleted k f \<Longrightarrow>
    target (fold (\<lambda>x. queueAction (Sync x)) xs f) known k = table xs k"
proof (induction xs arbitrary: f)
  case (Cons x xs)
  show ?case
  proof (cases "meta_key x = k")
    case True
    with Cons.prems have "k \<notin> meta_key ` set xs" "\<not> ignored (Sync x) f" by (auto simp: ignored_def)
    with True Cons.prems(1) show ?thesis by (simp add: fold_sync_kept queueAction_target table_def)
  next
    case False
    with Cons show ?thesis by (auto simp: table_def)
  qed
qed simp

lemma fold_delete_target:
  "target (fold (\<lambda>k. queueAction (Deleted (DeletedFinalStateUnknown k))) ks f) known k = (if k \<in> set ks then None else target f known k)"
  by (induction ks arbitrary: f) (auto simp: queueAction_target ignored_def)

lemma table_dom: "dom (table xs) = meta_key ` set xs"
  by (force simp: table_def dom_map_of_conv_image_fst)

lemma replace_fold:
  obtains g where "FIFO_Replace ks xs f = fold (\<lambda>k. queueAction (Deleted (DeletedFinalStateUnknown k)))
      (filter (\<lambda>k. k \<notin> meta_key ` set xs) ks) (fold (\<lambda>x. queueAction (Sync x)) xs f) \<lparr>populated := True, initialPopulationCount := g\<rparr>"
proof -
  let ?f = "fold (\<lambda>k. queueAction (Deleted (DeletedFinalStateUnknown k)))
      (filter (\<lambda>k. k \<notin> meta_key ` set xs) ks) (fold (\<lambda>x. queueAction (Sync x)) xs f)"
  have "FIFO_Replace ks xs f = (if \<not> populated ?f
      then ?f\<lparr>populated := True, initialPopulationCount := length xs + length (filter (\<lambda>k. k \<notin> meta_key ` set xs) ks)\<rparr> else ?f)"
    by (simp add: FIFO_Replace_def Let_def)
  moreover have "?f = ?f\<lparr>populated := True, initialPopulationCount := initialPopulationCount ?f\<rparr>" if "populated ?f"
    using that by simp
  ultimately show ?thesis using that by metis
qed

lemma counts_ignored [simp]:
  "target (f\<lparr>populated := p, initialPopulationCount := n\<rparr>) = target f" "fifo_ok (f\<lparr>populated := p, initialPopulationCount := n\<rparr>) = fifo_ok f"
  "target (f\<lparr>populated := p\<rparr>) = target f" "fifo_ok (f\<lparr>populated := p\<rparr>) = fifo_ok f"
  by (simp_all add: target_def fun_eq_iff fifo_ok_def)

lemma replace_ok: "fifo_ok f \<Longrightarrow> fifo_ok (FIFO_Replace ks xs f)"
  by (rule replace_fold [of ks xs f]) (simp add: fold_actions_ok)

text \<open>A list is taken over for exactly the keys it does not overlook.\<close>

lemma replace_target:
  assumes "distinct (map meta_key xs)" "set ks = dom known" "fifo_ok f"
  shows "table xs k = target (FIFO_Replace ks xs f) known k \<longleftrightarrow> \<not> list_overlooks xs f known k"
proof -
  let ?synced = "fold (\<lambda>x. queueAction (Sync x)) xs f"
  have new: "target (FIFO_Replace ks xs f) known k
      = (if k \<in> set ks \<and> k \<notin> meta_key ` set xs then None else target ?synced known k)"
    by (rule replace_fold [of ks xs f]) (simp add: fold_delete_target)
  have listed: "table xs k = None \<longleftrightarrow> k \<notin> meta_key ` set xs" using table_dom [of xs] by (metis domIff)
  show ?thesis
  proof (cases "k \<in> meta_key ` set xs")
    case True
    show ?thesis
    proof (cases "willObjectBeDeleted k f")
      case del: True
      then have "items f k \<noteq> None" by (auto simp: willObjectBeDeleted_def deltas_of_def split: option.splits)
      moreover have "target ?synced known k = None"
        using fold_sync_kept [OF assms(1)] willObjectBeDeleted_target [OF del] del by metis
      ultimately show ?thesis using True del new listed by (auto simp: list_overlooks_def)
    next
      case False
      with fold_sync_target [OF assms(1) True False] True new show ?thesis by (simp add: list_overlooks_def)
    qed
  next
    case False
    have "target ?synced known k = target f known k" by (rule fold_sync_kept [OF assms(1)]) (simp add: False)
    moreover have "known k = None \<longleftrightarrow> k \<notin> set ks" using assms(2) by auto
    ultimately show ?thesis
      using False new listed willObjectBeDeleted_target [of k f known] waiting_target [OF assms(3), of k known]
      by (cases "items f k") (auto simp: list_overlooks_def target_def)
  qed
qed

text \<open>The entries of the indexer are under their own keys.\<close>

definition keyed :: "(string \<rightharpoonup> 'a ObjectMeta_scheme) \<Rightarrow> bool" where
  "keyed known \<longleftrightarrow> (\<forall>k x. known k = Some x \<longrightarrow> meta_key x = k)"

lemma syncKey_ok: "fifo_ok f \<Longrightarrow> fifo_ok (syncKey known k f)"
  by (simp add: syncKey_def queueAction_ok split: option.split)

lemma syncKey_target:
  assumes "keyed known" "fifo_ok f"
  shows "target (syncKey known k f) known = target f known"
proof (cases "\<exists>x. known k = Some x \<and> deltas_of f (meta_key x) = []")
  case True
  then obtain x where x: "known k = Some x" "deltas_of f (meta_key x) = []" by blast
  with assms have "meta_key x = k" "items f k = None"
    by (auto simp: keyed_def deltas_of_def fifo_ok_def split: option.splits)
  with x show ?thesis by (auto simp: syncKey_def queueAction_target fun_eq_iff) (simp add: target_def)
qed (auto simp: syncKey_def split: option.split)

lemma resync_target:
  "keyed known \<Longrightarrow> fifo_ok f \<Longrightarrow> target (FIFO_Resync ks known f) known = target f known \<and> fifo_ok (FIFO_Resync ks known f)"
  unfolding FIFO_Resync_def by (induction ks arbitrary: f) (simp_all add: syncKey_ok syncKey_target)

section \<open>Popping\<close>

lemma HandleDelta_indexer: "indexer (HandleDelta d s) = (indexer s)(delta_key d := upserts d)"
  by (cases d) (simp_all add: upsert_def distribute_def)

lemma HandleDeltas_indexer:
  "ds \<noteq> [] \<Longrightarrow> \<forall>d \<in> set ds. delta_key d = k \<Longrightarrow> indexer (HandleDeltas ds s) = (indexer s)(k := upserts (last ds))"
proof (induction ds arbitrary: s rule: rev_induct)
  case (snoc d ds)
  then show ?case by (cases "ds = []") (auto simp: HandleDeltas_def HandleDelta_indexer fun_eq_iff)
qed simp

lemma upserts_key: "upserts d = Some x \<Longrightarrow> meta_key x = delta_key d"
  by (cases d) simp_all

lemma pop_cases:
  assumes "fifo_ok f"
  shows "fifo_queue f = [] \<and> pop_round f = None \<or> (\<exists>k ks ds. fifo_queue f = k # ks \<and> items f k = Some ds
    \<and> pop_round f = Some (Some ds, f\<lparr>fifo_queue := ks, initialPopulationCount := initialPopulationCount f - 1, items := (items f)(k := None)\<rparr>))"
proof (cases "fifo_queue f")
  case (Cons k ks)
  with assms have "k \<in> dom (items f)" by (auto simp: fifo_ok_def)
  with Cons show ?thesis by (auto simp: Let_def)
qed simp

section \<open>The mirror\<close>

definition mirror_inv :: "'a ObjectMeta_scheme mirror \<Rightarrow> bool" where
  "mirror_inv m \<longleftrightarrow> fifo_ok (mfifo m) \<and> keyed (indexer (minf m))"

definition in_step :: "'a ObjectMeta_scheme mirror \<Rightarrow> bool" where
  "in_step m \<longleftrightarrow> (\<forall>k. server_view m k = target (mfifo m) (indexer (minf m)) k \<longleftrightarrow> k \<notin> overlooked m)"

lemma resync_check_indexer [simp]: "indexer (resync_check t later s) = indexer s"
  by (simp add: resync_check_def shouldResync_def determineNextResync_def Let_def)

lemma delete_ok: "fifo_ok f \<Longrightarrow> fifo_ok (FIFO_Delete known obj f)"
  by (simp add: FIFO_Delete_def queueAction_ok Let_def)

lemma delete_target: "target (FIFO_Delete known obj f) known = (target f known)(informer_key obj := None)"
proof -
  have "target (f\<lparr>populated := True\<rparr>) known = target f known" by simp
  then show ?thesis
    by (auto simp: FIFO_Delete_def Let_def queueAction_target ignored_def fun_eq_iff) (simp add: target_def)
qed

lemma upsert_target:
  "target (FIFO_Add x f) known = (target f known)(meta_key x \<mapsto> x)" "target (FIFO_Update x f) known = (target f known)(meta_key x \<mapsto> x)"
  by (simp_all add: FIFO_Add_def FIFO_Update_def queueAction_target ignored_def fun_eq_iff)

lemma process_one_step:
  assumes "mirror_inv m"
  shows "mirror_inv (process_one m)"
    "server_view (process_one m) = server_view m \<and> overlooked (process_one m) = overlooked m"
    "target (mfifo (process_one m)) (indexer (minf (process_one m))) = target (mfifo m) (indexer (minf m))"
proof -
  from assms have ok: "fifo_ok (mfifo m)" by (simp add: mirror_inv_def)
  have "mirror_inv (process_one m) \<and> (server_view (process_one m) = server_view m \<and> overlooked (process_one m) = overlooked m)
      \<and> target (mfifo (process_one m)) (indexer (minf (process_one m))) = target (mfifo m) (indexer (minf m))"
    using pop_cases [OF ok]
  proof (elim disjE exE conjE)
    fix k ks ds
    assume pop: "fifo_queue (mfifo m) = k # ks" "items (mfifo m) k = Some ds"
      "pop_round (mfifo m) = Some (Some ds, (mfifo m)\<lparr>fifo_queue := ks, initialPopulationCount := initialPopulationCount (mfifo m) - 1,
        items := (items (mfifo m))(k := None)\<rparr>)"
    from ok pop(2) have ds: "ds \<noteq> []" "\<forall>d \<in> set ds. delta_key d = k" by (auto simp: fifo_ok_def)
    note index = HandleDeltas_indexer [OF ds, of "minf m"]
    from ds have "delta_key (last ds) = k" by simp
    then have "keyed (indexer (HandleDeltas ds (minf m)))"
      using assms upserts_key [of "last ds"] unfolding index by (auto simp: mirror_inv_def keyed_def)
    moreover have "fifo_ok ((mfifo m)\<lparr>fifo_queue := ks, initialPopulationCount := initialPopulationCount (mfifo m) - 1,
        items := (items (mfifo m))(k := None)\<rparr>)"
      using ok pop(1) by (auto simp: fifo_ok_def)
    moreover have "target ((mfifo m)\<lparr>fifo_queue := ks, initialPopulationCount := initialPopulationCount (mfifo m) - 1,
        items := (items (mfifo m))(k := None)\<rparr>) (indexer (HandleDeltas ds (minf m))) = target (mfifo m) (indexer (minf m))"
      using pop(2) unfolding index by (auto simp: target_def fun_eq_iff split: option.split)
    ultimately show ?thesis by (simp add: process_one_def pop(1,3) mirror_inv_def del: pop_round.simps)
  qed (simp add: process_one_def assms del: pop_round.simps)
  then show "mirror_inv (process_one m)"
    "server_view (process_one m) = server_view m \<and> overlooked (process_one m) = overlooked m"
    "target (mfifo (process_one m)) (indexer (minf (process_one m))) = target (mfifo m) (indexer (minf m))" by blast+
qed

lemma resync_step:
  assumes "mirror_inv m"
  shows "mirror_inv (reflector_resync t later ks m)" "in_step m \<Longrightarrow> in_step (reflector_resync t later ks m)"
  using assms resync_target [of "indexer (minf m)" "mfifo m" ks]
  by (auto simp: reflector_resync_def mirror_inv_def in_step_def)

lemma mirror_step_inv:
  assumes "mirror_inv m"
  shows "mirror_inv (mirror_step x m)"
  using assms process_one_step(1) [OF assms] resync_step(1) [OF assms]
  by (cases x) (simp_all add: mirror_inv_def replace_ok delete_ok FIFO_Add_def FIFO_Update_def queueAction_ok)

lemma mirror_step_in_step:
  assumes "mirror_inv m" "in_step m" "op_given x m"
  shows "in_step (mirror_step x m)"
proof (cases x)
  case (Relist ks xs)
  then show ?thesis
    using assms replace_target [of xs ks "indexer (minf m)" "mfifo m"] by (simp add: in_step_def mirror_inv_def)
next
  case (WatchDeleted y)
  then show ?thesis using assms(2) by (simp add: in_step_def delete_target)
next
  case (WatchAdded y)
  then show ?thesis using assms(2) by (simp add: in_step_def upsert_target)
next
  case (WatchModified y)
  then show ?thesis using assms(2) by (simp add: in_step_def upsert_target)
qed (use assms process_one_step [OF assms(1)] resync_step(2) in \<open>simp_all add: in_step_def\<close>)

lemma new_mirror: "mirror_inv (NewMirror t0 t1)" "in_step (NewMirror t0 t1)"
  by (auto simp: mirror_inv_def in_step_def NewMirror_def NewDeltaFIFO_def NewSharedIndexInformer_def fifo_ok_def keyed_def target_def)

lemma run_in_step:
  "mirror_run P xs m \<Longrightarrow> mirror_inv m \<Longrightarrow> in_step m \<Longrightarrow> mirror_inv (mirror_after xs m) \<and> in_step (mirror_after xs m)"
  by (induction xs arbitrary: m) (simp_all add: mirror_after_def mirror_step_inv mirror_step_in_step)

text \<open>An empty queue.\<close>

lemma empty_target:
  assumes "fifo_ok f" "fifo_queue f = []"
  shows "target f known = known"
proof -
  from assms have "dom (items f) = {}" by (simp add: fifo_ok_def)
  then show ?thesis by (simp add: target_def fun_eq_iff)
qed

text \<open>
  Whatever the server lists and the watch reports, and whenever: the indexer with the deltas that
  wait applied to it has under a key what the server last told, if and only if the key was not
  overlooked; with an empty queue that is the indexer itself.
\<close>

lemma cache_converges:
  assumes "mirror_run P xs (NewMirror t0 t1)"
  defines "m \<equiv> mirror_after xs (NewMirror t0 t1)"
  shows "(target (mfifo m) (indexer (minf m)) k = server_view m k \<longleftrightarrow> k \<notin> overlooked m)
    \<and> (fifo_queue (mfifo m) = [] \<longrightarrow> (indexer (minf m) k = server_view m k \<longleftrightarrow> k \<notin> overlooked m))"
proof -
  from run_in_step [OF assms(1) new_mirror] have inv: "mirror_inv m" "in_step m" by (simp_all add: m_def)
  with empty_target [of "mfifo m" "indexer (minf m)"] show ?thesis by (simp add: in_step_def mirror_inv_def eq_commute)
qed

section \<open>Lists at a bad moment\<close>

definition settling :: "'a ObjectMeta_scheme reflector_op \<Rightarrow> bool" where
  "settling x \<longleftrightarrow> x = PopOne \<or> (\<exists>t later ks. x = ForceResync t later ks)"

lemma settling_target:
  assumes "mirror_inv m" "settling x"
  shows "target (mfifo (mirror_step x m)) (indexer (minf (mirror_step x m))) = target (mfifo m) (indexer (minf m))"
    "server_view (mirror_step x m) = server_view m"
  using assms process_one_step [OF assms(1)] resync_target [of "indexer (minf m)" "mfifo m"]
  by (auto simp: settling_def reflector_resync_def mirror_inv_def)

lemma settled_target:
  "list_all settling ys \<Longrightarrow> mirror_inv m \<Longrightarrow>
    target (mfifo (mirror_after ys m)) (indexer (minf (mirror_after ys m))) = target (mfifo m) (indexer (minf m))
    \<and> server_view (mirror_after ys m) = server_view m"
  by (induction ys arbitrary: m) (simp_all add: mirror_after_def settling_target mirror_step_inv)

text \<open>
  A list that comes while the deletion of a listed object waits in the queue does not bring the
  object back, and one that comes while an object it lacks waits to be added does not stop that
  object; no resync repairs either. The cache then lacks an object the server has, or keeps one it
  does not have, until the server speaks of the object again or the next list comes.
\<close>

lemma relist_at_bad_moment:
  assumes inv: "mirror_inv m" and given: "op_given (Relist ks xs) m" and ys: "list_all settling ys"
  defines "m' \<equiv> mirror_after (Relist ks xs # ys) m"
  shows "(x \<in> set xs \<and> willObjectBeDeleted (meta_key x) (mfifo m) \<longrightarrow>
        server_view m' (meta_key x) = Some x \<and> target (mfifo m') (indexer (minf m')) (meta_key x) = None)
    \<and> (items (mfifo m) k \<noteq> None \<and> \<not> willObjectBeDeleted k (mfifo m) \<and> indexer (minf m) k = None \<and> k \<notin> meta_key ` set xs \<longrightarrow>
        server_view m' k = None \<and> target (mfifo m') (indexer (minf m')) k \<noteq> None)"
proof -
  let ?m = "mirror_step (Relist ks xs) m"
  have keys: "distinct (map meta_key xs)" "set ks = dom (indexer (minf m))" using given by simp_all
  have after: "target (mfifo m') (indexer (minf m')) = target (mfifo ?m) (indexer (minf m))" "server_view m' = table xs"
    using settled_target [OF ys mirror_step_inv [OF inv, of "Relist ks xs"]] by (simp_all add: m'_def mirror_after_def)
  have kept: "target (mfifo ?m) (indexer (minf m)) j = target (mfifo m) (indexer (minf m)) j"
    if "j \<notin> meta_key ` set xs \<or> willObjectBeDeleted j (mfifo m)" "indexer (minf m) j = None \<or> j \<in> meta_key ` set xs" for j
  proof -
    have "j \<notin> set (filter (\<lambda>k. k \<notin> meta_key ` set xs) ks)" using that(2) keys(2) by auto
    then show ?thesis
      using fold_sync_kept [OF keys(1) that(1)] by (rule_tac replace_fold [of ks xs "mfifo m"]) (auto simp: fold_delete_target)
  qed
  show ?thesis
  proof (intro conjI impI; elim conjE)
    assume x: "x \<in> set xs" "willObjectBeDeleted (meta_key x) (mfifo m)"
    show "server_view m' (meta_key x) = Some x"
      using keys(1) x(1) unfolding after table_def by (intro map_of_is_SomeI) (auto simp: comp_def)
    show "target (mfifo m') (indexer (minf m')) (meta_key x) = None"
      unfolding after using kept [of "meta_key x"] x willObjectBeDeleted_target [OF x(2)] by simp
  next
    assume k: "items (mfifo m) k \<noteq> None" "\<not> willObjectBeDeleted k (mfifo m)" "indexer (minf m) k = None" "k \<notin> meta_key ` set xs"
    show "server_view m' k = None" unfolding after using table_dom [of xs] k(4) by (metis domIff)
    show "target (mfifo m') (indexer (minf m')) k \<noteq> None"
      unfolding after using kept [of k] k waiting_target [OF _ k(1,2)] inv by (simp add: mirror_inv_def)
  qed
qed

section \<open>The first list\<close>

definition listed_so_far :: "string set \<Rightarrow> 'a ObjectMeta_scheme mirror \<Rightarrow> bool" where
  "listed_so_far ks m \<longleftrightarrow> populated (mfifo m)
     \<and> ks \<subseteq> popped m \<union> set (take (initialPopulationCount (mfifo m)) (fifo_queue (mfifo m)))"

lemma listed_grow:
  assumes "listed_so_far ks m" "popped m' = popped m" "populated (mfifo m')" "initialPopulationCount (mfifo m') = initialPopulationCount (mfifo m)"
    and "\<exists>js. fifo_queue (mfifo m') = fifo_queue (mfifo m) @ js"
  shows "listed_so_far ks m'"
  using assms by (auto simp: listed_so_far_def)

lemma replace_grow:
  assumes "populated f"
  shows "populated (FIFO_Replace ks xs f)" "initialPopulationCount (FIFO_Replace ks xs f) = initialPopulationCount f"
    "\<exists>js. fifo_queue (FIFO_Replace ks xs f) = fifo_queue f @ js"
proof -
  let ?f1 = "fold (\<lambda>x. queueAction (Sync x)) xs f"
  let ?f2 = "fold (\<lambda>k. queueAction (Deleted (DeletedFinalStateUnknown k))) (filter (\<lambda>k. k \<notin> meta_key ` set xs) ks) ?f1"
  have eq: "FIFO_Replace ks xs f = ?f2" using assms by (simp add: FIFO_Replace_def Let_def)
  show "populated (FIFO_Replace ks xs f)" "initialPopulationCount (FIFO_Replace ks xs f) = initialPopulationCount f"
    using assms by (simp_all add: eq)
  obtain a b where "fifo_queue ?f1 = fifo_queue f @ a" "fifo_queue ?f2 = fifo_queue ?f1 @ b"
    using fold_actions_queue by metis
  then show "\<exists>js. fifo_queue (FIFO_Replace ks xs f) = fifo_queue f @ js" by (simp add: eq)
qed

lemma resync_grow:
  "populated (FIFO_Resync ks known f) = populated f" "initialPopulationCount (FIFO_Resync ks known f) = initialPopulationCount f"
  "\<exists>js. fifo_queue (FIFO_Resync ks known f) = fifo_queue f @ js"
proof -
  have "populated (syncKey known k f) = populated f \<and> initialPopulationCount (syncKey known k f) = initialPopulationCount f
      \<and> (\<exists>js. fifo_queue (syncKey known k f) = fifo_queue f @ js)" for k f
    using queueAction_queue by (auto simp: syncKey_def split: option.split)
  then have "populated (FIFO_Resync ks known f) = populated f \<and> initialPopulationCount (FIFO_Resync ks known f) = initialPopulationCount f
      \<and> (\<exists>js. fifo_queue (FIFO_Resync ks known f) = fifo_queue f @ js)"
    unfolding FIFO_Resync_def by (induction ks arbitrary: f) (simp, simp, metis append.assoc)
  then show "populated (FIFO_Resync ks known f) = populated f" "initialPopulationCount (FIFO_Resync ks known f) = initialPopulationCount f"
    "\<exists>js. fifo_queue (FIFO_Resync ks known f) = fifo_queue f @ js" by blast+
qed

lemma process_listed:
  assumes "mirror_inv m" "listed_so_far ks m"
  shows "listed_so_far ks (process_one m)"
proof -
  from assms(1) have ok: "fifo_ok (mfifo m)" by (simp add: mirror_inv_def)
  show ?thesis
    using pop_cases [OF ok]
  proof (elim disjE exE conjE)
    fix k js ds
    assume pop: "fifo_queue (mfifo m) = k # js"
      "pop_round (mfifo m) = Some (Some ds, (mfifo m)\<lparr>fifo_queue := js, initialPopulationCount := initialPopulationCount (mfifo m) - 1,
        items := (items (mfifo m))(k := None)\<rparr>)"
    with assms(2) show ?thesis
      by (cases "initialPopulationCount (mfifo m)")
        (auto simp: process_one_def listed_so_far_def simp del: pop_round.simps)
  qed (simp add: process_one_def assms del: pop_round.simps)
qed

lemma step_listed:
  assumes "mirror_inv m" "listed_so_far ks m"
  shows "listed_so_far ks (mirror_step x m)"
proof -
  have pop: "populated (mfifo m)" using assms(2) by (simp add: listed_so_far_def)
  have delete: "\<exists>js. fifo_queue (FIFO_Delete known obj (mfifo m)) = fifo_queue (mfifo m) @ js"
    "populated (FIFO_Delete known obj (mfifo m))" "initialPopulationCount (FIFO_Delete known obj (mfifo m)) = initialPopulationCount (mfifo m)" for known obj
    using queueAction_queue [of "Deleted obj" "(mfifo m)\<lparr>populated := True\<rparr>"] by (auto simp: FIFO_Delete_def Let_def)
  have add: "\<exists>js. fifo_queue (queueAction d ((mfifo m)\<lparr>populated := True\<rparr>)) = fifo_queue (mfifo m) @ js" for d
    using queueAction_queue [of d "(mfifo m)\<lparr>populated := True\<rparr>"] by simp
  show ?thesis
  proof (cases x)
    case PopOne
    then show ?thesis using process_listed [OF assms] by simp
  qed (auto intro!: listed_grow [OF assms(2)] simp: replace_grow [OF pop] resync_grow pop delete add FIFO_Add_def FIFO_Update_def
      reflector_resync_def)
qed

lemma fold_sync_queue:
  "distinct (map meta_key xs) \<Longrightarrow> \<forall>x \<in> set xs. items f (meta_key x) = None
    \<Longrightarrow> fifo_queue (fold (\<lambda>x. queueAction (Sync x)) xs f) = fifo_queue f @ map meta_key xs"
proof (induction xs arbitrary: f)
  case (Cons x xs)
  have "\<not> ignored (Sync x) f" using Cons.prems(2) by (simp add: ignored_def willObjectBeDeleted_def deltas_of_def)
  then have "fifo_queue (queueAction (Sync x) f) = fifo_queue f @ [meta_key x]" using Cons.prems(2) by (simp add: queueAction_eq)
  moreover have "fifo_queue (fold (\<lambda>x. queueAction (Sync x)) xs (queueAction (Sync x) f)) = fifo_queue (queueAction (Sync x) f) @ map meta_key xs"
    by (rule Cons.IH) (use Cons.prems in \<open>auto simp: queueAction_eq image_iff\<close>)
  ultimately show ?case by simp
qed simp

lemma first_list:
  assumes "op_given (Relist ks xs) (NewMirror t0 t1)"
  shows "listed_so_far (meta_key ` set xs) (mirror_step (Relist ks xs) (NewMirror t0 t1))"
proof -
  from assms have "ks = []" "distinct (map meta_key xs)" by (simp_all add: NewMirror_def NewSharedIndexInformer_def)
  then show ?thesis
    by (simp add: NewMirror_def NewDeltaFIFO_def FIFO_Replace_def Let_def listed_so_far_def fold_sync_queue)
qed

text \<open>
  C18: once the informer says that it has synced, every object of the first list has been handed to
  the indexer and to the handlers.
\<close>

theorem synced_means_listed:
  assumes "mirror_run (\<lambda>_ _. True) (Relist ks xs # ops) (NewMirror t0 t1)"
    and "HasSynced (mfifo (mirror_after (Relist ks xs # ops) (NewMirror t0 t1)))"
  shows "meta_key ` set xs \<subseteq> popped (mirror_after (Relist ks xs # ops) (NewMirror t0 t1))"
proof -
  have run: "listed_so_far js (mirror_after ops m)" if "mirror_inv m" "listed_so_far js m" for m :: "'a ObjectMeta_scheme mirror" and js
    using that by (induction ops arbitrary: m) (simp_all add: mirror_after_def mirror_step_inv step_listed)
  have "listed_so_far (meta_key ` set xs) (mirror_after ops (mirror_step (Relist ks xs) (NewMirror t0 t1)))"
    by (rule run [OF mirror_step_inv [OF new_mirror(1)] first_list]) (use assms(1) in simp)
  with assms(2) show ?thesis by (simp add: mirror_after_def HasSynced_def listed_so_far_def)
qed

section \<open>Witnesses\<close>

text \<open>An ingress that is listed, reaches the indexer, is deleted, and is listed again too early.\<close>

definition first_steps :: "Ingress reflector_op list" where
  "first_steps = [Relist [] [acme_ingress], PopOne]"

definition too_early :: "Ingress mirror" where
  "too_early = mirror_after [WatchDeleted acme_ingress] (mirror_after first_steps (NewMirror 0 0))"

lemmas mirror_defs = first_steps_def mirror_after_def list_overlooks_def NewMirror_def NewDeltaFIFO_def NewSharedIndexInformer_def
  FIFO_Replace_def FIFO_Delete_def queueAction_def willObjectBeDeleted_def deltas_of_def dedupDeltas_def table_def
  process_one_def HandleDeltas_def upsert_def distribute_def acme_ingress_def mk_ingress_def meta_key_def Let_def

lemma cache_converges_witness:
  "indexer (minf (mirror_after first_steps (NewMirror 0 0))) = server_view (mirror_after first_steps (NewMirror 0 0))"
proof -
  have "mirror_run (\<lambda>_ _. True) first_steps (NewMirror 0 0)" by (simp add: mirror_defs)
  note cache_converges [OF this]
  moreover have "fifo_queue (mfifo (mirror_after first_steps (NewMirror 0 0))) = []"
    "overlooked (mirror_after first_steps (NewMirror 0 0)) = {}" by (simp_all add: mirror_defs)
  ultimately show ?thesis by (simp add: fun_eq_iff)
qed

lemma relist_at_bad_moment_witness:
  "let m = mirror_after [Relist [''acme/routes''] [acme_ingress], PopOne, ForceResync 0 0 []] too_early
   in server_view m ''acme/routes'' = Some acme_ingress \<and> target (mfifo m) (indexer (minf m)) ''acme/routes'' = None"
proof -
  have inv: "mirror_inv too_early"
    unfolding too_early_def first_steps_def mirror_after_def
    by (simp del: mirror_step.simps add: mirror_step_inv new_mirror(1))
  have given: "op_given (Relist [''acme/routes''] [acme_ingress]) too_early" by (simp add: too_early_def mirror_defs dom_def)
  have key: "meta_key acme_ingress = ''acme/routes''" by (simp add: acme_ingress_def mk_ingress_def meta_key_def)
  have del: "willObjectBeDeleted (meta_key acme_ingress) (mfifo too_early)" by (simp add: too_early_def mirror_defs)
  have "list_all settling [PopOne, ForceResync 0 0 []]" by (simp add: settling_def)
  from relist_at_bad_moment [OF inv given this, of acme_ingress] del key show ?thesis by (simp add: Let_def)
qed

lemma synced_means_listed_witness:
  "''acme/routes'' \<in> popped (mirror_after first_steps (NewMirror 0 0))"
proof -
  have "mirror_run (\<lambda>_ _. True) (Relist [] [acme_ingress] # [PopOne]) (NewMirror 0 0)"
    "HasSynced (mfifo (mirror_after (Relist [] [acme_ingress] # [PopOne]) (NewMirror 0 0)))"
    by (simp_all add: mirror_defs HasSynced_def)
  from synced_means_listed [OF this] show ?thesis by (simp add: first_steps_def acme_ingress_def mk_ingress_def meta_key_def)
qed

end
