(* ===== verification/Watch_Safety.thy ===== *)
theory Watch_Safety
  imports Delta_Safety
begin

text \<open>
  The caches and the queues composed with the watches that feed them: once an informer, its queue of
  deltas and its task queue have settled, the last sync of every key read what the API server last
  told of the object, unless the last list came at a bad moment for the key.
\<close>

section \<open>What the server may say\<close>

text \<open>Two objects of one key with the same resource version are the same.\<close>

definition versioned :: "'a ObjectMeta_scheme set \<Rightarrow> bool" where
  "versioned U \<longleftrightarrow> (\<forall>x \<in> U. \<forall>y \<in> U. meta_key x = meta_key y \<longrightarrow> ResourceVersion x = ResourceVersion y \<longrightarrow> x = y)"

text \<open>An ingress that is the controller's has never another class.\<close>

definition one_class :: "Ingress set \<Rightarrow> bool" where
  "one_class U \<longleftrightarrow> (\<forall>x \<in> U. \<forall>y \<in> U. meta_key x = meta_key y \<longrightarrow> isKongIngress x = isKongIngress y)"

fun delta_objs :: "'o delta \<Rightarrow> 'o set" where
  "delta_objs (Deleted (DeletedFinalStateUnknown k)) = {}"
| "delta_objs (Deleted (Obj x)) = {x}"
| "delta_objs (Sync x) = {x}"
| "delta_objs (Added x) = {x}"
| "delta_objs (Updated x) = {x}"

lemma delta_objs_key: "x \<in> delta_objs d \<Longrightarrow> meta_key x = delta_key d"
  by (cases d rule: delta_objs.cases) simp_all

lemma delta_objs_upserts: "upserts d = Some x \<Longrightarrow> x \<in> delta_objs d"
  by (cases d) simp_all

text \<open>The deltas and the entry they meet are of the same server.\<close>

definition lawful :: "'a ObjectMeta_scheme set \<Rightarrow> (('a ObjectMeta_scheme) option \<Rightarrow> 'a ObjectMeta_scheme delta \<Rightarrow> bool) \<Rightarrow> bool" where
  "lawful U ok \<longleftrightarrow> (\<forall>old d. set_option old \<subseteq> U \<and> delta_objs d \<subseteq> U \<and> (\<forall>x. old = Some x \<longrightarrow> meta_key x = delta_key d) \<longrightarrow> ok old d)"

lemma lawful_honest: "versioned U \<Longrightarrow> lawful U honest"
  unfolding lawful_def versioned_def honest_def by (auto dest!: delta_objs_upserts simp: delta_objs_key subset_iff)

lemma lawful_class: "versioned U \<Longrightarrow> one_class U \<Longrightarrow> lawful U class_stays"
proof -
  assume U: "versioned U" "one_class U"
  have stays: "isKongIngress y" if "x \<in> U" "delta_objs d \<subseteq> U" "meta_key x = delta_key d" "isKongIngress x"
    "upserts d = Some y \<or> d = Deleted (Obj y)" for x y d
  proof -
    from that(5) have "y \<in> delta_objs d" by (auto dest: delta_objs_upserts)
    with that U(2) show ?thesis by (metis delta_objs_key one_class_def subsetD)
  qed
  have "class_stays old d" if a: "set_option old \<subseteq> U \<and> delta_objs d \<subseteq> U \<and> (\<forall>x. old = Some x \<longrightarrow> meta_key x = delta_key d)" for old d
  proof -
    have "honest old d" using lawful_honest [OF U(1)] a unfolding lawful_def by blast
    moreover have "isKongIngress y" if "old = Some x" "isKongIngress x" "upserts d = Some y \<or> d = Deleted (Obj y)" for x y
      using stays [of x d y] a that by simp
    ultimately show ?thesis by (simp add: class_stays_def)
  qed
  then show ?thesis by (simp add: lawful_def)
qed

section \<open>Objects on their way\<close>

definition within :: "'a ObjectMeta_scheme set \<Rightarrow> 'a ObjectMeta_scheme mirror \<Rightarrow> bool" where
  "within U m \<longleftrightarrow> ran (indexer (minf m)) \<subseteq> U \<and> (\<forall>k. \<forall>d \<in> set (deltas_of (mfifo m) k). delta_objs d \<subseteq> U)"

definition fifo_holds :: "'o set \<Rightarrow> 'o delta_fifo \<Rightarrow> bool" where
  "fifo_holds U f \<longleftrightarrow> (\<forall>k. \<forall>d \<in> set (deltas_of f k). delta_objs d \<subseteq> U)"

lemma within_fifo: "within U m \<longleftrightarrow> ran (indexer (minf m)) \<subseteq> U \<and> fifo_holds U (mfifo m)"
  by (simp add: within_def fifo_holds_def)

lemma isDeletionDup_objs: "isDeletionDup a b = Some d \<Longrightarrow> d = a \<or> d = b"
  by (induction a b rule: isDeletionDup.induct) auto

lemma dedupDeltas_set: "set (dedupDeltas ds) \<subseteq> set ds"
proof (cases "length ds < 2")
  case False
  then have "ds ! (length ds - 1) \<in> set ds" "ds ! (length ds - 2) \<in> set ds" by simp_all
  then show ?thesis
    using set_take_subset [of "length ds - 2" ds] by (auto simp: dedupDeltas_def Let_def split: option.split dest: isDeletionDup_objs)
qed (simp add: dedupDeltas_def)

lemma queueAction_holds:
  assumes "fifo_holds U f" "delta_objs d \<subseteq> U"
  shows "fifo_holds U (queueAction d f)"
proof -
  have "\<forall>e \<in> set (dedupDeltas (deltas_of f (delta_key d) @ [d])). delta_objs e \<subseteq> U"
    using assms dedupDeltas_set [of "deltas_of f (delta_key d) @ [d]"] by (auto simp: fifo_holds_def)
  with assms(1) show ?thesis
    by (auto simp: queueAction_def fifo_holds_def deltas_of_def Let_def split: option.splits if_splits)
qed

lemma fold_holds: "fifo_holds U f \<Longrightarrow> \<forall>x \<in> set xs. delta_objs (g x) \<subseteq> U \<Longrightarrow> fifo_holds U (fold (\<lambda>x. queueAction (g x)) xs f)"
  by (induction xs arbitrary: f) (simp_all add: queueAction_holds)

lemma fifo_holds_fields [simp]:
  "fifo_holds U (f\<lparr>populated := b\<rparr>) = fifo_holds U f" "fifo_holds U (f\<lparr>populated := b, initialPopulationCount := n\<rparr>) = fifo_holds U f"
  by (simp_all add: fifo_holds_def deltas_of_def)

lemma syncKey_holds: "fifo_holds U f \<Longrightarrow> ran known \<subseteq> U \<Longrightarrow> fifo_holds U (syncKey known k f)"
  by (cases "known k") (auto simp: syncKey_def intro!: queueAction_holds ranI)

lemma resync_holds: "fifo_holds U f \<Longrightarrow> ran known \<subseteq> U \<Longrightarrow> fifo_holds U (FIFO_Resync ks known f)"
  unfolding FIFO_Resync_def by (induction ks arbitrary: f) (simp_all add: syncKey_holds)

fun op_objects :: "'o reflector_op \<Rightarrow> 'o set" where
  "op_objects (Relist ks xs) = set xs"
| "op_objects (WatchAdded x) = {x}"
| "op_objects (WatchModified x) = {x}"
| "op_objects (WatchDeleted x) = {x}"
| "op_objects _ = {}"

text \<open>Applying the deltas of a key.\<close>

lemma upserts_ran: "ran known \<subseteq> U \<Longrightarrow> delta_objs d \<subseteq> U \<Longrightarrow> ran (known(k := upserts d)) \<subseteq> U"
  by (auto simp: ran_def dest: delta_objs_upserts split: if_splits)

lemma deltas_ran:
  "ran (indexer si) \<subseteq> U \<Longrightarrow> \<forall>d \<in> set ds. delta_objs d \<subseteq> U \<Longrightarrow> ran (indexer (HandleDeltas ds si)) \<subseteq> U"
  unfolding HandleDeltas_def
  by (induction ds arbitrary: si) (simp_all add: HandleDelta_indexer upserts_ran)

lemma delta_keyed: "keyed (indexer si) \<Longrightarrow> keyed (indexer (HandleDelta d si))"
  using upserts_key [of d] by (auto simp: HandleDelta_indexer keyed_def)

lemma deltas_keyed: "keyed (indexer si) \<Longrightarrow> keyed (indexer (HandleDeltas ds si))"
  unfolding HandleDeltas_def by (induction ds arbitrary: si) (simp_all add: delta_keyed)

lemma mirror_step_within:
  assumes "within U m" "mirror_inv m" "op_objects x \<subseteq> U"
  shows "within U (mirror_step x m)"
proof (cases x)
  case (Relist ks xs)
  then have "\<forall>x \<in> set xs. delta_objs (Sync x) \<subseteq> U" using assms(3) by auto
  with assms(1) Relist show ?thesis
    by (auto simp: within_fifo FIFO_Replace_def Let_def intro!: fold_holds)
next
  case PopOne
  from assms(2) have "fifo_ok (mfifo m)" by (simp add: mirror_inv_def)
  from pop_cases [OF this] show ?thesis
  proof (elim disjE exE conjE)
    fix k ks ds
    assume pop: "fifo_queue (mfifo m) = k # ks" "items (mfifo m) k = Some ds"
      "pop_round (mfifo m) = Some (Some ds, (mfifo m)\<lparr>fifo_queue := ks, initialPopulationCount := initialPopulationCount (mfifo m) - 1,
        items := (items (mfifo m))(k := None)\<rparr>)"
    have "ds = deltas_of (mfifo m) k" by (simp add: deltas_of_def pop(2))
    with assms(1) have "\<forall>d \<in> set ds. delta_objs d \<subseteq> U" by (simp add: within_def)
    with assms(1) have "ran (indexer (HandleDeltas ds (minf m))) \<subseteq> U" by (simp add: within_def deltas_ran)
    with assms(1) show ?thesis
      by (auto simp: PopOne process_one_def pop(1,3) within_def deltas_of_def split: option.splits if_splits simp del: pop_round.simps)
  qed (simp add: PopOne process_one_def assms del: pop_round.simps)
qed (use assms in \<open>auto simp: within_fifo FIFO_Add_def FIFO_Update_def FIFO_Delete_def Let_def queueAction_holds
  reflector_resync_def resync_holds\<close>)

lemma feed_deltas:
  assumes "lawful U ok" "\<forall>q. \<not> crashed (queues (fctl f) q)"
  shows "feed_reachable n E q ev ok f \<Longrightarrow> keyed (indexer (finf f)) \<Longrightarrow> ran (indexer (finf f)) \<subseteq> U
    \<Longrightarrow> \<forall>d \<in> set ds. delta_objs d \<subseteq> U \<Longrightarrow> feed_reachable n E q ev ok (f\<lparr>finf := HandleDeltas ds (finf f)\<rparr>)"
proof (induction ds rule: rev_induct)
  case (snoc d ds)
  let ?si = "HandleDeltas ds (finf f)"
  have "ok (indexer ?si (delta_key d)) d"
  proof -
    have "ran (indexer ?si) \<subseteq> U" using snoc.prems by (simp add: deltas_ran)
    then have "set_option (indexer ?si (delta_key d)) \<subseteq> U" by (auto simp: ran_def)
    with assms(1) deltas_keyed [OF snoc.prems(2), of ds] snoc.prems(4) show ?thesis by (simp add: lawful_def keyed_def)
  qed
  then have "feed_rule n E q ev ok (f\<lparr>finf := ?si\<rparr>) ((f\<lparr>finf := ?si\<rparr>)\<lparr>finf := HandleDelta d (finf (f\<lparr>finf := ?si\<rparr>))\<rparr>)"
    by (intro feed_rule.delta) simp
  from feed_reachable.step [OF snoc.IH _ this] snoc.prems assms(2) show ?case by (simp add: HandleDeltas_def)
qed (simp add: HandleDeltas_def)

section \<open>The invariant\<close>

definition sound :: "'a ObjectMeta_scheme set \<Rightarrow> 'a ObjectMeta_scheme mirror \<Rightarrow> bool" where
  "sound U m \<longleftrightarrow> mirror_inv m \<and> in_step m \<and> within U m"

lemma sound_step:
  "sound U m \<Longrightarrow> op_given x m \<Longrightarrow> op_objects x \<subseteq> U \<Longrightarrow> sound U (mirror_step x m)"
  by (simp add: sound_def mirror_step_inv mirror_step_in_step mirror_step_within)

text \<open>What is sound depends on the contents of the indexer only.\<close>

lemma sound_minf: "indexer si = indexer (minf m) \<Longrightarrow> sound U (m\<lparr>minf := si\<rparr>) = sound U m"
  by (simp add: sound_def mirror_inv_def in_step_def within_def)

lemma sound_restart [simp]: "sound U (restart_timer later m) = sound U m"
  by (simp add: restart_timer_def sound_minf)

lemma quiet_indexer: "feed_rule n E q ev (\<lambda>_ _. False) f f' \<Longrightarrow> indexer (finf f') = indexer (finf f)"
  by (erule feed_rule.cases) auto

lemma mirror_of_with [simp]: "mirror_of (with_mirror m s) = m" "wfeed (with_mirror m s) = (wfeed s)\<lparr>finf := minf m\<rparr>"
  by (simp_all add: mirror_of_def with_mirror_def)

lemma mirror_of_feed: "mirror_of (s\<lparr>wfeed := f\<rparr>) = (mirror_of s)\<lparr>minf := finf f\<rparr>"
  by (simp add: mirror_of_def)

lemma feed_pop:
  assumes "lawful U ok" "sound U (mirror_of s)" "feed_reachable n E q ev ok (wfeed s)"
    and "\<forall>q. \<not> crashed (queues (fctl (wfeed s)) q)"
  shows "feed_reachable n E q ev ok ((wfeed s)\<lparr>finf := minf (process_one (mirror_of s))\<rparr>)"
proof -
  let ?m = "mirror_of s"
  have m: "fifo_ok (mfifo ?m)" "keyed (indexer (finf (wfeed s)))" "ran (indexer (finf (wfeed s))) \<subseteq> U" "fifo_holds U (mfifo ?m)"
    using assms(2) by (simp_all add: sound_def mirror_inv_def within_fifo mirror_of_def)
  from pop_cases [OF m(1)] show ?thesis
  proof (elim disjE exE conjE)
    fix k ks ds
    assume pop: "fifo_queue (mfifo ?m) = k # ks" "items (mfifo ?m) k = Some ds"
      "pop_round (mfifo ?m) = Some (Some ds, (mfifo ?m)\<lparr>fifo_queue := ks, initialPopulationCount := initialPopulationCount (mfifo ?m) - 1,
        items := (items (mfifo ?m))(k := None)\<rparr>)"
    have "ds = deltas_of (mfifo ?m) k" by (simp add: deltas_of_def pop(2))
    with m(4) have "\<forall>d \<in> set ds. delta_objs d \<subseteq> U" by (simp add: fifo_holds_def)
    from feed_deltas [OF assms(1,4,3) m(2,3) this] show ?thesis
      unfolding process_one_def pop(3) by (simp add: mirror_of_def)
  qed (use assms(3) in \<open>simp add: process_one_def mirror_of_def del: pop_round.simps\<close>)
qed

lemma watch_invariant:
  assumes "watch_reachable n E q ev U s" "lawful U ok"
  shows "sound U (mirror_of s) \<and> feed_reachable n E q ev ok (wfeed s)"
  using assms(1)
proof induction
  case (init t0 t1 t w)
  have "sound U (NewMirror t0 t1)"
    by (simp add: sound_def new_mirror) (simp add: within_def NewMirror_def NewDeltaFIFO_def NewSharedIndexInformer_def deltas_of_def)
  with feed_reachable.init [OF init] show ?case by (simp add: mirror_of_def NewMirror_def)
next
  case (step s s')
  from step.IH have m: "sound U (mirror_of s)" and f: "feed_reachable n E q ev ok (wfeed s)" by simp_all
  from step.hyps(3) show ?case
  proof cases
    case (list ks xs later)
    have "sound U (mirror_step (Relist ks xs) (mirror_of s))" by (rule sound_step [OF m list(2)]) (use list in simp)
    moreover have "feed_reachable n E q ev ok ((wfeed s)\<lparr>finf := (finf (wfeed s))\<lparr>lastTimer := later\<rparr>\<rparr>)"
      by (rule feed_reachable.step [OF f step.hyps(2) feed_rule.relist [OF list(4)]])
    ultimately show ?thesis
      by (simp add: list(1) del: mirror_step.simps) (simp add: restart_timer_def mirror_of_def)
  next
    case (event x y)
    then have "op_given x (mirror_of s)" "op_objects x \<subseteq> U" "minf (mirror_step x (mirror_of s)) = finf (wfeed s)"
      by (auto simp: mirror_of_def)
    with sound_step [OF m] event(1) f show ?thesis by simp
  next
    case pop
    with sound_step [OF m, of PopOne] feed_pop [OF assms(2) m f step.hyps(2)] show ?thesis by simp
  next
    case (resync t later ks)
    have "minf (mirror_step (ForceResync t later ks) (mirror_of s)) = resync_check t later (finf (wfeed s))"
      by (simp add: reflector_resync_def mirror_of_def)
    with sound_step [OF m, of "ForceResync t later ks"] resync feed_reachable.step [OF f step.hyps(2) feed_rule.resync [OF resync(3,4)]]
    show ?thesis by simp
  next
    case (control f')
    have "indexer (finf f') = indexer (minf (mirror_of s))" using quiet_indexer [OF control(2)] by (simp add: mirror_of_def)
    with m feed_reachable.step [OF f step.hyps(2) feed_rule_any [OF control(2)]] control(1) show ?thesis
      by (simp add: mirror_of_feed sound_minf)
  qed
qed

lemma drained:
  assumes "sound U (mirror_of s)" "fifo_queue (wfifo s) = []"
  shows "indexer (finf (wfeed s)) k = told s k \<longleftrightarrow> k \<notin> doubted s"
proof -
  from assms(1) have "fifo_ok (wfifo s)" "told s k = target (wfifo s) (indexer (finf (wfeed s))) k \<longleftrightarrow> k \<notin> doubted s"
    by (simp_all add: sound_def mirror_inv_def in_step_def mirror_of_def)
  with empty_target [OF _ assms(2)] show ?thesis by (simp add: eq_commute)
qed

section \<open>Properties\<close>

text \<open>
  C17: what the server says reaches the reconciliations. Whatever the interleaving of lists, watch
  events, resyncs, handlers and workers: once no delta, no notification and no key is on its way,
  the last sync of a service or a domain returned nil and read what the server last told of the
  object, or that there is none, if and only if its key is not doubted, that is, the last list did
  not come while the deletion of the listed object waited in the queue of deltas, or while an
  object it lacks and the indexer lacks waited there to be added, or the object was watched since.
  The same, in one direction, holds of an ingress, of which only what concerns the controller counts,
  when no ingress is ever given another class. The server is taken to give two objects of one key
  with the same resource version only when they are the same.
\<close>

theorem settled_saw_server:
  assumes svc: "watch_reachable n E SvcQueue service_event U s" "versioned U" "settled SvcQueue (wfeed s)" "fifo_queue (wfifo s) = []"
    and dom: "watch_reachable n E DomQueue domain_event U1 s1" "versioned U1" "settled DomQueue (wfeed s1)" "fifo_queue (wfifo s1) = []"
    and ing: "watch_reachable n E IngQueue ingress_event U2 s2" "versioned U2" "one_class U2" "settled IngQueue (wfeed s2)"
      "fifo_queue (wfifo s2) = []"
  shows "(seen (wfeed s) k = told s k \<longleftrightarrow> k \<notin> doubted s) \<and> (seen (wfeed s1) k = told s1 k \<longleftrightarrow> k \<notin> doubted s1)
    \<and> (k \<notin> doubted s2 \<longrightarrow> kong_view (seen (wfeed s2) k) = kong_view (told s2 k))
    \<and> (\<forall>(q, f) \<in> {(SvcQueue, fctl (wfeed s)), (DomQueue, fctl (wfeed s1)), (IngQueue, fctl (wfeed s2))}.
        lim_NumRequeues k (lim (queues f q)) = 0)"
proof -
  note S = watch_invariant [OF svc(1) lawful_honest [OF svc(2)]]
    and D = watch_invariant [OF dom(1) lawful_honest [OF dom(2)]]
    and I = watch_invariant [OF ing(1) lawful_class [OF ing(2,3)]]
  have "seen (wfeed s) k = indexer (finf (wfeed s)) k" "seen (wfeed s1) k = indexer (finf (wfeed s1)) k"
    "kong_view (seen (wfeed s2) k) = kong_view (indexer (finf (wfeed s2)) k)"
    using svc.settled_view [OF conjunct2 [OF S] svc(3)] dom.settled_view [OF conjunct2 [OF D] dom(3)]
      ing.settled_view [OF conjunct2 [OF I] ing(4)] by simp_all
  with drained [OF conjunct1 [OF S] svc(4), of k] drained [OF conjunct1 [OF D] dom(4), of k] drained [OF conjunct1 [OF I] ing(5), of k]
    settled_requeues [OF conjunct2 [OF S] svc(3)] settled_requeues [OF conjunct2 [OF D] dom(3)]
    settled_requeues [OF conjunct2 [OF I] ing(4)]
  show ?thesis by (simp, metis)
qed

section \<open>Witnesses\<close>

text \<open>One object is listed, reaches the indexer and its handler, and is synced.\<close>

interpretation watched: feed_closed n E q ev "\<lambda>f. watch_reachable n E q ev U (s\<lparr>wfeed := f\<rparr>)" for n E q ev U s
proof unfold_locales
  fix f f'
  assume R: "watch_reachable n E q ev U (s\<lparr>wfeed := f\<rparr>)" and f: "\<forall>q. \<not> crashed (queues (fctl f) q)"
    "feed_rule n E q ev (\<lambda>_ _. False) f f'" "lastTimer (finf f') = lastTimer (finf f)"
  have "watch_rule n E q ev U (s\<lparr>wfeed := f\<rparr>) ((s\<lparr>wfeed := f\<rparr>)\<lparr>wfeed := f'\<rparr>)"
    by (rule watch_rule.control) (use f in simp_all)
  from watch_reachable.step [OF R _ this] f(1) show "watch_reachable n E q ev U (s\<lparr>wfeed := f'\<rparr>)" by simp
qed

lemma one_listed:
  assumes "\<And>w. handle_event E (ev (addNotification x)) w = (Done (), [Enqueue q (meta_key x)], w)"
  obtains s where "watch_reachable 1 E q ev {x} s" "settled q (wfeed s)" "fifo_queue (wfifo s) = []" "told s = [meta_key x \<mapsto> x]"
    "doubted s = {}"
proof -
  let ?f0 = "\<lparr>fctl = NewKongController 0, finf = NewSharedIndexInformer 0 0, seen = Map.empty, fworld = undefined\<rparr>"
  let ?s = "\<lambda>f. \<lparr>wfifo = NewDeltaFIFO, told = Map.empty, handed = {}, doubted = {}, wfeed = f\<rparr>"
  have "watch_reachable 1 E q ev {x} (?s ?f0)" by (rule watch_reachable.init) simp
  then have "watch_reachable 1 E q ev {x} ((?s ?f0)\<lparr>wfeed := ?f0\<rparr>)" by simp
  then obtain f where "watch_reachable 1 E q ev {x} ((?s ?f0)\<lparr>wfeed := f\<rparr>)" and f: "at_rest q f"
    "finf f = NewSharedIndexInformer 0 0" by (rule watched.served [where n = 1 and w = undefined, rotated]) simp_all
  then have s1: "watch_reachable 1 E q ev {x} (?s f)" by simp
  have ok: "\<forall>q. \<not> crashed (queues (fctl f) q)" using f(1) by (simp add: at_rest_def)
  let ?s2 = "with_mirror (restart_timer 0 (mirror_step (Relist [] [x]) (mirror_of (?s f)))) (?s f)"
  have "watch_rule 1 E q ev {x} (?s f) ?s2"
    by (rule watch_rule.list) (simp_all add: mirror_of_def f(2) NewSharedIndexInformer_def NewDeltaFIFO_def)
  from watch_reachable.step [OF s1 _ this] ok have s2: "watch_reachable 1 E q ev {x} ?s2" by simp
  let ?s3 = "with_mirror (mirror_step PopOne (mirror_of ?s2)) ?s2"
  have s3: "watch_reachable 1 E q ev {x} ?s3" by (rule watch_reachable.step [OF s2 _ watch_rule.pop]) (use ok in simp)
  let ?fi = "\<lparr>indexer = [meta_key x \<mapsto> x], pendingNotifications = [addNotification x], syncing = True,
    nextResync = resyncPeriod, lastTimer = 0\<rparr>"
  have m: "mirror_step PopOne (mirror_of ?s2) = \<lparr>mfifo = \<lparr>items = Map.empty, fifo_queue = [], populated = True, initialPopulationCount = 0\<rparr>,
      minf = ?fi, server_view = [meta_key x \<mapsto> x], popped = {meta_key x}, overlooked = {}\<rparr>"
    by (simp add: mirror_of_with(1) restart_timer_def del: mirror_of_with(2))
      (simp add: mirror_of_def f(2) mirror_defs)
  have w: "wfeed ?s3 = f\<lparr>finf := ?fi\<rparr>" "wfifo ?s3 = \<lparr>items = Map.empty, fifo_queue = [], populated = True, initialPopulationCount = 0\<rparr>"
    "told ?s3 = [meta_key x \<mapsto> x]" "doubted ?s3 = {}"
    unfolding m by (simp_all add: with_mirror_def)
  then have "?s3\<lparr>wfeed := f\<lparr>finf := ?fi\<rparr>\<rparr> = ?s3" by simp
  with s3 have "watch_reachable 1 E q ev {x} (?s3\<lparr>wfeed := f\<lparr>finf := ?fi\<rparr>\<rparr>)" by simp
  then obtain f' where f': "watch_reachable 1 E q ev {x} (?s3\<lparr>wfeed := f'\<rparr>)" "at_rest q f'"
    by (rule watched.handled [OF f(1), where m = "addNotification x" and k = "meta_key x" and w = "fworld f"])
      (simp_all add: assms)
  show thesis by (rule that [OF f'(1)]) (use at_rest_settled [OF f'(2)] w in simp_all)
qed

lemma settled_saw_server_witness:
  "\<exists>s s1 s2. watch_reachable 1 (static_env healthy [] [] []) SvcQueue service_event {acme_service} s
    \<and> watch_reachable 1 (static_env healthy [] [] []) DomQueue domain_event {acme_domain} s1
    \<and> watch_reachable 1 (static_env healthy [] [] []) IngQueue ingress_event {acme_ingress} s2
    \<and> seen (wfeed s) ''acme/web'' = Some acme_service \<and> seen (wfeed s1) (meta_key acme_domain) = Some acme_domain
    \<and> kong_view (seen (wfeed s2) ''acme/routes'') = Some acme_ingress \<and> told s = [''acme/web'' \<mapsto> acme_service]"
proof -
  let ?E = "static_env healthy [] [] []"
  have ing: "isKongIngress acme_ingress" "meta_key acme_ingress = ''acme/routes''"
    and svc: "meta_key acme_service = ''acme/web''"
    by (simp_all add: acme_defs mk_defs isKongIngress_def ingressClass_def meta_key_def
        kongIngressClass_def ingressClassKey_def map_get_def Let_def)
  obtain s where s: "watch_reachable 1 ?E SvcQueue service_event {acme_service} s" "settled SvcQueue (wfeed s)"
    "fifo_queue (wfifo s) = []" "told s = [meta_key acme_service \<mapsto> acme_service]"
    "doubted s = {}"
    by (rule one_listed [of ?E service_event acme_service SvcQueue]) (simp_all add: add_service_def emit_def service_key_def)
  obtain s1 where s1: "watch_reachable 1 ?E DomQueue domain_event {acme_domain} s1" "settled DomQueue (wfeed s1)"
    "fifo_queue (wfifo s1) = []" "told s1 = [meta_key acme_domain \<mapsto> acme_domain]"
    "doubted s1 = {}"
    by (rule one_listed [of ?E domain_event acme_domain DomQueue]) (simp_all add: addDomain_def emit_def domain_key_def)
  obtain s2 where s2: "watch_reachable 1 ?E IngQueue ingress_event {acme_ingress} s2" "settled IngQueue (wfeed s2)"
    "fifo_queue (wfifo s2) = []" "told s2 = [meta_key acme_ingress \<mapsto> acme_ingress]"
    "doubted s2 = {}"
    by (rule one_listed [of ?E ingress_event acme_ingress IngQueue]) (simp_all add: add_ingress_def emit_def ing(1))
  have "versioned {acme_service}" "versioned {acme_domain}" "versioned {acme_ingress}" "one_class {acme_ingress}"
    by (simp_all add: versioned_def one_class_def)
  then have all: "(seen (wfeed s) k = told s k) \<and> (seen (wfeed s1) k = told s1 k)
      \<and> kong_view (seen (wfeed s2) k) = kong_view (told s2 k)" for k
    using settled_saw_server [OF s(1) _ s(2,3) s1(1) _ s1(2,3) s2(1) _ _ s2(2,3), of k] s(5) s1(5) s2(5) by simp
  have "seen (wfeed s) ''acme/web'' = Some acme_service" "seen (wfeed s1) (meta_key acme_domain) = Some acme_domain"
    "kong_view (seen (wfeed s2) ''acme/routes'') = Some acme_ingress" "told s = [''acme/web'' \<mapsto> acme_service]"
    using all [of "''acme/web''"] all [of "meta_key acme_domain"] all [of "''acme/routes''"] s(4) s1(4) s2(4)
    by (simp_all add: ing svc kong_view_def)
  with s(1) s1(1) s2(1) show ?thesis by blast
qed

end
