(* ===== verification/Kong_Registry.thy ===== *)
theory Kong_Registry
  imports Sample_World Domain_Actions
begin

text \<open>
  What the reconciliations rely on of Kong, as far as its documentation goes: the registry of APIs is
  a map from names, which a successful PUT or DELETE changes and a complete listing shows. The
  registry is seen through the names of a set \<open>own\<close>: what other clients of Kong do to names outside
  of it is left open. The triples \<open>returns\<close> are about the state of the world after a normal
  return; their rules follow the combinators of \<open>Go_Prelude\<close>.
\<close>

section \<open>Triples on the world\<close>

definition returns :: "('w \<Rightarrow> bool) \<Rightarrow> ('e, 'w, 'a) go \<Rightarrow> ('a \<Rightarrow> 'w \<Rightarrow> bool) \<Rightarrow> bool" where
  "returns P m Q \<longleftrightarrow> (\<forall>w x t w'. P w \<longrightarrow> m w = (Done x, t, w') \<longrightarrow> Q x w')"

text \<open>The result of a Go function with an error is only described when the error is nil.\<close>

definition on_nil :: "('a \<Rightarrow> 'w \<Rightarrow> bool) \<Rightarrow> go_error + 'a \<Rightarrow> 'w \<Rightarrow> bool" where
  "on_nil Q r w \<longleftrightarrow> (\<forall>x. r = Inr x \<longrightarrow> Q x w)"

lemma on_nil_simps [simp]: "on_nil Q (Inr x) w = Q x w" "on_nil Q (Inl e) w"
  by (simp_all add: on_nil_def)

named_theorems returns_intros "one rule for each combinator"

lemma returns_ret [returns_intros]: "(\<And>w. P w \<Longrightarrow> Q x w) \<Longrightarrow> returns P (ret x) Q"
  by (simp add: returns_def ret_def)

lemma returns_panic [returns_intros]: "returns P (panic s) Q"
  by (simp add: returns_def panic_def)

lemma returns_stuck [returns_intros]: "returns P (stuck s) Q"
  by (simp add: returns_def stuck_def)

lemma returns_emit [returns_intros]: "(\<And>w. P w \<Longrightarrow> Q () w) \<Longrightarrow> returns P (emit e) Q"
  by (simp add: returns_def emit_def)

lemma returns_ask: "(\<And>w x w'. P w \<Longrightarrow> f w = (x, w') \<Longrightarrow> Q x w') \<Longrightarrow> returns P (ask f act) Q"
  by (auto simp: returns_def ask_def split: prod.splits)

lemma returns_bnd: "returns P m R \<Longrightarrow> (\<And>x. returns (R x) (f x) Q) \<Longrightarrow> returns P (bnd m f) Q"
  unfolding returns_def bnd_def by (fastforce split: prod.splits outcome.splits)

lemma returns_tryE:
  "returns P m (on_nil R) \<Longrightarrow> (\<And>x. returns (R x) (f x) (on_nil Q)) \<Longrightarrow> returns P (tryE wrap m f) (on_nil Q)"
  unfolding tryE_def
  by (erule returns_bnd) (auto simp: on_nil_def returns_def ret_def split: sum.splits)

lemma returns_forE:
  "(\<And>x ys zs. xs = ys @ x # zs \<Longrightarrow> returns (I ys) (body x) (on_nil (\<lambda>_. I (ys @ [x]))))
    \<Longrightarrow> returns (I []) (forE body xs) (on_nil (\<lambda>_. I xs))"
proof (induction xs arbitrary: I)
  case Nil
  then show ?case by (auto intro: returns_ret)
next
  case (Cons x xs)
  have "returns (I [x]) (forE body xs) (on_nil (\<lambda>_. I (x # xs)))"
  proof (rule Cons.IH [of "\<lambda>ys. I (x # ys)"])
    fix y ys zs
    assume "xs = ys @ y # zs"
    then show "returns (I (x # ys)) (body y) (on_nil (\<lambda>_. I (x # ys @ [y])))"
      using Cons.prems [of "x # ys" y zs] by simp
  qed
  with Cons.prems [of "[]" x xs] show ?case
    by (auto intro!: returns_tryE [where R = "\<lambda>_. I [x]"])
qed

lemma returns_weaken: "returns P m Q \<Longrightarrow> (\<And>w. P' w \<Longrightarrow> P w) \<Longrightarrow> (\<And>x w. Q x w \<Longrightarrow> Q' x w) \<Longrightarrow> returns P' m Q'"
  unfolding returns_def by blast

lemma returnsD: "returns P m Q \<Longrightarrow> P w \<Longrightarrow> m w = (Done x, t, w') \<Longrightarrow> Q x w'"
  by (simp add: returns_def)

text \<open>Code that leaves a fact about the world alone.\<close>

definition keeps :: "('w \<Rightarrow> bool) \<Rightarrow> ('e, 'w, 'a) go \<Rightarrow> bool" where
  "keeps I m \<longleftrightarrow> returns I m (\<lambda>_. I)"

named_theorems keeps_intros "one rule for each combinator and each operation"

lemma keeps_basic [keeps_intros]: "keeps I (ret x)" "keeps I (panic s)" "keeps I (stuck s)" "keeps I (emit e)"
  unfolding keeps_def by (auto intro: returns_intros)

lemma keeps_bnd [keeps_intros]: "keeps I m \<Longrightarrow> (\<And>x. keeps I (f x)) \<Longrightarrow> keeps I (bnd m f)"
  unfolding keeps_def by (rule returns_bnd)

lemma keeps_tryE [keeps_intros]: "keeps I m \<Longrightarrow> (\<And>x. keeps I (f x)) \<Longrightarrow> keeps I (tryE wrap m f)"
  unfolding tryE_def by (intro keeps_bnd) (auto intro: keeps_basic split: sum.splits)

lemma keeps_forE [keeps_intros]: "(\<And>x. x \<in> set xs \<Longrightarrow> keeps I (body x)) \<Longrightarrow> keeps I (forE body xs)"
  by (induction xs) (auto intro!: keeps_basic keeps_tryE)

lemma keeps_if [keeps_intros]: "(b \<Longrightarrow> keeps I m) \<Longrightarrow> (\<not> b \<Longrightarrow> keeps I m') \<Longrightarrow> keeps I (if b then m else m')"
  by simp

lemma keeps_cases [keeps_intros]:
  "(x = None \<Longrightarrow> keeps I m) \<Longrightarrow> (\<And>y. x = Some y \<Longrightarrow> keeps I (f y)) \<Longrightarrow> keeps I (case x of None \<Rightarrow> m | Some y \<Rightarrow> f y)"
  "(\<And>e. keeps I (g e)) \<Longrightarrow> (\<And>y. keeps I (h y)) \<Longrightarrow> keeps I (case z of Inl e \<Rightarrow> g e | Inr y \<Rightarrow> h y)"
  "(\<And>a b. keeps I (k a b)) \<Longrightarrow> keeps I (case v of (a, b) \<Rightarrow> k a b)"
  by (auto split: option.splits sum.splits prod.splits)

lemma keeps_nil: "keeps I m \<Longrightarrow> returns I m (on_nil (\<lambda>_. I))"
  unfolding keeps_def by (erule returns_weaken) (auto simp: on_nil_def)

section \<open>The contract of Kong\<close>

text \<open>What the JSON of a PUT says of an API; the identifier and the time are Kong's own.\<close>

definition told :: "json \<Rightarrow> API" where
  "told j = (fst (dec_API j empty_API))\<lparr>API_UID := '''', CreatedAt := 0\<rparr>"

definition matches :: "(string \<times> string list) list \<Rightarrow> API \<Rightarrow> bool" where
  "matches ps a \<longleftrightarrow> (\<forall>u. (''upstream_url'', [u]) \<in> set ps \<longrightarrow> UpstreamURL a = u)"

definition page :: "rest_result \<Rightarrow> APIList" where
  "page r = fst (unmarshal dec_APIList (payload_of (res_body r)) empty_APIList)"

text \<open>
  \<open>covered ps\<close> are the names a listing with these parameters, a map, has still to show: all of them without
  an \<open>offset\<close>, and those not shown yet with the offset that the last page gave.
\<close>

definition lists :: "(string \<rightharpoonup> API) \<Rightarrow> ((string \<times> string list) list \<Rightarrow> string set) \<Rightarrow> string set
    \<Rightarrow> (string \<times> string list) list \<Rightarrow> rest_result \<Rightarrow> bool" where
  "lists R covered own ps r \<longleftrightarrow>
     (\<forall>n a. R n = Some a \<longrightarrow> matches ps a \<longrightarrow> n \<in> covered ps
        \<longrightarrow> n \<in> API_Name ` set (Items (page r)) \<or> has_next r \<and> n \<in> covered (url_add ''offset'' (Offset (page r)) ps))
     \<and> (\<forall>n \<in> own. n \<in> API_Name ` set (Items (page r)) \<longrightarrow> (\<exists>a. R n = Some a \<and> matches ps a))"

definition kong_lists :: "string set \<Rightarrow> 'w env \<Rightarrow> ('w \<Rightarrow> string \<rightharpoonup> API) \<Rightarrow> bool" where
  "kong_lists own E reg \<longleftrightarrow> (\<exists>covered. (\<forall>ps. ''offset'' \<notin> fst ` set ps \<longrightarrow> covered ps = UNIV)
     \<and> (\<forall>ps w r w'. do_request E (list_request ps) w = (r, w') \<longrightarrow> res_err r = None \<longrightarrow> distinct (map fst (elems ps))
         \<longrightarrow> lists (reg w) covered own (elems ps) r))"

text \<open>
  A PUT creates an API when its body has no identifier, and replaces the one that has it otherwise;
  \<open>ids w n\<close> is the identifier of the API named \<open>n\<close>, which a GET of the name shows. A body with the
  identifier of an API of another name is not described.
\<close>

definition uid_of :: "json \<Rightarrow> string" where
  "uid_of j = API_UID (fst (dec_API j empty_API))"

definition shown_uid :: "rest_result \<Rightarrow> string" where
  "shown_uid r = API_UID (fst (unmarshal dec_API (payload_of (res_body r)) empty_API))"

definition kong_contract :: "string set \<Rightarrow> 'w env \<Rightarrow> ('w \<Rightarrow> string \<rightharpoonup> API) \<Rightarrow> ('w \<Rightarrow> string \<Rightarrow> string) \<Rightarrow> bool" where
  "kong_contract own E reg ids \<longleftrightarrow>
     (\<forall>w. dom (reg w) \<subseteq> own)
     \<and> (\<forall>q w r w'. do_request E q w = (r, w') \<longrightarrow> srv q \<noteq> KongAdmin \<or> verb_of q = GET \<longrightarrow> reg w' = reg w)
     \<and> (\<forall>n w r w'. do_request E (kong_request GET (Some n) NoBody) w = (r, w') \<longrightarrow> res_err r = None
         \<longrightarrow> shown_uid r \<in> {'''', ids w' n})
     \<and> (\<forall>j w r w'. do_request E (kong_request PUT None (JsonBody j)) w = (r, w') \<longrightarrow> res_err r = None
         \<longrightarrow> uid_of j \<in> {'''', ids w (API_Name (told j))}
         \<longrightarrow> reg w' = (if API_Name (told j) \<in> own then (reg w)(API_Name (told j) \<mapsto> told j) else reg w))
     \<and> (\<forall>n w r w'. do_request E (kong_request DELETE (Some n) NoBody) w = (r, w') \<longrightarrow> res_err r = None
         \<longrightarrow> reg w' = (if n \<in> own then (reg w)(n := None) else reg w))
     \<and> kong_lists own E reg
     \<and> (\<forall>w. reg (snd (dom_list E w)) = reg w) \<and> (\<forall>k w. reg (snd (dom_get E k w)) = reg w)
     \<and> (\<forall>w. reg (snd (svc_list E w)) = reg w) \<and> (\<forall>k w. reg (snd (svc_get E k w)) = reg w)
     \<and> (\<forall>k w. reg (snd (ing_get E k w)) = reg w) \<and> (\<forall>w. reg (snd (now E w)) = reg w)
     \<and> (\<forall>d w. reg (snd (sleep E d w)) = reg w) \<and> (\<forall>m w. reg (snd (host_order E m w)) = reg w)"

text \<open>The specification of the reconciliations: what they do to the registry.\<close>

definition drop_apis :: "(string \<Rightarrow> API \<Rightarrow> bool) \<Rightarrow> (string \<rightharpoonup> API) \<Rightarrow> string \<rightharpoonup> API" where
  "drop_apis P R = (\<lambda>n. case R n of None \<Rightarrow> None | Some a \<Rightarrow> if P n a then None else Some a)"

fun routes_of_rule :: "IngressRule \<Rightarrow> (IngressRule \<times> HTTPIngressPath) list" where
  "routes_of_rule r = map (Pair r) (case HTTP r of None \<Rightarrow> [] | Some paths \<Rightarrow> paths)"

definition wanted :: "Config \<Rightarrow> Ingress \<Rightarrow> IngressRule \<times> HTTPIngressPath \<Rightarrow> string \<times> API" where
  "wanted cfg ing x = (route_name ing (fst x) (snd x), told (enc_API (api_body cfg ing (fst x) (snd x) None)))"

definition desired :: "Config \<Rightarrow> Ingress \<Rightarrow> string \<rightharpoonup> API" where
  "desired cfg ing = map_of (rev (map (wanted cfg ing) (concat (map routes_of_rule (Rules ing)))))"

section \<open>The requests\<close>

lemma contract_dom: "kong_contract own E reg ids \<Longrightarrow> reg w n = Some a \<Longrightarrow> n \<in> own"
  by (auto simp: kong_contract_def)

lemma contract_quiet:
  "kong_contract own E reg ids \<Longrightarrow> do_request E q w = (r, w') \<Longrightarrow> srv q \<noteq> KongAdmin \<or> verb_of q = GET \<Longrightarrow> reg w' = reg w"
  unfolding kong_contract_def by (elim conjE) simp

lemma contract_put:
  "kong_contract own E reg ids \<Longrightarrow> do_request E (kong_request PUT None (JsonBody j)) w = (r, w') \<Longrightarrow> res_err r = None
    \<Longrightarrow> uid_of j \<in> {'''', ids w (API_Name (told j))} \<Longrightarrow> API_Name (told j) \<in> own \<Longrightarrow> reg w' = (reg w)(API_Name (told j) \<mapsto> told j)"
  unfolding kong_contract_def by (elim conjE insertE emptyE) simp_all

lemma contract_uid:
  "kong_contract own E reg ids \<Longrightarrow> do_request E (kong_request GET (Some n) NoBody) w = (r, w') \<Longrightarrow> res_err r = None
    \<Longrightarrow> shown_uid r \<in> {'''', ids w' n}"
  unfolding kong_contract_def by (elim conjE) simp

lemma contract_delete:
  assumes "kong_contract own E reg ids" "do_request E (kong_request DELETE (Some n) NoBody) w = (r, w')" "res_err r = None"
  shows "reg w' = (reg w)(n := None)"
proof -
  have "reg w' = (if n \<in> own then (reg w)(n := None) else reg w)"
    using assms unfolding kong_contract_def by (elim conjE) simp
  moreover have "reg w n = None" if "n \<notin> own" using contract_dom [OF assms(1), of w n] that by (cases "reg w n") auto
  ultimately show ?thesis by (auto simp: fun_eq_iff)
qed

lemma contract_list:
  assumes "kong_contract own E reg ids"
  obtains covered where "\<And>ps. ''offset'' \<notin> fst ` set ps \<Longrightarrow> covered ps = UNIV"
    "\<And>ps w r w'. do_request E (list_request ps) w = (r, w') \<Longrightarrow> res_err r = None \<Longrightarrow> distinct (map fst (elems ps))
      \<Longrightarrow> lists (reg w) covered own (elems ps) r"
proof -
  from assms have "kong_lists own E reg" unfolding kong_contract_def by (elim conjE)
  then show ?thesis using that unfolding kong_lists_def by blast
qed

lemma told_enc: "told (enc_API a) = a\<lparr>API_UID := '''', CreatedAt := 0, Hosts := norm_slice (Hosts a), URIs := norm_slice (URIs a)\<rparr>"
  by (cases a) (simp add: told_def dec_enc_API)

lemma told_simps [simp]: "API_Name (told (enc_API a)) = API_Name a" "UpstreamURL (told (enc_API a)) = UpstreamURL a"
  by (simp_all add: told_enc)

lemma uid_of_enc [simp]: "uid_of (enc_API a) = API_UID a"
  by (cases a) (simp add: uid_of_def dec_enc_API)

lemma told_api_body: "told (enc_API (api_body cfg ing r p api)) = told (enc_API (api_body cfg ing r p None))"
  by (simp add: told_enc api_body_def)

lemma matches_url_add [simp]: "matches (url_add ''offset'' x ps) a = matches ps a"
proof -
  have "(''upstream_url'', [u]) \<in> set (url_add ''offset'' x ps) \<longleftrightarrow> (''upstream_url'', [u]) \<in> set ps" for u
    by (induction "''offset''" x ps rule: url_add.induct) auto
  then show ?thesis by (simp add: matches_def)
qed

lemma reg_keeps [keeps_intros]:
  assumes "kong_contract own E reg ids"
  shows "keeps (\<lambda>w. reg w = R) (list_domains E)" "keeps (\<lambda>w. reg w = R) (list_domains_ns E ns)"
    "keeps (\<lambda>w. reg w = R) (get_domain E k)" "keeps (\<lambda>w. reg w = R) (list_services E)"
    "keeps (\<lambda>w. reg w = R) (get_service E k)" "keeps (\<lambda>w. reg w = R) (get_ingress E k)"
    "keeps (\<lambda>w. reg w = R) (time_now E)" "keeps (\<lambda>w. reg w = R) (time_sleep E d)"
    "keeps (\<lambda>w. reg w = R) (record_event obj ty reason msg)"
proof -
  have reads: "keeps (\<lambda>w. reg w = R) (ask f act)" if "\<forall>w. reg (snd (f w)) = reg w" for f and act :: "'x \<Rightarrow> act"
    unfolding keeps_def by (rule returns_ask) (metis snd_conv that)
  show doms: "keeps (\<lambda>w. reg w = R) (list_domains E)" "keeps (\<lambda>w. reg w = R) (get_domain E k)"
    "keeps (\<lambda>w. reg w = R) (list_services E)" "keeps (\<lambda>w. reg w = R) (get_service E k)"
    "keeps (\<lambda>w. reg w = R) (get_ingress E k)" "keeps (\<lambda>w. reg w = R) (time_now E)"
    "keeps (\<lambda>w. reg w = R) (time_sleep E d)"
    unfolding list_domains_def get_domain_def list_services_def get_service_def get_ingress_def time_now_def time_sleep_def
    using assms unfolding kong_contract_def by (auto intro: reads)
  then show "keeps (\<lambda>w. reg w = R) (list_domains_ns E ns)"
    unfolding list_domains_ns_def by (intro keeps_intros)
  show "keeps (\<lambda>w. reg w = R) (record_event obj ty reason msg)"
    unfolding record_event_def by (intro keeps_intros)
qed

lemma send_keeps [keeps_intros]:
  assumes "kong_contract own E reg ids" "srv q \<noteq> KongAdmin \<or> verb_of q = GET"
  shows "keeps (\<lambda>w. reg w = R) (send E q)"
proof -
  have "keeps (\<lambda>w. reg w = R) (ask (do_request E q) (Call q))"
    unfolding keeps_def by (rule returns_ask) (use assms in \<open>auto dest: contract_quiet\<close>)
  then show ?thesis by (auto simp: send_def intro: keeps_basic split: option.splits)
qed

lemma do_raw_keeps [keeps_intros]:
  "kong_contract own E reg ids \<Longrightarrow> srv q \<noteq> KongAdmin \<Longrightarrow> keeps (\<lambda>w. reg w = R) k \<Longrightarrow> keeps (\<lambda>w. reg w = R) (do_raw E q wrap k)"
  unfolding do_raw_def by (intro keeps_intros) auto

end
