(* ===== verification/Sample_Kong.thy ===== *)
theory Sample_Kong
  imports Kong_Registry
begin

text \<open>
  A concrete Kong for the witnesses of \<open>Registry_Safety\<close>: a list of APIs, with an identifier made of
  the name, that answers the requests of the controller one page at a time and satisfies the
  contract of \<open>Kong_Registry\<close>. Nothing here models code of the program.
\<close>

definition kong_reg :: "API list \<Rightarrow> string \<rightharpoonup> API" where
  "kong_reg as = map_of (map (\<lambda>a. (API_Name a, a)) as)"

definition kong_id :: "string \<Rightarrow> string" where
  "kong_id n = ''id-'' @ n"

definition shown_as :: "API \<Rightarrow> json" where
  "shown_as a = enc_API (a\<lparr>API_UID := kong_id (API_Name a)\<rparr>)"

definition listed_apis :: "(string \<times> string list) list \<Rightarrow> API list \<Rightarrow> API list" where
  "listed_apis ps as = filter (\<lambda>a. kong_reg as (API_Name a) = Some a \<and> matches ps a) as"

definition accepts :: "API list \<Rightarrow> json \<Rightarrow> bool" where
  "accepts as j \<longleftrightarrow> (let n = API_Name (told j) in
     if uid_of j = '''' then kong_reg as n = None else uid_of j = kong_id n \<and> kong_reg as n \<noteq> None)"

definition kong_step :: "request \<Rightarrow> API list \<Rightarrow> rest_result \<times> API list" where
  "kong_step q as =
     (if srv q \<noteq> KongAdmin then (ok_json (JObj []), as)
      else case (verb_of q, req_name q, req_body q) of
        (GET, None, _) \<Rightarrow> (ok_json (JObj [(''data'', JArr (map shown_as (listed_apis (params q) as)))]), as)
      | (GET, Some n, _) \<Rightarrow>
          ((case kong_reg as n of None \<Rightarrow> err_answer NotFound 404 | Some a \<Rightarrow> ok_json (shown_as (a\<lparr>API_Name := n\<rparr>))), as)
      | (PUT, None, JsonBody j) \<Rightarrow>
          if accepts as j then (ok_json j, told j # filter (\<lambda>a. API_Name a \<noteq> API_Name (told j)) as)
          else (err_answer Conflict 409, as)
      | (DELETE, Some n, _) \<Rightarrow>
          if kong_reg as n = None then (err_answer NotFound 404, as)
          else (ok_json (JObj []), filter (\<lambda>a. API_Name a \<noteq> n) as)
      | _ \<Rightarrow> (ok_json (JObj []), as))"

definition kong_env :: "Domain list \<Rightarrow> Service list \<Rightarrow> Ingress list \<Rightarrow> API list env" where
  "kong_env ds svcs ings =
     \<lparr>do_request = kong_step,
      dom_list = (\<lambda>w. (Inr ds, w)),
      dom_get = (\<lambda>k w. (Inr (find (\<lambda>d. meta_key d = k) ds), w)),
      svc_list = (\<lambda>w. (Inr svcs, w)),
      svc_get = (\<lambda>k w. (Inr (find (\<lambda>s. meta_key s = k) svcs), w)),
      ing_get = (\<lambda>k w. (Inr (find (\<lambda>i. meta_key i = k) ings), w)),
      now = (\<lambda>w. (0, w)),
      sleep = (\<lambda>d w. ((), w)),
      page_bound = 1,
      host_order = (\<lambda>m w. (m, w))\<rparr>"

lemma kong_env_simps [simp]:
  "do_request (kong_env ds ss is) = kong_step"
  "dom_list (kong_env ds ss is) = (\<lambda>w. (Inr ds, w))"
  "dom_get (kong_env ds ss is) = (\<lambda>k w. (Inr (find (\<lambda>d. meta_key d = k) ds), w))"
  "svc_list (kong_env ds ss is) = (\<lambda>w. (Inr ss, w))"
  "svc_get (kong_env ds ss is) = (\<lambda>k w. (Inr (find (\<lambda>s. meta_key s = k) ss), w))"
  "ing_get (kong_env ds ss is) = (\<lambda>k w. (Inr (find (\<lambda>i. meta_key i = k) is), w))"
  "now (kong_env ds ss is) = (\<lambda>w. (0, w))"
  "sleep (kong_env ds ss is) = (\<lambda>d w. ((), w))"
  "page_bound (kong_env ds ss is) = 1"
  "host_order (kong_env ds ss is) = (\<lambda>m w. (m, w))"
  by (simp_all add: kong_env_def)

section \<open>It satisfies the contract\<close>

lemma kong_reg_simps [simp]:
  "kong_reg [] = Map.empty" "kong_reg (a # as) = (kong_reg as)(API_Name a \<mapsto> a)"
  by (simp_all add: kong_reg_def)

lemma kong_reg_filter [simp]: "kong_reg (filter (\<lambda>a. API_Name a \<noteq> n) as) = (kong_reg as)(n := None)"
  by (induction as) auto

lemma kong_reg_member: "kong_reg as n = Some a \<Longrightarrow> a \<in> set as \<and> API_Name a = n"
  by (induction as) (auto split: if_splits)

lemma unmarshal_shown: "fst (unmarshal dec_API (Payload txt (Some (shown_as a))) empty_API)
    = a\<lparr>API_UID := kong_id (API_Name a), Hosts := norm_slice (Hosts a), URIs := norm_slice (URIs a)\<rparr>"
  by (simp add: unmarshal_def shown_as_def dec_enc_API)

lemma page_shown: "map API_Name (Items (page (ok_json (JObj [(''data'', JArr (map shown_as as))])))) = map API_Name as"
  by (simp add: page_def ok_json_def payload_of_def unmarshal_def dec_APIList_def dec_object_def
      dec_members_single dec_APIList_field_def dec_APIs_def comp_def shown_as_def dec_enc_API split: prod.splits)

lemma kong_step_list:
  "kong_step (list_request ps) as = (ok_json (JObj [(''data'', JArr (map shown_as (listed_apis (elems ps) as)))]), as)"
  by (simp add: kong_step_def list_request_def kong_request_def elems_def)

lemma listed_names: "n \<in> API_Name ` set (listed_apis ps as) \<longleftrightarrow> (\<exists>a. kong_reg as n = Some a \<and> matches ps a)"
  by (auto simp: listed_apis_def dest: kong_reg_member)

lemma kong_env_lists: "kong_lists UNIV (kong_env ds ss is) kong_reg"
proof -
  have "lists (kong_reg w) (\<lambda>_. UNIV) UNIV (elems ps) r" if "kong_step (list_request ps) w = (r, w')" for ps w r w'
  proof -
    have "set (map API_Name (Items (page r))) = set (map API_Name (listed_apis (elems ps) w))"
      using that page_shown by (metis Pair_inject kong_step_list)
    then have "n \<in> API_Name ` set (Items (page r)) \<longleftrightarrow> (\<exists>a. kong_reg w n = Some a \<and> matches (elems ps) a)" for n
      by (simp add: listed_names)
    then show ?thesis by (auto simp: lists_def)
  qed
  then show ?thesis unfolding kong_lists_def by (intro exI [of _ "\<lambda>_. UNIV"]) auto
qed

lemma kong_env_contract: "kong_contract UNIV (kong_env ds ss is) kong_reg (\<lambda>_. kong_id)"
  unfolding kong_contract_def
proof (intro conjI allI impI kong_env_lists)
  fix q w r w'
  assume "do_request (kong_env ds ss is) q w = (r, w')" "srv q \<noteq> KongAdmin \<or> verb_of q = GET"
  then show "kong_reg w' = kong_reg w" by (auto simp: kong_step_def split: if_splits option.splits)
next
  fix n w r w'
  assume "do_request (kong_env ds ss is) (kong_request GET (Some n) NoBody) w = (r, w')" "res_err r = None"
  then show "shown_uid r \<in> {'''', kong_id n}"
    by (auto simp: kong_step_def kong_request_def shown_uid_def ok_json_def err_answer_def payload_of_def unmarshal_shown
        split: option.splits)
next
  fix j w r w'
  assume "do_request (kong_env ds ss is) (kong_request PUT None (JsonBody j)) w = (r, w')" "res_err r = None"
  then show "kong_reg w' = (if API_Name (told j) \<in> UNIV then (kong_reg w)(API_Name (told j) \<mapsto> told j) else kong_reg w)"
    by (auto simp: kong_step_def kong_request_def err_answer_def split: if_splits)
next
  fix n w r w'
  assume "do_request (kong_env ds ss is) (kong_request DELETE (Some n) NoBody) w = (r, w')" "res_err r = None"
  then show "kong_reg w' = (if n \<in> UNIV then (kong_reg w)(n := None) else kong_reg w)"
    by (auto simp: kong_step_def kong_request_def err_answer_def split: if_splits)
qed simp_all

text \<open>Listings of it, for the simplifier.\<close>

definition read_back :: "API \<Rightarrow> API" where
  "read_back a = fst (dec_API (shown_as a) empty_API)"

lemma read_back_name [simp]: "API_Name (read_back a) = API_Name a"
  by (simp add: read_back_def shown_as_def dec_enc_API)

lemma list_kong [simp]:
  "apiKong_List (Suc 0) (kong_env ds ss is) ps as =
    (Done (Inr (empty_APIList\<lparr>Items := map read_back (listed_apis (elems ps) as)\<rparr>)),
     [Call (list_request ps) (ok_json (JObj [(''data'', JArr (map shown_as (listed_apis (elems ps) as)))]))], as)"
proof -
  have ok: "request_error (list_request ps) = None"
    by (simp add: request_error_def list_request_def kong_request_def)
  show ?thesis
    by (simp add: send_def ok go_defs kong_step_list ok_json_def unmarshal_def payload_of_def empty_APIList_def
        dec_APIList_def dec_object_def dec_members_single dec_APIList_field_def dec_APIs_def comp_def shown_as_def dec_enc_API
        read_back_def list_ex_iff)
qed

end
