(* ===== verification/Registry_Safety.thy ===== *)
theory Registry_Safety
  imports Sample_Kong Service_Safety Domain_Safety
begin

text \<open>
  The reconciliations as operations on the registry of Kong: a successful \<open>syncIngress\<close> adds the
  desired routes of the ingress, the collection of a deleted service and the deletion of a domain
  drop theirs, and nothing else changes under the names looked at.
\<close>

section \<open>Listing and deleting\<close>

text \<open>A page that announces another one, and what the pages after it show.\<close>

definition shows_all :: "(string \<rightharpoonup> API) \<Rightarrow> string set \<Rightarrow> string set \<Rightarrow> (string \<times> string list) list \<Rightarrow> API list \<Rightarrow> bool" where
  "shows_all R names own ps xs \<longleftrightarrow>
     (\<forall>m a. R m = Some a \<longrightarrow> matches ps a \<longrightarrow> m \<in> names \<longrightarrow> m \<in> API_Name ` set xs)
     \<and> (\<forall>m \<in> own. m \<in> API_Name ` set xs \<longrightarrow> (\<exists>a. R m = Some a \<and> matches ps a))"

lemma lists_last: "lists R covered own ps r \<Longrightarrow> \<not> has_next r \<Longrightarrow> page r = l \<Longrightarrow> shows_all R (covered ps) own ps (Items l)"
  by (auto simp: lists_def shows_all_def)

lemma lists_pages:
  assumes "lists R covered own vs r" "page r = l"
    and "shows_all R (covered (url_add ''offset'' (Offset l) vs)) own (url_add ''offset'' (Offset l) vs) xs"
  shows "shows_all R (covered vs) own vs (Items l @ xs)"
  unfolding shows_all_def set_append image_Un
proof (intro conjI allI ballI impI)
  fix m a
  assume m: "R m = Some a" "matches vs a" "m \<in> covered vs"
  with assms(1,2) have "m \<in> API_Name ` set (Items l) \<or> m \<in> covered (url_add ''offset'' (Offset l) vs)"
    unfolding lists_def by blast
  with m(1,2) assms(3) show "m \<in> API_Name ` set (Items l) \<union> API_Name ` set xs"
    unfolding shows_all_def matches_url_add by blast
next
  fix m
  assume "m \<in> own" "m \<in> API_Name ` set (Items l) \<union> API_Name ` set xs"
  with assms show "\<exists>a. R m = Some a \<and> matches vs a"
    unfolding shows_all_def lists_def matches_url_add by blast
qed

lemma url_add_fst: "fst ` set (url_add k v ps) = insert k (fst ` set ps)"
  by (induction k v ps rule: url_add.induct) auto

lemma url_add_keys: "distinct (map fst ps) \<Longrightarrow> distinct (map fst (url_add k v ps))"
  by (induction k v ps rule: url_add.induct) (auto simp: url_add_fst)

lemma list_covered:
  assumes K: "kong_contract own E reg ids"
    and L: "\<And>ps w r w'. do_request E (list_request ps) w = (r, w') \<Longrightarrow> res_err r = None \<Longrightarrow> distinct (map fst (elems ps))
      \<Longrightarrow> lists (reg w) covered own (elems ps) r"
    and "distinct (map fst (elems ps))"
  shows "returns (\<lambda>w. reg w = R) (apiKong_List n E ps) (on_nil (\<lambda>l w. reg w = R
    \<and> shows_all R (covered (elems ps)) own (elems ps) (Items l)))"
    (is "returns _ _ (on_nil (?Q ps))")
  using assms(3)
proof (induction n arbitrary: ps)
  case 0
  then show ?case by (simp add: returns_stuck)
next
  case (Suc n)
  have send: "returns (\<lambda>w. reg w = R) (send E (list_request ps))
      (\<lambda>r w. reg w = R \<and> (res_err r = None \<longrightarrow> lists R covered own (elems ps) r))"
  proof -
    have "send E (list_request ps) = ask (do_request E (list_request ps)) (Call (list_request ps))"
      by (simp add: send_def request_error_def)
    then show ?thesis using L Suc.prems contract_quiet [OF K] by (auto intro!: returns_ask)
  qed
  show ?case
    unfolding apiKong_List.simps
  proof (rule returns_bnd [OF send])
    fix r :: rest_result
    obtain l e where u: "unmarshal dec_APIList (payload_of (res_body r)) empty_APIList = (l, e)" by fastforce
    let ?pre = "\<lambda>w. reg w = R \<and> (res_err r = None \<longrightarrow> lists R covered own (elems ps) r)"
    consider "res_err r \<noteq> None \<or> e \<noteq> None" | "res_err r = None" "e = None" "NextPage l = ''''"
      | "res_err r = None" "e = None" "NextPage l \<noteq> ''''" "ps = None"
      | vs where "res_err r = None" "e = None" "NextPage l \<noteq> ''''" "ps = Some vs" by blast
    then show "returns ?pre
      (case res_err r of Some e \<Rightarrow> ret (Inl e)
       | None \<Rightarrow>
           (case unmarshal dec_APIList (payload_of (res_body r)) empty_APIList of
              (apiList, Some e) \<Rightarrow> ret (Inl e)
            | (apiList, None) \<Rightarrow>
                if 0 < length (NextPage apiList) then
                  (case ps of
                     None \<Rightarrow> panic ''assignment to entry in nil map''
                   | Some vs \<Rightarrow>
                       tryE id (apiKong_List n E (Some (url_add ''offset'' (Offset apiList) vs)))
                         (\<lambda>result. ret (Inr (apiList\<lparr>Items := Items apiList @ Items result\<rparr>))))
                else ret (Inr apiList))) (on_nil (?Q ps))"
    proof cases
      case 1
      then show ?thesis by (auto simp: u intro!: returns_ret split: option.splits)
    next
      case 2
      then show ?thesis
        by (auto simp: u page_def has_next_def intro!: returns_ret lists_last)
    next
      case 3
      then show ?thesis by (simp add: u returns_panic)
    next
      case 4
      let ?vs = "url_add ''offset'' (Offset l) vs"
      have keys: "distinct (map fst (elems (Some ?vs)))" using Suc.prems 4(4) by (simp add: elems_def url_add_keys)
      have next_page: "has_next r" "page r = l" using 4 u by (simp_all add: has_next_def page_def)
      have "returns ?pre (apiKong_List n E (Some ?vs)) (on_nil (\<lambda>x w. ?Q (Some ?vs) x w \<and> lists R covered own vs r))"
      proof (cases "lists R covered own vs r")
        case True
        then show ?thesis by (intro returns_weaken [OF Suc.IH [of "Some ?vs", OF keys]]) (auto simp: on_nil_def)
      next
        case False
        with 4 show ?thesis by (simp add: returns_def elems_def)
      qed
      then have "returns ?pre (tryE id (apiKong_List n E (Some ?vs))
          (\<lambda>result. ret (Inr (l\<lparr>Items := Items l @ Items result\<rparr>)))) (on_nil (?Q ps))"
        by (rule returns_tryE) (use lists_pages next_page in \<open>auto simp: 4(4) elems_def intro!: returns_ret\<close>)
      with 4 show ?thesis by (simp add: u)
    qed
  qed
qed

lemma list_shows:
  assumes "kong_contract own E reg ids" "''offset'' \<notin> fst ` set (elems ps)" "distinct (map fst (elems ps))"
  shows "returns (\<lambda>w. reg w = R) (apiKong_List n E ps) (on_nil (\<lambda>l w. reg w = R
    \<and> (\<forall>m \<in> own. m \<in> API_Name ` set (Items l) \<longleftrightarrow> (\<exists>a. R m = Some a \<and> matches (elems ps) a))))"
proof -
  obtain covered where c: "\<And>ps. ''offset'' \<notin> fst ` set ps \<Longrightarrow> covered ps = UNIV"
    and L: "\<And>ps w r w'. do_request E (list_request ps) w = (r, w') \<Longrightarrow> res_err r = None \<Longrightarrow> distinct (map fst (elems ps))
      \<Longrightarrow> lists (reg w) covered own (elems ps) r"
    by (rule contract_list [OF assms(1)]) blast
  from c assms(2) have cov: "covered (elems ps) = UNIV" by simp
  show ?thesis
    by (rule returns_weaken [OF list_covered [OF assms(1) _ assms(3), of covered R n]]) (auto simp: on_nil_def cov shows_all_def intro: L)
qed

text \<open>Deleting a list of APIs drops their names.\<close>

lemma delete_drops:
  assumes "kong_contract own E reg ids"
  shows "returns (\<lambda>w. reg w = R) (apiKong_Delete E n) (on_nil (\<lambda>_ w. reg w = R(n := None)))"
proof -
  let ?q = "kong_request DELETE (Some n) NoBody"
  have "returns (\<lambda>w. reg w = R) (send E ?q) (\<lambda>r w. res_err r = None \<longrightarrow> reg w = R(n := None))"
    unfolding send_def using contract_delete [OF assms]
    by (auto intro!: returns_ret returns_ask simp: failed_result_def split: option.splits)
  then show ?thesis
    unfolding apiKong_Delete_def
    by (rule returns_bnd) (auto intro!: returns_ret split: option.splits)
qed

lemma delete_apis_drops:
  assumes "kong_contract own E reg ids"
  shows "returns (\<lambda>w. reg w = R) (delete_apis (apiKong_Delete E) wrap apis)
    (on_nil (\<lambda>_ w. reg w = drop_apis (\<lambda>n a. n \<in> API_Name ` set apis) R))"
proof -
  let ?I = "\<lambda>(xs :: API list) w. reg w = drop_apis (\<lambda>n a. n \<in> API_Name ` set xs) R"
  have "returns (?I []) (delete_apis (apiKong_Delete E) wrap apis) (on_nil (\<lambda>_. ?I apis))"
    unfolding delete_apis_def
  proof (rule returns_forE [where I = ?I])
    fix x :: API and ys zs :: "API list"
    have "(drop_apis (\<lambda>n a. n \<in> API_Name ` set ys) R)(API_Name x := None) = drop_apis (\<lambda>n a. n \<in> API_Name ` set (ys @ [x])) R"
      by (auto simp: drop_apis_def fun_eq_iff split: option.splits)
    then show "returns (?I ys) (tryE (wrap x) (apiKong_Delete E (API_Name x)) (\<lambda>_. bnd (emit ApisTotalDec) (\<lambda>_. ret (Inr ()))))
        (on_nil (\<lambda>_. ?I (ys @ [x])))"
      by (intro returns_tryE [OF delete_drops [OF assms]] returns_bnd [OF returns_emit] returns_ret) auto
  qed
  moreover have "drop_apis (\<lambda>n a. n \<in> API_Name ` set []) R = R" by (simp add: drop_apis_def fun_eq_iff split: option.splits)
  ultimately show ?thesis by simp
qed

text \<open>A listing and the deletion of what it shows.\<close>

lemma drop_apis_cong: "(\<And>n a. R n = Some a \<Longrightarrow> P n a = P' n a) \<Longrightarrow> drop_apis P R = drop_apis P' R"
  by (auto simp: drop_apis_def fun_eq_iff split: option.splits)

lemma drop_apis_twice: "drop_apis P (drop_apis P' R) = drop_apis (\<lambda>n a. P' n a \<or> P n a) R"
  by (auto simp: drop_apis_def fun_eq_iff split: option.splits)

lemma returns_pure: "(F \<Longrightarrow> returns P m Q) \<Longrightarrow> returns (\<lambda>w. P w \<and> F) m Q"
  by (cases F) (simp_all add: returns_def)

lemma purge_drops:
  assumes K: "kong_contract own E reg ids" and L: "returns (\<lambda>w. reg w = R) m (on_nil (\<lambda>(l :: APIList) w. reg w = R
      \<and> (\<forall>n \<in> own. n \<in> API_Name ` set (Items l) \<longleftrightarrow> (\<exists>a. R n = Some a \<and> P n a))))"
    and rest: "\<And>x. returns (\<lambda>w. reg w = drop_apis P R) (k x) (on_nil Q)"
  shows "returns (\<lambda>w. reg w = R) (tryE wrap m (\<lambda>l. tryE wrap1 (delete_apis (apiKong_Delete E) wrap2 (Items l)) k))
    (on_nil Q)"
proof (rule returns_tryE [OF L], rule returns_pure)
  fix l :: APIList
  assume names: "\<forall>n \<in> own. n \<in> API_Name ` set (Items l) \<longleftrightarrow> (\<exists>a. R n = Some a \<and> P n a)"
  have "drop_apis (\<lambda>n a. n \<in> API_Name ` set (Items l)) R = drop_apis P R" if "reg w = R" for w
  proof (rule drop_apis_cong)
    fix n a
    assume "R n = Some a"
    moreover from this that have "n \<in> own" using contract_dom [OF K, of w n a] by simp
    ultimately show "(n \<in> API_Name ` set (Items l)) = P n a" using names by simp
  qed
  then have "returns (\<lambda>w. reg w = R) (delete_apis (apiKong_Delete E) wrap2 (Items l)) (on_nil (\<lambda>_ w. reg w = drop_apis P R))"
    using delete_apis_drops [OF K, of R wrap2 "Items l"] unfolding returns_def on_nil_def by metis
  then show "returns (\<lambda>w. reg w = R) (tryE wrap1 (delete_apis (apiKong_Delete E) wrap2 (Items l)) k) (on_nil Q)"
    by (rule returns_tryE) (rule rest)
qed

text \<open>A handler after the read it starts with.\<close>

lemma after_read:
  "tryE wrap (ask f act) k w = (Done (Inr x), t, w') \<Longrightarrow> f w = (Inr y, w1) \<Longrightarrow> \<exists>t'. k y w1 = (Done (Inr x), t', w')"
  by (auto simp: tryE_def bnd_def ask_def split: prod.splits)

section \<open>The collection of a service\<close>

definition upstream :: "Config \<Rightarrow> Service \<Rightarrow> ServicePort \<Rightarrow> string" where
  "upstream cfg svc port = getUpstream cfg (proto_of (Port port)) (Namespace svc) (Name svc) (Port port)"

lemma gc_port_drops:
  assumes "kong_contract own E reg ids"
  shows "returns (\<lambda>w. reg w = R) (gc_port E cfg svc port)
    (on_nil (\<lambda>_ w. reg w = drop_apis (\<lambda>n a. UpstreamURL a = upstream cfg svc port) R))"
proof -
  let ?u = "upstream cfg svc port"
  have m: "matches (elems (Some [(''upstream_url'', [?u])])) a \<longleftrightarrow> UpstreamURL a = ?u" for a
    by (auto simp: matches_def elems_def)
  have L: "returns (\<lambda>w. reg w = R) (apiKong_List (page_bound E) E (Some [(''upstream_url'', [?u])])) (on_nil (\<lambda>l w. reg w = R
      \<and> (\<forall>n \<in> own. n \<in> API_Name ` set (Items l) \<longleftrightarrow> (\<exists>a. R n = Some a \<and> UpstreamURL a = ?u))))"
    using list_shows [OF assms, of "Some [(''upstream_url'', [?u])]" R "page_bound E"] unfolding m by (simp add: elems_def)
  have "returns (\<lambda>w. reg w = R') (bnd (send E (core_request PATCH ''services'' (Namespace svc) (Name svc) (PatchBody MergePatch no_finalizers_patch)))
      (\<lambda>res. case res_err res of Some e \<Rightarrow> ret (Inl (errorf ''gc=true, failed patch service ['' '']'' e)) | None \<Rightarrow> ret (Inr ())))
      (on_nil (\<lambda>_ w. reg w = R'))" for R'
    by (intro keeps_nil keeps_bnd send_keeps [OF assms] keeps_cases keeps_basic) (simp_all add: core_request_def)
  then show ?thesis
    unfolding gc_port_def Let_def upstream_def [symmetric] by (intro purge_drops [OF assms L])
qed

text \<open>
  C7: when the collection of a deleted service returns nil, the APIs of Kong whose upstream is the one
  of a port of the service are gone, and no other API under the names looked at has changed.
\<close>

theorem syncServices_drops:
  assumes "kong_contract own E reg ids" "svc_get E key w = (Inr (Some svc), w1)" "DeletionTimestamp svc \<noteq> None"
    and "syncServices E cfg key n w = (Done (Inr ()), t, w')"
  shows "reg w' = drop_apis (\<lambda>n a. \<exists>port \<in> set (Ports svc). UpstreamURL a = upstream cfg svc port) (reg w)"
proof -
  let ?I = "\<lambda>(ports :: ServicePort list) w'. reg w' = drop_apis (\<lambda>n a. \<exists>port \<in> set ports. UpstreamURL a = upstream cfg svc port) (reg w)"
  have "returns (?I []) (forE (gc_port E cfg svc) (Ports svc)) (on_nil (\<lambda>_. ?I (Ports svc)))"
  proof (rule returns_forE [where I = ?I])
    fix x :: ServicePort and ys zs :: "ServicePort list"
    have "drop_apis (\<lambda>n a. UpstreamURL a = upstream cfg svc x) (drop_apis (\<lambda>n a. \<exists>port \<in> set ys. UpstreamURL a = upstream cfg svc port) (reg w))
        = drop_apis (\<lambda>n a. \<exists>port \<in> set (ys @ [x]). UpstreamURL a = upstream cfg svc port) (reg w)"
      by (auto simp: drop_apis_twice intro!: drop_apis_cong)
    with gc_port_drops [OF assms(1), where R = "drop_apis (\<lambda>n a. \<exists>port \<in> set ys. UpstreamURL a = upstream cfg svc port) (reg w)"
        and cfg = cfg and svc = svc and port = x]
    show "returns (?I ys) (gc_port E cfg svc x) (on_nil (\<lambda>_. ?I (ys @ [x])))" by simp
  qed
  moreover have "reg w1 = reg w" using assms(1,2) unfolding kong_contract_def by (metis snd_conv)
  then have "?I [] w1" by (simp add: drop_apis_def fun_eq_iff split: option.splits)
  moreover obtain t' where "forE (gc_port E cfg svc) (Ports svc) w1 = (Done (Inr ()), t', w')"
    using after_read [OF assms(4) [unfolded syncServices_def get_service_def] assms(2)] assms(3) by auto
  ultimately show ?thesis by (auto simp: on_nil_def dest!: returnsD)
qed

section \<open>The routes of an ingress\<close>

lemma returns_failed: "returns P (bnd m (\<lambda>_. ret (Inl e))) (on_nil Q)"
  by (rule returns_bnd [where R = "\<lambda>_ _. True"]) (simp_all add: returns_def ret_def)

lemma returns_if: "returns P m Q \<Longrightarrow> returns P m' Q \<Longrightarrow> returns P (if b then m else m') Q"
  by simp

lemma get_shows:
  assumes "kong_contract own E reg ids"
  shows "returns (\<lambda>w. reg w = R) (apiKong_Get E n)
    (\<lambda>(api, resp) w. reg w = R \<and> (\<forall>a. api = Some a \<longrightarrow> API_UID a \<in> {'''', ids w n}))"
proof -
  let ?q = "kong_request GET (Some n) NoBody"
  have "returns (\<lambda>w. reg w = R) (send E ?q)
      (\<lambda>r w. reg w = R \<and> (res_err r = None \<longrightarrow> shown_uid r \<in> {'''', ids w n}))"
    unfolding send_def using contract_uid [OF assms] contract_quiet [OF assms, of ?q]
    by (auto intro!: returns_ret returns_ask simp: failed_result_def split: option.splits)
  then show ?thesis
    unfolding apiKong_Get_def
    by (rule returns_bnd) (auto intro!: returns_ret simp: shown_uid_def split: option.splits prod.splits)
qed

lemma put_tells:
  assumes "kong_contract own E reg ids" "API_Name a \<in> own"
  shows "returns (\<lambda>w. reg w = R \<and> API_UID a \<in> {'''', ids w (API_Name a)}) (apiKong_UpdateOrCreate E a)
    (\<lambda>(api, resp) w. api \<noteq> None \<longrightarrow> reg w = R(API_Name a \<mapsto> told (enc_API a)))"
proof -
  let ?q = "kong_request PUT None (JsonBody (enc_API a))"
  have "returns (\<lambda>w. reg w = R \<and> API_UID a \<in> {'''', ids w (API_Name a)}) (send E ?q)
      (\<lambda>r w. res_err r = None \<longrightarrow> reg w = R(API_Name a \<mapsto> told (enc_API a)))"
    unfolding send_def using contract_put [OF assms(1), of "enc_API a"] assms(2)
    by (auto intro!: returns_ret returns_ask simp: failed_result_def split: option.splits)
  then show ?thesis
    unfolding apiKong_UpdateOrCreate_def
    by (rule returns_bnd) (auto intro!: returns_ret split: option.splits prod.splits)
qed

lemma register_tells:
  assumes "kong_contract own E reg ids" "route_name ing r p \<in> own"
  shows "returns (\<lambda>w. reg w = R) (register_route E cfg ing r p)
    (on_nil (\<lambda>_ w. reg w = R(route_name ing r p \<mapsto> told (enc_API (api_body cfg ing r p None)))))"
proof -
  have name: "API_Name (api_body cfg ing r p api) = route_name ing r p" for api by (simp add: api_body_def)
  have put: "returns (\<lambda>w. reg w = R \<and> (\<forall>a. api = Some a \<longrightarrow> API_UID a \<in> {'''', ids w (route_name ing r p)}))
      (apiKong_UpdateOrCreate E (api_body cfg ing r p api))
      (\<lambda>(api, resp) w. api \<noteq> None \<longrightarrow> reg w = R(route_name ing r p \<mapsto> told (enc_API (api_body cfg ing r p None))))" for api
    using put_tells [OF assms(1), of "api_body cfg ing r p api" R] assms(2)
    by (auto simp: name told_api_body [of cfg ing r p api] elim!: returns_weaken) (auto simp: api_body_def split: option.splits)
  let ?done = "\<lambda>w. reg w = R(route_name ing r p \<mapsto> told (enc_API (api_body cfg ing r p None)))"
  have made: "returns (\<lambda>w. api \<noteq> None \<longrightarrow> ?done w)
      (bnd (if Error resp = None then emit ApisTotalInc else ret ()) (\<lambda>_.
         case api of None \<Rightarrow> panic s | Some (a :: API) \<Rightarrow> ret (Inr ()))) (on_nil (\<lambda>_. ?done))" for api s and resp :: APIResponse
    by (rule returns_bnd [where R = "\<lambda>_ w. api \<noteq> None \<longrightarrow> ?done w"])
      (auto intro!: returns_emit returns_ret returns_panic split: option.splits)
  show ?thesis
    unfolding register_route_def
  proof (rule returns_bnd [OF get_shows [OF assms(1)]], unfold case_prod_beta, rule returns_if)
    fix x
    show "returns (\<lambda>w. reg w = R \<and> (\<forall>a. fst x = Some a \<longrightarrow> API_UID a \<in> {'''', ids w (route_name ing r p)}))
        (bnd (record_event ing EventWarning ''FailedAddRoute'' (response_text (snd x)))
           (\<lambda>_. ret (Inl (PlainErr (''failed listing api: '' @ response_text (snd x)))))) (on_nil (\<lambda>_. ?done))"
      by (rule returns_failed)
  next
    fix x
    show "returns (\<lambda>w. reg w = R \<and> (\<forall>a. fst x = Some a \<longrightarrow> API_UID a \<in> {'''', ids w (route_name ing r p)}))
        (bnd (apiKong_UpdateOrCreate E (api_body cfg ing r p (fst x))) (\<lambda>y.
       if (\<exists>e \<in> set_option (Error (snd y)). \<not> IsConflict e) then
         bnd (emit ApisFailedInc) (\<lambda>_. ret (Inl (PlainErr (''failed adding api: '' @ response_text (snd y)))))
       else
         bnd (if Error (snd y) = None then emit ApisTotalInc else ret ()) (\<lambda>_.
         case fst y of None \<Rightarrow> panic ''nil pointer dereference'' | Some a \<Rightarrow> ret (Inr ())))) (on_nil (\<lambda>_. ?done))"
      by (rule returns_bnd [OF put], unfold case_prod_beta, rule returns_if, rule returns_failed, rule made)
  qed
qed

text \<open>The paths of a rule and the rules of an ingress, one route after the other.\<close>

definition add_routes :: "(string \<rightharpoonup> API) \<Rightarrow> (string \<times> API) list \<Rightarrow> string \<rightharpoonup> API" where
  "add_routes R rs = R ++ map_of (rev rs)"

lemma add_routes_simps [simp]:
  "add_routes R [] = R" "add_routes R (rs @ [(n, a)]) = (add_routes R rs)(n \<mapsto> a)"
  "add_routes R (rs @ rs') = add_routes (add_routes R rs) rs'"
  by (simp_all add: add_routes_def)

lemma path_tells:
  assumes "kong_contract own E reg ids" "fst (wanted cfg ing (r, p)) \<in> own"
  shows "returns (\<lambda>w. reg w = R) (sync_path E cfg ing r p) (on_nil (\<lambda>_ w. reg w = add_routes R [wanted cfg ing (r, p)]))"
proof -
  let ?q = "core_request PATCH ''services'' (Namespace ing) (ServiceName (Backend p)) (PatchBody StrategicMergePatch add_finalizer_patch)"
  have list: "returns (\<lambda>w. reg w = R) (list_services E) (on_nil (\<lambda>_ w. reg w = R))"
    by (rule keeps_nil) (rule reg_keeps [OF assms(1)])
  have send: "returns (\<lambda>w. reg w = R) (send E ?q) (\<lambda>_ w. reg w = R)"
    using send_keeps [OF assms(1), of ?q R] by (simp add: keeps_def core_request_def)
  have reg: "returns (\<lambda>w. reg w = R) (register_route E cfg ing r p) (on_nil (\<lambda>_ w. reg w = add_routes R [wanted cfg ing (r, p)]))"
    using register_tells [OF assms(1), of ing r p R cfg] assms(2) by (simp add: wanted_def add_routes_def)
  show ?thesis
    unfolding sync_path_def Let_def
    by (rule returns_tryE [OF list], rule returns_if, rule returns_failed, rule returns_bnd [OF send])
      (auto intro: reg returns_ret split: option.splits)
qed

lemma paths_tell:
  assumes "kong_contract own E reg ids" "\<And>p. p \<in> set ps \<Longrightarrow> fst (wanted cfg ing (r, p)) \<in> own"
  shows "returns (\<lambda>w. reg w = R) (forE (sync_path E cfg ing r) ps)
    (on_nil (\<lambda>_ w. reg w = add_routes R (map (wanted cfg ing) (map (Pair r) ps))))"
proof -
  let ?I = "\<lambda>ps w. reg w = add_routes R (map (wanted cfg ing) (map (Pair r) ps))"
  have "returns (?I []) (forE (sync_path E cfg ing r) ps) (on_nil (\<lambda>_. ?I ps))"
    by (rule returns_forE [where I = ?I]) (auto simp: assms(2) intro: path_tells [OF assms(1)])
  then show ?thesis by simp
qed

lemma rule_tells:
  assumes "kong_contract own E reg ids" "\<And>x. x \<in> set (routes_of_rule r) \<Longrightarrow> fst (wanted cfg ing x) \<in> own"
  shows "returns (\<lambda>w. reg w = R) (sync_rule E cfg ing r) (on_nil (\<lambda>_ w. reg w = add_routes R (map (wanted cfg ing) (routes_of_rule r))))"
proof (cases "HTTP r")
  case None
  then show ?thesis by (simp add: sync_rule_def returns_ret)
next
  case (Some ps)
  with assms show ?thesis using paths_tell [OF assms(1), of ps cfg ing r R] by (simp add: sync_rule_def)
qed

lemma rules_tell:
  assumes "kong_contract own E reg ids" "\<And>r x. r \<in> set rs \<Longrightarrow> x \<in> set (routes_of_rule r) \<Longrightarrow> fst (wanted cfg ing x) \<in> own"
  shows "returns (\<lambda>w. reg w = R) (forE (sync_rule E cfg ing) rs)
    (on_nil (\<lambda>_ w. reg w = add_routes R (map (wanted cfg ing) (concat (map routes_of_rule rs)))))"
proof -
  let ?I = "\<lambda>rs w. reg w = add_routes R (map (wanted cfg ing) (concat (map routes_of_rule rs)))"
  have "returns (?I []) (forE (sync_rule E cfg ing) rs) (on_nil (\<lambda>_. ?I rs))"
    by (rule returns_forE [where I = ?I]) (auto simp del: routes_of_rule.simps intro!: rule_tells [OF assms(1)] intro: assms(2))
  then show ?thesis by simp
qed

text \<open>What comes before the routes leaves Kong alone.\<close>

lemma isClaimed_rules_keeps:
  "kong_contract own E reg ids \<Longrightarrow> keeps (\<lambda>w. reg w = R) (isClaimed_rules E ns rules)"
  by (induction rules) (auto intro!: keeps_intros)

lemma claims_keep:
  assumes K: "kong_contract own E reg ids"
  shows "keeps (\<lambda>w. reg w = R) (setDirty E ing)" "keeps (\<lambda>w. reg w = R) (autoclaim E cfg ing)"
proof -
  show "keeps (\<lambda>w. reg w = R) (setDirty E ing)"
    unfolding setDirty_def
    by (intro keeps_if keeps_bnd send_keeps [OF K] keeps_basic) (simp add: core_request_def)
  have "keeps (\<lambda>w. reg w = R) (claim_one E ing d)" for d
    unfolding claim_one_def Let_def
    by (intro keeps_if keeps_cases keeps_bnd reg_keeps [OF K] do_raw_keeps [OF K] keeps_basic) (simp_all add: domain_request_def)
  then show "keeps (\<lambda>w. reg w = R) (autoclaim E cfg ing)"
    unfolding autoclaim_def claimDomains_def
    by (intro keeps_if keeps_tryE keeps_forE keeps_bnd reg_keeps [OF K] keeps_basic)
qed

lemma sync_routes_tells:
  assumes K: "kong_contract own E reg ids"
    and own: "\<And>r x. r \<in> set (Rules ing) \<Longrightarrow> x \<in> set (routes_of_rule r) \<Longrightarrow> fst (wanted cfg ing x) \<in> own"
  shows "returns (\<lambda>w. reg w = R) (sync_routes E cfg ing n) (on_nil (\<lambda>_ w. reg w = R ++ desired cfg ing))"
  unfolding sync_routes_def isClaimed_def
proof (rule returns_tryE [OF keeps_nil [OF isClaimed_rules_keeps [OF K]]], unfold case_prod_beta, rule returns_if)
  fix x
  show "returns (\<lambda>w. reg w = R) (forE (sync_rule E cfg ing) (Rules ing)) (on_nil (\<lambda>_ w. reg w = R ++ desired cfg ing))"
    using rules_tell [OF K own, where rs = "Rules ing" and R = R] by (simp add: desired_def add_routes_def del: routes_of_rule.simps)
qed (rule returns_failed)

text \<open>
  C6: when \<open>syncIngress\<close> returns nil, Kong has the desired API of every path of the ingress under the
  name of its route, whatever was registered there before, and every other API is as it was. Of two
  paths with the same route name the later one wins.
\<close>

theorem syncIngress_adds:
  assumes K: "kong_contract own E reg ids" and "ing_get E key w = (Inr (Some ing), w1)"
    and "dom (desired cfg ing) \<subseteq> own"
    and "syncIngress E cfg key n w = (Done (Inr ()), t, w')"
  shows "reg w' = reg w ++ desired cfg ing"
proof -
  have own: "fst (wanted cfg ing x) \<in> own" if "r \<in> set (Rules ing)" "x \<in> set (routes_of_rule r)" for r x
  proof -
    from that have "wanted cfg ing x \<in> set (map (wanted cfg ing) (concat (map routes_of_rule (Rules ing))))"
      by (auto simp del: routes_of_rule.simps)
    then have "fst (wanted cfg ing x) \<in> dom (desired cfg ing)"
      by (simp add: desired_def dom_map_of_conv_image_fst del: routes_of_rule.simps)
    with assms(3) show ?thesis ..
  qed
  let ?rest = "bnd (if autoClaimMaxRetries < n then bnd (setDirty E ing) (\<lambda>_. ret ()) else ret ()) (\<lambda>_.
         tryE id (autoclaim E cfg ing) (\<lambda>_. sync_routes E cfg ing n))"
  have "returns (\<lambda>w'. reg w' = reg w) ?rest (on_nil (\<lambda>_ w'. reg w' = reg w ++ desired cfg ing))"
    by (rule returns_bnd [where R = "\<lambda>_ w'. reg w' = reg w"], fold keeps_def,
        intro keeps_if keeps_bnd claims_keep [OF K] keeps_basic,
        rule returns_tryE [OF keeps_nil [OF claims_keep(2) [OF K]]], rule sync_routes_tells [OF K own])
  moreover have "reg w1 = reg w" using assms(1,2) unfolding kong_contract_def by (metis snd_conv)
  moreover obtain t' where "?rest w1 = (Done (Inr ()), t', w')"
    using after_read [OF assms(4) [unfolded syncIngress_def get_ingress_def] assms(2)] by auto
  ultimately show ?thesis by (auto simp: on_nil_def dest!: returnsD)
qed

text \<open>
  The two together: the collection of the service behind a route that \<open>syncIngress\<close> has added takes
  the route along, but only if the backend names its port by the number of a port of the service.
\<close>

lemma service_takes_route:
  assumes "desired cfg ing n = Some a" "wanted cfg ing (r, p) = (n, a)"
    and "Namespace svc = Namespace ing" "Name svc = ServiceName (Backend p)"
  shows "drop_apis (\<lambda>n a. \<exists>port \<in> set (Ports svc). UpstreamURL a = upstream cfg svc port) (R ++ desired cfg ing) n
    = (if ServicePort_IntVal (Backend p) \<in> Port ` set (Ports svc) then None else Some a)"
proof -
  have "UpstreamURL a = UpstreamURL (api_body cfg ing r p None)" using assms(2) by (auto simp: wanted_def)
  then show ?thesis
    using gc_covers_route [OF assms(3,4), of cfg r None] assms(1) by (simp add: drop_apis_def map_add_def upstream_def)
qed

section \<open>The deletion of a domain\<close>

lemma regexp_shows:
  assumes "kong_contract own E reg ids"
  shows "returns (\<lambda>w. reg w = R) (apiKong_ListByRegexp E None (host_pattern dm)) (on_nil (\<lambda>(l :: APIList) w. reg w = R
    \<and> (\<forall>n \<in> own. n \<in> API_Name ` set (Items l) \<longleftrightarrow> (\<exists>a. R n = Some a \<and> routes_of dm n))))"
proof -
  have all: "returns (\<lambda>w. reg w = R) (apiKong_List (page_bound E) E None) (on_nil (\<lambda>l w. reg w = R
      \<and> (\<forall>n \<in> own. n \<in> API_Name ` set (Items l) \<longleftrightarrow> (\<exists>a. R n = Some a))))"
    using list_shows [OF assms, of None R "page_bound E"] by (simp add: matches_def)
  have filt: "API_Name ` set (filter (\<lambda>api :: API. re_match re (API_Name api)) xs) = {n \<in> API_Name ` set xs. re_match re n}" for re xs
    by auto
  show ?thesis
    unfolding apiKong_ListByRegexp_def
    by (rule returns_tryE [OF all])
      (auto intro!: returns_ret returns_panic returns_stuck simp: routes_of_def filt simp del: set_filter split: re_result.split)
qed

lemma updateDomainStatus_keeps:
  "kong_contract own E reg ids \<Longrightarrow> keeps (\<lambda>w. reg w = R) (updateDomainStatus E d reason msg phase)"
  unfolding updateDomainStatus_def Let_def
  by (intro keeps_if keeps_bnd reg_keeps do_raw_keeps keeps_basic) (simp_all add: domain_request_def)

lemma purge_domain_drops:
  assumes "kong_contract own E reg ids"
  shows "returns (\<lambda>w. reg w = R) (purge_domain E dm) (on_nil (\<lambda>_ w. reg w = drop_apis (\<lambda>n a. routes_of dm n) R))"
  unfolding purge_domain_def
  by (intro purge_drops [OF assms regexp_shows [OF assms]] keeps_nil keeps_tryE updateDomainStatus_keeps [OF assms] keeps_basic)

text \<open>
  C8: when the reconciliation of a domain marked for deletion returns nil, the APIs of Kong whose name
  matches the pattern of a purged claim are gone, those of every claim of the same primary domain when
  the deleted claim is primary and none when it is shared, and no other API has changed.
\<close>

theorem syncDomain_drops:
  assumes K: "kong_contract own E reg ids" and "dom_get E key w = (Inr (Some d), w1)"
    and "IsValidDomain d" "IsMarkedForDeletion d" "dom_list E w1 = (Inr ds, w2)"
    and "syncDomain E cfg key n w = (Done (Inr ()), t, w')"
  shows "reg w' = drop_apis (\<lambda>n a. \<exists>dm \<in> set (purge_targets d ds). routes_of dm n) (reg w)"
proof -
  let ?I = "\<lambda>(dms :: Domain list) w'. reg w' = drop_apis (\<lambda>n a. \<exists>dm \<in> set dms. routes_of dm n) (reg w)"
  let ?patch = "do_raw E (domain_request PATCH (Namespace d) (Some (Name d)) (PatchBody MergePatch no_finalizers_patch))
       (errorf2 ''gc=true, failed removing finalizer from resource'')
     (do_raw E (domain_request DELETE (Namespace d) (Some (Name d)) NoBody)
       (errorf2 ''gc=true, failed removing domain resource'') (ret (Inr ())))"
  let ?rest = "tryE id (forE (purge_domain E) (purge_targets d ds)) (\<lambda>_. ?patch)"
  have loop: "returns (?I []) (forE (purge_domain E) (purge_targets d ds)) (on_nil (\<lambda>_. ?I (purge_targets d ds)))"
  proof (rule returns_forE [where I = ?I])
    fix x :: Domain and ys zs :: "Domain list"
    have "drop_apis (\<lambda>n a. routes_of x n) (drop_apis (\<lambda>n a. \<exists>dm \<in> set ys. routes_of dm n) (reg w))
        = drop_apis (\<lambda>n a. \<exists>dm \<in> set (ys @ [x]). routes_of dm n) (reg w)"
      by (auto simp: drop_apis_twice intro!: drop_apis_cong)
    with purge_domain_drops [OF K, where R = "drop_apis (\<lambda>n a. \<exists>dm \<in> set ys. routes_of dm n) (reg w)" and dm = x]
    show "returns (?I ys) (purge_domain E x) (on_nil (\<lambda>_. ?I (ys @ [x])))" by simp
  qed
  have "keeps (?I (purge_targets d ds)) ?patch"
    by (intro do_raw_keeps [OF K] keeps_basic) (simp_all add: domain_request_def)
  then have "returns (?I []) ?rest (on_nil (\<lambda>_. ?I (purge_targets d ds)))"
    by (intro returns_tryE [OF loop] keeps_nil)
  moreover have "reg w1 = reg w" "reg w2 = reg w1"
    using assms(2,5) K unfolding kong_contract_def by (metis snd_conv)+
  then have "?I [] w2" by (simp add: drop_apis_def fun_eq_iff split: option.splits)
  moreover obtain t' where t': "syncDomain_delete E d w1 = (Done (Inr ()), t', w')"
    using after_read [OF assms(6) [unfolded syncDomain_def get_domain_def] assms(2)] assms(3,4) by auto
  obtain t'' where "?rest w2 = (Done (Inr ()), t'', w')"
    using after_read [OF t' [unfolded syncDomain_delete_def list_domains_def] assms(5)] by auto
  ultimately show ?thesis by (auto simp: on_nil_def dest!: returnsD)
qed

section \<open>The routes of other hosts\<close>

lemma routes_of_tilde:
  assumes "re_plain (GetDomain d)" "routes_of d n"
  shows "CHR ''~'' \<in> set n"
  using assms host_pattern_matches [OF assms(1)] by (auto simp: routes_of_def host_pattern_def)

text \<open>
  C37: when the purge of a domain returns nil, the routes of its host are gone from Kong, in every
  namespace; and so are, since the pattern is not anchored, the routes of every host that merely
  ends in the name of the domain, which may belong to somebody else. An API whose name has no tilde,
  the separator of the names of the routes, is left alone. This is of hosts without the operators of
  regular expressions, other than the dot, and of hosts and namespaces without a newline.
\<close>

theorem purge_overreach:
  assumes "kong_contract own E reg ids" "re_plain (GetDomain d)" "CHR 0x0A \<notin> set (GetDomain d)" "CHR 0x0A \<notin> set ns"
    and "purge_domain E d w = (Done (Inr ()), t, w')"
  shows "reg w' (apiName (GetDomain d) ns uri) = None \<and> reg w' (apiName (prefix @ GetDomain d) ns uri) = None
    \<and> (CHR ''~'' \<notin> set other \<longrightarrow> reg w' other = reg w other)"
proof -
  have "reg w' = drop_apis (\<lambda>n a. routes_of d n) (reg w)"
    using returnsD [OF purge_domain_drops [OF assms(1)] refl assms(5)] by (simp add: on_nil_def)
  moreover have "\<not> routes_of d other" if "CHR ''~'' \<notin> set other" using routes_of_tilde [OF assms(2)] that by blast
  ultimately show ?thesis
    using pattern_overreach [OF assms(2-4)] by (simp add: drop_apis_def split: option.splits)
qed

section \<open>Witnesses\<close>

definition web_api :: API where
  "web_api = empty_API\<lparr>API_Name := ''acme.org~acme~300030'', UpstreamURL := ''http://web.acme.svc.cluster.local:80''\<rparr>"

definition other_api :: API where
  "other_api = empty_API\<lparr>API_Name := ''other.net~acme~300030'', UpstreamURL := ''http://elsewhere''\<rparr>"

lemma ingress_run:
  "\<exists>t w'. syncIngress (kong_env [acme_domain] [acme_service] [acme_ingress]) sample_config ''acme/routes'' 0 [other_api]
    = (Done (Inr ()), t, w')"
  by (simp add: run_defs failed_result_def unmarshal_def payload_of_def ok_json_def err_answer_def dec_enc_API
      syncIngress_def autoclaim_def sync_routes_def isClaimed_def sync_rule_def sync_path_def register_route_def
      apiKong_Get_def apiKong_UpdateOrCreate_def autoClaimMaxRetries_def sample_config_def acme_defs mk_defs
      meta_key_def by_namespace_def claims_host_def GetDomain_def GetPrimaryDomain_def Error_def
      route_name_def apiName_def path_uri_def Let_def kong_step_def kong_request_def core_request_def accepts_def api_body_def other_api_def)

lemma upstream_web:
  "getUpstream sample_config (proto_of 80) ''acme'' ''web'' 80 = ''http://web.acme.svc.cluster.local:80''"
  "getUpstream sample_config (proto_of 443) ''acme'' ''web'' 443 = ''https://web.acme.svc.cluster.local:443''"
  by (simp_all add: getUpstream_def proto_of_def sample_config_def show_int_def show_base_big show_base_small
      digit_char_def char_of_def bit_Suc bit_0)

lemma service_run:
  "\<exists>t. syncServices (kong_env [] [doomed_web] []) sample_config ''acme/web'' 0 [web_api, other_api]
    = (Done (Inr ()), t, [other_api])"
  by (simp add: run_defs failed_result_def ok_json_def err_answer_def
      syncServices_def gc_port_def delete_apis_def apiKong_Delete_def
      doomed_web_def mk_defs meta_key_def Let_def empty_APIList_def
      kong_step_def kong_request_def core_request_def listed_apis_def matches_def web_api_def other_api_def upstream_web del: apiKong_List.simps)

lemma domain_run:
  "\<exists>t. syncDomain (kong_env [acme_domain, loser_domain] [] []) sample_config ''intruder/acme-org'' 0 [web_api, other_api]
    = (Done (Inr ()), t, [other_api])"
  by (simp add: loser_domain_def run_defs failed_result_def ok_json_def err_answer_def syncDomain_def syncDomain_delete_def
      purge_targets_def purge_domain_def host_pattern_def updateDomainStatus_def apiKong_ListByRegexp_def delete_apis_def apiKong_Delete_def
      IsValidDomain_iff IsMarkedForDeletion_def IsPrimary_iff acme_domain_def mk_defs meta_key_def GetDomain_def
      GetPrimaryDomain_def Let_def phase_defs kong_step_def kong_request_def domain_request_def listed_apis_def matches_def
      web_api_def other_api_def re_compile_def re_quant_def
      re_unmodelled_char_def re_atom_of_def drop_lazy_def del: apiKong_List.simps)

lemma syncIngress_adds_witness:
  "\<exists>t w'. syncIngress (kong_env [acme_domain] [acme_service] [acme_ingress]) sample_config ''acme/routes'' 0 [other_api]
      = (Done (Inr ()), t, w') \<and> kong_reg w' = kong_reg [other_api] ++ desired sample_config acme_ingress"
proof -
  from ingress_run obtain t w' where run:
    "syncIngress (kong_env [acme_domain] [acme_service] [acme_ingress]) sample_config ''acme/routes'' 0 [other_api]
      = (Done (Inr ()), t, w')" by blast
  have "ing_get (kong_env [acme_domain] [acme_service] [acme_ingress]) ''acme/routes'' [other_api] = (Inr (Some acme_ingress), [other_api])"
    by (simp add: acme_defs mk_defs meta_key_def)
  from syncIngress_adds [OF kong_env_contract this _ run] run show ?thesis by auto
qed

lemma syncServices_drops_witness:
  "kong_reg [other_api] = drop_apis (\<lambda>n a. \<exists>port \<in> set (Ports doomed_web). UpstreamURL a = upstream sample_config doomed_web port)
    (kong_reg [web_api, other_api])"
proof -
  from service_run obtain t where run:
    "syncServices (kong_env [] [doomed_web] []) sample_config ''acme/web'' 0 [web_api, other_api] = (Done (Inr ()), t, [other_api])"
    by blast
  show ?thesis
    by (rule syncServices_drops [OF kong_env_contract _ _ run]) (simp_all add: doomed_web_def mk_defs meta_key_def)
qed

lemma syncDomain_drops_witness:
  "kong_reg [other_api] = drop_apis (\<lambda>n a. \<exists>dm \<in> set (purge_targets loser_domain [acme_domain, loser_domain]). routes_of dm n)
    (kong_reg [web_api, other_api])"
proof -
  from domain_run obtain t where run:
    "syncDomain (kong_env [acme_domain, loser_domain] [] []) sample_config ''intruder/acme-org'' 0 [web_api, other_api]
      = (Done (Inr ()), t, [other_api])" by blast
  show ?thesis
    by (rule syncDomain_drops [OF kong_env_contract _ _ _ _ run])
      (simp_all add: loser_domain_def acme_domain_def mk_defs meta_key_def IsValidDomain_iff IsMarkedForDeletion_def)
qed

definition foreign_api :: API where
  "foreign_api = empty_API\<lparr>API_Name := ''notacme.org~other~300030'', UpstreamURL := ''http://elsewhere''\<rparr>"

lemma purge_run:
  "\<exists>t w'. purge_domain (kong_env [acme_domain] [] []) acme_domain [foreign_api] = (Done (Inr ()), t, w')"
  by (simp add: run_defs failed_result_def ok_json_def err_answer_def
      purge_domain_def host_pattern_def updateDomainStatus_def apiKong_ListByRegexp_def delete_apis_def apiKong_Delete_def
      IsPrimary_iff acme_domain_def mk_defs meta_key_def GetDomain_def
      GetPrimaryDomain_def Let_def phase_defs kong_step_def kong_request_def domain_request_def listed_apis_def matches_def
      foreign_api_def re_compile_def re_quant_def
      re_unmodelled_char_def re_atom_of_def drop_lazy_def del: apiKong_List.simps)

lemma purge_overreach_witness:
  "\<exists>t w'. purge_domain (kong_env [acme_domain] [] []) acme_domain [foreign_api] = (Done (Inr ()), t, w')
    \<and> kong_reg [foreign_api] ''notacme.org~other~300030'' \<noteq> None \<and> kong_reg w' ''notacme.org~other~300030'' = None"
proof -
  from purge_run obtain t w' where run:
    "purge_domain (kong_env [acme_domain] [] []) acme_domain [foreign_api] = (Done (Inr ()), t, w')" by blast
  have d: "GetDomain acme_domain = ''acme.org''"
    by (simp add: acme_domain_def mk_defs GetDomain_def GetPrimaryDomain_def IsPrimary_iff)
  then have "re_plain (GetDomain acme_domain)" by (simp add: re_plain_def re_quant_def re_unmodelled_char_def)
  from purge_overreach [OF kong_env_contract this _ _ run, of "''other''" "''/''" "''not''"] d
  have "kong_reg w' ''notacme.org~other~300030'' = None" by (simp add: apiName_def)
  with run show ?thesis by (simp add: kong_reg_def foreign_api_def)
qed

end
