(* ===== verification/Wipe_Safety.thy ===== *)
theory Wipe_Safety
  imports Registry_Safety
begin

text \<open>
  The sweep after a domain resource is gone, the branch of \<open>syncDomain\<close> behind \<open>WipeOnDelete\<close>, as an
  operation on the registry of Kong. As long as the cache shows the same domains throughout, only the
  second loop of the sweep has an effect: the first one looks for shared domains without a primary,
  and a claimed shared domain is a primary of its own.
\<close>

section \<open>The first loop\<close>

definition cache_shows :: "'w env \<Rightarrow> Domain list \<Rightarrow> bool" where
  "cache_shows E ds \<longleftrightarrow> (\<forall>w. fst (dom_list E w) = Inr ds)"

lemma SearchForPrimary_keeps:
  "kong_contract own E reg ids \<Longrightarrow> keeps (\<lambda>w. reg w = R) (SearchForPrimary E d sys)"
  unfolding SearchForPrimary_def searchPrimaryByNamespace_def
  by (intro keeps_if keeps_tryE reg_keeps keeps_basic)

lemma search_self:
  assumes "kong_contract own E reg ids" "cache_shows E ds" "d \<in> set ds" "Phase (Status d) = DomainStatusOK"
  shows "returns (\<lambda>w. reg w = R) (SearchForPrimary E d sys) (on_nil (\<lambda>p w. p \<noteq> None \<and> reg w = R))"
proof -
  have cache: "\<exists>ds w'. dom_list E w = (Inr ds, w') \<and> d \<in> set ds" for w
    using assms(2,3) unfolding cache_shows_def by (metis prod.collapse)
  have "r = Inr p \<longrightarrow> p \<noteq> None" if "SearchForPrimary E d sys w = (Done r, t, w')" for w r t w' p
    using SearchForPrimary_self [OF cache assms(4), of sys w] that by fastforce
  then show ?thesis
    using SearchForPrimary_keeps [OF assms(1), of R d sys] unfolding keeps_def returns_def on_nil_def by blast
qed

lemma wipe_shared_keeps:
  assumes "kong_contract own E reg ids" "cache_shows E ds" "d \<in> set ds" "isOKShared d"
  shows "returns (\<lambda>w. reg w = R) (wipe_shared E cfg d) (on_nil (\<lambda>_ w. reg w = R))"
proof -
  have ok: "Phase (Status d) = DomainStatusOK" using assms(4) by (simp add: isOKShared_def)
  show ?thesis
    unfolding wipe_shared_def
  proof (rule returns_tryE [OF search_self [OF assms(1-3) ok]])
    fix p :: "Domain option"
    let ?rest = "tryE (errorf ''gc=true, wipeondelete=true, failed listing kong apis ['' '']'')
       (apiKong_ListByRegexp E None (host_pattern d)) (\<lambda>apiList.
     tryE id
       (delete_apis (apiKong_Delete E)
         (\<lambda>api. errorf ''gc=true, wipeondelete=true, failed removing kong api ['' '']'')
         (Items apiList)) (\<lambda>_.
     tryE (errorf ''gc=true, wipeondelete=true, failed updating domain status ['' '']'')
       (updateDomainStatus E d ''DomainDeleted'' ''The primary domain was deleted''
         DomainStatusFailed) (\<lambda>_. ret (Inr ()))))"
    show "returns (\<lambda>w. p \<noteq> None \<and> reg w = R) (if p \<noteq> None then ret (Inr ()) else ?rest) (on_nil (\<lambda>_ w. reg w = R))"
      by (cases p) (simp_all add: returns_def ret_def)
  qed
qed

section \<open>The second loop\<close>

text \<open>A name of three parts whose host no domain resource has.\<close>

definition orphan_name :: "Domain list \<Rightarrow> string \<Rightarrow> bool" where
  "orphan_name ds n \<longleftrightarrow> (let parts = split_on CHR ''~'' n in length parts = 3 \<and> hd parts \<notin> GetDomain ` set ds)"

definition swept :: "Domain list \<Rightarrow> (string \<times> API list) list \<Rightarrow> string \<Rightarrow> API \<Rightarrow> bool" where
  "swept ds hosts n a \<longleftrightarrow> (\<exists>(h, apis) \<in> set hosts. h \<notin> GetDomain ` set ds \<and> n \<in> API_Name ` set apis)"

lemma shown_domains:
  assumes "kong_contract own E reg ids" "cache_shows E ds"
  shows "returns (\<lambda>w. reg w = R) (list_domains E) (\<lambda>r w. r = Inr ds \<and> reg w = R)"
proof -
  have "reg (snd (dom_list E w)) = reg w" for w
    using assms(1) unfolding kong_contract_def by (elim conjE) blast
  moreover have "fst (dom_list E w) = Inr ds" for w using assms(2) by (simp add: cache_shows_def)
  ultimately show ?thesis unfolding list_domains_def by (intro returns_ask) (metis fst_conv snd_conv)
qed

lemma wipe_host_drops:
  assumes "kong_contract own E reg ids" "cache_shows E ds"
  shows "returns (\<lambda>w. reg w = R) (wipe_host E x) (on_nil (\<lambda>_ w. reg w = drop_apis (swept ds [x]) R))"
proof -
  obtain h apis where x: "x = (h, apis)" by (cases x)
  have found: "find (\<lambda>d. h = GetDomain d) ds = None \<longleftrightarrow> h \<notin> GetDomain ` set ds"
    by (auto simp: find_None_iff)
  have list: "returns (\<lambda>w. reg w = R) (list_domains E) (on_nil (\<lambda>r w. r = ds \<and> reg w = R))"
    by (rule returns_weaken [OF shown_domains [OF assms]]) (auto simp: on_nil_def)
  show ?thesis
    unfolding wipe_host_def x prod.case
  proof (rule returns_tryE [OF list], unfold conj_commute [of "_ = ds"], rule returns_pure)
    fix ds'
    assume ds': "ds' = ds"
    show "returns (\<lambda>w. reg w = R) (case find (\<lambda>d. h = GetDomain d) ds' of
         None \<Rightarrow> delete_apis (apiKong_Delete E)
           (\<lambda>api. errorf ''gc=true, wipeondelete=true, failed removing api ['' '']'') apis
       | Some found \<Rightarrow> ret (Inr ())) (on_nil (\<lambda>_ w. reg w = drop_apis (swept ds [(h, apis)]) R))"
    proof (cases "find (\<lambda>d. h = GetDomain d) ds")
      case None
      with found have "swept ds [(h, apis)] = (\<lambda>n a. n \<in> API_Name ` set apis)" by (simp add: swept_def fun_eq_iff)
      with None show ?thesis using delete_apis_drops [OF assms(1), of R] by (simp add: ds')
    next
      case (Some d)
      with found have "drop_apis (swept ds [(h, apis)]) R = R"
        by (auto simp: swept_def drop_apis_def fun_eq_iff split: option.splits)
      with Some show ?thesis by (auto simp: ds' intro!: returns_ret)
    qed
  qed
qed

lemma sweep_drops:
  assumes "kong_contract own E reg ids" "cache_shows E ds"
  shows "returns (\<lambda>w. reg w = R) (forE (wipe_host E) hosts) (on_nil (\<lambda>_ w. reg w = drop_apis (swept ds hosts) R))"
proof -
  let ?I = "\<lambda>hosts w. reg w = drop_apis (swept ds hosts) R"
  have "returns (?I []) (forE (wipe_host E) hosts) (on_nil (\<lambda>_. ?I hosts))"
  proof (rule returns_forE [where I = ?I])
    fix x and ys zs :: "(string \<times> API list) list"
    have "drop_apis (swept ds [x]) (drop_apis (swept ds ys) R) = drop_apis (swept ds (ys @ [x])) R"
      unfolding drop_apis_twice by (rule drop_apis_cong) (auto simp: swept_def)
    then show "returns (?I ys) (wipe_host E x) (on_nil (\<lambda>_. ?I (ys @ [x])))"
      using wipe_host_drops [OF assms, of "drop_apis (swept ds ys) R" x] by simp
  qed
  moreover have "drop_apis (swept ds []) R = R" by (simp add: drop_apis_def swept_def fun_eq_iff split: option.splits)
  ultimately show ?thesis by simp
qed

text \<open>What the groups of a complete listing have of the registry.\<close>

lemma grouped_names:
  "(\<exists>(h, apis) \<in> set (getApisByHost l). Q h \<and> n \<in> API_Name ` set apis)
    \<longleftrightarrow> n \<in> API_Name ` set (Items l) \<and> length (split_on CHR ''~'' n) = 3 \<and> Q (hd (split_on CHR ''~'' n))"
    (is "?L \<longleftrightarrow> ?R")
proof
  assume ?L
  then obtain h apis a where m: "(h, apis) \<in> set (getApisByHost l)" "Q h" "a \<in> set apis" "n = API_Name a" by auto
  then have "map_of (getApisByHost l) h = Some apis" by (simp add: getApisByHost_distinct)
  with m show ?R by (auto simp: getApisByHost_lookup named_by_host_def split: if_splits)
next
  assume ?R
  then obtain a where a: "a \<in> set (Items l)" "n = API_Name a" "named_by_host (hd (split_on CHR ''~'' n)) a"
    "Q (hd (split_on CHR ''~'' n))" by (auto simp: named_by_host_def)
  let ?apis = "filter (named_by_host (hd (split_on CHR ''~'' n))) (Items l)"
  from a have "?apis \<noteq> []" by (auto simp: filter_empty_conv)
  then have "(hd (split_on CHR ''~'' n), ?apis) \<in> set (getApisByHost l)"
    by (intro map_of_SomeD) (simp add: getApisByHost_lookup)
  with a show ?L by (intro bexI [of _ "(hd (split_on CHR ''~'' n), ?apis)"]) auto
qed

lemma swept_all:
  assumes "kong_contract own E reg ids" "reg w = R" "set hosts = set (getApisByHost l)"
    and "\<forall>m \<in> own. m \<in> API_Name ` set (Items l) \<longleftrightarrow> (\<exists>a. R m = Some a)"
  shows "drop_apis (swept ds hosts) R = drop_apis (\<lambda>n a. orphan_name ds n) R"
proof (rule drop_apis_cong)
  fix n a
  assume "R n = Some a"
  moreover from this have "n \<in> own" using contract_dom [OF assms(1), of w n a] assms(2) by simp
  ultimately have "n \<in> API_Name ` set (Items l)" using assms(4) by blast
  then show "swept ds hosts n a = orphan_name ds n"
    unfolding swept_def assms(3) grouped_names by (simp add: orphan_name_def Let_def)
qed

section \<open>The sweep\<close>

lemma syncDomain_gone_drops:
  assumes K: "kong_contract own E reg ids" and C: "cache_shows E ds" and F: "fair_ranges E" and W: "WipeOnDelete cfg"
  shows "returns (\<lambda>w. reg w = R) (syncDomain_gone E cfg) (on_nil (\<lambda>_ w. reg w = drop_apis (\<lambda>n a. orphan_name ds n) R))"
    (is "returns _ _ (on_nil ?Q)")
proof -
  let ?sweep = "tryE (errorf ''gc=true, wipeondelete=true, failed listing kong apis: '' '''')
        (apiKong_List (page_bound E) E None) (\<lambda>apiList.
      bnd (range_hosts E (getApisByHost apiList)) (\<lambda>hosts. forE (wipe_host E) hosts))"
  have range: "returns (\<lambda>w. reg w = R) (range_hosts E m) (\<lambda>hosts w. reg w = R \<and> set hosts = set m)" for m
    using K F unfolding returns_def range_hosts_def fair_ranges_def kong_contract_def
    by (auto split: prod.splits) (metis fst_conv snd_conv)+
  have all: "returns (\<lambda>w. reg w = R) (apiKong_List (page_bound E) E None) (on_nil (\<lambda>l w. reg w = R
      \<and> (\<forall>m \<in> own. m \<in> API_Name ` set (Items l) \<longleftrightarrow> (\<exists>a. R m = Some a))))"
    using list_shows [OF K, of None R "page_bound E"] by (simp add: matches_def)
  have sweep: "returns (\<lambda>w. reg w = R) ?sweep (on_nil ?Q)"
  proof (rule returns_tryE [OF all], rule returns_pure, rule returns_bnd [OF range], rule returns_pure)
    fix l hosts
    assume l: "\<forall>m \<in> own. m \<in> API_Name ` set (Items l) \<longleftrightarrow> (\<exists>a. R m = Some a)" "set hosts = set (getApisByHost l)"
    have "drop_apis (swept ds hosts) R = drop_apis (\<lambda>n a. orphan_name ds n) R" if "reg w = R" for w
      by (rule swept_all [OF K that l(2,1)])
    then show "returns (\<lambda>w. reg w = R) (forE (wipe_host E) hosts) (on_nil ?Q)"
      using sweep_drops [OF K C, of R hosts] unfolding returns_def on_nil_def by metis
  qed
  have first: "returns (\<lambda>w. reg w = R) (forE (wipe_shared E cfg) (filter isOKShared ds)) (on_nil (\<lambda>_ w. reg w = R))"
  proof (rule returns_forE [where I = "\<lambda>_ w. reg w = R"])
    fix d ys zs
    assume "filter isOKShared ds = ys @ d # zs"
    then have "d \<in> set (filter isOKShared ds)" by simp
    then show "returns (\<lambda>w. reg w = R) (wipe_shared E cfg d) (on_nil (\<lambda>_ w. reg w = R))"
      by (intro wipe_shared_keeps [OF K C]) simp_all
  qed
  have list: "returns (\<lambda>w. reg w = R) (list_domains E) (on_nil (\<lambda>r w. reg w = R \<and> r = ds))"
    by (rule returns_weaken [OF shown_domains [OF K C]]) (auto simp: on_nil_def)
  show ?thesis
    unfolding syncDomain_gone_def if_not_P [OF not_not [THEN iffD2, OF W]]
    by (rule returns_tryE [OF list], rule returns_pure, simp, rule returns_tryE [OF first], rule sweep)
qed

text \<open>
  C9: when the reconciliation of a domain that is gone returns nil and the cache showed the same
  domains throughout, the APIs of Kong whose name has three parts and whose host no domain has are
  gone, and nothing else has changed; without \<open>WipeOnDelete\<close> nothing has.
\<close>

theorem syncDomain_sweeps:
  assumes K: "kong_contract own E reg ids" and "cache_shows E ds" "fair_ranges E"
    and "dom_get E key w = (Inr None, w1)" "syncDomain E cfg key n w = (Done (Inr ()), t, w')"
  shows "reg w' = drop_apis (\<lambda>n a. WipeOnDelete cfg \<and> orphan_name ds n) (reg w)"
proof -
  obtain t' where run: "syncDomain_gone E cfg w1 = (Done (Inr ()), t', w')"
    using after_read [OF assms(5) [unfolded syncDomain_def get_domain_def] assms(4)] by auto
  have w1: "reg w1 = reg w" using assms(4) K unfolding kong_contract_def by (metis snd_conv)
  show ?thesis
  proof (cases "WipeOnDelete cfg")
    case True
    from returnsD [OF syncDomain_gone_drops [OF K assms(2,3) True] w1 run] True show ?thesis by simp
  next
    case False
    with run have "w' = w1" by (simp add: syncDomain_gone_def ret_def)
    with False w1 show ?thesis by (simp add: drop_apis_def fun_eq_iff split: option.splits)
  qed
qed

section \<open>A witness\<close>

definition stale_api :: API where
  "stale_api = empty_API\<lparr>API_Name := ''gone.net~acme~300030'', UpstreamURL := ''http://elsewhere''\<rparr>"

lemma sweep_run:
  "\<exists>t. syncDomain (kong_env [acme_domain] [] []) (sample_config\<lparr>WipeOnDelete := True\<rparr>) ''acme/gone'' 0 [web_api, stale_api]
    = (Done (Inr ()), t, [web_api])"
  by (simp add: run_defs failed_result_def ok_json_def err_answer_def syncDomain_def syncDomain_gone_def
      wipe_host_def range_hosts_def getApisByHost_def isOKShared_def delete_apis_def apiKong_Delete_def
      IsPrimary_iff acme_domain_def mk_defs meta_key_def GetDomain_def
      GetPrimaryDomain_def Let_def phase_defs kong_step_def kong_request_def listed_apis_def matches_def
      web_api_def stale_api_def del: apiKong_List.simps)

lemma syncDomain_sweeps_witness:
  "kong_reg [web_api] = drop_apis (\<lambda>n a. WipeOnDelete (sample_config\<lparr>WipeOnDelete := True\<rparr>) \<and> orphan_name [acme_domain] n)
    (kong_reg [web_api, stale_api])"
proof -
  from sweep_run obtain t where run:
    "syncDomain (kong_env [acme_domain] [] []) (sample_config\<lparr>WipeOnDelete := True\<rparr>) ''acme/gone'' 0 [web_api, stale_api]
      = (Done (Inr ()), t, [web_api])" by blast
  show ?thesis
    by (rule syncDomain_sweeps [OF kong_env_contract _ _ _ run])
      (simp_all add: cache_shows_def fair_ranges_def acme_domain_def mk_defs meta_key_def)
qed

end
