(* ===== verification/Client_Setup.thy ===== *)
theory Client_Setup
  imports Startup
begin

text \<open>
  How \<open>main\<close> builds its clients: the configurations of \<open>cmd/main.go\<close>, \<open>NewKongRESTClient\<close> and the
  getters of \<open>pkg/kong/client.go\<close>, over the constructors of client-go (\<open>rest/config.go\<close>,
  \<open>rest/client.go\<close>, \<open>transport\<close>), the configuration of the typed clients, and the addresses their
  requests go to. Reading files, parsing the URL of a host and the configuration inside a cluster
  are parameters (\<open>client_lib\<close>).
\<close>

section \<open>Configurations\<close>

datatype serializer = DirectCodecFactory | DynamicCodec

text \<open>\<open>rest.Config\<close> without the fields nothing sets; \<open>Timeout\<close> in nanoseconds.\<close>

record rest_config =
  RestHost :: string
  APIPath :: string
  AcceptContentTypes :: string
  ContentType :: string
  RestGroupVersion :: "GroupVersion option"
  NegotiatedSerializer :: "serializer option"
  Username :: string
  Password :: string
  BearerToken :: string
  Insecure :: bool
  TLSCertFile :: string
  TLSKeyFile :: string
  TLSCAFile :: string
  UserAgent :: string
  QPS :: int
  Burst :: int
  Timeout :: int

definition empty_rest_config :: rest_config where
  "empty_rest_config = \<lparr>RestHost = '''', APIPath = '''', AcceptContentTypes = '''', ContentType = '''',
     RestGroupVersion = None, NegotiatedSerializer = None, Username = '''', Password = '''', BearerToken = '''',
     Insecure = False, TLSCertFile = '''', TLSKeyFile = '''', TLSCAFile = '''', UserAgent = '''',
     QPS = 0, Burst = 0, Timeout = 0\<rparr>"

record base_url =
  Base_Host :: string
  Base_Path :: string

text \<open>
  \<open>server_url\<close> is what \<open>DefaultServerURL\<close> makes of a host and whether TLS is the default, \<open>key_pair\<close>
  the error of \<open>X509KeyPair\<close>, \<open>glog_level\<close> the verbosity of the logs.
\<close>

record client_lib =
  server_url :: "string \<Rightarrow> bool \<Rightarrow> go_error + base_url"
  read_file :: "string \<Rightarrow> go_error + string"
  key_pair :: "string \<Rightarrow> string \<Rightarrow> go_error option"
  glog_level :: nat
  user_agent :: string
  in_cluster :: "go_error + rest_config"

section \<open>Transports\<close>

datatype round_tripper =
    DefaultTransport
  | TLSTransport bool string string string
  | DebuggingRT round_tripper
  | BearerAuthRT string round_tripper
  | BasicAuthRT string string round_tripper
  | UserAgentRT string round_tripper

definition HasCA :: "rest_config \<Rightarrow> bool" where
  "HasCA c \<longleftrightarrow> TLSCAFile c \<noteq> ''''"

definition HasCertAuth :: "rest_config \<Rightarrow> bool" where
  "HasCertAuth c \<longleftrightarrow> TLSCertFile c \<noteq> ''''"

definition dataFromFile :: "client_lib \<Rightarrow> string \<Rightarrow> go_error + string" where
  "dataFromFile lib file = (if 0 < length file then read_file lib file else Inr '''')"

definition loadTLSFiles :: "client_lib \<Rightarrow> rest_config \<Rightarrow> go_error + string \<times> string \<times> string" where
  "loadTLSFiles lib c =
     (case dataFromFile lib (TLSCAFile c) of Inl e \<Rightarrow> Inl e | Inr ca \<Rightarrow>
     (case dataFromFile lib (TLSCertFile c) of Inl e \<Rightarrow> Inl e | Inr cert \<Rightarrow>
     (case dataFromFile lib (TLSKeyFile c) of Inl e \<Rightarrow> Inl e | Inr key \<Rightarrow> Inr (ca, cert, key))))"

definition tlsCache_get :: "client_lib \<Rightarrow> rest_config \<Rightarrow> go_error + round_tripper" where
  "tlsCache_get lib c =
     (case loadTLSFiles lib c of
        Inl e \<Rightarrow> Inl e
      | Inr (ca, cert, key) \<Rightarrow>
          if \<not> (HasCA c \<or> HasCertAuth c \<or> Insecure c) then Inr DefaultTransport
          else if HasCA c \<and> Insecure c then
            Inl (PlainErr ''specifying a root certificates file with the insecure flag is not allowed'')
          else if HasCertAuth c then
            (case key_pair lib cert key of
               Some e \<Rightarrow> Inl e
             | None \<Rightarrow> Inr (TLSTransport (Insecure c) ca cert key))
          else Inr (TLSTransport (Insecure c) ca '''' ''''))"

definition DebugWrappers :: "client_lib \<Rightarrow> round_tripper \<Rightarrow> round_tripper" where
  "DebugWrappers lib rt = (if 6 \<le> glog_level lib then DebuggingRT rt else rt)"

definition HTTPWrappersForConfig :: "client_lib \<Rightarrow> rest_config \<Rightarrow> round_tripper \<Rightarrow> go_error + round_tripper" where
  "HTTPWrappersForConfig lib c rt =
     (let rt1 = DebugWrappers lib rt;
          hasToken = (BearerToken c \<noteq> '''');
          hasBasic = (Username c \<noteq> '''')
      in if hasBasic \<and> hasToken then
           Inl (PlainErr ''username/password or bearer token may be set, but not both'')
         else
           (let rt2 = (if hasToken then BearerAuthRT (BearerToken c) rt1
                       else if hasBasic then BasicAuthRT (Username c) (Password c) rt1 else rt1)
            in Inr (if 0 < length (UserAgent c) then UserAgentRT (UserAgent c) rt2 else rt2)))"

definition TransportFor :: "client_lib \<Rightarrow> rest_config \<Rightarrow> go_error + round_tripper" where
  "TransportFor lib c = (case tlsCache_get lib c of
      Inl e \<Rightarrow> Inl e | Inr rt \<Rightarrow> HTTPWrappersForConfig lib c rt)"

section \<open>REST clients\<close>

text \<open>
  \<open>http_client\<close> is the \<open>http.Client\<close> with its transport and its timeout; without one a request uses
  \<open>http.DefaultClient\<close>, which has no timeout.
\<close>

record rest_client =
  base :: base_url
  versionedAPIPath :: string
  contentGroupVersion :: GroupVersion
  contentType :: string
  codec :: serializer
  Throttle :: "(int \<times> int) option"
  http_client :: "(round_tripper \<times> int) option"

definition ContentTypeJSON :: string where
  "ContentTypeJSON = ''application/json''"

fun SupportedMediaTypes :: "serializer \<Rightarrow> string list" where
  "SupportedMediaTypes DirectCodecFactory = [ContentTypeJSON, ''application/yaml'', ''application/vnd.kubernetes.protobuf'']"
| "SupportedMediaTypes DynamicCodec = [ContentTypeJSON]"

definition group_path :: "string \<Rightarrow> GroupVersion option \<Rightarrow> string" where
  "group_path apiPath gv =
     (let g = (case gv of None \<Rightarrow> '''' | Some x \<Rightarrow> GV_Group x);
          v = (case gv of None \<Rightarrow> '''' | Some x \<Rightarrow> GV_Version x);
          p = path_Join [''/'', apiPath]
      in if 0 < length g then path_Join [p, g, v] else path_Join [p, v])"

definition defaultServerUrlFor :: "client_lib \<Rightarrow> rest_config \<Rightarrow> go_error + base_url \<times> string" where
  "defaultServerUrlFor lib c =
     (let defaultTLS = (HasCA c \<or> HasCertAuth c \<or> Insecure c);
          host = (if RestHost c = '''' then ''localhost'' else RestHost c)
      in case server_url lib host defaultTLS of
           Inl e \<Rightarrow> Inl e
         | Inr u \<Rightarrow> Inr (u, group_path (APIPath c) (RestGroupVersion c)))"

definition has_suffix_slash :: "string \<Rightarrow> bool" where
  "has_suffix_slash p \<longleftrightarrow> p \<noteq> '''' \<and> last p = CHR ''/''"

definition NewRESTClient :: "base_url \<Rightarrow> string \<Rightarrow> rest_config \<Rightarrow> GroupVersion \<Rightarrow> serializer \<Rightarrow> int \<Rightarrow> int
    \<Rightarrow> (round_tripper \<times> int) option \<Rightarrow> go_error + rest_client" where
  "NewRESTClient u path c gv ser maxQPS maxBurst cl =
     (let ct = (if length (ContentType c) = 0 then ContentTypeJSON else ContentType c)
      in if ct \<notin> set (SupportedMediaTypes ser) then Inl (PlainErr (''no serializers registered for '' @ ct))
         else Inr \<lparr>base = u\<lparr>Base_Path := (if has_suffix_slash (Base_Path u) then Base_Path u else Base_Path u @ ''/'')\<rparr>,
           versionedAPIPath = path, contentGroupVersion = gv, contentType = ct, codec = ser,
           Throttle = (if 0 < maxQPS then Some (maxQPS, maxBurst) else None), http_client = cl\<rparr>)"

text \<open>The \<open>http.Client\<close> is only made for a transport other than the default one.\<close>

definition http_client_for :: "rest_config \<Rightarrow> round_tripper \<Rightarrow> (round_tripper \<times> int) option" where
  "http_client_for c rt =
     (if rt \<noteq> DefaultTransport then Some (rt, if 0 < Timeout c then Timeout c else 0) else None)"

definition RESTClientFor :: "client_lib \<Rightarrow> rest_config \<Rightarrow> go_error + rest_client" where
  "RESTClientFor lib c =
     (case RestGroupVersion c of
        None \<Rightarrow> Inl (PlainErr ''GroupVersion is required when initializing a RESTClient'')
      | Some gv \<Rightarrow>
     (case NegotiatedSerializer c of
        None \<Rightarrow> Inl (PlainErr ''NegotiatedSerializer is required when initializing a RESTClient'')
      | Some ser \<Rightarrow>
     (case defaultServerUrlFor lib c of
        Inl e \<Rightarrow> Inl e
      | Inr (u, path) \<Rightarrow>
     (case TransportFor lib c of
        Inl e \<Rightarrow> Inl e
      | Inr rt \<Rightarrow>
          NewRESTClient u path c gv ser (if QPS c = 0 then 5 else QPS c) (if Burst c = 0 then 10 else Burst c)
            (http_client_for c rt)))))"

definition UnversionedRESTClientFor :: "client_lib \<Rightarrow> rest_config \<Rightarrow> go_error + rest_client" where
  "UnversionedRESTClientFor lib c =
     (case NegotiatedSerializer c of
        None \<Rightarrow> Inl (PlainErr ''NeogitatedSerializer is required when initializing a RESTClient'')
      | Some ser \<Rightarrow>
     (case defaultServerUrlFor lib c of
        Inl e \<Rightarrow> Inl e
      | Inr (u, path) \<Rightarrow>
     (case TransportFor lib c of
        Inl e \<Rightarrow> Inl e
      | Inr rt \<Rightarrow>
          NewRESTClient u path c
            (case RestGroupVersion c of None \<Rightarrow> \<lparr>GV_Group = ''meta.k8s.io'', GV_Version = ''v1''\<rparr> | Some gv \<Rightarrow> gv)
            ser (QPS c) (Burst c) (http_client_for c rt))))"

text \<open>What bounds the time of a request of the client, and where its paths begin.\<close>

definition request_timeout :: "rest_client \<Rightarrow> int option" where
  "request_timeout cl = (case http_client cl of
      None \<Rightarrow> None | Some (rt, t) \<Rightarrow> if 0 < t then Some t else None)"

definition pathPrefix :: "rest_client \<Rightarrow> string" where
  "pathPrefix cl = path_Join [path_Join [''/'', Base_Path (base cl)], versionedAPIPath cl]"

section \<open>The client of Kong\<close>

record CoreClient =
  restClient :: rest_client

text \<open>The methods have a pointer receiver; \<open>None\<close> is nil.\<close>

definition RESTClient :: "CoreClient option \<Rightarrow> rest_client option" where
  "RESTClient c = (case c of None \<Rightarrow> None | Some cc \<Rightarrow> Some (restClient cc))"

record apiKong =
  client :: "rest_client option"
  resource_Name :: string
  resource_Namespaced :: bool

record plugin_client = apiKong +
  plugin_nameOrID :: string

definition newAPI :: "CoreClient option \<Rightarrow> apiKong" where
  "newAPI c = \<lparr>client = RESTClient c, resource_Name = ''apis'', resource_Namespaced = False\<rparr>"

definition newPlugin :: "CoreClient option \<Rightarrow> string \<Rightarrow> plugin_client" where
  "newPlugin c nameOrID = \<lparr>client = RESTClient c, resource_Name = ''apis'', resource_Namespaced = False,
     plugin_nameOrID = nameOrID\<rparr>"

definition CoreClient_API :: "CoreClient option \<Rightarrow> apiKong" where
  "CoreClient_API c = newAPI c"

definition CoreClient_Plugin :: "CoreClient option \<Rightarrow> string \<Rightarrow> plugin_client" where
  "CoreClient_Plugin c apiNameOrID = newPlugin c apiNameOrID"

definition dynamic_ContentConfig :: "rest_config \<Rightarrow> rest_config" where
  "dynamic_ContentConfig c = c\<lparr>AcceptContentTypes := ContentTypeJSON, ContentType := ContentTypeJSON,
     RestGroupVersion := None, NegotiatedSerializer := Some DynamicCodec\<rparr>"

definition NewKongRESTClient :: "client_lib \<Rightarrow> rest_config \<Rightarrow> go_error + CoreClient" where
  "NewKongRESTClient lib c = (case UnversionedRESTClientFor lib (dynamic_ContentConfig c) of
      Inl e \<Rightarrow> Inl e | Inr cl \<Rightarrow> Inr \<lparr>restClient = cl\<rparr>)"

section \<open>The configurations of main\<close>

definition kong_config :: "Config \<Rightarrow> rest_config" where
  "kong_config cfg = empty_rest_config\<lparr>RestHost := KongAdminHost cfg, Timeout := 2 * 10 ^ 9\<rparr>"

text \<open>\<open>TLSConfig.Insecure\<close> is set by no flag: \<open>TLSInsecure\<close> is another field.\<close>

definition cluster_config :: "client_lib \<Rightarrow> Config \<Rightarrow> go_error + rest_config" where
  "cluster_config lib cfg =
     (if length (ApiServerHost cfg) = 0 then in_cluster lib
      else Inr (empty_rest_config\<lparr>RestHost := ApiServerHost cfg, TLSCertFile := CertFile cfg,
                  TLSKeyFile := KeyFile cfg, TLSCAFile := CAFile cfg\<rparr>))"

text \<open>\<open>extConfig\<close> is the same pointer as \<open>config\<close>: these settings are there for every later client.\<close>

definition ext_config :: "rest_config \<Rightarrow> rest_config" where
  "ext_config c = c\<lparr>APIPath := ''/apis'', RestGroupVersion := Some SchemeGroupVersion,
     ContentType := ContentTypeJSON, NegotiatedSerializer := Some DirectCodecFactory\<rparr>"

definition setConfigDefaults :: "client_lib \<Rightarrow> GroupVersion \<Rightarrow> string \<Rightarrow> rest_config \<Rightarrow> rest_config" where
  "setConfigDefaults lib gv path c = c\<lparr>RestGroupVersion := Some gv, APIPath := path,
     NegotiatedSerializer := Some DirectCodecFactory,
     UserAgent := (if UserAgent c = '''' then user_agent lib else UserAgent c)\<rparr>"

text \<open>\<open>NewForConfig\<close> of a typed client copies its configuration.\<close>

definition typed_client :: "client_lib \<Rightarrow> GroupVersion \<times> string \<Rightarrow> rest_config \<Rightarrow> go_error + rest_client" where
  "typed_client lib g c = RESTClientFor lib (setConfigDefaults lib (fst g) (snd g) c)"

definition core_v1 :: "GroupVersion \<times> string" where
  "core_v1 = (\<lparr>GV_Group = '''', GV_Version = ''v1''\<rparr>, ''/api'')"

definition extensions_v1beta1 :: "GroupVersion \<times> string" where
  "extensions_v1beta1 = (\<lparr>GV_Group = ''extensions'', GV_Version = ''v1beta1''\<rparr>, ''/apis'')"

definition apiextensions_v1beta1 :: "GroupVersion \<times> string" where
  "apiextensions_v1beta1 = (\<lparr>GV_Group = ''apiextensions.k8s.io'', GV_Version = ''v1beta1''\<rparr>, ''/apis'')"

definition error_of :: "go_error + 'a \<Rightarrow> go_error option" where
  "error_of r = (case r of Inl e \<Rightarrow> Some e | Inr x \<Rightarrow> None)"

text \<open>What the flow of \<open>main\<close> finds when it builds its clients.\<close>

definition with_clients :: "client_lib \<Rightarrow> Config \<Rightarrow> 'w launch \<Rightarrow> 'w launch" where
  "with_clients lib cfg L =
     (let config = cluster_config lib cfg
      in L\<lparr>kong_client_error := error_of (NewKongRESTClient lib (kong_config cfg)),
           cluster_config_error := error_of config,
           ext_client_error := (case config of Inl e \<Rightarrow> None | Inr c \<Rightarrow> error_of (RESTClientFor lib (ext_config c))),
           kube_client_error := (case config of
               Inl e \<Rightarrow> None
             | Inr c \<Rightarrow> error_of (typed_client lib core_v1 (ext_config c)))\<rparr>)"

end
