(* ===== verification/Http_Exchange.thy ===== *)
theory Http_Exchange
  imports Client_Setup Rate_Limiter
begin

text \<open>
  The HTTP exchange behind a request of the controller (\<open>client-go/rest/request.go\<close>): the query of the
  URL, the throttle of the client, the backoff of a request, the retry loop of \<open>request\<close>, and what \<open>Do\<close>,
  \<open>DoRaw\<close>, \<open>Error\<close> and \<open>Into\<close> make of a response, with the errors of
  \<open>apimachinery/pkg/api/errors\<close>. \<open>http.Client.Do\<close>, the reading of a body, the parser of media types,
  the serializers and the clock are the fields of \<open>transport\<close>, functions of an arbitrary world.
\<close>

section \<open>The query of a URL\<close>

text \<open>\<open>url.QueryEscape\<close>: letters, digits and four marks stay, a space is a plus sign.\<close>

definition upper_hex :: "nat \<Rightarrow> char" where
  "upper_hex k = char_of (if k < 10 then 48 + k else 55 + k)"

definition unreserved :: "char \<Rightarrow> bool" where
  "unreserved c \<longleftrightarrow> (let n = (of_char c :: nat) in
     48 \<le> n \<and> n \<le> 57 \<or> 65 \<le> n \<and> n \<le> 90 \<or> 97 \<le> n \<and> n \<le> 122 \<or> c \<in> set ''-_.~'')"

definition escape_char :: "char \<Rightarrow> string" where
  "escape_char c =
     (if c = CHR '' '' then ''+''
      else if unreserved c then [c]
      else [CHR ''%'', upper_hex (of_char c div 16), upper_hex (of_char c mod 16)])"

definition QueryEscape :: "string \<Rightarrow> string" where
  "QueryEscape s = concat (map escape_char s)"

text \<open>\<open>url.Values.Encode\<close>: the keys in order, each with its values.\<close>

definition Values_Encode :: "(string \<times> string list) list \<Rightarrow> string" where
  "Values_Encode ps = join_with CHR ''&'' (concat (map (\<lambda>(k, vs).
     map (\<lambda>v. QueryEscape k @ ''='' @ QueryEscape v) vs) (sort_key fst ps)))"

section \<open>Requests and responses\<close>

text \<open>
  \<open>http_sent\<close> are the bytes the reader of the body still holds: \<open>http.NewRequest\<close> is given the reader,
  which an earlier attempt may have advanced.
\<close>

record http_request =
  http_verb :: verb
  http_host :: string
  http_path :: string
  http_query :: string
  http_headers :: "(string \<times> string) list"
  http_sent :: "string option"

datatype net_error = OpError string | UrlError net_error | OtherNetError string

fun net_msg :: "net_error \<Rightarrow> string" where
  "net_msg (OpError m) = m"
| "net_msg (UrlError e) = net_msg e"
| "net_msg (OtherNetError m) = m"

text \<open>The type assertion \<open>err.(*net.OpError)\<close> does not look into a \<open>url.Error\<close>.\<close>

fun IsConnectionReset :: "net_error \<Rightarrow> bool" where
  "IsConnectionReset (OpError m) = (m = ''connection reset by peer'')"
| "IsConnectionReset _ = False"

text \<open>An error of reading a body: as \<open>%#v\<close> shows it, and its message.\<close>

datatype read_error = StreamError string string | ReadError string string

record http_response =
  http_status :: int
  http_header :: "string \<Rightarrow> string"
  http_body :: payload
  http_read_err :: "read_error option"

text \<open>What a decoder makes of a body: an error, a \<open>Status\<close> with its reason, or another object.\<close>

datatype decoded_obj = DecodeErr go_error | StatusObj string string string | OtherObj

record 'w transport =
  client_do :: "(round_tripper \<times> int) option \<Rightarrow> http_request \<Rightarrow> 'w \<Rightarrow> ((net_error + http_response) \<times> nat) \<times> 'w"
  pause :: "int \<Rightarrow> 'w \<Rightarrow> unit \<times> 'w"
  clock_now :: "'w \<Rightarrow> int \<times> 'w"
  encode_body :: "body \<Rightarrow> string"
  parse_media :: "string \<Rightarrow> go_error + string"
  decode :: "string \<Rightarrow> payload \<Rightarrow> decoded_obj"
  quoted :: "string \<Rightarrow> string"
  backoff_env :: "string \<times> string"

datatype http_act =
    Attempt http_request "net_error + http_response"
  | BackoffSleep int
  | RetrySleep int
  | ThrottleSleep int

text \<open>The client holds the bucket of its throttle, which all its requests share.\<close>

record 'w client_state =
  throttle_bucket :: "bucket option"
  outside :: 'w

type_synonym ('w, 'a) exchange = "(http_act, 'w client_state, 'a) go"

definition world :: "('w \<Rightarrow> 'a \<times> 'w) \<Rightarrow> 'w client_state \<Rightarrow> 'a \<times> 'w client_state" where
  "world f s = (case f (outside s) of (x, w) \<Rightarrow> (x, s\<lparr>outside := w\<rparr>))"

text \<open>\<open>time.Sleep\<close> returns at once unless the duration is positive.\<close>

definition sleep_for :: "'w transport \<Rightarrow> (int \<Rightarrow> http_act) \<Rightarrow> int \<Rightarrow> ('w, unit) exchange" where
  "sleep_for T act d = (if 0 < d then ask (world (pause T d)) (\<lambda>_. act d) else ret ())"

section \<open>The throttle\<close>

text \<open>
  \<open>NewBucketWithRate\<close> of a whole number of requests a second: it tries quanta from one on, until \<open>quantum\<close>
  tokens each \<open>fillInterval\<close> nanoseconds are within one percent of the rate. The numbers are exact
  here; a \<open>float64\<close> gives the same interval as long as \<open>1e9 * quantum\<close> is below \<open>2 ^ 53\<close>, that is
  for more than eight million tokens at a time, and can differ in the comparison only exactly at
  one percent. A panic, also that of a capacity that is not positive, is None.
\<close>

definition nextQuantum :: "int \<Rightarrow> int" where
  "nextQuantum q = (let q1 = q * 11 div 10 in if q1 = q then q1 + 1 else q1)"

lemma nextQuantum_grows: "0 < q \<Longrightarrow> q < nextQuantum q"
  by (simp add: nextQuantum_def Let_def) linarith

definition in_rate_margin :: "int \<Rightarrow> int \<Rightarrow> int \<Rightarrow> bool" where
  "in_rate_margin rate q fill \<longleftrightarrow> 100 * \<bar>10 ^ 9 * q - rate * fill\<bar> \<le> rate * fill"

function find_quantum :: "int \<Rightarrow> int \<Rightarrow> (int \<times> int) option" where
  "find_quantum rate q =
     (if q \<le> 0 \<or> 2 ^ 50 \<le> q then None
      else let fill = 10 ^ 9 * q div rate
           in if 0 < fill \<and> in_rate_margin rate q fill then Some (q, fill) else find_quantum rate (nextQuantum q))"
  by pat_completeness auto
termination
  by (relation "measure (\<lambda>(rate, q). nat (2 ^ 50 - q))") (use nextQuantum_grows in \<open>auto simp: nat_less_iff\<close>)

declare find_quantum.simps [simp del]

definition NewBucketWithRate :: "int \<Rightarrow> int \<Rightarrow> int \<Rightarrow> bucket option" where
  "NewBucketWithRate rate cap t =
     (if cap \<le> 0 then None
      else map_option (\<lambda>(q, fill). \<lparr>startTime = t, capacity = cap, quantum = q, fillInterval = fill, avail = cap,
             availTick = 0\<rparr>) (find_quantum rate 1))"

definition NewTokenBucketRateLimiter :: "int \<Rightarrow> int \<Rightarrow> int \<Rightarrow> bucket option" where
  "NewTokenBucketRateLimiter qps burst t = NewBucketWithRate qps burst t"

text \<open>The throttle \<open>NewRESTClient\<close> makes, if the client has one; the outer None is the panic.\<close>

definition new_throttle :: "rest_client \<Rightarrow> int \<Rightarrow> bucket option option" where
  "new_throttle cl t = (case Throttle cl of
      None \<Rightarrow> Some None
    | Some (qps, burst) \<Rightarrow> map_option Some (NewTokenBucketRateLimiter qps burst t))"

definition take_token :: "int \<Rightarrow> 'w client_state \<Rightarrow> int \<times> 'w client_state" where
  "take_token t s = (case throttle_bucket s of
      None \<Rightarrow> (0, s)
    | Some tb \<Rightarrow> (case bucket_take t 1 tb of (d, tb') \<Rightarrow> (d, s\<lparr>throttle_bucket := Some tb'\<rparr>)))"

definition silent :: "('s \<Rightarrow> 'a \<times> 's) \<Rightarrow> ('e, 's, 'a) go" where
  "silent f = (\<lambda>s. case f s of (x, s') \<Rightarrow> (Done x, [], s'))"

definition tryThrottle :: "'w transport \<Rightarrow> ('w, unit) exchange" where
  "tryThrottle T =
     bnd (silent (\<lambda>s. (throttle_bucket s, s))) (\<lambda>tb.
     if tb = None then ret ()
     else bnd (silent (world (clock_now T))) (\<lambda>t.
          bnd (silent (take_token t)) (\<lambda>d. sleep_for T ThrottleSleep d)))"

section \<open>The backoff of a request\<close>

text \<open>
  \<open>Verb\<close> makes the backoff manager of each request anew, so it has seen the attempts of this request
  only, all to the same host; the entry is the delay and the time of its last update.
\<close>

datatype backoff_mgr = NoBackoff | URLBackoff (default_backoff: int) (max_backoff: int) (backoff_entry: "(int \<times> int) option")

definition seconds :: "int \<Rightarrow> int" where
  "seconds n = sint (word_of_int n * 1000000000 :: 64 word)"

definition readExpBackoffConfig :: "string \<times> string \<Rightarrow> backoff_mgr" where
  "readExpBackoffConfig env = (case (Atoi (fst env), Atoi (snd env)) of
      (Some b, Some d) \<Rightarrow> URLBackoff (seconds b) (seconds d) None
    | _ \<Rightarrow> NoBackoff)"

definition CalculateBackoff :: "backoff_mgr \<Rightarrow> int" where
  "CalculateBackoff b = (case b of URLBackoff d m (Some (delay, t)) \<Rightarrow> delay | _ \<Rightarrow> 0)"

definition doubled :: "int \<Rightarrow> int" where
  "doubled d = sint (word_of_int d * 2 :: 64 word)"

definition hasExpired :: "int \<Rightarrow> int \<Rightarrow> int \<Rightarrow> bool" where
  "hasExpired eventTime lastUpdate m \<longleftrightarrow> doubled m < eventTime - lastUpdate"

definition backoff_Next :: "int \<Rightarrow> int \<Rightarrow> (int \<times> int) option \<Rightarrow> int \<Rightarrow> int \<Rightarrow> int \<times> int" where
  "backoff_Next d m entry eventTime t = (case entry of
      None \<Rightarrow> (d, t)
    | Some (delay, upd) \<Rightarrow> if hasExpired eventTime upd m then (d, t) else (min (doubled delay) m, t))"

definition UpdateBackoff :: "'w transport \<Rightarrow> backoff_mgr \<Rightarrow> int \<Rightarrow> ('w, backoff_mgr) exchange" where
  "UpdateBackoff T b code = (case b of
      NoBackoff \<Rightarrow> ret NoBackoff
    | URLBackoff d m entry \<Rightarrow>
        if 499 < code \<or> code = 429 then
          bnd (silent (world (clock_now T))) (\<lambda>e.
          bnd (silent (world (clock_now T))) (\<lambda>t. ret (URLBackoff d m (Some (backoff_Next d m entry e t)))))
        else ret (URLBackoff d m None))"

section \<open>The retry loop\<close>

definition retryAfterSeconds :: "http_response \<Rightarrow> int \<times> bool" where
  "retryAfterSeconds resp =
     (let h = http_header resp ''Retry-After''
      in if 0 < length h then (case Atoi h of Some i \<Rightarrow> (i, True) | None \<Rightarrow> (0, False)) else (0, False))"

definition checkWait :: "http_response \<Rightarrow> int \<times> bool" where
  "checkWait resp = (if http_status resp = 429 \<or> 500 \<le> http_status resp then retryAfterSeconds resp else (0, False))"

text \<open>The response that stands for a connection that was reset.\<close>

definition reset_response :: http_response where
  "reset_response = \<lparr>http_status = 500, http_header = (\<lambda>k. if k = ''Retry-After'' then ''1'' else ''''),
     http_body = Payload '''' None, http_read_err = None\<rparr>"

text \<open>The headers: \<open>Accept\<close> of \<open>NewRequest\<close>, \<open>Content-Type\<close> of the body or of the kind of the patch.\<close>

fun body_header :: "string \<Rightarrow> body \<Rightarrow> (string \<times> string) list" where
  "body_header ct NoBody = []"
| "body_header ct (JsonBody j) = [(''Content-Type'', ''application/json'')]"
| "body_header ct (DomainBody d) = [(''Content-Type'', ct)]"
| "body_header ct (PatchBody MergePatch j) = [(''Content-Type'', ''application/merge-patch+json'')]"
| "body_header ct (PatchBody StrategicMergePatch j) = [(''Content-Type'', ''application/strategic-merge-patch+json'')]"

definition body_bytes :: "'w transport \<Rightarrow> request \<Rightarrow> string option" where
  "body_bytes T q = (if req_body q = NoBody then None else Some (encode_body T (req_body q)))"

text \<open>
  The requests to the root of Kong replace the path of the client (\<open>RequestURI("/")\<close>); only the
  configuration of the dynamic client sets the accepted types.
\<close>

definition request_path :: "rest_client \<Rightarrow> request \<Rightarrow> string" where
  "request_path cl q = (if q = root_request then ''/'' else URL_path (pathPrefix cl) q)"

definition accept_header :: "rest_client \<Rightarrow> string" where
  "accept_header cl = (if codec cl = DynamicCodec then ContentTypeJSON else contentType cl @ '', */*'')"

definition build_request :: "'w transport \<Rightarrow> rest_client \<Rightarrow> request \<Rightarrow> nat \<Rightarrow> http_request" where
  "build_request T cl q pos =
     \<lparr>http_verb = verb_of q, http_host = Base_Host (base cl), http_path = request_path cl q,
      http_query = Values_Encode (params q),
      http_headers = (''Accept'', accept_header cl) # body_header (contentType cl) (req_body q),
      http_sent = map_option (drop pos) (body_bytes T q)\<rparr>"

definition maxRetries :: nat where
  "maxRetries = 10"

text \<open>
  \<open>pos\<close> is the offset of the reader of the body; \<open>Seek(0, 0)\<close> cannot fail on the \<open>bytes.Reader\<close> that
  every body of the program is.
\<close>

function request_loop :: "'w transport \<Rightarrow> rest_client \<Rightarrow> request \<Rightarrow> nat \<Rightarrow> nat \<Rightarrow> backoff_mgr
    \<Rightarrow> ('w, go_error + http_response) exchange" where
  "request_loop T cl q retries pos b =
     (let req = build_request T cl q pos in
      bnd (sleep_for T BackoffSleep (CalculateBackoff b)) (\<lambda>_.
      bnd (if 0 < retries then tryThrottle T else ret ()) (\<lambda>_.
      bnd (ask (world (client_do T (http_client cl) req)) (\<lambda>ans. Attempt req (fst ans))) (\<lambda>ans.
      bnd (UpdateBackoff T b (case fst ans of Inl e \<Rightarrow> 0 | Inr resp \<Rightarrow> http_status resp)) (\<lambda>b'.
      case (case fst ans of
              Inl e \<Rightarrow> if \<not> IsConnectionReset e \<or> verb_of q \<noteq> GET then Inl e else Inr reset_response
            | Inr resp \<Rightarrow> Inr resp) of
        Inl e \<Rightarrow> ret (Inl (PlainErr (net_msg e)))
      | Inr resp \<Rightarrow>
          if snd (checkWait resp) \<and> Suc retries < maxRetries then
            bnd (sleep_for T RetrySleep (seconds (fst (checkWait resp)))) (\<lambda>_.
              request_loop T cl q (Suc retries) (if req_body q = NoBody then pos + snd ans else 0) b')
          else ret (Inr resp))))))"
  by pat_completeness auto

termination
  by (relation "measure (\<lambda>(T, cl, q, retries, pos, b). maxRetries - retries)") (auto simp: maxRetries_def)

declare request_loop.simps [simp del]

definition namespace_error :: "request \<Rightarrow> go_error option" where
  "namespace_error q =
     (if verb_of q \<in> {GET, PUT, DELETE} \<and> req_namespace q = Some '''' \<and> 0 < length (case req_name q of None \<Rightarrow> '''' | Some n \<Rightarrow> n)
      then Some (PlainErr ''an empty namespace may not be set when a resource name is provided'')
      else if verb_of q = POST \<and> req_namespace q = Some ''''
      then Some (PlainErr ''an empty namespace may not be set during creation'')
      else None)"

definition do_exchange :: "'w transport \<Rightarrow> rest_client \<Rightarrow> request \<Rightarrow> ('w, go_error + http_response) exchange" where
  "do_exchange T cl q = (case request_error q of
      Some e \<Rightarrow> ret (Inl e)
    | None \<Rightarrow> (case namespace_error q of
        Some e \<Rightarrow> ret (Inl e)
      | None \<Rightarrow> request_loop T cl q 0 0 (readExpBackoffConfig (backoff_env T))))"

section \<open>Errors of a response\<close>

definition generic_reason :: "int \<Rightarrow> verb \<Rightarrow> string" where
  "generic_reason code v =
     (if code = 409 then (if v = POST then ''AlreadyExists'' else ''Conflict'')
      else if code = 404 then ''NotFound''
      else if code = 400 then ''BadRequest''
      else if code = 401 then ''Unauthorized''
      else if code = 403 then ''Forbidden''
      else if code = 405 then ''MethodNotAllowed''
      else if code = 422 then ''Invalid''
      else if code = 504 then ''Timeout''
      else if code = 429 then ''TooManyRequests''
      else if 500 \<le> code then ''InternalError''
      else '''')"

definition generic_message :: "'w transport \<Rightarrow> int \<Rightarrow> string \<Rightarrow> string" where
  "generic_message T code msg =
     (if code = 409 then ''the server reported a conflict''
      else if code = 404 then ''the server could not find the requested resource''
      else if code = 400 then ''the server rejected our request for an unknown reason''
      else if code = 401 then ''the server has asked for the client to provide credentials''
      else if code = 403 then msg
      else if code = 405 then ''the server does not allow this method on the requested resource''
      else if code = 422 then ''the server rejected our request due to an error in our request''
      else if code = 504 then ''the server was unable to return a response in the time allotted, but may still be processing the request''
      else if code = 429 then ''the server has received too many requests and has asked us to try again later''
      else if 500 \<le> code then ''an error on the server ('' @ quoted T msg @ '') has prevented the request from succeeding''
      else ''the server responded with the status code '' @ show_int code @ '' but did not return more information'')"

fun verb_text :: "verb \<Rightarrow> string" where
  "verb_text GET = ''get''" | "verb_text PUT = ''put''" | "verb_text POST = ''post''"
| "verb_text PATCH = ''patch''" | "verb_text DELETE = ''delete''"

definition group_resource :: "string \<Rightarrow> string \<Rightarrow> string" where
  "group_resource grp res = (if grp = '''' then res else res @ ''.'' @ grp)"

text \<open>The reasons of a \<open>Status\<close>, as far as the callers of the controller tell them apart.\<close>

definition reason_class :: "string \<Rightarrow> status_reason" where
  "reason_class r = (if r = ''NotFound'' then NotFound else if r = ''Conflict'' then Conflict
     else if r = ''AlreadyExists'' then AlreadyExists else OtherReason)"

definition NewGenericServerResponse :: "'w transport \<Rightarrow> int \<Rightarrow> verb \<Rightarrow> string \<Rightarrow> string \<Rightarrow> string \<Rightarrow> string \<Rightarrow> go_error" where
  "NewGenericServerResponse T code v grp res name msg =
     (let m = generic_message T code msg;
          m' = (if \<not> (grp = '''' \<and> res = '''') \<and> 0 < length name
                then m @ '' ('' @ verb_text v @ '' '' @ group_resource grp res @ '' '' @ name @ '')''
                else if \<not> (grp = '''' \<and> res = '''') then m @ '' ('' @ verb_text v @ '' '' @ group_resource grp res @ '')''
                else m)
      in StatusErr (reason_class (generic_reason code v)) m')"

definition isTextResponse :: "'w transport \<Rightarrow> http_response \<Rightarrow> bool" where
  "isTextResponse T resp =
     (let ct = http_header resp ''Content-Type''
      in if length ct = 0 then True
         else case parse_media T ct of Inl e \<Rightarrow> False | Inr media \<Rightarrow> take 5 media = ''text/'')"

definition is_space :: "char \<Rightarrow> bool" where
  "is_space c \<longleftrightarrow> (of_char c :: nat) \<in> {9, 10, 11, 12, 13, 32}"

definition TrimSpace :: "string \<Rightarrow> string" where
  "TrimSpace s = rev (dropWhile is_space (rev (dropWhile is_space s)))"

definition maxUnstructuredResponseTextBytes :: nat where
  "maxUnstructuredResponseTextBytes = 2048"

definition newUnstructuredResponseError :: "'w transport \<Rightarrow> rest_client \<Rightarrow> request \<Rightarrow> http_response \<Rightarrow> go_error" where
  "newUnstructuredResponseError T cl q resp =
     (let text = take maxUnstructuredResponseTextBytes (payload_text (http_body resp));
          message = (if isTextResponse T resp then TrimSpace text else ''unknown'');
          grp = (if 0 < length (resource q) then GV_Group (contentGroupVersion cl) else '''')
      in NewGenericServerResponse T (http_status resp) (verb_of q) grp (resource q)
           (case req_name q of None \<Rightarrow> '''' | Some n \<Rightarrow> n) message)"

section \<open>Results\<close>

text \<open>\<open>unexpected\<close>: the error is one that \<open>IsUnexpectedServerError\<close> recognizes. \<open>decoder\<close>: its media type.\<close>

record http_result =
  result_body :: "payload option"
  result_type :: string
  result_status :: int
  result_err :: "go_error option"
  unexpected :: bool
  decoder :: "string option"

definition failed_exchange :: "go_error \<Rightarrow> http_result" where
  "failed_exchange e = \<lparr>result_body = None, result_type = '''', result_status = 0, result_err = Some e,
     unexpected = False, decoder = None\<rparr>"

definition out_of_range :: "int \<Rightarrow> bool" where
  "out_of_range code \<longleftrightarrow> code < 200 \<or> 206 < code"

fun read_message :: "read_error \<Rightarrow> string" where
  "read_message (StreamError v m) = ''Stream error '' @ v @ '' when reading response body, may be caused by closed connection. Please retry.''"
| "read_message (ReadError v m) = ''Unexpected error '' @ v @ '' when reading response body. Please retry.''"

text \<open>The decoder: the client's own, or one negotiated for another content type.\<close>

datatype negotiation = BadMedia go_error | NoDecoder | Decoder string

definition negotiate :: "'w transport \<Rightarrow> rest_client \<Rightarrow> string \<Rightarrow> negotiation" where
  "negotiate T cl ct =
     (if 0 < length ct \<and> 0 < length (contentType cl) \<and> ct \<noteq> contentType cl then
        (case parse_media T ct of
           Inl e \<Rightarrow> BadMedia e
         | Inr media \<Rightarrow> if media \<in> set (SupportedMediaTypes (codec cl)) then Decoder media else NoDecoder)
      else Decoder (contentType cl))"

definition transformResponse :: "'w transport \<Rightarrow> rest_client \<Rightarrow> request \<Rightarrow> http_response \<Rightarrow> http_result" where
  "transformResponse T cl q resp =
     (case http_read_err resp of
        Some e \<Rightarrow> failed_exchange (PlainErr (read_message e))
      | None \<Rightarrow>
          (let ct = http_header resp ''Content-Type'';
               code = http_status resp;
               err = newUnstructuredResponseError T cl q resp
           in case negotiate T cl ct of
                BadMedia e \<Rightarrow> failed_exchange (StatusErr OtherReason (''Internal error occurred: '' @ err_msg e))
              | NoDecoder \<Rightarrow>
                  if code \<noteq> 101 \<and> out_of_range code then (failed_exchange err)\<lparr>unexpected := True\<rparr>
                  else \<lparr>result_body = Some (http_body resp), result_type = ct, result_status = code, result_err = None,
                        unexpected = False, decoder = None\<rparr>
              | Decoder media \<Rightarrow>
                  \<lparr>result_body = Some (http_body resp), result_type = ct, result_status = code,
                   result_err = (if code \<noteq> 101 \<and> out_of_range code then Some err else None),
                   unexpected = (code \<noteq> 101 \<and> out_of_range code), decoder = Some media\<rparr>))"

text \<open>\<open>Do\<close>; the throttle comes before everything else.\<close>

definition Do :: "'w transport \<Rightarrow> rest_client \<Rightarrow> request \<Rightarrow> ('w, http_result) exchange" where
  "Do T cl q = bnd (tryThrottle T) (\<lambda>_. bnd (do_exchange T cl q) (\<lambda>r. ret (case r of
      Inl e \<Rightarrow> failed_exchange e
    | Inr resp \<Rightarrow> transformResponse T cl q resp)))"

text \<open>
  \<open>DoRaw\<close> keeps what it could read of the body; the error of the status hides that of the reading.
\<close>

fun read_text :: "read_error \<Rightarrow> string" where
  "read_text (StreamError v m) = m" | "read_text (ReadError v m) = m"

definition DoRaw :: "'w transport \<Rightarrow> rest_client \<Rightarrow> request \<Rightarrow> ('w, rest_result) exchange" where
  "DoRaw T cl q = bnd (tryThrottle T) (\<lambda>_. bnd (do_exchange T cl q) (\<lambda>r. ret (case r of
      Inl e \<Rightarrow> failed_result e
    | Inr resp \<Rightarrow> \<lparr>res_body = Some (http_body resp), res_status = 0,
        res_err = (if out_of_range (http_status resp) then Some (newUnstructuredResponseError T cl q resp)
                   else map_option (\<lambda>e. PlainErr (read_text e)) (http_read_err resp))\<rparr>)))"

definition Result_Raw :: "http_result \<Rightarrow> rest_result" where
  "Result_Raw r = \<lparr>res_body = result_body r, res_status = result_status r, res_err = result_err r\<rparr>"

text \<open>\<open>Result.Error\<close>: a \<open>Status\<close> that reports a failure in the body replaces the generic error.\<close>

definition body_empty :: "http_result \<Rightarrow> bool" where
  "body_empty r \<longleftrightarrow> (case result_body r of None \<Rightarrow> True | Some p \<Rightarrow> payload_text p = '''')"

definition Result_Error :: "'w transport \<Rightarrow> http_result \<Rightarrow> go_error option" where
  "Result_Error T r =
     (if result_err r = None \<or> \<not> unexpected r \<or> body_empty r then result_err r
      else case (decoder r, result_body r) of
        (Some media, Some p) \<Rightarrow>
          (case decode T media p of
             StatusObj st reason m \<Rightarrow> if st = ''Failure'' then Some (StatusErr (reason_class reason) m) else result_err r
           | _ \<Rightarrow> result_err r)
      | _ \<Rightarrow> result_err r)"

definition Result_Into :: "'w transport \<Rightarrow> http_result \<Rightarrow> go_error option" where
  "Result_Into T r =
     (if result_err r \<noteq> None then Result_Error T r
      else case decoder r of
        None \<Rightarrow> Some (PlainErr (''serializer for '' @ result_type r @ '' doesn't exist''))
      | Some media \<Rightarrow>
          if body_empty r then Some (PlainErr ''0-length response'')
          else (case decode T media (the (result_body r)) of
                  DecodeErr e \<Rightarrow> Some e
                | StatusObj st reason m \<Rightarrow> if st \<noteq> ''Success'' then Some (StatusErr (reason_class reason) m) else None
                | OtherObj \<Rightarrow> None))"

section \<open>The calls of the controller\<close>

text \<open>
  How each request of the controller ends: \<open>DoRaw()\<close>, \<open>Do()\<close> read with \<open>Raw()\<close>, \<open>Do().Error()\<close>, and
  \<open>Do().Into(result)\<close> in the typed clients.
\<close>

datatype call_kind = CallRaw | CallResult | CallError | CallInto

definition call_kind_of :: "request \<Rightarrow> call_kind" where
  "call_kind_of q =
     (case srv q of
        CoreServer \<Rightarrow> CallInto
      | DomainServer \<Rightarrow> CallRaw
      | KongAdmin \<Rightarrow>
          if verb_of q = DELETE then CallError
          else if sub_resource q = '''' \<and> resource q = ''apis'' \<and> (verb_of q = PUT \<or> req_name q \<noteq> None) then CallResult
          else CallRaw)"

definition http_call :: "'w transport \<Rightarrow> rest_client \<Rightarrow> request \<Rightarrow> ('w, rest_result) exchange" where
  "http_call T cl q = (case call_kind_of q of
      CallRaw \<Rightarrow> DoRaw T cl q
    | CallResult \<Rightarrow> bnd (Do T cl q) (\<lambda>r. ret (Result_Raw r))
    | CallError \<Rightarrow> bnd (Do T cl q) (\<lambda>r. ret ((Result_Raw r)\<lparr>res_err := Result_Error T r\<rparr>))
    | CallInto \<Rightarrow> bnd (Do T cl q) (\<lambda>r. ret ((Result_Raw r)\<lparr>res_err := Result_Into T r\<rparr>)))"

end
