(* ===== verification/Http_Safety.thy ===== *)
theory Http_Safety
  imports Http_Exchange
begin

text \<open>
  What an exchange does: how often and with what a request is sent, which answer decides, how the
  status of the answer becomes the error the controller looks at, and what the server reads of a
  query. The triples \<open>runs\<close> are about total correctness: the exchange returns, and its actions and
  its result are related.
\<close>

section \<open>Total triples\<close>

definition runs :: "('e, 's, 'a) go \<Rightarrow> ('a \<Rightarrow> 'e list \<Rightarrow> bool) \<Rightarrow> bool" where
  "runs m Q \<longleftrightarrow> (\<forall>s. \<exists>x t s'. m s = (Done x, t, s') \<and> Q x t)"

named_theorems runs_intros "one rule for each combinator"

lemma runsD: "runs m Q \<Longrightarrow> m s = (r, t, s') \<Longrightarrow> \<exists>x. r = Done x \<and> Q x t"
  unfolding runs_def by (metis Pair_inject)

lemma runs_weaken: "runs m Q \<Longrightarrow> (\<And>x t. Q x t \<Longrightarrow> Q' x t) \<Longrightarrow> runs m Q'"
  unfolding runs_def by blast

lemma runs_ret [runs_intros]: "Q x [] \<Longrightarrow> runs (ret x) Q"
  by (simp add: runs_def ret_def)

lemma runs_ask [runs_intros]: "(\<And>x. Q x [act x]) \<Longrightarrow> runs (ask f act) Q"
  by (auto simp: runs_def ask_def split: prod.splits)

lemma runs_silent [runs_intros]: "(\<And>x. Q x []) \<Longrightarrow> runs (silent f) Q"
  by (auto simp: runs_def silent_def split: prod.splits)

lemma runs_bnd: "runs m R \<Longrightarrow> (\<And>x t. R x t \<Longrightarrow> runs (f x) (\<lambda>y t'. Q y (t @ t'))) \<Longrightarrow> runs (bnd m f) Q"
  unfolding runs_def
proof
  fix s
  assume "\<forall>s. \<exists>x t s'. m s = (Done x, t, s') \<and> R x t"
  then obtain x t s' where m: "m s = (Done x, t, s')" "R x t" by blast
  moreover assume "\<And>x t. R x t \<Longrightarrow> \<forall>s. \<exists>y t' s'. f x s = (Done y, t', s') \<and> Q y (t @ t')"
  ultimately obtain y t' s'' where "f x s' = (Done y, t', s'')" "Q y (t @ t')" by blast
  with m show "\<exists>x t s'. bnd m f s = (Done x, t, s') \<and> Q x t" by (simp add: bnd_def)
qed

lemma runs_if [runs_intros]: "(b \<Longrightarrow> runs m Q) \<Longrightarrow> (\<not> b \<Longrightarrow> runs m' Q) \<Longrightarrow> runs (if b then m else m') Q"
  by simp

section \<open>The attempts of a request\<close>

fun attempts :: "http_act list \<Rightarrow> (http_request \<times> (net_error + http_response)) list" where
  "attempts [] = []"
| "attempts (Attempt req ans # t) = (req, ans) # attempts t"
| "attempts (_ # t) = attempts t"

lemma attempts_append [simp]: "attempts (t @ t') = attempts t @ attempts t'"
  by (induction t rule: attempts.induct) simp_all

text \<open>An answer after which the request is sent again, and what the last answer amounts to.\<close>

definition asks_again :: "verb \<Rightarrow> net_error + http_response \<Rightarrow> bool" where
  "asks_again v ans = (case ans of Inl e \<Rightarrow> v = GET \<and> IsConnectionReset e | Inr resp \<Rightarrow> snd (checkWait resp))"

definition outcome_of :: "verb \<Rightarrow> net_error + http_response \<Rightarrow> go_error + http_response" where
  "outcome_of v ans = (case ans of
      Inl e \<Rightarrow> if v = GET \<and> IsConnectionReset e then Inr reset_response else Inl (PlainErr (net_msg e))
    | Inr resp \<Rightarrow> Inr resp)"

text \<open>
  The specification of the loop, with \<open>k\<close> attempts left: the same request each time, sent again as long
  as the answer asks for it, and the last answer decides.
\<close>

definition attempted :: "http_request \<Rightarrow> verb \<Rightarrow> nat \<Rightarrow> go_error + http_response \<Rightarrow> http_act list \<Rightarrow> bool" where
  "attempted req v k r t \<longleftrightarrow>
     attempts t \<noteq> [] \<and> length (attempts t) \<le> k
     \<and> list_all (\<lambda>a. fst a = req) (attempts t)
     \<and> list_all (\<lambda>a. asks_again v (snd a)) (butlast (attempts t))
     \<and> (length (attempts t) < k \<longrightarrow> \<not> asks_again v (snd (last (attempts t))))
     \<and> r = outcome_of v (snd (last (attempts t)))"

lemma attempted_last: "attempts t = [] \<Longrightarrow> attempts t2 = [] \<Longrightarrow> \<not> asks_again v ans \<or> k = 1 \<Longrightarrow> 0 < k
    \<Longrightarrow> attempted req v k (outcome_of v ans) (t @ Attempt req ans # t2)"
  by (auto simp: attempted_def)

lemma attempted_again: "attempts t = [] \<Longrightarrow> asks_again v ans \<Longrightarrow> attempted req v k r t'
    \<Longrightarrow> attempted req v (Suc k) r (t @ Attempt req ans # t')"
  by (auto simp: attempted_def)

lemma attempted_no_attempts: "attempts t = [] \<Longrightarrow> attempted req v k r (t @ t') = attempted req v k r t'"
  by (simp add: attempted_def)

lemma build_request_start: "req_body q = NoBody \<or> pos = 0 \<Longrightarrow> build_request T cl q pos = build_request T cl q 0"
  by (auto simp: build_request_def body_bytes_def)

lemma sleep_runs: "(\<And>d. attempts [act d] = []) \<Longrightarrow> runs (sleep_for T act d) (\<lambda>_ t. attempts t = [])"
  unfolding sleep_for_def by (intro runs_intros) simp_all

lemma tryThrottle_runs: "runs (tryThrottle T) (\<lambda>_ t. attempts t = [])"
proof -
  have wait: "runs (bnd (silent (world (clock_now T))) (\<lambda>t. bnd (silent (take_token t)) (\<lambda>d. sleep_for T ThrottleSleep d)))
      (\<lambda>_ t. attempts t = [])"
    by (rule runs_bnd [where R = "\<lambda>_ t. t = []"], rule runs_silent, simp,
        rule runs_bnd [where R = "\<lambda>_ t. t = []"], rule runs_silent, simp)
      (auto intro: runs_weaken [OF sleep_runs])
  show ?thesis
    unfolding tryThrottle_def
    by (rule runs_bnd [where R = "\<lambda>_ t. t = []"], rule runs_silent, simp)
      (auto intro: runs_intros wait)
qed

lemma UpdateBackoff_runs: "runs (UpdateBackoff T b code) (\<lambda>_ t. attempts t = [])"
proof (cases b)
  case NoBackoff
  then show ?thesis by (simp add: UpdateBackoff_def runs_intros)
next
  case (URLBackoff d m entry)
  have two: "runs (bnd (silent f) (\<lambda>e. bnd (silent g) (\<lambda>t. ret (h e t)))) (\<lambda>_ t. attempts t = [])"
    for f :: "'a client_state \<Rightarrow> int \<times> 'a client_state" and g :: "'a client_state \<Rightarrow> int \<times> 'a client_state" and h :: "int \<Rightarrow> int \<Rightarrow> backoff_mgr"
    by (rule runs_bnd [where R = "\<lambda>_ t. t = []"], rule runs_silent, simp,
        rule runs_bnd [where R = "\<lambda>_ t. t = []"], rule runs_silent, simp) (simp add: runs_intros)
  with URLBackoff show ?thesis by (auto simp: UpdateBackoff_def intro: runs_intros)
qed

lemma outcome_of_unfold:
  "(case (case ans of Inl e \<Rightarrow> if \<not> IsConnectionReset e \<or> v \<noteq> GET then Inl e else Inr reset_response
                    | Inr resp \<Rightarrow> Inr resp) of
      Inl e \<Rightarrow> ret (Inl (PlainErr (net_msg e))) | Inr resp \<Rightarrow> k resp)
    = (case outcome_of v ans of Inl e \<Rightarrow> ret (Inl e) | Inr resp \<Rightarrow> k resp)"
  by (auto simp: outcome_of_def split: sum.splits)

lemma asks_again_outcome: "outcome_of v ans = Inr resp \<Longrightarrow> asks_again v ans = snd (checkWait resp)"
  "outcome_of v ans = Inl e \<Longrightarrow> \<not> asks_again v ans"
  by (auto simp: outcome_of_def asks_again_def checkWait_def retryAfterSeconds_def reset_response_def
      Atoi_def digit_value_def int64_range_def split: sum.splits if_splits)

text \<open>One attempt and what follows its answer; \<open>L\<close> is the rest of the loop.\<close>

lemma attempt_runs:
  assumes n: "n < maxRetries" and U: "\<And>ans. runs (U ans) (\<lambda>(b :: backoff_mgr) t. attempts t = [])"
    and L: "\<And>ans b. Suc n < maxRetries \<Longrightarrow> runs (L ans b) (attempted req v (maxRetries - Suc n))"
  shows "runs (bnd (ask f (\<lambda>ans :: (net_error + http_response) \<times> nat. Attempt req (fst ans))) (\<lambda>ans.
      bnd (U ans) (\<lambda>b'.
        case outcome_of v (fst ans) of
          Inl e \<Rightarrow> ret (Inl e)
        | Inr resp \<Rightarrow>
            if snd (checkWait resp) \<and> Suc n < maxRetries
            then bnd (sleep_for T RetrySleep (seconds (fst (checkWait resp)))) (\<lambda>_. L ans b')
            else ret (Inr resp))))
    (attempted req v (maxRetries - n))"
proof (rule runs_bnd [where R = "\<lambda>ans t. t = [Attempt req (fst ans)]"], rule runs_ask, simp, simp only: append.simps, rule runs_bnd [OF U])
  fix ans :: "(net_error + http_response) \<times> nat" and b' t3
  assume t3: "attempts t3 = []"
  note last = attempted_last [where t = "[]" and req = req and v = v and ans = "fst ans" and k = "maxRetries - n", OF attempts.simps(1) t3]
  show "runs (case outcome_of v (fst ans) of
          Inl e \<Rightarrow> ret (Inl e)
        | Inr resp \<Rightarrow>
            if snd (checkWait resp) \<and> Suc n < maxRetries
            then bnd (sleep_for T RetrySleep (seconds (fst (checkWait resp)))) (\<lambda>_. L ans b')
            else ret (Inr resp))
      (\<lambda>r t'. attempted req v (maxRetries - n) r (Attempt req (fst ans) # t3 @ t'))"
  proof (cases "outcome_of v (fst ans)")
    case (Inl e)
    with last asks_again_outcome(2) [OF Inl] n show ?thesis by (auto intro!: runs_ret)
  next
    case (Inr resp)
    note again = asks_again_outcome(1) [OF Inr]
    show ?thesis
    proof (cases "snd (checkWait resp) \<and> Suc n < maxRetries")
      case True
      have eq: "maxRetries - n = Suc (maxRetries - Suc n)" using conjunct2 [OF True] by arith
      have "runs (bnd (sleep_for T RetrySleep (seconds (fst (checkWait resp)))) (\<lambda>_. L ans b'))
        (\<lambda>r t'. attempted req v (maxRetries - n) r (Attempt req (fst ans) # t3 @ t'))"
      proof (rule runs_bnd [OF sleep_runs], simp, rule runs_weaken [OF L [OF conjunct2 [OF True]]])
        fix r t4 t5
        assume "attempts t4 = []" "attempted req v (maxRetries - Suc n) r t5"
        then have "attempted req v (maxRetries - Suc n) r (t3 @ t4 @ t5)"
          using t3 by (simp add: attempted_no_attempts)
        with attempted_again [where t = "[]" and ans = "fst ans"] again True
        show "attempted req v (maxRetries - n) r (Attempt req (fst ans) # t3 @ t4 @ t5)"
          unfolding eq by simp
      qed
      with Inr True show ?thesis by simp
    next
      case False
      with n have "\<not> asks_again v (fst ans) \<or> maxRetries - n = 1" using again by linarith
      with last n Inr False show ?thesis by (auto intro!: runs_ret)
    qed
  qed
qed

lemma request_loop_runs:
  "n < maxRetries \<Longrightarrow> req_body q = NoBody \<or> pos = 0
    \<Longrightarrow> runs (request_loop T cl q n pos b) (attempted (build_request T cl q 0) (verb_of q) (maxRetries - n))"
proof (induction "maxRetries - n" arbitrary: n pos b rule: less_induct)
  case less
  have quiet: "runs (bnd m f) (attempted req v k)"
    if "runs m (\<lambda>_ t. attempts t = [])" "\<And>x. runs (f x) (attempted req v k)" for m f req v k
    by (rule runs_bnd [OF that(1)]) (simp add: attempted_no_attempts that(2))
  have throttle: "runs (if 0 < n then tryThrottle T else ret ()) (\<lambda>_ t. attempts t = [])"
    by (intro runs_if tryThrottle_runs) (simp add: runs_intros)
  show ?case
    unfolding request_loop.simps [of T cl q n pos b] Let_def outcome_of_unfold build_request_start [OF less(3)]
    by (intro quiet sleep_runs throttle attempt_runs less(2) UpdateBackoff_runs) (auto intro!: less(1))
qed

text \<open>An exchange: an error before anything is sent, or the attempts.\<close>

definition exchanged :: "'w transport \<Rightarrow> rest_client \<Rightarrow> request \<Rightarrow> go_error + http_response \<Rightarrow> http_act list \<Rightarrow> bool" where
  "exchanged T cl q r t \<longleftrightarrow>
     (if request_error q = None \<and> namespace_error q = None
      then attempted (build_request T cl q 0) (verb_of q) maxRetries r t
      else attempts t = [] \<and> (\<exists>e. r = Inl e))"

lemma do_exchange_runs: "runs (do_exchange T cl q) (exchanged T cl q)"
proof (cases "request_error q = None \<and> namespace_error q = None")
  case True
  then have "do_exchange T cl q = request_loop T cl q 0 0 (readExpBackoffConfig (backoff_env T))"
    by (simp add: do_exchange_def)
  moreover from True have "exchanged T cl q = attempted (build_request T cl q 0) (verb_of q) (maxRetries - 0)"
    by (simp add: exchanged_def fun_eq_iff)
  ultimately show ?thesis using request_loop_runs [of 0 q 0 T cl] by (simp add: maxRetries_def)
next
  case False
  then show ?thesis
    by (auto simp: do_exchange_def exchanged_def intro!: runs_ret split: option.splits)
qed

text \<open>What the caller gets of the exchange.\<close>

definition finish :: "'w transport \<Rightarrow> rest_client \<Rightarrow> request \<Rightarrow> go_error + http_response \<Rightarrow> rest_result" where
  "finish T cl q r =
     (let result = (case r of Inl e \<Rightarrow> failed_exchange e | Inr resp \<Rightarrow> transformResponse T cl q resp)
      in case call_kind_of q of
           CallRaw \<Rightarrow> (case r of
               Inl e \<Rightarrow> failed_result e
             | Inr resp \<Rightarrow> \<lparr>res_body = Some (http_body resp), res_status = 0,
                 res_err = (if out_of_range (http_status resp) then Some (newUnstructuredResponseError T cl q resp)
                            else map_option (\<lambda>e. PlainErr (read_text e)) (http_read_err resp))\<rparr>)
         | CallResult \<Rightarrow> Result_Raw result
         | CallError \<Rightarrow> (Result_Raw result)\<lparr>res_err := Result_Error T result\<rparr>
         | CallInto \<Rightarrow> (Result_Raw result)\<lparr>res_err := Result_Into T result\<rparr>)"

lemma throttled_runs:
  "runs (bnd (tryThrottle T) (\<lambda>_. bnd (do_exchange T cl q) (\<lambda>r. ret (g r)))) (\<lambda>x t. \<exists>r. exchanged T cl q r t \<and> x = g r)"
proof (rule runs_bnd [OF tryThrottle_runs], rule runs_bnd [OF do_exchange_runs], rule runs_ret)
  fix t1 r t2
  assume "attempts t1 = []" "exchanged T cl q r t2"
  then have "exchanged T cl q r (t1 @ t2 @ [])" 
    by (cases "request_error q = None \<and> namespace_error q = None") (simp_all add: exchanged_def attempted_no_attempts attempted_def)
  then show "\<exists>r'. exchanged T cl q r' (t1 @ t2 @ []) \<and> g r = g r'" by blast
qed

lemma http_call_eq:
  "http_call T cl q = bnd (tryThrottle T) (\<lambda>_. bnd (do_exchange T cl q) (\<lambda>r. ret (finish T cl q r)))"
proof -
  have Do: "bnd (Do T cl q) (\<lambda>r. ret (g r)) = bnd (tryThrottle T) (\<lambda>_. bnd (do_exchange T cl q) (\<lambda>r.
      ret (g (case r of Inl e \<Rightarrow> failed_exchange e | Inr resp \<Rightarrow> transformResponse T cl q resp))))" for g
    unfolding Do_def bnd_assoc bnd_ret ..
  show ?thesis
    by (cases "call_kind_of q") (simp_all add: http_call_def finish_def Let_def DoRaw_def Do)
qed

lemma http_call_runs: "runs (http_call T cl q) (\<lambda>x t. \<exists>r. exchanged T cl q r t \<and> x = finish T cl q r)"
  unfolding http_call_eq by (rule throttled_runs)

text \<open>
  C24: a request returns after at most ten attempts. All of them carry the whole body to the same
  address, and each but the last was answered with a status that asks for another one: a request that
  writes is sent again only after the server itself has asked for it with \<open>Retry-After\<close>.
\<close>

theorem http_call_attempts:
  "\<exists>x t s'. http_call T cl q s = (Done x, t, s') \<and> length (attempts t) \<le> 10
    \<and> list_all (\<lambda>a. fst a = build_request T cl q 0) (attempts t)
    \<and> list_all (\<lambda>(req, ans). case ans of
          Inl e \<Rightarrow> verb_of q = GET \<and> IsConnectionReset e
        | Inr resp \<Rightarrow> (http_status resp = 429 \<or> 500 \<le> http_status resp)
            \<and> Atoi (http_header resp ''Retry-After'') \<noteq> None) (butlast (attempts t))"
proof -
  obtain x t s' r where call: "http_call T cl q s = (Done x, t, s')" and r: "exchanged T cl q r t"
    using http_call_runs [of T cl q] unfolding runs_def by blast
  have again: "asks_again v (snd a) \<Longrightarrow> case a of (req, ans) \<Rightarrow> case ans of
          Inl e \<Rightarrow> v = GET \<and> IsConnectionReset e
        | Inr resp \<Rightarrow> (http_status resp = 429 \<or> 500 \<le> http_status resp)
            \<and> Atoi (http_header resp ''Retry-After'') \<noteq> None" for v and a :: "http_request \<times> (net_error + http_response)"
    by (cases a) (auto simp: asks_again_def checkWait_def retryAfterSeconds_def Let_def split: sum.splits if_splits option.splits)
  from r have len: "length (attempts t) \<le> 10" and same: "list_all (\<lambda>a. fst a = build_request T cl q 0) (attempts t)"
    and "list_all (\<lambda>a. asks_again (verb_of q) (snd a)) (butlast (attempts t))"
    by (auto simp: exchanged_def attempted_def maxRetries_def split: if_splits)
  note list.pred_mono_strong [OF this(3) again]
  with call len same show ?thesis by (intro exI conjI)
qed

section \<open>The error of an answer\<close>

definition readable :: "'w transport \<Rightarrow> rest_client \<Rightarrow> http_response \<Rightarrow> bool" where
  "readable T cl resp \<longleftrightarrow> http_read_err resp = None
     \<and> (\<exists>media. negotiate T cl (http_header resp ''Content-Type'') \<in> {Decoder media, NoDecoder})"

lemma generic_class:
  "v \<noteq> POST \<Longrightarrow> reason_class (generic_reason code v)
    = (if code = 404 then NotFound else if code = 409 then Conflict else OtherReason)"
  by (simp add: generic_reason_def reason_class_def)

lemma unstructured_class:
  assumes "verb_of q \<noteq> POST"
  obtains m where "newUnstructuredResponseError T cl q resp
    = StatusErr (if http_status resp = 404 then NotFound else if http_status resp = 409 then Conflict else OtherReason) m"
  using assms by (simp add: newUnstructuredResponseError_def NewGenericServerResponse_def Let_def generic_class)

lemma finish_result:
  assumes "call_kind_of q = CallResult" "readable T cl resp" "verb_of q \<noteq> POST"
  defines "code \<equiv> http_status resp"
  shows "(res_err (finish T cl q (Inr resp)) = None \<longleftrightarrow> code = 101 \<or> 200 \<le> code \<and> code \<le> 206)
    \<and> ((\<exists>e. res_err (finish T cl q (Inr resp)) = Some e \<and> IsNotFound e) \<longleftrightarrow> code = 404)
    \<and> ((\<exists>e. res_err (finish T cl q (Inr resp)) = Some e \<and> IsConflict e) \<longleftrightarrow> code = 409)"
proof -
  obtain m where m: "newUnstructuredResponseError T cl q resp
      = StatusErr (if code = 404 then NotFound else if code = 409 then Conflict else OtherReason) m"
    using unstructured_class [OF assms(3)] unfolding code_def by metis
  from assms(2) obtain media where media: "http_read_err resp = None"
    "negotiate T cl (http_header resp ''Content-Type'') \<in> {Decoder media, NoDecoder}" by (auto simp: readable_def)
  then show ?thesis
    by (auto simp: finish_def assms(1) Result_Raw_def transformResponse_def m code_def [symmetric] out_of_range_def
        failed_exchange_def split: if_splits)
qed

text \<open>
  C25: the error the controller sees of a PUT or of a GET of a name is that of the last answer, if its
  body and its content type could be read: none for 101 and 200 to 206, NotFound for 404 and Conflict
  for 409 only.
\<close>

theorem last_answer_decides:
  assumes "http_call T cl q s = (Done x, t, s')" "call_kind_of q = CallResult" "verb_of q \<noteq> POST"
    and "attempts t \<noteq> []" "snd (last (attempts t)) = Inr resp" "readable T cl resp"
  shows "(res_err x = None \<longleftrightarrow> http_status resp = 101 \<or> 200 \<le> http_status resp \<and> http_status resp \<le> 206)
    \<and> ((\<exists>e. res_err x = Some e \<and> IsNotFound e) \<longleftrightarrow> http_status resp = 404)
    \<and> ((\<exists>e. res_err x = Some e \<and> IsConflict e) \<longleftrightarrow> http_status resp = 409)"
proof -
  obtain r where r: "exchanged T cl q r t" and x: "x = finish T cl q r"
    using runsD [OF http_call_runs assms(1)] by blast
  with assms(4) have "r = outcome_of (verb_of q) (snd (last (attempts t)))"
    by (auto simp: exchanged_def attempted_def split: if_splits)
  with assms(5) have "r = Inr resp" by (simp add: outcome_of_def)
  with x finish_result [OF assms(2,6,3)] show ?thesis by simp
qed

section \<open>Resets of a connection\<close>

text \<open>The answers of the attempts are those of the transport.\<close>

definition answered :: "'w transport \<Rightarrow> http_act \<Rightarrow> bool" where
  "answered T e = (case e of Attempt req ans \<Rightarrow> \<exists>c w n w'. client_do T c req w = ((ans, n), w') | _ \<Rightarrow> True)"

lemma sleep_answered [emits_intros]: "(\<And>d. answered T (act d)) \<Longrightarrow> emits_only (answered T) (sleep_for T act d)"
  unfolding sleep_for_def by (intro emits_intros)

lemma silent_answered [emits_intros]: "emits_only P (silent f)"
  by (simp add: emits_only_def trace_of_def silent_def split: prod.splits)

lemma tryThrottle_answered [emits_intros]: "emits_only (answered T) (tryThrottle T)"
  unfolding tryThrottle_def by (intro emits_intros; simp add: answered_def)

lemma UpdateBackoff_answered [emits_intros]: "emits_only (answered T) (UpdateBackoff T b code)"
  unfolding UpdateBackoff_def by (cases b) (auto intro!: emits_intros)

lemma attempt_answered: "emits_only (answered T) (ask (world (client_do T c req)) (\<lambda>ans. Attempt req (fst ans)))"
  by (auto simp: emits_only_def trace_of_def ask_def world_def answered_def split: prod.splits)

lemma sum_emits: "(\<And>e. emits_only P (f e)) \<Longrightarrow> (\<And>x. emits_only P (g x)) \<Longrightarrow> emits_only P (case r of Inl e \<Rightarrow> f e | Inr x \<Rightarrow> g x)"
  by (cases r) simp_all

lemma request_loop_answered: "emits_only (answered T) (request_loop T cl q n pos b)"
proof (induction "maxRetries - n" arbitrary: n pos b rule: less_induct)
  case less
  show ?case
    unfolding request_loop.simps [of T cl q n pos b] Let_def outcome_of_unfold
    by (intro emits_bnd emits_if emits_ret sleep_answered tryThrottle_answered UpdateBackoff_answered
        attempt_answered sum_emits less) (auto simp: answered_def)
qed

lemma http_call_answered: "emits_only (answered T) (http_call T cl q)"
proof -
  have "emits_only (answered T) (do_exchange T cl q)"
    unfolding do_exchange_def by (auto intro!: emits_intros request_loop_answered split: option.split)
  then show ?thesis
    unfolding http_call_def Do_def DoRaw_def by (auto intro!: emits_intros split: call_kind.split)
qed

lemma attempts_member: "(req, ans) \<in> set (attempts t) \<Longrightarrow> Attempt req ans \<in> set t"
  by (induction t rule: attempts.induct) auto

text \<open>
  \<open>http.Client.Do\<close> wraps every error it returns in a \<open>url.Error\<close>. Then no error of the network is
  ever retried, not even a connection reset under a GET, which the loop means to retry.
\<close>

lemma reset_is_not_retried:
  assumes "\<And>c req w e n w'. client_do T c req w = ((Inl e, n), w') \<Longrightarrow> \<exists>e'. e = UrlError e'"
    and "http_call T cl q s = (x, t, s')"
  shows "list_all (\<lambda>(req, ans). \<exists>resp. ans = Inr resp) (butlast (attempts t))"
proof -
  obtain r where "exchanged T cl q r t" using runsD [OF http_call_runs assms(2)] by blast
  then have again: "\<forall>a \<in> set (butlast (attempts t)). asks_again (verb_of q) (snd a)"
    by (auto simp: exchanged_def attempted_def list_all_iff split: if_splits)
  have "\<exists>resp. ans = Inr resp" if a: "(req, ans) \<in> set (butlast (attempts t))" for req ans
  proof (cases ans)
    case (Inl e)
    from a have "Attempt req ans \<in> set t" by (rule attempts_member [OF in_set_butlastD])
    then have "answered T (Attempt req ans)"
      using emits_onlyD [OF http_call_answered [of T cl q], of "Attempt req ans" s] assms(2) by (simp add: trace_of_def)
    then obtain c w n w' where "client_do T c req w = ((Inl e, n), w')" using Inl by (auto simp: answered_def)
    from assms(1) [OF this] obtain e' where "e = UrlError e'" ..
    moreover from again a have "asks_again (verb_of q) ans" by fastforce
    ultimately show ?thesis using Inl by (simp add: asks_again_def)
  qed simp
  then show ?thesis by (auto simp: list_all_iff)
qed

section \<open>The query\<close>

text \<open>How a server reads a query: \<open>url.ParseQuery\<close>, the inverse of the encoding.\<close>

definition hex_digit :: "char \<Rightarrow> nat option" where
  "hex_digit c = (let n = (of_char c :: nat) in
     if 48 \<le> n \<and> n \<le> 57 then Some (n - 48) else if 65 \<le> n \<and> n \<le> 70 then Some (n - 55)
     else if 97 \<le> n \<and> n \<le> 102 then Some (n - 87) else None)"

fun QueryUnescape :: "string \<Rightarrow> string option" where
  "QueryUnescape [] = Some []"
| "QueryUnescape (c # s) =
     (if c = CHR ''+'' then map_option (Cons CHR '' '') (QueryUnescape s)
      else if c = CHR ''%'' then
        (case s of
           a # b # s' \<Rightarrow> (case (hex_digit a, hex_digit b) of
               (Some m, Some n) \<Rightarrow> map_option (Cons (char_of (16 * m + n))) (QueryUnescape s')
             | _ \<Rightarrow> None)
         | _ \<Rightarrow> None)
      else map_option (Cons c) (QueryUnescape s))"

lemma of_char_of_nat: "k < 256 \<Longrightarrow> (of_char (char_of k :: char) :: nat) = k"
  by (simp add: of_char_of)

lemma hex_digit_upper: "k < 16 \<Longrightarrow> hex_digit (upper_hex k) = Some k"
  by (auto simp: hex_digit_def upper_hex_def of_char_of_nat)

lemma unescape_escape_char: "QueryUnescape (escape_char c @ s) = map_option (Cons c) (QueryUnescape s)"
proof -
  consider "c = CHR '' ''" | "c \<noteq> CHR '' ''" "unreserved c" | "c \<noteq> CHR '' ''" "\<not> unreserved c" by blast
  then show ?thesis
  proof cases
    case 2
    then have "c \<noteq> CHR ''+''" "c \<noteq> CHR ''%''" by (auto simp: unreserved_def)
    with 2 show ?thesis by (simp add: escape_char_def)
  next
    case 3
    have "of_char c div 16 < (16 :: nat)" by (rule less_mult_imp_div_less) simp
    with 3 show ?thesis by (simp add: escape_char_def hex_digit_upper)
  qed (simp add: escape_char_def)
qed

lemma QueryUnescape_escape: "QueryUnescape (QueryEscape s) = Some s"
  by (induction s) (simp_all add: QueryEscape_def unescape_escape_char)

definition parse_pair :: "string \<Rightarrow> (string \<times> string) option" where
  "parse_pair p = (case split_on CHR ''='' p of
      [] \<Rightarrow> None
    | k # vs \<Rightarrow> (case (QueryUnescape k, QueryUnescape (join_with CHR ''='' vs)) of
        (Some k', Some v') \<Rightarrow> Some (k', v') | _ \<Rightarrow> None))"

definition ParseQuery :: "string \<Rightarrow> (string \<times> string) list option" where
  "ParseQuery s = (if s = '''' then Some [] else those (map parse_pair (split_on CHR ''&'' s)))"

lemma escape_plain: "CHR ''&'' \<notin> set (QueryEscape s)" "CHR ''='' \<notin> set (QueryEscape s)"
proof -
  have upper: "upper_hex k \<noteq> CHR ''&''" "upper_hex k \<noteq> CHR ''=''" if "k < 16" for k
  proof -
    have "(of_char (upper_hex k) :: nat) = (if k < 10 then 48 + k else 55 + k)"
      using that by (simp add: upper_hex_def of_char_of_nat)
    with that show "upper_hex k \<noteq> CHR ''&''" "upper_hex k \<noteq> CHR ''=''" by (auto split: if_splits)
  qed
  have "of_char c div 16 < (16 :: nat)" for c :: char by (rule less_mult_imp_div_less) simp
  then have "CHR ''&'' \<notin> set (escape_char c)" "CHR ''='' \<notin> set (escape_char c)" for c
    using upper [of "of_char c div 16"] upper [of "of_char c mod 16"]
    by (auto simp: escape_char_def unreserved_def Let_def eq_commute)
  then show "CHR ''&'' \<notin> set (QueryEscape s)" "CHR ''='' \<notin> set (QueryEscape s)"
    by (simp_all add: QueryEscape_def)
qed

lemma parse_pair_escape: "parse_pair (QueryEscape k @ ''='' @ QueryEscape v) = Some (k, v)"
  by (simp add: parse_pair_def split_on_append escape_plain split_on_no_sep QueryUnescape_escape)

lemma those_map_Some: "(\<And>x. x \<in> set xs \<Longrightarrow> f (g x) = Some x) \<Longrightarrow> those (map f (map g xs)) = Some xs"
  by (induction xs) auto

lemma ParseQuery_encode:
  "ParseQuery (Values_Encode ps) = Some (concat (map (\<lambda>(k, vs). map (Pair k) vs) (sort_key fst ps)))"
proof -
  let ?pairs = "concat (map (\<lambda>(k, vs). map (Pair k) vs) (sort_key fst ps))"
  let ?enc = "\<lambda>(k, v). QueryEscape k @ ''='' @ QueryEscape v"
  have "map ?enc (concat (map (\<lambda>(k, vs). map (Pair k) vs) xs))
      = concat (map (\<lambda>(k, vs). map (\<lambda>v. QueryEscape k @ ''='' @ QueryEscape v) vs) xs)" for xs
    by (induction xs) auto
  then have enc: "Values_Encode ps = join_with CHR ''&'' (map ?enc ?pairs)" by (simp only: Values_Encode_def)
  show ?thesis
  proof (cases "?pairs = []")
    case True
    show ?thesis unfolding enc unfolding True by (simp add: ParseQuery_def)
  next
    case False
    then obtain k v rest where pairs: "?pairs = (k, v) # rest" by (cases ?pairs) auto
    have "split_on CHR ''&'' (join_with CHR ''&'' (map ?enc ?pairs)) = map ?enc ?pairs"
      using False by (intro split_on_join_with) (auto simp: escape_plain)
    moreover have "join_with CHR ''&'' (map ?enc ?pairs) \<noteq> ''''"
      unfolding pairs by (cases rest) simp_all
    moreover have "those (map parse_pair (map ?enc ?pairs)) = Some ?pairs"
      by (rule those_map_Some) (use parse_pair_escape in auto)
    ultimately show ?thesis unfolding enc ParseQuery_def by simp
  qed
qed

text \<open>
  A server that reads the query of a listing gets the parameters the controller gave, in the
  order of their keys.
\<close>

lemma query_roundtrip:
  "ParseQuery (Values_Encode ps) = Some (concat (map (\<lambda>(k, vs). map (Pair k) vs) (sort_key fst ps)))"
  by (rule ParseQuery_encode)

section \<open>Witnesses\<close>

text \<open>A server that answers from a list, and resets the connection for \<open>None\<close>.\<close>

definition scripted :: "http_response option list transport" where
  "scripted = \<lparr>client_do = (\<lambda>c req w. ((case w of Some resp # _ \<Rightarrow> Inr resp | _ \<Rightarrow> Inl (UrlError (OpError ''connection reset by peer'')), 0), tl w)),
     pause = (\<lambda>d w. ((), w)), clock_now = (\<lambda>w. (0, w)), encode_body = (\<lambda>b. ''{}''), parse_media = Inr,
     decode = (\<lambda>m p. OtherObj), quoted = id, backoff_env = ('''', '''')\<rparr>"

definition status_only :: "int \<Rightarrow> string \<Rightarrow> http_response" where
  "status_only code retry = \<lparr>http_status = code, http_header = (\<lambda>k. if k = ''Retry-After'' then retry else ''''),
     http_body = Payload '''' None, http_read_err = None\<rparr>"

definition kong_client :: rest_client where
  "kong_client = \<lparr>base = \<lparr>Base_Host = ''http://kong:8001'', Base_Path = ''/''\<rparr>, versionedAPIPath = ''/'',
     contentGroupVersion = \<lparr>GV_Group = ''meta.k8s.io'', GV_Version = ''v1''\<rparr>, contentType = ContentTypeJSON, codec = DynamicCodec,
     Throttle = None, http_client = None\<rparr>"

definition put_api :: request where
  "put_api = kong_request PUT None (JsonBody (JObj []))"

lemmas scripted_defs = scripted_def status_only_def http_call_def call_kind_of_def put_api_def kong_request_def
  do_exchange_def request_error_def namespace_error_def Do_def tryThrottle_def silent_def sleep_for_def world_def
  UpdateBackoff_def CalculateBackoff_def readExpBackoffConfig_def Atoi_def checkWait_def retryAfterSeconds_def
  maxRetries_def go_defs digit_value_def int64_range_def seconds_def

lemma busy_then_conflict:
  "\<exists>x t s'. http_call scripted kong_client put_api
      \<lparr>throttle_bucket = None, outside = [Some (status_only 503 ''1''), Some (status_only 409 '''')]\<rparr> = (Done x, t, s')
    \<and> map snd (attempts t) = [Inr (status_only 503 ''1''), Inr (status_only 409 '''')]"
  by (simp add: scripted_defs request_loop.simps [of _ _ _ 0] request_loop.simps [of _ _ _ "Suc 0"] Let_def)

lemma last_answer_decides_witness:
  "\<exists>x t s' e. http_call scripted kong_client put_api
      \<lparr>throttle_bucket = None, outside = [Some (status_only 503 ''1''), Some (status_only 409 '''')]\<rparr> = (Done x, t, s')
    \<and> length (attempts t) = 2 \<and> res_err x = Some e \<and> IsConflict e"
proof -
  obtain x t s' where run: "http_call scripted kong_client put_api
      \<lparr>throttle_bucket = None, outside = [Some (status_only 503 ''1''), Some (status_only 409 '''')]\<rparr> = (Done x, t, s')"
    and answers: "map snd (attempts t) = [Inr (status_only 503 ''1''), Inr (status_only 409 '''')]"
    using busy_then_conflict by (elim exE conjE)
  from answers have sent: "attempts t \<noteq> []" "length (attempts t) = 2" by (auto dest: arg_cong [of _ _ length])
  then have "snd (last (attempts t)) = Inr (status_only 409 '''')" using answers by (metis last.simps last_map list.distinct(1))
  from last_answer_decides [OF run _ _ sent(1) this] run sent show ?thesis
    by (auto simp: put_api_def kong_request_def call_kind_of_def readable_def negotiate_def status_only_def)
qed

lemma reset_once:
  "\<exists>x t s'. http_call scripted kong_client (kong_request GET (Some ''web'') NoBody)
      \<lparr>throttle_bucket = None, outside = [None, Some (status_only 200 '''')]\<rparr> = (x, t, s') \<and> length (attempts t) = 1"
  by (simp add: scripted_defs request_loop.simps [of _ _ _ 0] Let_def valid_segment_def)

lemma reset_is_not_retried_witness:
  "\<exists>x t s'. http_call scripted kong_client (kong_request GET (Some ''web'') NoBody)
      \<lparr>throttle_bucket = None, outside = [None, Some (status_only 200 '''')]\<rparr> = (x, t, s')
    \<and> list_all (\<lambda>(req, ans). \<exists>resp. ans = Inr resp) (butlast (attempts t))"
proof -
  obtain x t s' where run: "http_call scripted kong_client (kong_request GET (Some ''web'') NoBody)
      \<lparr>throttle_bucket = None, outside = [None, Some (status_only 200 '''')]\<rparr> = (x, t, s')"
    using reset_once by (elim exE conjE)
  have "list_all (\<lambda>(req, ans). \<exists>resp. ans = Inr resp) (butlast (attempts t))"
    by (rule reset_is_not_retried [OF _ run]) (auto simp: scripted_def split: list.splits option.splits)
  with run show ?thesis by blast
qed

text \<open>A wait that the server asks for in seconds wraps as a \<open>time.Duration\<close>: too long a wait is none.\<close>

lemma long_wait_is_none: "sleep_for T RetrySleep (seconds 9223372037) = ret ()"
  by (simp add: sleep_for_def seconds_def)

end
