(* ===== verification/Http_Registry.thy ===== *)
theory Http_Registry
  imports Http_Safety Kong_Registry
begin

text \<open>
  Kong behind the HTTP exchange: from what Kong does with a single HTTP request follows the contract of
  \<open>Kong_Registry\<close> for the requests of the controller, whatever the retries, the throttles and the
  backoff do in between. The registry theorems, stated for an environment that satisfies the contract,
  then hold for the controller over HTTP.
\<close>

section \<open>The environment over HTTP\<close>

text \<open>A client for each server, with the bucket of its throttle; the caches and the clock are those of \<open>E\<close>.\<close>

type_synonym 'w networked = "(server \<Rightarrow> bucket option) \<times> 'w"

definition below :: "('w \<Rightarrow> 'a \<times> 'w) \<Rightarrow> 'w networked \<Rightarrow> 'a \<times> 'w networked" where
  "below f s = (case f (snd s) of (x, w) \<Rightarrow> (x, (fst s, w)))"

text \<open>The second case does not occur: the exchange always returns.\<close>

definition http_do :: "'w transport \<Rightarrow> (server \<Rightarrow> rest_client) \<Rightarrow> request \<Rightarrow> 'w networked \<Rightarrow> rest_result \<times> 'w networked" where
  "http_do T cls q s =
     (case http_call T (cls (srv q)) q \<lparr>throttle_bucket = fst s (srv q), outside = snd s\<rparr> of (x, t, s') \<Rightarrow>
        ((case x of Done r \<Rightarrow> r | _ \<Rightarrow> failed_result (PlainErr '''')),
         ((fst s)(srv q := throttle_bucket s'), outside s')))"

definition over_http :: "'w transport \<Rightarrow> (server \<Rightarrow> rest_client) \<Rightarrow> 'w env \<Rightarrow> 'w networked env" where
  "over_http T cls E =
     \<lparr>do_request = http_do T cls,
      dom_list = below (dom_list E), dom_get = (\<lambda>k. below (dom_get E k)),
      svc_list = below (svc_list E), svc_get = (\<lambda>k. below (svc_get E k)), ing_get = (\<lambda>k. below (ing_get E k)),
      now = below (now E), sleep = (\<lambda>d. below (sleep E d)), page_bound = page_bound E,
      host_order = (\<lambda>m. below (host_order E m))\<rparr>"

section \<open>Kong and a single HTTP request\<close>

definition sent :: "'w transport \<Rightarrow> (server \<Rightarrow> rest_client) \<Rightarrow> request \<Rightarrow> 'w \<Rightarrow> ((net_error + http_response) \<times> nat) \<times> 'w" where
  "sent T cls q w = client_do T (http_client (cls (srv q))) (build_request T (cls (srv q)) q 0) w"

definition accepted :: "http_response \<Rightarrow> bool" where
  "accepted resp \<longleftrightarrow> http_read_err resp = None \<and> (http_status resp = 101 \<or> \<not> out_of_range (http_status resp))"

text \<open>The state of Kong the controller depends on: the registry and the identifiers.\<close>

definition same_kong :: "('w \<Rightarrow> string \<rightharpoonup> API) \<Rightarrow> ('w \<Rightarrow> string \<Rightarrow> string) \<Rightarrow> 'w \<Rightarrow> 'w \<Rightarrow> bool" where
  "same_kong reg ids w w' \<longleftrightarrow> reg w' = reg w \<and> ids w' = ids w"

definition raw_answer :: "http_response \<Rightarrow> rest_result" where
  "raw_answer resp = \<lparr>res_body = Some (http_body resp), res_status = 0, res_err = None\<rparr>"

text \<open>A request that Kong refuses for now, with \<open>Retry-After\<close>, has no effect.\<close>

definition leaves_alone :: "request \<Rightarrow> net_error + http_response \<Rightarrow> bool" where
  "leaves_alone q ans \<longleftrightarrow> srv q \<noteq> KongAdmin \<or> verb_of q = GET \<or> (\<exists>resp. ans = Inr resp \<and> snd (checkWait resp))"

definition http_kong :: "string set \<Rightarrow> 'w transport \<Rightarrow> (server \<Rightarrow> rest_client) \<Rightarrow> ('w \<Rightarrow> string \<rightharpoonup> API) \<Rightarrow> ('w \<Rightarrow> string \<Rightarrow> string) \<Rightarrow> bool" where
  "http_kong own T cls reg ids \<longleftrightarrow>
     (\<forall>w. dom (reg w) \<subseteq> own)
     \<and> (\<forall>q w ans k w'. sent T cls q w = ((ans, k), w') \<longrightarrow> leaves_alone q ans \<longrightarrow> same_kong reg ids w w')
     \<and> (\<forall>n w resp k w'. sent T cls (kong_request GET (Some n) NoBody) w = ((Inr resp, k), w')
         \<longrightarrow> request_error (kong_request GET (Some n) NoBody) = None \<longrightarrow> accepted resp
         \<longrightarrow> shown_uid (raw_answer resp) \<in> {'''', ids w' n})
     \<and> (\<forall>j w resp k w'. sent T cls (kong_request PUT None (JsonBody j)) w = ((Inr resp, k), w') \<longrightarrow> accepted resp
         \<longrightarrow> uid_of j \<in> {'''', ids w (API_Name (told j))}
         \<longrightarrow> reg w' = (if API_Name (told j) \<in> own then (reg w)(API_Name (told j) \<mapsto> told j) else reg w))
     \<and> (\<forall>n w resp k w'. sent T cls (kong_request DELETE (Some n) NoBody) w = ((Inr resp, k), w')
         \<longrightarrow> request_error (kong_request DELETE (Some n) NoBody) = None \<longrightarrow> accepted resp
         \<longrightarrow> reg w' = (if n \<in> own then (reg w)(n := None) else reg w))
     \<and> (\<exists>covered. (\<forall>ps. ''offset'' \<notin> fst ` set ps \<longrightarrow> covered ps = UNIV)
         \<and> (\<forall>ps w resp k w'. sent T cls (list_request ps) w = ((Inr resp, k), w') \<longrightarrow> accepted resp
             \<longrightarrow> distinct (map fst (elems ps)) \<longrightarrow> lists (reg w) covered own (elems ps) (raw_answer resp)))
     \<and> (\<forall>d w. same_kong reg ids w (snd (pause T d w))) \<and> (\<forall>w. same_kong reg ids w (snd (clock_now T w)))"

section \<open>The loop between two states of Kong\<close>

definition kong_at :: "('w \<Rightarrow> string \<rightharpoonup> API) \<Rightarrow> ('w \<Rightarrow> string \<Rightarrow> string) \<Rightarrow> 'w \<Rightarrow> 'w client_state \<Rightarrow> bool" where
  "kong_at reg ids w s \<longleftrightarrow> same_kong reg ids w (outside s)"

text \<open>Kong is as one request with this answer left it, which found Kong as it was in \<open>w\<close>.\<close>

definition answered_at :: "'w transport \<Rightarrow> (server \<Rightarrow> rest_client) \<Rightarrow> ('w \<Rightarrow> string \<rightharpoonup> API) \<Rightarrow> ('w \<Rightarrow> string \<Rightarrow> string)
    \<Rightarrow> request \<Rightarrow> 'w \<Rightarrow> net_error + http_response \<Rightarrow> 'w client_state \<Rightarrow> bool" where
  "answered_at T cls reg ids q w ans s \<longleftrightarrow>
     (\<exists>w1 k w2. same_kong reg ids w w1 \<and> sent T cls q w1 = ((ans, k), w2) \<and> same_kong reg ids w2 (outside s))"

definition ended_at :: "'w transport \<Rightarrow> (server \<Rightarrow> rest_client) \<Rightarrow> ('w \<Rightarrow> string \<rightharpoonup> API) \<Rightarrow> ('w \<Rightarrow> string \<Rightarrow> string)
    \<Rightarrow> request \<Rightarrow> 'w \<Rightarrow> go_error + http_response \<Rightarrow> 'w client_state \<Rightarrow> bool" where
  "ended_at T cls reg ids q w r s \<longleftrightarrow>
     (\<forall>resp. r = Inr resp \<longrightarrow> accepted resp \<longrightarrow> answered_at T cls reg ids q w (Inr resp) s)
     \<and> (srv q \<noteq> KongAdmin \<or> verb_of q = GET \<longrightarrow> kong_at reg ids w s)"

lemma same_kong_refl [simp]: "same_kong reg ids w w"
  by (simp add: same_kong_def)

lemma same_kong_trans: "same_kong reg ids w w1 \<Longrightarrow> same_kong reg ids w1 w2 \<Longrightarrow> same_kong reg ids w w2"
  by (simp add: same_kong_def)


lemma kong_leaves:
  "http_kong own T cls reg ids \<Longrightarrow> sent T cls q w = ((ans, k), w') \<Longrightarrow> leaves_alone q ans \<Longrightarrow> same_kong reg ids w w'"
  unfolding http_kong_def by (elim conjE) simp

lemma kong_waits:
  "http_kong own T cls reg ids \<Longrightarrow> same_kong reg ids w (snd (pause T d w))"
  "http_kong own T cls reg ids \<Longrightarrow> same_kong reg ids w (snd (clock_now T w))"
  unfolding http_kong_def by (elim conjE, simp)+

text \<open>What is true of Kong up to \<open>same_kong\<close> survives the waits and the throttle.\<close>

definition kong_only :: "('w \<Rightarrow> string \<rightharpoonup> API) \<Rightarrow> ('w \<Rightarrow> string \<Rightarrow> string) \<Rightarrow> ('w client_state \<Rightarrow> bool) \<Rightarrow> bool" where
  "kong_only reg ids P \<longleftrightarrow> (\<forall>s s'. P s \<longrightarrow> same_kong reg ids (outside s) (outside s') \<longrightarrow> P s')"

lemma kong_only_intros:
  "kong_only reg ids (kong_at reg ids w)" "kong_only reg ids (answered_at T cls reg ids q w ans)"
  by (auto simp: kong_only_def kong_at_def answered_at_def intro: same_kong_trans)

lemma keeps_world:
  assumes "kong_only reg ids P" "\<And>w. same_kong reg ids w (snd (f w))"
  shows "keeps P (ask (world f) act)" "keeps P (silent (world f))"
proof -
  have "P s'" if "P s" "world f s = (x, s')" for s x s'
    using that assms unfolding kong_only_def world_def
    by (auto split: prod.splits) (metis select_convs(2) snd_conv update_convs(2) client_state.select_convs(2) client_state.surjective client_state.update_convs(2))
  then show "keeps P (ask (world f) act)" "keeps P (silent (world f))"
    unfolding keeps_def returns_def ask_def silent_def by (auto split: prod.splits)
qed

lemma sleep_keeps:
  "http_kong own T cls reg ids \<Longrightarrow> kong_only reg ids P \<Longrightarrow> keeps P (sleep_for T act d)"
  unfolding sleep_for_def by (intro keeps_if keeps_world(1) keeps_basic kong_waits) simp_all

lemma silent_keeps: "(\<And>s. P s \<Longrightarrow> P (snd (f s))) \<Longrightarrow> keeps P (silent f)"
  unfolding keeps_def returns_def silent_def by (auto split: prod.splits) (metis snd_conv)

lemma throttle_keeps:
  assumes "http_kong own T cls reg ids" "kong_only reg ids P"
  shows "keeps P (tryThrottle T)"
proof -
  have "outside (snd (take_token t s)) = outside s" for t and s :: "'a client_state"
    by (simp add: take_token_def split: option.splits prod.splits)
  then have "P s \<Longrightarrow> P (snd (take_token t s))" for t s using assms(2) unfolding kong_only_def by (metis same_kong_refl)
  then show ?thesis
    unfolding tryThrottle_def
    by (intro keeps_bnd keeps_if keeps_basic keeps_world(2) [OF assms(2) kong_waits(2) [OF assms(1)]] sleep_keeps [OF assms])
      (rule silent_keeps, simp)+
qed

lemma backoff_keeps:
  assumes "http_kong own T cls reg ids" "kong_only reg ids P"
  shows "keeps P (UpdateBackoff T b code)"
  by (cases b) (auto simp: UpdateBackoff_def intro!: keeps_bnd keeps_basic keeps_world(2) [OF assms(2)] kong_waits(2) [OF assms(1)])

lemma attempt_at:
  "returns (kong_at reg ids w) (ask (world (client_do T (http_client (cls (srv q))) (build_request T (cls (srv q)) q 0))) act)
    (\<lambda>ans s. answered_at T cls reg ids q w (fst ans) s)"
proof (rule returns_ask)
  fix s ans s'
  assume "kong_at reg ids w s" "world (client_do T (http_client (cls (srv q))) (build_request T (cls (srv q)) q 0)) s = (ans, s')"
  then have "same_kong reg ids w (outside s)" "sent T cls q (outside s) = ((fst ans, snd ans), outside s')"
    by (auto simp: kong_at_def world_def sent_def split: prod.splits)
  then show "answered_at T cls reg ids q w (fst ans) s'" unfolding answered_at_def by (metis same_kong_refl)
qed

lemma answered_leaves:
  "http_kong own T cls reg ids \<Longrightarrow> leaves_alone q ans \<Longrightarrow> answered_at T cls reg ids q w ans s \<Longrightarrow> kong_at reg ids w s"
  unfolding answered_at_def kong_at_def by (meson kong_leaves same_kong_trans)

lemma answer_ends:
  assumes "http_kong own T cls reg ids" "answered_at T cls reg ids q w ans s"
  shows "ended_at T cls reg ids q w (outcome_of (verb_of q) ans) s"
proof -
  have "ans = Inr resp" if "outcome_of (verb_of q) ans = Inr resp" "accepted resp" for resp
    using that by (auto simp: outcome_of_def accepted_def reset_response_def out_of_range_def split: sum.splits if_splits)
  then show ?thesis
    using assms(2) answered_leaves [OF assms(1) _ assms(2)] unfolding ended_at_def leaves_alone_def by blast
qed

lemma again_leaves:
  assumes "http_kong own T cls reg ids" "answered_at T cls reg ids q w ans s" "asks_again (verb_of q) ans"
  shows "kong_at reg ids w s"
  by (rule answered_leaves [OF assms(1) _ assms(2)])
    (use assms(3) in \<open>auto simp: asks_again_def leaves_alone_def split: sum.splits\<close>)

lemma loop_ends:
  assumes K: "http_kong own T cls reg ids"
  shows "req_body q = NoBody \<or> pos = 0
    \<Longrightarrow> returns (kong_at reg ids w) (request_loop T (cls (srv q)) q n pos b) (ended_at T cls reg ids q w)"
proof (induction "maxRetries - n" arbitrary: n pos b rule: less_induct)
  case less
  note keeps = kong_only_intros(1) [of reg ids w]
  note only = kong_only_intros(2) [of reg ids T cls q w]
  show ?case
    unfolding request_loop.simps [of T _ q n pos b] Let_def outcome_of_unfold build_request_start [OF less(2)]
  proof (rule returns_bnd [OF sleep_keeps [OF K keeps, unfolded keeps_def]],
      rule returns_bnd [where R = "\<lambda>_. kong_at reg ids w"])
    show "returns (kong_at reg ids w) (if 0 < n then tryThrottle T else ret ()) (\<lambda>_. kong_at reg ids w)"
      unfolding keeps_def [symmetric] by (intro keeps_if throttle_keeps [OF K keeps] keeps_basic)
  next
    show "returns (kong_at reg ids w)
        (bnd (ask (world (client_do T (http_client (cls (srv q))) (build_request T (cls (srv q)) q 0)))
               (\<lambda>ans. Attempt (build_request T (cls (srv q)) q 0) (fst ans))) (\<lambda>ans.
         bnd (UpdateBackoff T b (case fst ans of Inl e \<Rightarrow> 0 | Inr resp \<Rightarrow> http_status resp)) (\<lambda>b'.
         case outcome_of (verb_of q) (fst ans) of Inl e \<Rightarrow> ret (Inl e)
         | Inr resp \<Rightarrow>
             if snd (checkWait resp) \<and> Suc n < maxRetries then
               bnd (sleep_for T RetrySleep (seconds (fst (checkWait resp)))) (\<lambda>_.
                 request_loop T (cls (srv q)) q (Suc n) (if req_body q = NoBody then pos + snd ans else 0) b')
             else ret (Inr resp)))) (ended_at T cls reg ids q w)"
    proof (rule returns_bnd [OF attempt_at], rule returns_bnd [OF backoff_keeps [OF K only, unfolded keeps_def]])
      fix ans :: "(net_error + http_response) \<times> nat" and b'
      let ?at = "answered_at T cls reg ids q w (fst ans)"
      note ends = answer_ends [OF K, of q w "fst ans"]
      show "returns ?at (case outcome_of (verb_of q) (fst ans) of Inl e \<Rightarrow> ret (Inl e)
         | Inr resp \<Rightarrow>
             if snd (checkWait resp) \<and> Suc n < maxRetries then
               bnd (sleep_for T RetrySleep (seconds (fst (checkWait resp)))) (\<lambda>_.
                 request_loop T (cls (srv q)) q (Suc n) (if req_body q = NoBody then pos + snd ans else 0) b')
             else ret (Inr resp)) (ended_at T cls reg ids q w)"
      proof (cases "outcome_of (verb_of q) (fst ans)")
        case (Inl e)
        with ends show ?thesis by (auto intro!: returns_ret)
      next
        case (Inr resp)
        show ?thesis
        proof (cases "snd (checkWait resp) \<and> Suc n < maxRetries")
          case True
          have "returns (kong_at reg ids w)
              (request_loop T (cls (srv q)) q (Suc n) (if req_body q = NoBody then pos + snd ans else 0) b')
              (ended_at T cls reg ids q w)"
            by (rule less(1)) (use True in auto)
          then have "returns (kong_at reg ids w) (bnd (sleep_for T RetrySleep (seconds (fst (checkWait resp)))) (\<lambda>_.
              request_loop T (cls (srv q)) q (Suc n) (if req_body q = NoBody then pos + snd ans else 0) b'))
              (ended_at T cls reg ids q w)"
            by (rule returns_bnd [OF sleep_keeps [OF K keeps, unfolded keeps_def]])
          moreover have "?at s \<Longrightarrow> kong_at reg ids w s" for s
            using again_leaves [OF K] asks_again_outcome(1) [OF Inr] True by blast
          ultimately have "returns ?at (bnd (sleep_for T RetrySleep (seconds (fst (checkWait resp)))) (\<lambda>_.
              request_loop T (cls (srv q)) q (Suc n) (if req_body q = NoBody then pos + snd ans else 0) b'))
              (ended_at T cls reg ids q w)"
            unfolding returns_def by blast
          with Inr True show ?thesis by simp
        next
          case False
          with Inr ends show ?thesis by (auto intro!: returns_ret)
        qed
      qed
    qed
  qed
qed

lemma finish_ok:
  assumes "srv q = KongAdmin" "res_err (finish T cl q r) = None"
  obtains resp where "r = Inr resp" "accepted resp" "res_body (finish T cl q r) = Some (http_body resp)"
proof (cases r)
  case (Inl e)
  then have "res_err (finish T cl q r) \<noteq> None"
    using assms(1) by (simp add: finish_def call_kind_of_def failed_result_def failed_exchange_def Result_Raw_def Result_Error_def)
  with assms(2) show ?thesis by simp
next
  case (Inr resp)
  have error: "Result_Error T x = None \<longleftrightarrow> result_err x = None" for x
    by (auto simp: Result_Error_def split: option.splits decoded_obj.splits)
  have transform: "accepted resp \<and> result_body (transformResponse T cl q resp) = Some (http_body resp)"
    if "result_err (transformResponse T cl q resp) = None"
    using that by (auto simp: transformResponse_def failed_exchange_def accepted_def Let_def split: option.splits negotiation.splits if_splits)
  have "accepted resp \<and> res_body (finish T cl q r) = Some (http_body resp)"
  proof (cases "call_kind_of q")
    case CallRaw
    then show ?thesis using assms(2) Inr by (auto simp: finish_def accepted_def split: if_splits)
  next
    case CallInto
    with assms(1) show ?thesis by (simp add: call_kind_of_def split: if_splits)
  qed (use assms(2) Inr transform in \<open>auto simp: finish_def Let_def Result_Raw_def error\<close>)
  with Inr show ?thesis by (auto intro: that)
qed

text \<open>The whole call.\<close>

definition called_at :: "'w transport \<Rightarrow> (server \<Rightarrow> rest_client) \<Rightarrow> ('w \<Rightarrow> string \<rightharpoonup> API) \<Rightarrow> ('w \<Rightarrow> string \<Rightarrow> string)
    \<Rightarrow> request \<Rightarrow> 'w \<Rightarrow> rest_result \<Rightarrow> 'w client_state \<Rightarrow> bool" where
  "called_at T cls reg ids q w r s \<longleftrightarrow>
     (srv q = KongAdmin \<longrightarrow> res_err r = None \<longrightarrow> request_error q = None
        \<and> (\<exists>resp. accepted resp \<and> res_body r = Some (http_body resp) \<and> answered_at T cls reg ids q w (Inr resp) s))
     \<and> (srv q \<noteq> KongAdmin \<or> verb_of q = GET \<longrightarrow> kong_at reg ids w s)"

lemma call_ends:
  assumes K: "http_kong own T cls reg ids"
  shows "returns (kong_at reg ids w) (http_call T (cls (srv q)) q) (called_at T cls reg ids q w)"
proof -
  let ?fin = "\<lambda>r s. ended_at T cls reg ids q w r s \<and> (request_error q \<noteq> None \<longrightarrow> (\<exists>e. r = Inl e))"
  have "returns (kong_at reg ids w) (do_exchange T (cls (srv q)) q) ?fin"
  proof (cases "request_error q = None \<and> namespace_error q = None")
    case True
    then show ?thesis
      using loop_ends [OF K, of q 0 w 0] by (simp add: do_exchange_def)
  next
    case False
    then show ?thesis
      by (auto simp: do_exchange_def ended_at_def intro!: returns_ret split: option.splits)
  qed
  moreover have "called_at T cls reg ids q w (finish T (cls (srv q)) q r) s" if "?fin r s" for r s
  proof -
    have "request_error q = None \<and> (\<exists>resp. accepted resp \<and> res_body (finish T (cls (srv q)) q r) = Some (http_body resp)
        \<and> answered_at T cls reg ids q w (Inr resp) s)"
      if ok: "srv q = KongAdmin" "res_err (finish T (cls (srv q)) q r) = None"
      using finish_ok [OF ok] \<open>?fin r s\<close> unfolding ended_at_def by (metis Inl_Inr_False)
    with that show ?thesis unfolding called_at_def ended_at_def by blast
  qed
  ultimately show ?thesis
    unfolding http_call_eq
    by (intro returns_bnd [OF throttle_keeps [OF K kong_only_intros(1), unfolded keeps_def]]) (auto elim!: returns_bnd intro!: returns_ret)
qed

lemma http_do_at:
  assumes "http_kong own T cls reg ids" "http_do T cls q s = (r, s')"
  obtains s1 where "called_at T cls reg ids q (snd s) r s1" "snd s' = outside s1"
proof -
  obtain x t s1 where call: "http_call T (cls (srv q)) q \<lparr>throttle_bucket = fst s (srv q), outside = snd s\<rparr> = (Done x, t, s1)"
    using http_call_runs [of T "cls (srv q)" q] unfolding runs_def by blast
  moreover from this assms(2) have "r = x" "snd s' = outside s1" by (auto simp: http_do_def)
  moreover have "called_at T cls reg ids q (snd s) x s1"
    by (rule returnsD [OF call_ends [OF assms(1)] _ call]) (simp add: kong_at_def)
  ultimately show ?thesis using that by blast
qed

section \<open>The contract\<close>

definition quiet_reads :: "'w env \<Rightarrow> ('w \<Rightarrow> string \<rightharpoonup> API) \<Rightarrow> bool" where
  "quiet_reads E reg \<longleftrightarrow>
     (\<forall>w. reg (snd (dom_list E w)) = reg w) \<and> (\<forall>k w. reg (snd (dom_get E k w)) = reg w)
     \<and> (\<forall>w. reg (snd (svc_list E w)) = reg w) \<and> (\<forall>k w. reg (snd (svc_get E k w)) = reg w)
     \<and> (\<forall>k w. reg (snd (ing_get E k w)) = reg w) \<and> (\<forall>w. reg (snd (now E w)) = reg w)
     \<and> (\<forall>d w. reg (snd (sleep E d w)) = reg w) \<and> (\<forall>m w. reg (snd (host_order E m w)) = reg w)"

lemma over_http_simps [simp]:
  "do_request (over_http T cls E) = http_do T cls" "dom_list (over_http T cls E) = below (dom_list E)"
  "dom_get (over_http T cls E) k = below (dom_get E k)" "svc_list (over_http T cls E) = below (svc_list E)"
  "svc_get (over_http T cls E) k = below (svc_get E k)" "ing_get (over_http T cls E) k = below (ing_get E k)"
  "now (over_http T cls E) = below (now E)" "sleep (over_http T cls E) d = below (sleep E d)"
  "host_order (over_http T cls E) m = below (host_order E m)"
  by (simp_all add: over_http_def)

lemma snd_below [simp]: "snd (snd (below f s)) = snd (f (snd s))"
  by (simp add: below_def split: prod.splits)

lemma same_body:
  "res_body r = Some (http_body resp) \<Longrightarrow> shown_uid r = shown_uid (raw_answer resp)"
  "res_body r = Some (http_body resp) \<Longrightarrow> res_err r = None \<Longrightarrow> lists R covered own ps r = lists R covered own ps (raw_answer resp)"
  by (simp_all add: shown_uid_def lists_def page_def has_next_def raw_answer_def)

text \<open>An accepted request to Kong, for the clauses of the contract.\<close>

lemma http_do_sent:
  assumes "http_kong own T cls reg ids" "http_do T cls q s = (r, s')" "srv q = KongAdmin" "res_err r = None"
  obtains w1 resp k w2 where "request_error q = None" "accepted resp" "res_body r = Some (http_body resp)"
    "sent T cls q w1 = ((Inr resp, k), w2)" "reg w1 = reg (snd s)" "ids w1 = ids (snd s)"
    "reg (snd s') = reg w2" "ids (snd s') = ids w2"
  using http_do_at [OF assms(1,2)] assms(3,4) unfolding called_at_def answered_at_def same_kong_def by metis

lemma put_clause:
  assumes "http_kong own T cls reg ids" "sent T cls (kong_request PUT None (JsonBody j)) w = ((Inr resp, k), w')" "accepted resp" "uid_of j \<in> {'''', ids w (API_Name (told j))}"
  shows "reg w' = (if API_Name (told j) \<in> own then (reg w)(API_Name (told j) \<mapsto> told j) else reg w)"
proof -
  have "\<forall>j w resp k w'. sent T cls (kong_request PUT None (JsonBody j)) w = ((Inr resp, k), w') \<longrightarrow> accepted resp \<longrightarrow> uid_of j \<in> {'''', ids w (API_Name (told j))} \<longrightarrow> reg w' = (if API_Name (told j) \<in> own then (reg w)(API_Name (told j) \<mapsto> told j) else reg w)"
    using assms(1) unfolding http_kong_def by (elim conjE)
  from this [rule_format, OF assms(2-4)] show ?thesis .
qed

lemma delete_clause:
  assumes "http_kong own T cls reg ids" "sent T cls (kong_request DELETE (Some n) NoBody) w = ((Inr resp, k), w')" "request_error (kong_request DELETE (Some n) NoBody) = None" "accepted resp"
  shows "reg w' = (if n \<in> own then (reg w)(n := None) else reg w)"
proof -
  have "\<forall>n w resp k w'. sent T cls (kong_request DELETE (Some n) NoBody) w = ((Inr resp, k), w') \<longrightarrow> request_error (kong_request DELETE (Some n) NoBody) = None \<longrightarrow> accepted resp \<longrightarrow> reg w' = (if n \<in> own then (reg w)(n := None) else reg w)"
    using assms(1) unfolding http_kong_def by (elim conjE)
  from this [rule_format, OF assms(2-4)] show ?thesis .
qed

lemma get_clause:
  assumes "http_kong own T cls reg ids" "sent T cls (kong_request GET (Some n) NoBody) w = ((Inr resp, k), w')" "request_error (kong_request GET (Some n) NoBody) = None" "accepted resp"
  shows "shown_uid (raw_answer resp) \<in> {'''', ids w' n}"
proof -
  have "\<forall>n w resp k w'. sent T cls (kong_request GET (Some n) NoBody) w = ((Inr resp, k), w') \<longrightarrow> request_error (kong_request GET (Some n) NoBody) = None \<longrightarrow> accepted resp \<longrightarrow> shown_uid (raw_answer resp) \<in> {'''', ids w' n}"
    using assms(1) unfolding http_kong_def by (elim conjE)
  from this [rule_format, OF assms(2-4)] show ?thesis .
qed

lemma lists_over_http:
  assumes K: "http_kong own T cls reg ids"
  shows "kong_lists own (over_http T cls E) (\<lambda>s. reg (snd s))"
proof -
  from K obtain covered where c: "\<forall>ps. ''offset'' \<notin> fst ` set ps \<longrightarrow> covered ps = UNIV"
    and L: "\<And>ps w resp k w'. sent T cls (list_request ps) w = ((Inr resp, k), w') \<Longrightarrow> accepted resp
      \<Longrightarrow> distinct (map fst (elems ps)) \<Longrightarrow> lists (reg w) covered own (elems ps) (raw_answer resp)"
    unfolding http_kong_def by (elim conjE exE) blast
  have "lists (reg (snd s)) covered own (elems ps) r"
    if do: "http_do T cls (list_request ps) s = (r, s')" "res_err r = None" "distinct (map fst (elems ps))" for ps s r s'
  proof -
    have srv: "srv (list_request ps) = KongAdmin" by (simp add: list_request_def kong_request_def)
    from http_do_sent [OF K do(1) srv do(2)] obtain w1 resp k w2 where
      "accepted resp" and body: "res_body r = Some (http_body resp)" and "sent T cls (list_request ps) w1 = ((Inr resp, k), w2)"
      and w1: "reg w1 = reg (snd s)" by metis
    from L [OF this(3,1) do(3)] w1 same_body(2) [OF body do(2)] show ?thesis by simp
  qed
  with c show ?thesis unfolding kong_lists_def over_http_simps by blast
qed

end
