(* ===== verification/Sample_Http.thy ===== *)
theory Sample_Http
  imports Http_Registry Sample_Kong "HOL-Library.Countable"
begin

text \<open>
  The Kong of \<open>Sample_Kong\<close> behind HTTP, for the witness of \<open>Http_Contract\<close>: it reads the path, the
  query and the body of a request. A document is written as a text as long as its number in an
  enumeration of all documents. Nothing here models code of the program.
\<close>

instance json :: countable by countable_datatype

definition body_text_of :: "body \<Rightarrow> string" where
  "body_text_of b = (case b of JsonBody j \<Rightarrow> replicate (to_nat j) CHR ''x'' | _ \<Rightarrow> '''')"

definition read_query :: "string \<Rightarrow> (string \<times> string list) list" where
  "read_query s = (case ParseQuery s of None \<Rightarrow> []
    | Some kvs \<Rightarrow> [(''upstream_url'', map snd (filter (\<lambda>kv. fst kv = ''upstream_url'') kvs))])"

definition read_request :: "http_request \<Rightarrow> request" where
  "read_request req =
     (if http_path req = ''/apis''
      then (kong_request (http_verb req) None (case http_sent req of None \<Rightarrow> NoBody | Some t \<Rightarrow> JsonBody (from_nat (length t))))
        \<lparr>params := read_query (http_query req)\<rparr>
      else kong_request (http_verb req) (Some (drop 6 (http_path req))) NoBody)"

definition respond :: "rest_result \<Rightarrow> http_response" where
  "respond r = \<lparr>http_status = (if res_err r = None then 200 else 404), http_header = (\<lambda>k. ''''),
     http_body = payload_of (res_body r), http_read_err = None\<rparr>"

definition http_step :: "http_request \<Rightarrow> API list \<Rightarrow> ((net_error + http_response) \<times> nat) \<times> API list" where
  "http_step req as =
     (if http_host req \<noteq> ''http://kong:8001'' then ((Inr (status_only 200 ''''), 0), as)
      else case kong_step (read_request req) as of (r, as') \<Rightarrow> ((Inr (respond r), 0), as'))"

definition kong_transport :: "API list transport" where
  "kong_transport = \<lparr>client_do = (\<lambda>c. http_step), pause = (\<lambda>d w. ((), w)), clock_now = (\<lambda>w. (0, w)),
     encode_body = body_text_of, parse_media = Inr, decode = (\<lambda>m p. OtherObj), quoted = id, backoff_env = ('''', '''')\<rparr>"

definition sample_clients :: "server \<Rightarrow> rest_client" where
  "sample_clients s = (if s = KongAdmin then kong_client else kong_client\<lparr>base := \<lparr>Base_Host = ''https://kube'', Base_Path = ''/''\<rparr>\<rparr>)"

section \<open>What it reads\<close>

lemma sent_step: "sent kong_transport sample_clients q w = http_step (build_request kong_transport (sample_clients (srv q)) q 0) w"
  by (simp add: sent_def kong_transport_def)

lemma sample_host:
  "http_host (build_request T (sample_clients (srv q)) q 0) = ''http://kong:8001'' \<longleftrightarrow> srv q = KongAdmin"
  by (simp add: build_request_def sample_clients_def kong_client_def)

lemma sample_prefix: "pathPrefix (sample_clients s) = ''/''"
  by (simp add: pathPrefix_def sample_clients_def kong_client_def path_Join_def path_Clean_def)

lemma collection_path: "URL_path ''/'' ((kong_request v None b)\<lparr>params := ps\<rparr>) = ''/apis''"
  by (simp add: URL_path_def kong_request_def Let_def lower_plugin_fields)

lemma read_verb [simp]: "verb_of (read_request (build_request T cl q 0)) = verb_of q"
  by (simp add: read_request_def build_request_def kong_request_def)

lemma read_named:
  assumes "request_error (kong_request v (Some n) NoBody) = None"
  shows "read_request (build_request kong_transport kong_client (kong_request v (Some n) NoBody) 0) = kong_request v (Some n) NoBody"
proof -
  have "plain n" using assms by (auto simp: request_error_def plain_def split: if_splits)
  moreover have "kong_request v (Some n) NoBody \<noteq> root_request" by (simp add: kong_request_def root_request_def)
  ultimately have "request_path kong_client (kong_request v (Some n) NoBody) = ''/apis/'' @ n"
    using sample_prefix [of KongAdmin] api_url [of n] by (simp add: request_path_def sample_clients_def)
  then show ?thesis by (simp add: read_request_def build_request_def body_bytes_def kong_request_def)
qed

lemma read_collection:
  "read_request (build_request kong_transport kong_client ((kong_request v None b)\<lparr>params := ps\<rparr>) 0)
    = (kong_request v None (if b = NoBody then NoBody else JsonBody (from_nat (length (body_text_of b)))))
        \<lparr>params := read_query (Values_Encode ps)\<rparr>"
proof -
  have "(kong_request v None b)\<lparr>params := ps\<rparr> \<noteq> root_request" by (simp add: kong_request_def root_request_def)
  then have "request_path kong_client ((kong_request v None b)\<lparr>params := ps\<rparr>) = ''/apis''"
    using sample_prefix [of KongAdmin] collection_path by (simp add: request_path_def sample_clients_def)
  then show ?thesis
    by (simp add: read_request_def build_request_def body_bytes_def kong_transport_def kong_request_def)
qed

lemma keyed_values:
  assumes "distinct (map fst ps)"
  shows "map snd (filter (\<lambda>kv. fst kv = k) (concat (map (\<lambda>(k, vs). map (Pair k) vs) ps)))
    = (case map_of ps k of None \<Rightarrow> [] | Some vs \<Rightarrow> vs)"
proof -
  have other: "filter (\<lambda>kv. fst kv = k) (concat (map (\<lambda>(k, vs). map (Pair k) vs) qs)) = []" if "k \<notin> fst ` set qs" for qs :: "('a \<times> 'b list) list"
    using that by (induction qs) (auto simp: comp_def)
  show ?thesis
    using assms by (induction ps) (auto simp: comp_def other eq_key_imp_eq_value image_iff Bex_def split: option.splits)
qed

lemma matches_read:
  assumes "distinct (map fst ps)"
  shows "matches (read_query (Values_Encode ps)) a = matches ps a"
proof -
  have sorted: "distinct (map fst (sort_key fst ps))" "set (sort_key fst ps) = set ps"
    using assms by (simp_all add: distinct_map)
  then have "map_of (sort_key fst ps) = map_of ps" using assms by (metis map_of_eqI map_of_inject_set set_map)
  then have "read_query (Values_Encode ps) = [(''upstream_url'', case map_of ps ''upstream_url'' of None \<Rightarrow> [] | Some vs \<Rightarrow> vs)]"
    using keyed_values [OF sorted(1)] by (simp add: read_query_def ParseQuery_encode)
  then show ?thesis
    using assms by (auto simp: matches_def dest: eq_key_imp_eq_value [OF assms] split: option.splits)
qed

section \<open>It satisfies the hypotheses\<close>

lemma respond_accepted: "accepted (respond r) \<longleftrightarrow> res_err r = None"
  by (simp add: accepted_def respond_def out_of_range_def)

lemma respond_patient: "\<not> snd (checkWait (respond r))" "\<not> snd (checkWait (status_only 200 ''''))"
  by (simp_all add: checkWait_def respond_def status_only_def)

lemma sent_kong:
  "srv q = KongAdmin \<Longrightarrow> sent kong_transport sample_clients q w = ((ans, k), w')
    \<Longrightarrow> \<exists>r. kong_step (read_request (build_request kong_transport kong_client q 0)) w = (r, w') \<and> ans = Inr (respond r)"
  using sample_host [of kong_transport q] by (auto simp: sent_step http_step_def sample_clients_def split: prod.splits)

lemma step_get: "verb_of q = GET \<Longrightarrow> kong_step q w = (r, w') \<Longrightarrow> w' = w"
  by (auto simp: kong_step_def split: if_splits option.splits)

lemma sample_leaves:
  assumes "sent kong_transport sample_clients q w = ((ans, k), w')" "leaves_alone q ans"
  shows "w' = w"
proof (cases "srv q = KongAdmin")
  case True
  from sent_kong [OF this assms(1)] obtain r where
    "kong_step (read_request (build_request kong_transport kong_client q 0)) w = (r, w')" "ans = Inr (respond r)" by blast
  moreover from this assms(2) True respond_patient have "verb_of q = GET" by (auto simp: leaves_alone_def)
  ultimately show ?thesis by (intro step_get [of _ w r w']) simp_all
next
  case False
  with assms(1) sample_host [of kong_transport q] show ?thesis by (auto simp: sent_step http_step_def)
qed

lemma sample_quiet:
  "same_kong kong_reg (\<lambda>_. kong_id) w (snd (pause kong_transport d w))" "same_kong kong_reg (\<lambda>_. kong_id) w (snd (clock_now kong_transport w))"
  by (simp_all add: kong_transport_def)

lemma kong_http_kong: "http_kong UNIV kong_transport sample_clients kong_reg (\<lambda>_. kong_id)"
  unfolding http_kong_def
proof (intro conjI allI impI sample_quiet)
  fix q w ans k w'
  assume "sent kong_transport sample_clients q w = ((ans, k), w')" "leaves_alone q ans"
  then have "w' = w" by (rule sample_leaves)
  then show "same_kong kong_reg (\<lambda>_. kong_id) w w'" by simp
next
  fix n w resp k w'
  assume "sent kong_transport sample_clients (kong_request GET (Some n) NoBody) w = ((Inr resp, k), w')"
    and ok: "request_error (kong_request GET (Some n) NoBody) = None" "accepted resp"
  then obtain r where "kong_step (kong_request GET (Some n) NoBody) w = (r, w')" "resp = respond r"
    using sent_kong [OF kong_request_simps(1)] read_named by (metis sum.inject(2))
  moreover from this(2) ok(2) have "res_err r = None" by (simp add: respond_accepted)
  ultimately show "shown_uid (raw_answer resp) \<in> {'''', kong_id n}"
    by (auto simp: kong_step_def kong_request_def shown_uid_def raw_answer_def respond_def ok_json_def
        err_answer_def payload_of_def unmarshal_shown split: option.splits)
next
  fix j w resp k w'
  assume "sent kong_transport sample_clients (kong_request PUT None (JsonBody j)) w = ((Inr resp, k), w')" "accepted resp"
  moreover have "read_request (build_request kong_transport kong_client (kong_request PUT None (JsonBody j)) 0)
      = (kong_request PUT None (JsonBody j))\<lparr>params := read_query (Values_Encode [])\<rparr>"
    using read_collection [where v = PUT and b = "JsonBody j" and ps = "[]"] by (simp add: kong_request_def body_text_of_def)
  ultimately obtain r where "kong_step ((kong_request PUT None (JsonBody j))\<lparr>params := read_query (Values_Encode [])\<rparr>) w = (r, w')"
    "res_err r = None"
    using sent_kong [OF kong_request_simps(1)] respond_accepted by (metis sum.inject(2))
  then show "kong_reg w' = (if API_Name (told j) \<in> UNIV then (kong_reg w)(API_Name (told j) \<mapsto> told j) else kong_reg w)"
    by (auto simp: kong_step_def kong_request_def err_answer_def split: if_splits)
next
  fix n w resp k w'
  assume "sent kong_transport sample_clients (kong_request DELETE (Some n) NoBody) w = ((Inr resp, k), w')"
    and ok: "request_error (kong_request DELETE (Some n) NoBody) = None" "accepted resp"
  then obtain r where "kong_step (kong_request DELETE (Some n) NoBody) w = (r, w')" "res_err r = None"
    using sent_kong [OF kong_request_simps(1)] read_named respond_accepted by (metis sum.inject(2))
  then show "kong_reg w' = (if n \<in> UNIV then (kong_reg w)(n := None) else kong_reg w)"
    by (auto simp: kong_step_def kong_request_def err_answer_def split: if_splits)
next
  have "lists (kong_reg w) (\<lambda>_. UNIV) UNIV (elems ps) (raw_answer resp)"
    if step: "sent kong_transport sample_clients (list_request ps) w = ((Inr resp, k), w')" and keys: "distinct (map fst (elems ps))"
    for ps w resp k w'
  proof -
    have q: "list_request ps = (kong_request GET None NoBody)\<lparr>params := elems ps\<rparr>"
      by (simp add: list_request_def elems_def split: option.splits)
    have "list_request (Some (read_query (Values_Encode (elems ps)))) = read_request (build_request kong_transport kong_client (list_request ps) 0)"
      unfolding q read_collection by (simp add: list_request_def)
    moreover have "srv (list_request ps) = KongAdmin" by (simp add: q kong_request_def)
    ultimately obtain r where "kong_step (list_request (Some (read_query (Values_Encode (elems ps))))) w = (r, w')" "resp = respond r"
      using sent_kong [OF _ step] by auto
    moreover from this(1) have "r = ok_json (JObj [(''data'', JArr (map shown_as (listed_apis (read_query (Values_Encode (elems ps))) w)))])"
      by (auto simp: kong_step_list elems_def)
    ultimately have "page (raw_answer resp) = page (ok_json (JObj [(''data'', JArr (map shown_as (listed_apis (read_query (Values_Encode (elems ps))) w)))]))"
      by (simp add: page_def raw_answer_def respond_def payload_of_def ok_json_def)
    then have "set (map API_Name (Items (page (raw_answer resp)))) = set (map API_Name (listed_apis (read_query (Values_Encode (elems ps))) w))"
      by (simp only: page_shown)
    then have "n \<in> API_Name ` set (Items (page (raw_answer resp))) \<longleftrightarrow> (\<exists>a. kong_reg w n = Some a \<and> matches (elems ps) a)" for n
      using matches_read [OF keys] by (simp add: listed_names)
    then show ?thesis by (auto simp: lists_def)
  qed
  then show "\<exists>covered. (\<forall>ps. ''offset'' \<notin> fst ` set ps \<longrightarrow> covered ps = UNIV)
     \<and> (\<forall>ps w resp k w'. sent kong_transport sample_clients (list_request ps) w = ((Inr resp, k), w') \<longrightarrow> accepted resp
         \<longrightarrow> distinct (map fst (elems ps)) \<longrightarrow> lists (kong_reg w) covered UNIV (elems ps) (raw_answer resp))"
    by (intro exI [of _ "\<lambda>_. UNIV"]) auto
qed simp_all

end
