(* ===== verification/Http_Contract.thy ===== *)
theory Http_Contract
  imports Sample_Http
begin

text \<open>
  The registry contract of Kong over HTTP: what the theorems of \<open>Registry_Safety\<close> and \<open>Wipe_Safety\<close> assume
  of an environment holds for the controller behind the exchanges of \<open>Http_Exchange\<close>.
\<close>

text \<open>
  C10: if each single HTTP request has the effect on Kong that its documentation gives, the requests of
  the controller, with all their retries and waits, satisfy the contract: the refinements of the
  reconciliations hold for the controller that talks HTTP.
\<close>

theorem contract_over_http:
  assumes K: "http_kong own T cls reg ids" and Q: "quiet_reads E reg"
  shows "kong_contract own (over_http T cls E) (\<lambda>s. reg (snd s)) (\<lambda>s. ids (snd s))"
  unfolding kong_contract_def over_http_simps snd_below
proof (intro conjI allI impI)
  show "dom (reg (snd s)) \<subseteq> own" for s :: "'a networked" using K unfolding http_kong_def by (elim conjE) blast
next
  fix q s r s'
  assume "http_do T cls q s = (r, s')" "srv q \<noteq> KongAdmin \<or> verb_of q = GET"
  then show "reg (snd s') = reg (snd s)"
    using http_do_at [OF K] unfolding called_at_def kong_at_def same_kong_def by metis
next
  fix n s r s'
  assume "http_do T cls (kong_request GET (Some n) NoBody) s = (r, s')" "res_err r = None"
  from http_do_sent [OF K this(1) kong_request_simps(1) this(2)] show "shown_uid r \<in> {'''', ids (snd s') n}"
    using get_clause [OF K] same_body(1) by metis
next
  fix j s r s'
  assume "http_do T cls (kong_request PUT None (JsonBody j)) s = (r, s')" "res_err r = None"
    and uid: "uid_of j \<in> {'''', ids (snd s) (API_Name (told j))}"
  from http_do_sent [OF K this(1) kong_request_simps(1) this(2)] obtain w1 resp k w2 where
    "accepted resp" "sent T cls (kong_request PUT None (JsonBody j)) w1 = ((Inr resp, k), w2)"
    and w: "reg w1 = reg (snd s)" "ids w1 = ids (snd s)" "reg (snd s') = reg w2" by metis
  from put_clause [OF K this(2,1)] uid w
  show "reg (snd s') = (if API_Name (told j) \<in> own then (reg (snd s))(API_Name (told j) \<mapsto> told j) else reg (snd s))" by simp
next
  fix n s r s'
  assume "http_do T cls (kong_request DELETE (Some n) NoBody) s = (r, s')" "res_err r = None"
  from http_do_sent [OF K this(1) kong_request_simps(1) this(2)] obtain w1 resp k w2 where
    "request_error (kong_request DELETE (Some n) NoBody) = None" "accepted resp"
    "sent T cls (kong_request DELETE (Some n) NoBody) w1 = ((Inr resp, k), w2)"
    and w: "reg w1 = reg (snd s)" "reg (snd s') = reg w2" by metis
  from delete_clause [OF K this(3,1,2)] w
  show "reg (snd s') = (if n \<in> own then (reg (snd s))(n := None) else reg (snd s))" by simp
qed (use Q lists_over_http [OF K] in \<open>auto simp: quiet_reads_def\<close>)


lemma contract_over_http_witness:
  "kong_contract UNIV (over_http kong_transport sample_clients (kong_env [acme_domain] [acme_service] [acme_ingress]))
    (\<lambda>s. kong_reg (snd s)) (\<lambda>s. kong_id)"
  by (rule contract_over_http [OF kong_http_kong]) (simp add: quiet_reads_def)

end
