(* ===== verification/Scheme_Types.thy ===== *)
theory Scheme_Types
  imports Kong_Types
begin

text \<open>
  \<open>pkg/kong/register.go\<close>: the registration of the custom types with the scheme of the Kubernetes
  client, over the registration functions of \<open>runtime.Scheme\<close> and \<open>metav1.AddToGroupVersion\<close>.
  Conversion, defaulting and copy functions are left out. A panic is the message on the left.
\<close>

section \<open>The scheme\<close>

record GroupVersionKind =
  GVK_Group :: string
  GVK_Version :: string
  GVK_Kind :: string

text \<open>\<open>reflect.Type\<close> of a struct: all objects that are registered are pointers to structs.\<close>

record go_type =
  PkgPath :: string
  Type_Name :: string

record Scheme =
  gvkToType :: "GroupVersionKind \<rightharpoonup> go_type"
  typeToGVK :: "go_type \<rightharpoonup> GroupVersionKind list"
  unversionedTypes :: "go_type \<rightharpoonup> GroupVersionKind"
  unversionedKinds :: "string \<rightharpoonup> go_type"

definition NewScheme :: Scheme where
  "NewScheme = \<lparr>gvkToType = Map.empty, typeToGVK = Map.empty, unversionedTypes = Map.empty, unversionedKinds = Map.empty\<rparr>"

definition WithKind :: "GroupVersion \<Rightarrow> string \<Rightarrow> GroupVersionKind" where
  "WithKind gv kind = \<lparr>GVK_Group = GV_Group gv, GVK_Version = GV_Version gv, GVK_Kind = kind\<rparr>"

definition known_kinds :: "Scheme \<Rightarrow> go_type \<Rightarrow> GroupVersionKind list" where
  "known_kinds s t = (case typeToGVK s t of None \<Rightarrow> [] | Some gs \<Rightarrow> gs)"

definition AddKnownTypeWithName :: "GroupVersionKind \<Rightarrow> go_type \<Rightarrow> Scheme \<Rightarrow> string + Scheme" where
  "AddKnownTypeWithName gvk t s =
     (if length (GVK_Version gvk) = 0 then Inl ''version is required on all types''
      else if gvkToType s gvk \<noteq> None \<and> gvkToType s gvk \<noteq> Some t then Inl ''Double registration of different types''
      else
        (let s1 = s\<lparr>gvkToType := (gvkToType s)(gvk \<mapsto> t)\<rparr>
         in if gvk \<in> set (known_kinds s1 t) then Inr s1
            else Inr (s1\<lparr>typeToGVK := (typeToGVK s1)(t \<mapsto> known_kinds s1 t @ [gvk])\<rparr>)))"

text \<open>Sequencing and loops of code that may panic.\<close>

fun and_then :: "string + Scheme \<Rightarrow> (Scheme \<Rightarrow> string + Scheme) \<Rightarrow> string + Scheme" where
  "and_then (Inl m) f = Inl m"
| "and_then (Inr s) f = f s"

fun each :: "('t \<Rightarrow> Scheme \<Rightarrow> string + Scheme) \<Rightarrow> 't list \<Rightarrow> Scheme \<Rightarrow> string + Scheme" where
  "each f [] s = Inr s"
| "each f (t # ts) s = and_then (f t s) (each f ts)"

definition AddKnownTypes :: "GroupVersion \<Rightarrow> go_type list \<Rightarrow> Scheme \<Rightarrow> string + Scheme" where
  "AddKnownTypes gv ts s = each (\<lambda>t. AddKnownTypeWithName (WithKind gv (Type_Name t)) t) ts s"

definition add_unversioned :: "GroupVersion \<Rightarrow> go_type \<Rightarrow> Scheme \<Rightarrow> string + Scheme" where
  "add_unversioned gv t s =
     (let gvk = WithKind gv (Type_Name t);
          s1 = s\<lparr>unversionedTypes := (unversionedTypes s)(t \<mapsto> gvk)\<rparr>
      in if unversionedKinds s1 (GVK_Kind gvk) \<noteq> None \<and> unversionedKinds s1 (GVK_Kind gvk) \<noteq> Some t
         then Inl ''has already been registered as unversioned kind - kind name must be unique''
         else Inr (s1\<lparr>unversionedKinds := (unversionedKinds s1)(GVK_Kind gvk \<mapsto> t)\<rparr>))"

definition AddUnversionedTypes :: "GroupVersion \<Rightarrow> go_type list \<Rightarrow> Scheme \<Rightarrow> string + Scheme" where
  "AddUnversionedTypes gv ts s = and_then (AddKnownTypes gv ts s) (each (add_unversioned gv) ts)"

text \<open>Reading the scheme: \<open>None\<close> is the error of a type or kind that is not registered.\<close>

definition ObjectKinds :: "Scheme \<Rightarrow> go_type \<Rightarrow> (GroupVersionKind list \<times> bool) option" where
  "ObjectKinds s t = (case typeToGVK s t of
      None \<Rightarrow> None | Some gvks \<Rightarrow> Some (gvks, unversionedTypes s t \<noteq> None))"

definition New_type :: "Scheme \<Rightarrow> GroupVersionKind \<Rightarrow> go_type option" where
  "New_type s kind = (case gvkToType s kind of
      Some t \<Rightarrow> Some t | None \<Rightarrow> unversionedKinds s (GVK_Kind kind))"

section \<open>The registration\<close>

definition meta_type :: "string \<Rightarrow> go_type" where
  "meta_type n = \<lparr>PkgPath = ''k8s.io/apimachinery/pkg/apis/meta/v1'', Type_Name = n\<rparr>"

definition kong_type :: "string \<Rightarrow> go_type" where
  "kong_type n = \<lparr>PkgPath = ''kolihub.io/kong-ingress/pkg/kong'', Type_Name = n\<rparr>"

definition WatchEventKind :: string where
  "WatchEventKind = ''WatchEvent''"

definition Unversioned :: GroupVersion where
  "Unversioned = \<lparr>GV_Group = '''', GV_Version = ''v1''\<rparr>"

definition AddToGroupVersion :: "GroupVersion \<Rightarrow> Scheme \<Rightarrow> string + Scheme" where
  "AddToGroupVersion gv s =
     and_then (AddKnownTypeWithName (WithKind gv WatchEventKind) (meta_type ''WatchEvent'') s) (\<lambda>s.
     and_then (AddKnownTypeWithName (WithKind \<lparr>GV_Group = GV_Group gv, GV_Version = ''__internal''\<rparr> WatchEventKind)
       (meta_type ''InternalEvent'') s) (\<lambda>s.
     and_then (AddKnownTypes gv (map meta_type [''ListOptions'', ''ExportOptions'', ''GetOptions'', ''DeleteOptions'']) s)
       (AddUnversionedTypes Unversioned
          (map meta_type [''Status'', ''APIVersions'', ''APIGroupList'', ''APIGroup'', ''APIResourceList'']))))"

text \<open>\<open>addKnownTypes\<close> returns nil whenever it returns.\<close>

definition addKnownTypes :: "Scheme \<Rightarrow> string + Scheme" where
  "addKnownTypes s = and_then (AddKnownTypes SchemeGroupVersion [kong_type ''Domain'', kong_type ''DomainList''] s)
     (AddToGroupVersion SchemeGroupVersion)"

definition SchemeBuilder :: "(Scheme \<Rightarrow> string + Scheme) list" where
  "SchemeBuilder = [addKnownTypes]"

definition AddToScheme :: "Scheme \<Rightarrow> string + Scheme" where
  "AddToScheme s = each id SchemeBuilder s"

section \<open>Properties\<close>

text \<open>The two maps of a scheme agree, and a type has each of its kinds once.\<close>

definition scheme_ok :: "Scheme \<Rightarrow> bool" where
  "scheme_ok s \<longleftrightarrow> (\<forall>g t. gvkToType s g = Some t \<longleftrightarrow> g \<in> set (known_kinds s t)) \<and> (\<forall>t. distinct (known_kinds s t))"

lemma known_kinds_update [simp]:
  "known_kinds (s\<lparr>gvkToType := m\<rparr>) = known_kinds s" "known_kinds (s\<lparr>unversionedTypes := u\<rparr>) = known_kinds s"
  "known_kinds (s\<lparr>unversionedKinds := k\<rparr>) = known_kinds s"
  "known_kinds (s\<lparr>typeToGVK := (typeToGVK s')(t \<mapsto> gs)\<rparr>) = (known_kinds s')(t := gs)"
  by (simp_all add: known_kinds_def fun_eq_iff)

lemma if_chain: "(if A then Inl a else if B then Inl b else if C then Inr x else Inr y) = Inr z \<Longrightarrow> \<not> B \<and> z = (if C then x else y)"
  by (auto split: if_splits)

lemma AddKnownTypeWithName_effect:
  assumes "AddKnownTypeWithName gvk t s = Inr s'"
  shows "gvkToType s' = (gvkToType s)(gvk \<mapsto> t)" "gvkToType s gvk \<noteq> None \<Longrightarrow> gvkToType s gvk = Some t"
    "known_kinds s' = (known_kinds s)(t := (if gvk \<in> set (known_kinds s t) then known_kinds s t else known_kinds s t @ [gvk]))"
    "unversionedKinds s' = unversionedKinds s" "unversionedTypes s' = unversionedTypes s"
proof -
  let ?s = "s\<lparr>gvkToType := (gvkToType s)(gvk \<mapsto> t)\<rparr>"
  have s': "s' = (if gvk \<in> set (known_kinds s t) then ?s
      else ?s\<lparr>typeToGVK := (typeToGVK ?s)(t \<mapsto> known_kinds s t @ [gvk])\<rparr>)"
    and free: "\<not> (gvkToType s gvk \<noteq> None \<and> gvkToType s gvk \<noteq> Some t)"
    using if_chain [OF assms [unfolded AddKnownTypeWithName_def Let_def known_kinds_update]] by blast+
  from free show "gvkToType s gvk \<noteq> None \<Longrightarrow> gvkToType s gvk = Some t" by auto
  show "gvkToType s' = (gvkToType s)(gvk \<mapsto> t)" "unversionedKinds s' = unversionedKinds s" "unversionedTypes s' = unversionedTypes s"
    "known_kinds s' = (known_kinds s)(t := (if gvk \<in> set (known_kinds s t) then known_kinds s t else known_kinds s t @ [gvk]))"
    unfolding s' by (simp_all split: if_splits)
qed

lemma AddKnownTypeWithName_ok:
  assumes "AddKnownTypeWithName gvk t s = Inr s'" "scheme_ok s"
  shows "scheme_ok s'"
proof -
  note effect = AddKnownTypeWithName_effect [OF assms(1)]
  have other: "gvk \<notin> set (known_kinds s u)" if "u \<noteq> t" for u
  proof
    assume that': "gvk \<in> set (known_kinds s u)"
    with assms(2) have "gvkToType s gvk = Some u" by (simp add: scheme_ok_def)
    with effect(2) that show False by simp
  qed
  show ?thesis
    unfolding scheme_ok_def
  proof (intro conjI allI)
    show "gvkToType s' g = Some u \<longleftrightarrow> g \<in> set (known_kinds s' u)" for g u
      using assms(2) other [of u] by (cases "u = t"; cases "g = gvk") (simp_all add: scheme_ok_def effect(1,3))
    show "distinct (known_kinds s' u)" for u
      using assms(2) by (simp add: scheme_ok_def effect(3))
  qed
qed

text \<open>The registration as one list of kinds with their types, and the unversioned types.\<close>

definition register :: "GroupVersionKind \<times> go_type \<Rightarrow> Scheme \<Rightarrow> string + Scheme" where
  "register r s = AddKnownTypeWithName (fst r) (snd r) s"

definition unversioned_types :: "go_type list" where
  "unversioned_types = map meta_type [''Status'', ''APIVersions'', ''APIGroupList'', ''APIGroup'', ''APIResourceList'']"

definition registrations :: "(GroupVersionKind \<times> go_type) list" where
  "registrations =
     map (\<lambda>n. (WithKind SchemeGroupVersion n, kong_type n)) [''Domain'', ''DomainList'']
     @ [(WithKind SchemeGroupVersion WatchEventKind, meta_type ''WatchEvent''),
        (WithKind \<lparr>GV_Group = GV_Group SchemeGroupVersion, GV_Version = ''__internal''\<rparr> WatchEventKind, meta_type ''InternalEvent'')]
     @ map (\<lambda>n. (WithKind SchemeGroupVersion n, meta_type n)) [''ListOptions'', ''ExportOptions'', ''GetOptions'', ''DeleteOptions'']
     @ map (\<lambda>t. (WithKind Unversioned (Type_Name t), t)) unversioned_types"

lemma and_then_assoc [simp]: "and_then (and_then m f) g = and_then m (\<lambda>s. and_then (f s) g)"
  by (cases m) simp_all

lemma and_then_return [simp]: "and_then m Inr = m" "and_then m (\<lambda>s. Inr s) = m"
  by (cases m; simp)+

lemma and_then_Inr: "and_then m f = Inr s \<Longrightarrow> \<exists>s'. m = Inr s' \<and> f s' = Inr s"
  by (cases m) simp_all

lemma each_Nil [simp]: "each f [] = Inr"
  by (simp add: fun_eq_iff)

lemma each_append: "each f (xs @ ys) = (\<lambda>s. and_then (each f xs s) (each f ys))"
proof (induction xs)
  case Nil
  then show ?case by simp
next
  case (Cons x xs)
  then show ?case by (intro ext) simp
qed

lemma AddKnownTypes_register:
  "AddKnownTypes gv ts s = each register (map (\<lambda>t. (WithKind gv (Type_Name t), t)) ts) s"
proof (induction ts arbitrary: s)
  case Nil
  then show ?case by (simp add: AddKnownTypes_def)
next
  case (Cons t ts)
  then have "each register (map (\<lambda>t. (WithKind gv (Type_Name t), t)) ts)
      = each (\<lambda>t. AddKnownTypeWithName (WithKind gv (Type_Name t)) t) ts"
    by (simp add: fun_eq_iff AddKnownTypes_def)
  then show ?case by (simp add: AddKnownTypes_def) (simp add: register_def)
qed

lemma AddToScheme_register:
  "AddToScheme s = and_then (each register registrations s) (each (add_unversioned Unversioned) unversioned_types)"
proof -
  have one: "AddKnownTypeWithName g t = register (g, t)" for g t
    by (simp add: fun_eq_iff register_def)
  show ?thesis
    by (simp add: registrations_def AddToScheme_def SchemeBuilder_def addKnownTypes_def AddToGroupVersion_def [abs_def]
        AddUnversionedTypes_def [abs_def] AddKnownTypes_register one each_append kong_type_def meta_type_def unversioned_types_def)
qed

text \<open>The registration of kinds that are free or have the same type, and its repetition.\<close>

lemma register_all:
  assumes "distinct (map fst rs)" "\<And>g t. (g, t) \<in> set rs \<Longrightarrow> GVK_Version g \<noteq> [] \<and> (gvkToType s g = None \<or> gvkToType s g = Some t)"
    and "scheme_ok s"
  shows "\<exists>s'. each register rs s = Inr s' \<and> scheme_ok s' \<and> gvkToType s' = gvkToType s ++ map_of rs
    \<and> unversionedKinds s' = unversionedKinds s"
  using assms
proof (induction rs arbitrary: s)
  case Nil
  then show ?case by simp
next
  case (Cons r rs)
  obtain g t where r: "r = (g, t)" by fastforce
  have "GVK_Version g \<noteq> [] \<and> (gvkToType s g = None \<or> gvkToType s g = Some t)"
    using Cons.prems(2) [of g t] by (simp add: r)
  then obtain s1 where s1: "AddKnownTypeWithName g t s = Inr s1"
    by (cases "g \<in> set (known_kinds s t)") (auto simp: AddKnownTypeWithName_def Let_def)
  note e = AddKnownTypeWithName_effect [OF s1]
  have fresh: "g \<notin> fst ` set rs" using Cons.prems(1) by (simp add: r)
  then have "\<exists>s'. each register rs s1 = Inr s' \<and> scheme_ok s' \<and> gvkToType s' = gvkToType s1 ++ map_of rs
      \<and> unversionedKinds s' = unversionedKinds s1"
    using Cons.prems AddKnownTypeWithName_ok [OF s1]
    by (intro Cons.IH) (auto simp: e r image_iff)
  moreover have "(gvkToType s)(g \<mapsto> t) ++ map_of rs = gvkToType s ++ map_of (r # rs)"
  proof -
    have "map_of rs g = None" using fresh by (simp add: map_of_eq_None_iff)
    then show ?thesis by (auto simp: r fun_eq_iff map_add_def split: option.splits)
  qed
  moreover have "register r s = Inr s1" by (simp add: register_def r s1)
  ultimately show ?case by (simp only: each.simps and_then.simps e)
qed

lemma unversioned_all:
  assumes "distinct (map Type_Name ts)"
    "\<And>t. t \<in> set ts \<Longrightarrow> unversionedKinds s (Type_Name t) = None \<or> unversionedKinds s (Type_Name t) = Some t"
  shows "\<exists>s'. each (add_unversioned gv) ts s = Inr s' \<and> gvkToType s' = gvkToType s \<and> known_kinds s' = known_kinds s
    \<and> (\<forall>t \<in> set ts. unversionedKinds s' (Type_Name t) = Some t \<and> unversionedTypes s' t = Some (WithKind gv (Type_Name t)))
    \<and> (\<forall>n. n \<notin> Type_Name ` set ts \<longrightarrow> unversionedKinds s' n = unversionedKinds s n)
    \<and> (\<forall>u. u \<notin> set ts \<longrightarrow> unversionedTypes s' u = unversionedTypes s u)"
  using assms
proof (induction ts arbitrary: s)
  case Nil
  then show ?case by simp
next
  case (Cons t ts)
  let ?s = "s\<lparr>unversionedTypes := (unversionedTypes s)(t \<mapsto> WithKind gv (Type_Name t)),
      unversionedKinds := (unversionedKinds s)(Type_Name t \<mapsto> t)\<rparr>"
  have first: "add_unversioned gv t s = Inr ?s"
    using Cons.prems(2) [of t] by (auto simp: add_unversioned_def WithKind_def Let_def)
  have "\<exists>s'. each (add_unversioned gv) ts ?s = Inr s' \<and> gvkToType s' = gvkToType ?s \<and> known_kinds s' = known_kinds ?s
    \<and> (\<forall>t \<in> set ts. unversionedKinds s' (Type_Name t) = Some t \<and> unversionedTypes s' t = Some (WithKind gv (Type_Name t)))
    \<and> (\<forall>n. n \<notin> Type_Name ` set ts \<longrightarrow> unversionedKinds s' n = unversionedKinds ?s n)
    \<and> (\<forall>u. u \<notin> set ts \<longrightarrow> unversionedTypes s' u = unversionedTypes ?s u)"
  proof (rule Cons.IH)
    fix u
    assume u: "u \<in> set ts"
    then have "Type_Name u \<in> Type_Name ` set ts" by (rule imageI)
    moreover have "Type_Name t \<notin> Type_Name ` set ts" using Cons.prems(1) by simp
    ultimately have "Type_Name u \<noteq> Type_Name t" by metis
    with Cons.prems(2) [of u] u show "unversionedKinds ?s (Type_Name u) = None \<or> unversionedKinds ?s (Type_Name u) = Some u" by simp
  qed (use Cons.prems(1) in simp)
  then obtain s' where s': "each (add_unversioned gv) ts ?s = Inr s'" "gvkToType s' = gvkToType ?s" "known_kinds s' = known_kinds ?s"
    "\<forall>t \<in> set ts. unversionedKinds s' (Type_Name t) = Some t \<and> unversionedTypes s' t = Some (WithKind gv (Type_Name t))"
    "\<forall>n. n \<notin> Type_Name ` set ts \<longrightarrow> unversionedKinds s' n = unversionedKinds ?s n"
    "\<forall>u. u \<notin> set ts \<longrightarrow> unversionedTypes s' u = unversionedTypes ?s u" by blast
  have "Type_Name t \<notin> Type_Name ` set ts" "t \<notin> set ts" using Cons.prems(1) by auto
  with s'(5,6) have "unversionedKinds s' (Type_Name t) = Some t" "unversionedTypes s' t = Some (WithKind gv (Type_Name t))"
    by simp_all
  with first s' show ?case by simp
qed

text \<open>
  On a scheme in which the kinds are free, or have the types they get, the registration succeeds:
  the scheme then creates a domain or a list of domains for their kinds, knows every kind it knew
  before, and registering again changes nothing, not even the order of the kinds of a type.
\<close>

definition compatible :: "Scheme \<Rightarrow> bool" where
  "compatible s \<longleftrightarrow> (\<forall>(g, t) \<in> set registrations. gvkToType s g = None \<or> gvkToType s g = Some t)
     \<and> (\<forall>t \<in> set unversioned_types. unversionedKinds s (Type_Name t) = None \<or> unversionedKinds s (Type_Name t) = Some t)"

lemmas registration_defs = registrations_def unversioned_types_def WithKind_def meta_type_def kong_type_def
  SchemeGroupVersion_def GroupName_def WatchEventKind_def Unversioned_def

lemma registrations_distinct: "distinct (map fst registrations)" "distinct (map Type_Name unversioned_types)"
  "(g, t) \<in> set registrations \<Longrightarrow> GVK_Version g \<noteq> []"
  by (auto simp: registration_defs)

lemma register_again:
  assumes "scheme_ok s" "gvkToType s (fst r) = Some (snd r)" "GVK_Version (fst r) \<noteq> []"
  shows "register r s = Inr s"
proof -
  have "fst r \<in> set (known_kinds s (snd r))" using assms(1,2) by (simp add: scheme_ok_def)
  moreover have "s\<lparr>gvkToType := (gvkToType s)(fst r \<mapsto> snd r)\<rparr> = s" using assms(2) by (simp add: fun_upd_idem)
  ultimately show ?thesis using assms(2,3) by (simp add: register_def AddKnownTypeWithName_def Let_def)
qed

lemma each_fixed: "(\<And>x. x \<in> set xs \<Longrightarrow> f x s = Inr s) \<Longrightarrow> each f xs s = Inr s"
  by (induction xs) simp_all

lemma AddToScheme_registers:
  assumes "scheme_ok s" "compatible s"
  shows "\<exists>s'. AddToScheme s = Inr s' \<and> scheme_ok s' \<and> gvkToType s' = gvkToType s ++ map_of registrations
    \<and> New_type s' (WithKind SchemeGroupVersion ResourceKind) = Some (kong_type ''Domain'') \<and> AddToScheme s' = Inr s'"
proof -
  have "\<exists>s1. each register registrations s = Inr s1 \<and> scheme_ok s1 \<and> gvkToType s1 = gvkToType s ++ map_of registrations
      \<and> unversionedKinds s1 = unversionedKinds s"
    using assms registrations_distinct by (intro register_all) (auto simp: compatible_def)
  then obtain s1 where s1: "each register registrations s = Inr s1" "scheme_ok s1"
    "gvkToType s1 = gvkToType s ++ map_of registrations" "unversionedKinds s1 = unversionedKinds s" by blast
  have "unversionedKinds s1 (Type_Name t) = None \<or> unversionedKinds s1 (Type_Name t) = Some t" if "t \<in> set unversioned_types" for t
    using assms(2) that by (simp add: compatible_def s1(4))
  from unversioned_all [where gv = Unversioned, OF registrations_distinct(2) this] obtain s' where
    s': "each (add_unversioned Unversioned) unversioned_types s1 = Inr s'" "gvkToType s' = gvkToType s1" "known_kinds s' = known_kinds s1"
    "\<forall>t \<in> set unversioned_types. unversionedKinds s' (Type_Name t) = Some t \<and> unversionedTypes s' t = Some (WithKind Unversioned (Type_Name t))"
    by blast
  have ok: "scheme_ok s'" using s1(2) by (simp add: scheme_ok_def s'(2,3))
  have again: "each register registrations s' = Inr s'"
  proof (rule each_fixed)
    fix r
    assume r: "r \<in> set registrations"
    then have "map_of registrations (fst r) = Some (snd r)"
      using registrations_distinct(1) by (simp add: map_of_eq_Some_iff)
    then have "gvkToType s' (fst r) = Some (snd r)" by (simp add: s'(2) s1(3) map_add_def)
    then show "register r s' = Inr s'"
      using register_again [OF ok] registrations_distinct(3) [of "fst r" "snd r"] r by simp
  qed
  have "each (add_unversioned Unversioned) unversioned_types s' = Inr s'"
  proof (rule each_fixed)
    fix t
    assume "t \<in> set unversioned_types"
    with s'(4) have t: "unversionedKinds s' (Type_Name t) = Some t" "unversionedTypes s' t = Some (WithKind Unversioned (Type_Name t))"
      by blast+
    then have "s'\<lparr>unversionedTypes := (unversionedTypes s')(t \<mapsto> WithKind Unversioned (Type_Name t)),
        unversionedKinds := (unversionedKinds s')(Type_Name t \<mapsto> t)\<rparr> = s'"
      by (simp add: fun_upd_idem)
    with t show "add_unversioned Unversioned t s' = Inr s'" by (simp add: add_unversioned_def Let_def WithKind_def)
  qed
  with again have "AddToScheme s' = Inr s'" by (simp add: AddToScheme_register)
  moreover have "map_of registrations (WithKind SchemeGroupVersion ResourceKind) = Some (kong_type ''Domain'')"
    by (simp add: registrations_def ResourceKind_def)
  then have "New_type s' (WithKind SchemeGroupVersion ResourceKind) = Some (kong_type ''Domain'')"
    by (simp add: New_type_def s'(2) s1(3) map_add_def)
  moreover have "AddToScheme s = Inr s'" by (simp add: AddToScheme_register s1(1) s'(1))
  ultimately show ?thesis using ok by (auto simp: s'(2) s1(3))
qed

text \<open>The kinds of the domains after the registration.\<close>

lemma each_kinds:
  assumes "each f xs s = Inr s'" "\<And>x s s'. x \<in> set xs \<Longrightarrow> f x s = Inr s' \<Longrightarrow> known_kinds s' t = known_kinds s t"
  shows "known_kinds s' t = known_kinds s t"
  using assms
proof (induction xs arbitrary: s)
  case Nil
  then show ?case by simp
next
  case (Cons x xs)
  from Cons.prems(1) obtain s1 where s1: "f x s = Inr s1" "each f xs s1 = Inr s'" by (cases "f x s") auto
  have "known_kinds s' t = known_kinds s1 t"
  proof (rule Cons.IH [OF s1(2)])
    fix y r r'
    assume "y \<in> set xs" "f y r = Inr r'"
    then show "known_kinds r' t = known_kinds r t" by (intro Cons.prems(2) [of y]) simp_all
  qed
  also have "\<dots> = known_kinds s t" by (rule Cons.prems(2) [OF _ s1(1)]) simp
  finally show ?case .
qed

lemma AddToScheme_kinds:
  assumes "AddToScheme s = Inr s'" "known_kinds s (kong_type ''Domain'') = []"
  shows "known_kinds s' (kong_type ''Domain'') = [WithKind SchemeGroupVersion ''Domain'']"
proof -
  let ?t = "kong_type ''Domain''"
  have rest: "known_kinds s2 ?t = known_kinds s1 ?t" if "register r s1 = Inr s2" "r \<in> set (tl registrations)" for r s1 s2
    using AddKnownTypeWithName_effect(3) [of "fst r" "snd r" s1 s2] that
    by (auto simp: register_def registrations_def unversioned_types_def kong_type_def meta_type_def)
  have unv: "known_kinds s2 ?t = known_kinds s1 ?t" if "add_unversioned gv x s1 = Inr s2" for gv x s1 s2
    using that by (auto simp: add_unversioned_def Let_def split: if_splits)
  obtain s2 where all: "each register registrations s = Inr s2" and s': "each (add_unversioned Unversioned) unversioned_types s2 = Inr s'"
    using and_then_Inr [OF assms(1) [unfolded AddToScheme_register]] by blast
  have "each register registrations s = and_then (register (WithKind SchemeGroupVersion ''Domain'', ?t) s) (each register (tl registrations))"
    by (simp add: registrations_def)
  from and_then_Inr [OF this [symmetric, unfolded all]] obtain s1
    where s1: "register (WithKind SchemeGroupVersion ''Domain'', ?t) s = Inr s1" and s2: "each register (tl registrations) s1 = Inr s2"
    by blast
  have "known_kinds s' ?t = known_kinds s2 ?t" by (rule each_kinds [OF s']) (rule unv)
  also have "\<dots> = known_kinds s1 ?t" by (rule each_kinds [OF s2]) (rule rest)
  also have "\<dots> = [WithKind SchemeGroupVersion ''Domain'']"
    using AddKnownTypeWithName_effect(3) [of "WithKind SchemeGroupVersion ''Domain''" ?t s s1] s1 assms(2) by (simp add: register_def)
  finally show ?thesis .
qed

text \<open>The scheme the process starts from may be new, and a kind that is taken makes the registration panic.\<close>

lemma NewScheme_compatible: "scheme_ok NewScheme" "compatible NewScheme"
  by (auto simp: NewScheme_def scheme_ok_def compatible_def known_kinds_def)

lemma AddToScheme_conflict:
  assumes "gvkToType s (WithKind SchemeGroupVersion ''Domain'') = Some t" "t \<noteq> kong_type ''Domain''"
  shows "AddToScheme s = Inl ''Double registration of different types''"
  using assms
  by (simp add: AddToScheme_def SchemeBuilder_def addKnownTypes_def AddKnownTypes_def AddKnownTypeWithName_def kong_type_def
      WithKind_def SchemeGroupVersion_def)

end
