(* ===== verification/Event_Recorder.thy ===== *)
theory Event_Recorder
  imports Rest_Client Scheme_Types
begin

text \<open>
  What becomes of the events the controller records (\<open>recorder.Eventf\<close>): the reference to the object
  they are about, which needs the registration of \<open>Scheme_Types\<close> since the decoded objects have no
  kind, and the event that is made of it (\<open>tools/reference/ref.go\<close>, \<open>tools/record/event.go\<close> of
  client-go).
\<close>

section \<open>References\<close>

record ObjectReference =
  Ref_Kind :: string
  Ref_APIVersion :: string
  Ref_Name :: string
  Ref_Namespace :: string
  Ref_UID :: string
  Ref_ResourceVersion :: string
  Ref_FieldPath :: string

text \<open>\<open>ParseGroupVersion\<close> as \<open>FromAPIVersionAndKind\<close> uses it: an error is the empty group and version.\<close>

definition parse_group_version :: "string \<Rightarrow> GroupVersion" where
  "parse_group_version gv =
     (if length gv = 0 \<or> gv = ''/'' then \<lparr>GV_Group = '''', GV_Version = ''''\<rparr>
      else case split_on CHR ''/'' gv of
          [v] \<Rightarrow> \<lparr>GV_Group = '''', GV_Version = v\<rparr>
        | [g, v] \<Rightarrow> \<lparr>GV_Group = g, GV_Version = v\<rparr>
        | _ \<Rightarrow> \<lparr>GV_Group = '''', GV_Version = ''''\<rparr>)"

definition GroupVersion_String :: "GroupVersion \<Rightarrow> string" where
  "GroupVersion_String gv =
     (if GV_Group gv = '''' \<and> GV_Version gv = '''' then ''''
      else if length (GV_Group gv) = 0 \<and> GV_Version gv = ''v1'' then GV_Version gv
      else if 0 < length (GV_Group gv) then GV_Group gv @ ''/'' @ GV_Version gv
      else GV_Version gv)"

definition ErrNoSelfLink :: go_error where
  "ErrNoSelfLink = PlainErr ''selfLink was empty, can't make reference''"

text \<open>
  \<open>selfLink\<close> is the self link of the object, a path, \<open>uid\<close> its UID, and \<open>t\<close> its Go type. A scheme has no empty list of
  kinds (\<open>AddKnownTypeWithName\<close>), so that the first one is there.
\<close>

definition reference_version :: "string \<Rightarrow> 'a TypeMeta_scheme \<Rightarrow> go_error + string" where
  "reference_version selfLink obj =
     (let version = GroupVersion_String (parse_group_version (APIVersion obj))
      in if length version \<noteq> 0 then Inr version
         else if length selfLink = 0 then Inl ErrNoSelfLink
         else (let parts = split_on CHR ''/'' selfLink
               in if length parts < 3 then Inl (PlainErr ''unexpected self link format'') else Inr (parts ! 2)))"

definition GetReference :: "Scheme \<Rightarrow> go_type \<Rightarrow> string \<Rightarrow> string \<Rightarrow> 'a ObjectMeta_scheme \<Rightarrow> go_error + ObjectReference" where
  "GetReference s t selfLink uid obj =
     (case (if length (Kind obj) = 0
            then (case ObjectKinds s t of
                    None \<Rightarrow> Inl (PlainErr ''no kind is registered for the type'')
                  | Some ([], unv) \<Rightarrow> Inl (PlainErr ''index out of range'')
                  | Some (gvk # gvks, unv) \<Rightarrow> Inr (GVK_Kind gvk))
            else Inr (Kind obj)) of
        Inl e \<Rightarrow> Inl e
      | Inr kind \<Rightarrow>
     (case reference_version selfLink obj of
        Inl e \<Rightarrow> Inl e
      | Inr version \<Rightarrow> Inr \<lparr>Ref_Kind = kind, Ref_APIVersion = version, Ref_Name = Name obj,
          Ref_Namespace = Namespace obj, Ref_UID = uid, Ref_ResourceVersion = ResourceVersion obj, Ref_FieldPath = ''''\<rparr>))"

section \<open>Events\<close>

record KubeEvent =
  Event_Name :: string
  Event_Namespace :: string
  InvolvedObject :: ObjectReference
  Event_Reason :: string
  Event_Message :: string
  FirstTimestamp :: gotime
  LastTimestamp :: gotime
  Event_Count :: int
  Event_Type :: event_type
  Event_ResourceVersion :: string
  Source_Component :: string
  Source_Host :: string

text \<open>\<open>%v.%x\<close> of the name and the nanoseconds since 1970, which the clock is past.\<close>

definition event_name :: "string \<Rightarrow> gotime \<Rightarrow> string" where
  "event_name n t = n @ ''.'' @ show_base 16 (nat t)"

definition makeEvent :: "ObjectReference \<Rightarrow> event_type \<Rightarrow> string \<Rightarrow> string \<Rightarrow> gotime \<Rightarrow> KubeEvent" where
  "makeEvent ref eventtype reason message t =
     \<lparr>Event_Name = event_name (Ref_Name ref) t, Event_Namespace = (if Ref_Namespace ref = '''' then ''default'' else Ref_Namespace ref),
      InvolvedObject = ref, Event_Reason = reason, Event_Message = message, FirstTimestamp = t,
      LastTimestamp = t, Event_Count = 1, Event_Type = eventtype, Event_ResourceVersion = '''',
      Source_Component = '''', Source_Host = ''''\<rparr>"

text \<open>
  \<open>generateEvent\<close>: no event is made of an object without a reference. Both types are valid. The clock
  is read by \<open>makeEvent\<close>; the source is that of \<open>NewKongController\<close>.
\<close>

definition generateEvent :: "Scheme \<Rightarrow> go_type \<Rightarrow> string \<Rightarrow> string \<Rightarrow> 'a ObjectMeta_scheme \<Rightarrow> event_type \<Rightarrow> string \<Rightarrow> string
    \<Rightarrow> gotime \<Rightarrow> KubeEvent option" where
  "generateEvent s t selfLink uid obj eventtype reason message time =
     (case GetReference s t selfLink uid obj of
        Inl e \<Rightarrow> None | Inr ref \<Rightarrow> Some ((makeEvent ref eventtype reason message time)\<lparr>Source_Component := ''kong-controller''\<rparr>))"

section \<open>Properties\<close>

text \<open>
  A domain that comes from the cache has no kind: without the registration no event is made of it;
  with it the event refers to the kind \<open>Domain\<close>, but to the group of its self link as its version.
\<close>

lemma domain_events:
  assumes "length (Kind d) = 0" "length (APIVersion d) = 0" "known_kinds s (kong_type ''Domain'') = []"
    and "selfLink = ''/apis/platform.koli.io/v1/namespaces/'' @ Namespace d @ ''/domains/'' @ Name d"
  shows "generateEvent s (kong_type ''Domain'') selfLink uid d ty rs m t = None"
    and "AddToScheme s = Inr s'
      \<Longrightarrow> GetReference s' (kong_type ''Domain'') selfLink uid d = Inr \<lparr>Ref_Kind = ''Domain'', Ref_APIVersion = GroupName,
        Ref_Name = Name d, Ref_Namespace = Namespace d, Ref_UID = uid, Ref_ResourceVersion = ResourceVersion d, Ref_FieldPath = ''''\<rparr>"
proof -
  show "generateEvent s (kong_type ''Domain'') selfLink uid d ty rs m t = None"
    using assms(1,3) by (auto simp: generateEvent_def GetReference_def ObjectKinds_def known_kinds_def split: option.splits)
next
  assume "AddToScheme s = Inr s'"
  then have "known_kinds s' (kong_type ''Domain'') = [WithKind SchemeGroupVersion ''Domain'']"
    by (rule AddToScheme_kinds) (rule assms(3))
  then have kinds: "typeToGVK s' (kong_type ''Domain'') = Some [WithKind SchemeGroupVersion ''Domain'']"
    by (simp add: known_kinds_def split: option.splits)
  have "split_on CHR ''/'' selfLink = '''' # ''apis'' # ''platform.koli.io'' # split_on CHR ''/'' (''v1/namespaces/'' @ Namespace d @ ''/domains/'' @ Name d)"
    using split_on_append [of "CHR ''/''" "''platform.koli.io''" "''v1/namespaces/'' @ Namespace d @ ''/domains/'' @ Name d"]
    by (simp add: assms(4))
  then have "reference_version selfLink d = Inr GroupName"
    using assms(2,4) by (simp add: reference_version_def parse_group_version_def GroupVersion_String_def GroupName_def Let_def
        neq_Nil_conv Suc_le_length_iff)
  then show "GetReference s' (kong_type ''Domain'') selfLink uid d = Inr \<lparr>Ref_Kind = ''Domain'', Ref_APIVersion = GroupName,
      Ref_Name = Name d, Ref_Namespace = Namespace d, Ref_UID = uid, Ref_ResourceVersion = ResourceVersion d, Ref_FieldPath = ''''\<rparr>"
    using assms(1) kinds by (simp add: GetReference_def ObjectKinds_def WithKind_def)
qed

end
