(* ===== verification/Event_Correlator.thy ===== *)
theory Event_Correlator
  imports Event_Recorder Rate_Limiter
begin

text \<open>
  From an event to the API server: the queues of the broadcaster (\<open>apimachinery/pkg/watch/mux.go\<close>), the
  filtering, aggregation and counting of similar events (\<open>tools/record/events_cache.go\<close> of client-go,
  on the cache of \<open>groupcache/lru\<close>), and the attempts to write one (\<open>tools/record/event.go\<close>). The
  requests of the sink and the walk of \<open>PopAny\<close> over a Go map are parameters; the merge patch of an
  update is determined by the event and not spelt out.
\<close>

section \<open>The broadcaster\<close>

text \<open>
  Two watchers, one that logs and one that records. \<open>incoming\<close> is a channel, the goroutines that wait
  for a place in it are \<open>senders\<close>; an event is dropped for a watcher whose channel is full.
\<close>

record broadcaster =
  senders :: "KubeEvent list"
  incoming :: "KubeEvent list"
  watchers :: "KubeEvent list list"

definition incomingQueueLength :: nat where
  "incomingQueueLength = 25"

definition maxQueuedEvents :: nat where
  "maxQueuedEvents = 1000"

definition NewBroadcaster :: broadcaster where
  "NewBroadcaster = \<lparr>senders = [], incoming = [], watchers = [[], []]\<rparr>"

text \<open>\<open>generateEvent\<close> starts a goroutine for the event.\<close>

definition start_sender :: "KubeEvent \<Rightarrow> broadcaster \<Rightarrow> broadcaster" where
  "start_sender e b = b\<lparr>senders := senders b @ [e]\<rparr>"

text \<open>A sender, any of them, puts its event into the channel when there is a place.\<close>

definition Action_send :: "nat \<Rightarrow> broadcaster \<Rightarrow> broadcaster option" where
  "Action_send i b =
     (if i < length (senders b) \<and> length (incoming b) < incomingQueueLength
      then Some (b\<lparr>senders := take i (senders b) @ drop (Suc i) (senders b), incoming := incoming b @ [senders b ! i]\<rparr>)
      else None)"

definition distribute_to :: "KubeEvent \<Rightarrow> KubeEvent list \<Rightarrow> KubeEvent list" where
  "distribute_to e q = (if length q < maxQueuedEvents then q @ [e] else q)"

definition broadcaster_loop :: "broadcaster \<Rightarrow> broadcaster option" where
  "broadcaster_loop b = (case incoming b of
      [] \<Rightarrow> None
    | e # es \<Rightarrow> Some (b\<lparr>incoming := es, watchers := map (distribute_to e) (watchers b)\<rparr>))"

definition watcher_receive :: "nat \<Rightarrow> broadcaster \<Rightarrow> (KubeEvent \<times> broadcaster) option" where
  "watcher_receive i b =
     (if i < length (watchers b) then
        (case watchers b ! i of [] \<Rightarrow> None | e # es \<Rightarrow> Some (e, b\<lparr>watchers := (watchers b)[i := es]\<rparr>))
      else None)"

section \<open>The cache\<close>

text \<open>The entries, the one used last in front.\<close>

type_synonym 'v lru = "(string \<times> 'v) list"

definition maxLruCacheEntries :: nat where
  "maxLruCacheEntries = 4096"

definition lru_front :: "string \<Rightarrow> 'v \<Rightarrow> 'v lru \<Rightarrow> 'v lru" where
  "lru_front k v c = (k, v) # filter (\<lambda>e. fst e \<noteq> k) c"

definition lru_Get :: "string \<Rightarrow> 'v lru \<Rightarrow> 'v option \<times> 'v lru" where
  "lru_Get k c = (case map_of c k of None \<Rightarrow> (None, c) | Some v \<Rightarrow> (Some v, lru_front k v c))"

definition lru_Add :: "string \<Rightarrow> 'v \<Rightarrow> 'v lru \<Rightarrow> 'v lru" where
  "lru_Add k v c =
     (if map_of c k \<noteq> None then lru_front k v c
      else let c' = (k, v) # c in if maxLruCacheEntries < length c' then butlast c' else c')"

section \<open>Keys\<close>

fun type_text :: "event_type \<Rightarrow> string" where
  "type_text EventNormal = ''Normal''"
| "type_text EventWarning = ''Warning''"

definition getEventKey :: "KubeEvent \<Rightarrow> string" where
  "getEventKey e = (let r = InvolvedObject e in
     concat [Source_Component e, Source_Host e, Ref_Kind r, Ref_Namespace r, Ref_Name r, Ref_FieldPath r, Ref_UID r,
       Ref_APIVersion r, type_text (Event_Type e), Event_Reason e, Event_Message e])"

definition getSpamKey :: "KubeEvent \<Rightarrow> string" where
  "getSpamKey e = (let r = InvolvedObject e in
     concat [Source_Component e, Source_Host e, Ref_Kind r, Ref_Namespace r, Ref_Name r, Ref_UID r, Ref_APIVersion r])"

definition EventAggregatorByReasonFunc :: "KubeEvent \<Rightarrow> string \<times> string" where
  "EventAggregatorByReasonFunc e = (let r = InvolvedObject e in
     (concat [Source_Component e, Source_Host e, Ref_Kind r, Ref_Namespace r, Ref_Name r, Ref_UID r, Ref_APIVersion r,
        type_text (Event_Type e), Event_Reason e], Event_Message e))"

section \<open>The spam filter\<close>

text \<open>\<open>float32\<close> of 1 / 300 a second makes one token each 299999992735 nanoseconds.\<close>

definition spam_bucket :: "int \<Rightarrow> bucket" where
  "spam_bucket t = \<lparr>startTime = t, capacity = 25, quantum = 1, fillInterval = 299999992735, avail = 25, availTick = 0\<rparr>"

definition takeAvailable :: "int \<Rightarrow> int \<Rightarrow> bucket \<Rightarrow> int \<times> bucket" where
  "takeAvailable tm count tb =
     (if count \<le> 0 then (0, tb)
      else case bucket_adjust tm tb of (currentTick, tb1) \<Rightarrow>
        if avail tb1 \<le> 0 then (0, tb1)
        else let n = (if avail tb1 < count then avail tb1 else count) in (n, tb1\<lparr>avail := avail tb1 - n\<rparr>))"

definition TryAccept :: "int \<Rightarrow> bucket \<Rightarrow> bool \<times> bucket" where
  "TryAccept tm tb = (case takeAvailable tm 1 tb of (n, tb') \<Rightarrow> (n = 1, tb'))"

text \<open>The clock is read for a new bucket, and by \<open>TryAccept\<close>.\<close>

definition Filter_event :: "int \<Rightarrow> int \<Rightarrow> KubeEvent \<Rightarrow> bucket lru \<Rightarrow> bool \<times> bucket lru" where
  "Filter_event t t' e cache =
     (case lru_Get (getSpamKey e) cache of (found, c1) \<Rightarrow>
      case TryAccept t' (case found of Some tb \<Rightarrow> tb | None \<Rightarrow> spam_bucket t) of (ok, tb) \<Rightarrow>
        (\<not> ok, lru_Add (getSpamKey e) tb c1))"

section \<open>Aggregation\<close>

record aggregateRecord =
  localKeys :: "string set"
  lastTimestamp :: gotime

definition defaultAggregateMaxEvents :: nat where
  "defaultAggregateMaxEvents = 10"

definition aggregate_interval :: int where
  "aggregate_interval = 600 * 10 ^ 9"

definition EventAggregatorByReasonMessageFunc :: "KubeEvent \<Rightarrow> string" where
  "EventAggregatorByReasonMessageFunc e = ''(combined from similar events): '' @ Event_Message e"

definition aggregate_event :: "KubeEvent \<Rightarrow> gotime \<Rightarrow> KubeEvent" where
  "aggregate_event e tm =
     \<lparr>Event_Name = event_name (Ref_Name (InvolvedObject e)) tm, Event_Namespace = Event_Namespace e,
      InvolvedObject = InvolvedObject e, Event_Reason = Event_Reason e,
      Event_Message = EventAggregatorByReasonMessageFunc e, FirstTimestamp = tm, LastTimestamp = tm,
      Event_Count = 1, Event_Type = Event_Type e, Event_ResourceVersion = '''',
      Source_Component = Source_Component e, Source_Host = Source_Host e\<rparr>"

text \<open>
  A group that is not in the cache reads as the zero record, which is too old for any clock past the
  year 1. \<open>pick\<close> is the key that \<open>PopAny\<close> takes; the set is a map, shared with the cache.
\<close>

definition EventAggregate :: "(string set \<Rightarrow> string) \<Rightarrow> gotime \<Rightarrow> KubeEvent \<Rightarrow> aggregateRecord lru
    \<Rightarrow> (KubeEvent \<times> string) \<times> aggregateRecord lru" where
  "EventAggregate pick tm e cache =
     (case EventAggregatorByReasonFunc e of (aggregateKey, localKey) \<Rightarrow>
      case lru_Get aggregateKey cache of (found, c1) \<Rightarrow>
        let rec0 = (case found of Some r \<Rightarrow> r | None \<Rightarrow> \<lparr>localKeys = {}, lastTimestamp = zero_time\<rparr>);
            rec1 = (if aggregate_interval < tm - lastTimestamp rec0 then \<lparr>localKeys = {}, lastTimestamp = zero_time\<rparr> else rec0);
            keys = insert localKey (localKeys rec1)
        in if card keys < defaultAggregateMaxEvents
           then ((e, getEventKey e), lru_Add aggregateKey \<lparr>localKeys = keys, lastTimestamp = tm\<rparr> c1)
           else ((aggregate_event e tm, aggregateKey),
                 lru_Add aggregateKey \<lparr>localKeys = keys - {pick keys}, lastTimestamp = tm\<rparr> c1))"

section \<open>Counting\<close>

record eventLog =
  log_count :: int
  firstTimestamp :: gotime
  log_name :: string
  log_version :: string

definition log_of :: "KubeEvent \<Rightarrow> eventLog" where
  "log_of e = \<lparr>log_count = Event_Count e, firstTimestamp = FirstTimestamp e, log_name = Event_Name e,
     log_version = Event_ResourceVersion e\<rparr>"

text \<open>\<open>int32(count) + 1\<close>; the count is kept in a \<open>uint\<close>, in which only 0 is not above 0.\<close>

definition next_count :: "int \<Rightarrow> int" where
  "next_count n = sint (word_of_int n + 1 :: 32 word)"

definition eventObserve :: "KubeEvent \<Rightarrow> string \<Rightarrow> eventLog lru \<Rightarrow> KubeEvent \<times> eventLog lru" where
  "eventObserve e key cache =
     (case lru_Get key cache of (found, c1) \<Rightarrow>
      let e' = (case found of
            None \<Rightarrow> e
          | Some l \<Rightarrow> if log_count l \<noteq> 0
              then e\<lparr>Event_Name := log_name l, Event_ResourceVersion := log_version l,
                     FirstTimestamp := firstTimestamp l, Event_Count := next_count (log_count l)\<rparr>
              else e)
      in (e', lru_Add key (log_of e') c1))"

definition updateState :: "KubeEvent \<Rightarrow> eventLog lru \<Rightarrow> eventLog lru" where
  "updateState e cache = lru_Add (getEventKey e) (log_of e) cache"

section \<open>The correlator\<close>

record correlator =
  spam_cache :: "bucket lru"
  aggregates :: "aggregateRecord lru"
  event_log :: "eventLog lru"

definition NewEventCorrelator :: correlator where
  "NewEventCorrelator = \<lparr>spam_cache = [], aggregates = [], event_log = []\<rparr>"

text \<open>The clock as it is read: by the aggregator, for a new bucket, and for its token.\<close>

type_synonym clock_reads = "gotime \<times> int \<times> int"

definition EventCorrelate :: "(string set \<Rightarrow> string) \<Rightarrow> clock_reads \<Rightarrow> KubeEvent \<Rightarrow> correlator \<Rightarrow> KubeEvent option \<times> correlator" where
  "EventCorrelate pick ts e c =
     (case ts of (tm, t, t') \<Rightarrow>
      case EventAggregate pick tm e (aggregates c) of ((e1, key), ag) \<Rightarrow>
      case eventObserve e1 key (event_log c) of (e2, lg) \<Rightarrow>
      case Filter_event t t' e2 (spam_cache c) of (skip, sp) \<Rightarrow>
        (if skip then None else Some e2, \<lparr>spam_cache = sp, aggregates = ag, event_log = lg\<rparr>))"

section \<open>The sink\<close>

datatype sink_error = RequestConstructionError | StatusError int | UnexpectedObjectError | TransportError

record 'w sink =
  Create :: "KubeEvent \<Rightarrow> 'w \<Rightarrow> (sink_error + KubeEvent) \<times> 'w"
  Patch_event :: "KubeEvent \<Rightarrow> 'w \<Rightarrow> (sink_error + KubeEvent) \<times> 'w"

fun isKeyNotFoundError :: "sink_error + KubeEvent \<Rightarrow> bool" where
  "isKeyNotFoundError (Inl (StatusError code)) = (code = 404)"
| "isKeyNotFoundError _ = False"

text \<open>Whether the event needs no other attempt.\<close>

fun settled_by :: "sink_error + KubeEvent \<Rightarrow> bool" where
  "settled_by (Inr e) = True"
| "settled_by (Inl RequestConstructionError) = True"
| "settled_by (Inl (StatusError code)) = True"
| "settled_by (Inl UnexpectedObjectError) = False"
| "settled_by (Inl TransportError) = False"

text \<open>
  \<open>recordEvent\<close>, with the event after it, from which a creation has cleared the resource version; the
  event that the server returns updates the counts.
\<close>

definition recordEvent :: "'w sink \<Rightarrow> KubeEvent \<Rightarrow> bool \<Rightarrow> correlator \<Rightarrow> 'w \<Rightarrow> bool \<times> KubeEvent \<times> correlator \<times> 'w" where
  "recordEvent sk event updateExistingEvent c w =
     (let (r1, w1) = (if updateExistingEvent then Patch_event sk event w else (Inl TransportError, w));
          creates = (\<not> updateExistingEvent \<or> isKeyNotFoundError r1);
          event' = (if creates then event\<lparr>Event_ResourceVersion := ''''\<rparr> else event);
          (r2, w2) = (if creates then Create sk event' w1 else (r1, w1));
          c' = (case r2 of Inr newEvent \<Rightarrow> c\<lparr>event_log := updateState newEvent (event_log c)\<rparr> | Inl e \<Rightarrow> c)
      in (settled_by r2, event', c', w2))"

definition maxTriesPerEvent :: nat where
  "maxTriesPerEvent = 12"

definition defaultSleepDuration :: int where
  "defaultSleepDuration = 10 * 10 ^ 9"

text \<open>
  The loop of \<open>recordToSink\<close>: the outcomes of its attempts and the sleeps between them; \<open>first\<close> is the
  randomized first sleep.
\<close>

function record_tries :: "'w sink \<Rightarrow> int \<Rightarrow> nat \<Rightarrow> KubeEvent \<Rightarrow> correlator \<Rightarrow> 'w \<Rightarrow> (bool list \<times> int list) \<times> correlator \<times> 'w" where
  "record_tries sk first tries event c w =
     (case recordEvent sk event (1 < Event_Count event) c w of
        (True, event', c1, w1) \<Rightarrow> (([True], []), c1, w1)
      | (False, event', c1, w1) \<Rightarrow>
          (let tries' = tries + 1
           in if maxTriesPerEvent \<le> tries' then (([False], []), c1, w1)
              else (case record_tries sk first tries' event' c1 w1 of
                ((outs, sleeps), rest) \<Rightarrow> ((False # outs, (if tries' = 1 then first else defaultSleepDuration) # sleeps), rest))))"
  by pat_completeness auto
termination
  by (relation "measure (\<lambda>(sk, first, tries, event, c, w). maxTriesPerEvent - tries)") auto

declare record_tries.simps [simp del]

definition recordToSink :: "'w sink \<Rightarrow> (string set \<Rightarrow> string) \<Rightarrow> clock_reads \<Rightarrow> int \<Rightarrow> KubeEvent \<Rightarrow> correlator \<Rightarrow> 'w
    \<Rightarrow> (bool list \<times> int list) \<times> correlator \<times> 'w" where
  "recordToSink sk pick ts first event c w = (case EventCorrelate pick ts event c of
      (None, c1) \<Rightarrow> (([], []), c1, w)
    | (Some e, c1) \<Rightarrow> record_tries sk first 0 e c1 w)"

end
