(* ===== verification/Limiter_Safety.thy ===== *)
theory Limiter_Safety
  imports Http_Exchange
begin

text \<open>
  What a token bucket promises: the releases of its tokens over time. The bucket is that of the retries of
  a task queue and of the throttle of a REST client.
\<close>

section \<open>Releases\<close>

text \<open>When the tokens taken one at a time at the times \<open>ts\<close> may be used.\<close>

fun releases :: "int list \<Rightarrow> bucket \<Rightarrow> int list" where
  "releases [] tb = []"
| "releases (t # ts) tb = (case bucket_take t 1 tb of (d, tb') \<Rightarrow> (t + d) # releases ts tb')"

text \<open>
  \<open>n\<close> tokens have been taken out of \<open>x\<close> and those of the ticks; the last tick counted is not after the
  time \<open>t\<close>. In \<open>bucket_inv\<close> the tokens are counted from the start.
\<close>

definition counted :: "bucket \<Rightarrow> int \<Rightarrow> int \<Rightarrow> int \<Rightarrow> bool" where
  "counted tb x n t \<longleftrightarrow> 0 < quantum tb \<and> 0 < fillInterval tb \<and> availTick tb \<le> (t - startTime tb) div fillInterval tb
     \<and> n + avail tb \<le> x + availTick tb * quantum tb"

definition bucket_inv :: "bucket \<Rightarrow> int \<Rightarrow> int \<Rightarrow> bool" where
  "bucket_inv tb n t \<longleftrightarrow> 0 < quantum tb \<and> 0 < fillInterval tb \<and> availTick tb \<le> (t - startTime tb) div fillInterval tb
     \<and> n + avail tb \<le> capacity tb + availTick tb * quantum tb"

lemma bucket_inv_counted: "bucket_inv tb n t \<longleftrightarrow> counted tb (capacity tb) n t"
  by (simp add: bucket_inv_def counted_def)

lemma counted_later: "counted tb x n t \<Longrightarrow> t \<le> t' \<Longrightarrow> counted tb x n t'"
  unfolding counted_def by (smt (verit) zdiv_mono1)

lemma bucket_inv_later: "bucket_inv tb n t \<Longrightarrow> t \<le> t' \<Longrightarrow> bucket_inv tb n t'"
  unfolding bucket_inv_counted by (rule counted_later)

lemma ceil_ticks: "0 < q \<Longrightarrow> (- a :: int) \<le> q * ((- a + q - 1) div q)"
  by (smt (verit) minus_mod_eq_mult_div pos_mod_bound)

lemma ceil_ticks_less: "0 < q \<Longrightarrow> q * ((- a + q - 1) div q) < (q - a :: int)"
  by (smt (verit) minus_mod_eq_mult_div pos_mod_sign)

lemma bucket_adjust_counted:
  assumes "counted tb x n t" "bucket_adjust t tb = (tick, tb1)"
  shows "counted tb1 x n t" "tick = (t - startTime tb) div fillInterval tb"
    "startTime tb1 = startTime tb \<and> fillInterval tb1 = fillInterval tb \<and> quantum tb1 = quantum tb \<and> capacity tb1 = capacity tb"
proof -
  let ?tick = "(t - startTime tb) div fillInterval tb"
  have "0 \<le> (?tick - availTick tb) * quantum tb" using assms(1) by (simp add: counted_def)
  with assms show "counted tb1 x n t" "tick = ?tick"
    "startTime tb1 = startTime tb \<and> fillInterval tb1 = fillInterval tb \<and> quantum tb1 = quantum tb \<and> capacity tb1 = capacity tb"
    by (auto simp: bucket_adjust_def counted_def Let_def left_diff_distrib split: if_splits)
qed

lemma bucket_adjust_inv:
  assumes "bucket_inv tb n t" "bucket_adjust t tb = (tick, tb1)"
  shows "bucket_inv tb1 n t" "tick = (t - startTime tb) div fillInterval tb"
    "startTime tb1 = startTime tb \<and> fillInterval tb1 = fillInterval tb \<and> quantum tb1 = quantum tb \<and> capacity tb1 = capacity tb"
  using bucket_adjust_counted [OF assms(1) [unfolded bucket_inv_counted] assms(2)] by (simp_all add: bucket_inv_counted)

text \<open>The tick at which a token taken at \<open>t\<close> may be used.\<close>

definition tick_of :: "bucket \<Rightarrow> int \<Rightarrow> int" where
  "tick_of tb t = (t - startTime tb) div fillInterval tb"

lemma bucket_take_tick:
  assumes "counted tb x n t" "bucket_take t 1 tb = (d, tb')"
  shows "tick_of tb (t + d) = tick_of tb t + (if 0 \<le> avail tb' then 0 else (- avail tb' + quantum tb - 1) div quantum tb)"
    "tb' = (snd (bucket_adjust t tb))\<lparr>avail := avail (snd (bucket_adjust t tb)) - 1\<rparr>"
    "startTime tb' = startTime tb \<and> fillInterval tb' = fillInterval tb \<and> quantum tb' = quantum tb \<and> capacity tb' = capacity tb"
proof -
  obtain tick tb1 where adjust: "bucket_adjust t tb = (tick, tb1)" by fastforce
  note a = bucket_adjust_counted [OF assms(1) adjust]
  let ?a = "avail tb1 - 1" and ?q = "quantum tb" and ?f = "fillInterval tb"
  have pos: "0 < ?f" using assms(1) by (simp add: counted_def)
  have take: "(d, tb') = (if 0 \<le> ?a then (0, tb1\<lparr>avail := ?a\<rparr>)
      else (startTime tb + (tick + (- ?a + ?q - 1) div ?q) * ?f - t, tb1\<lparr>avail := ?a\<rparr>))"
    using assms(2) a(3) by (simp add: bucket_take_def adjust Let_def split: if_splits)
  then have tb': "tb' = tb1\<lparr>avail := ?a\<rparr>" by (simp split: if_splits)
  then show "tb' = (snd (bucket_adjust t tb))\<lparr>avail := avail (snd (bucket_adjust t tb)) - 1\<rparr>" by (simp add: adjust)
  show "startTime tb' = startTime tb \<and> fillInterval tb' = fillInterval tb \<and> quantum tb' = quantum tb \<and> capacity tb' = capacity tb"
    using a(3) by (simp add: tb')
  show "tick_of tb (t + d) = tick_of tb t + (if 0 \<le> avail tb' then 0 else (- avail tb' + ?q - 1) div ?q)"
  proof (cases "0 \<le> ?a")
    case False
    with take have "t + d - startTime tb = (tick + (- ?a + ?q - 1) div ?q) * ?f" by simp
    with False pos a(2) show ?thesis by (simp add: tick_of_def tb')
  qed (use take tb' in \<open>simp add: tick_of_def\<close>)
qed

lemma bucket_take_counted:
  assumes "counted tb x n t" "bucket_take t 1 tb = (d, tb')"
  shows "counted tb' x (n + 1) t" "n + 1 \<le> x + quantum tb * tick_of tb (t + d)"
proof -
  obtain tick tb1 where adjust: "bucket_adjust t tb = (tick, tb1)" by fastforce
  note a = bucket_adjust_counted [OF assms(1) adjust] and take = bucket_take_tick [OF assms]
  let ?q = "quantum tb"
  have pos: "0 < ?q" using assms(1) by (simp add: counted_def)
  have tb': "tb' = tb1\<lparr>avail := avail tb1 - 1\<rparr>" using take(2) by (simp add: adjust)
  show "counted tb' x (n + 1) t" using a(1) by (simp add: tb' counted_def)
  have "n + avail tb1 \<le> x + availTick tb1 * ?q" using a(1,3) by (simp add: counted_def)
  also have "\<dots> \<le> x + tick_of tb t * ?q" using a pos by (intro add_left_mono mult_right_mono) (simp_all add: counted_def tick_of_def)
  finally have count: "n + avail tb1 \<le> x + ?q * tick_of tb t" by (simp add: mult.commute)
  show "n + 1 \<le> x + ?q * tick_of tb (t + d)"
  proof (cases "0 \<le> avail tb1 - 1")
    case True
    with take(1) count show ?thesis by (simp add: tb')
  next
    case False
    with take(1) ceil_ticks [OF pos, of "avail tb1 - 1"] count show ?thesis by (simp add: tb' distrib_left)
  qed
qed

lemma releases_counted:
  "sorted ts \<Longrightarrow> counted tb x n t \<Longrightarrow> \<forall>t' \<in> set ts. t \<le> t' \<Longrightarrow> i < length ts \<Longrightarrow>
    n + int i + 1 \<le> x + quantum tb * tick_of tb (releases ts tb ! i)"
proof (induction ts arbitrary: tb n t i)
  case (Cons t' ts)
  obtain d tb' where take: "bucket_take t' 1 tb = (d, tb')" by fastforce
  have inv: "counted tb x n t'" by (rule counted_later [OF Cons.prems(2)]) (use Cons.prems in simp)
  note step = bucket_take_counted [OF inv take] and same = bucket_take_tick(3) [OF inv take]
  show ?case
  proof (cases i)
    case 0
    with step(2) take show ?thesis by simp
  next
    case (Suc j)
    have "n + 1 + int j + 1 \<le> x + quantum tb' * tick_of tb' (releases ts tb' ! j)"
      by (rule Cons.IH [OF _ step(1)]) (use Cons.prems Suc in simp_all)
    with same take Suc show ?thesis by (simp add: tick_of_def)
  qed
qed simp

section \<open>Bursts\<close>

text \<open>
  What a bucket gives after a token was taken at \<open>t\<close>: the cap keeps what is left below the capacity,
  and a bucket that was not full has counted its ticks.
\<close>

lemma bucket_take_capped:
  assumes "counted tb x n t" "avail tb \<le> capacity tb" "bucket_take t 1 tb = (d, tb')"
  shows "avail tb' < capacity tb'" "avail tb < capacity tb \<Longrightarrow> availTick tb' = tick_of tb t"
    "avail tb = capacity tb \<Longrightarrow> avail tb' = capacity tb - 1"
  using assms(2) bucket_take_tick(2,3) [OF assms(1,3)]
  by (auto simp: bucket_adjust_def tick_of_def Let_def split: if_splits)

text \<open>The tokens taken after one that was taken at \<open>t\<close>, counted from the time at which that one may be used.\<close>

lemma counted_from_take:
  assumes "counted tb x n t" "avail tb < capacity tb" "0 < capacity tb" "bucket_take t 1 tb = (d, tb')"
  shows "counted tb' (capacity tb + quantum tb - 2 - quantum tb * tick_of tb (t + d)) 0 t"
proof -
  let ?q = "quantum tb"
  note take = bucket_take_tick [OF assms(1,4)] and capped = bucket_take_capped [OF assms(1) _ assms(4)]
  have pos: "0 < ?q" "0 < fillInterval tb" using assms(1) by (simp_all add: counted_def)
  have tick: "availTick tb' = tick_of tb t" and low: "avail tb' \<le> capacity tb - 1" using capped(1,2) assms(2) take(3) by simp_all
  have "avail tb' + ?q * tick_of tb (t + d) \<le> capacity tb + ?q - 2 + ?q * tick_of tb t"
  proof (cases "0 \<le> avail tb'")
    case True
    with take(1) low pos show ?thesis by simp
  next
    case False
    with take(1) ceil_ticks_less [OF pos(1), of "avail tb'"] assms(3) show ?thesis by (simp add: distrib_left)
  qed
  with tick take(3) pos show ?thesis by (simp add: counted_def tick_of_def mult.commute)
qed

lemma window_bound:
  "sorted ts \<Longrightarrow> counted tb x n t \<Longrightarrow> avail tb < capacity tb \<Longrightarrow> 0 < capacity tb \<Longrightarrow> \<forall>t' \<in> set ts. t \<le> t'
    \<Longrightarrow> i \<le> j \<Longrightarrow> j < length ts \<Longrightarrow>
    int (j - i) + 1 \<le> capacity tb + quantum tb - 1
      + quantum tb * (tick_of tb (releases ts tb ! j) - tick_of tb (releases ts tb ! i))"
proof (induction ts arbitrary: tb x n t i j)
  case (Cons t' ts)
  obtain d tb' where take: "bucket_take t' 1 tb = (d, tb')" by fastforce
  have inv: "counted tb x n t'" by (rule counted_later [OF Cons.prems(2)]) (use Cons.prems in simp)
  note same = bucket_take_tick(3) [OF inv take]
  have after: "counted tb' (capacity tb + quantum tb - 2 - quantum tb * tick_of tb (t' + d)) 0 t'"
    by (rule counted_from_take [OF inv Cons.prems(3,4) take])
  have pos: "1 \<le> quantum tb" "1 \<le> capacity tb" using Cons.prems(2,4) by (simp_all add: counted_def)
  show ?case
  proof (cases j)
    case 0
    with Cons.prems(6) pos show ?thesis by simp
  next
    case (Suc j')
    have rest: "j' < length ts" "sorted ts" "\<forall>t \<in> set ts. t' \<le> t" using Cons.prems(1,7) Suc by simp_all
    show ?thesis
    proof (cases i)
      case 0
      have "0 + int j' + 1 \<le> (capacity tb + quantum tb - 2 - quantum tb * tick_of tb (t' + d))
          + quantum tb' * tick_of tb' (releases ts tb' ! j')"
        by (rule releases_counted [OF rest(2) after rest(3,1)])
      with 0 Suc take same show ?thesis by (simp add: tick_of_def right_diff_distrib)
    next
      case (Suc i')
      have "int (j' - i') + 1 \<le> capacity tb' + quantum tb' - 1
          + quantum tb' * (tick_of tb' (releases ts tb' ! j') - tick_of tb' (releases ts tb' ! i'))"
      proof (rule Cons.IH [OF rest(2) after _ _ rest(3) _ rest(1)])
        show "avail tb' < capacity tb'" using bucket_take_capped(1) [OF inv _ take] Cons.prems(3) by simp
        show "0 < capacity tb'" using same Cons.prems(4) by simp
        show "i' \<le> j'" using Cons.prems(6) Suc \<open>j = Suc j'\<close> by simp
      qed
      with Suc \<open>j = Suc j'\<close> take same show ?thesis by (simp add: tick_of_def)
    qed
  qed
qed simp

text \<open>The first token of a full bucket is taken with no tick counted.\<close>

lemma full_window:
  assumes "sorted ts" "counted tb x n t" "avail tb = capacity tb" "0 < capacity tb" "\<forall>t' \<in> set ts. t \<le> t'" "i \<le> j" "j < length ts"
  shows "int (j - i) + 1 \<le> capacity tb + quantum tb - (if i = 0 then 0 else 1)
    + quantum tb * (tick_of tb (releases ts tb ! j) - tick_of tb (releases ts tb ! i))"
proof (cases ts)
  case (Cons t' us)
  obtain d tb' where take: "bucket_take t' 1 tb = (d, tb')" by fastforce
  have inv: "counted tb x n t'" by (rule counted_later [OF assms(2)]) (use assms(5) Cons in simp)
  note same = bucket_take_tick(3) [OF inv take] and capped = bucket_take_capped [OF inv _ take]
  have pos: "1 \<le> quantum tb" "1 \<le> capacity tb" "0 < fillInterval tb" using inv assms(4) by (simp_all add: counted_def)
  have left: "avail tb' = capacity tb - 1" using capped(3) assms(3) by simp
  then have first: "tick_of tb (t' + d) = tick_of tb t'" using bucket_take_tick(1) [OF inv take] pos(2) by simp
  note after = bucket_take_counted(1) [OF inv take]
  have us: "sorted us" "\<forall>t \<in> set us. t' \<le> t" using assms(1) Cons by simp_all
  have window: "int (l - k) + 1 \<le> capacity tb + quantum tb - 1
      + quantum tb * (tick_of tb (releases us tb' ! l) - tick_of tb (releases us tb' ! k))" if "k \<le> l" "l < length us" for k l
    using window_bound [OF us(1) after _ _ us(2) that] left same pos(2) by (simp add: tick_of_def)
  show ?thesis
  proof (cases j)
    case 0
    with assms(6) pos show ?thesis by simp
  next
    case (Suc j')
    show ?thesis
    proof (cases i)
      case 0
      obtain t'' vs where us': "us = t'' # vs" using assms(7) Cons Suc by (cases us) simp_all
      obtain d' tb'' where take': "bucket_take t'' 1 tb' = (d', tb'')" by fastforce
      have later: "counted tb' x (n + 1) t''" by (rule counted_later [OF after]) (use us us' in simp)
      have "0 \<le> (if 0 \<le> avail tb'' then 0 else (- avail tb'' + quantum tb' - 1) div quantum tb')"
        using pos same by (auto intro: pos_imp_zdiv_nonneg_iff [THEN iffD2])
      then have "tick_of tb t'' \<le> tick_of tb (t'' + d')" using bucket_take_tick(1) [OF later take'] same by (simp add: tick_of_def)
      moreover have "tick_of tb t' \<le> tick_of tb t''" using us us' pos(3) by (simp add: tick_of_def zdiv_mono1)
      ultimately have "tick_of tb (t' + d) \<le> tick_of tb (releases us tb' ! 0)" using first take' us' by simp
      then have "quantum tb * (tick_of tb (releases us tb' ! j') - tick_of tb (releases us tb' ! 0))
          \<le> quantum tb * (tick_of tb (releases us tb' ! j') - tick_of tb (t' + d))" using pos(1) by (intro mult_left_mono) simp_all
      with window [of 0 j'] assms(7) 0 Suc Cons take show ?thesis by simp
    next
      case (Suc i')
      with window [of i' j'] assms(6,7) \<open>j = Suc j'\<close> Cons take show ?thesis by simp
    qed
  qed
qed (use assms(7) in simp)

section \<open>The bucket of a throttle\<close>

lemma find_quantum_Some:
  "find_quantum rate q = Some (q', fill) \<Longrightarrow> 0 < q' \<and> 0 < fill \<and> fill = 10 ^ 9 * q' div rate \<and> in_rate_margin rate q' fill"
proof (induction rate q rule: find_quantum.induct)
  case (1 rate q)
  from 1(2) have q: "0 < q" "q < 2 ^ 50" by (subst (asm) find_quantum.simps, simp split: if_splits)+
  show ?case
  proof (cases "0 < 10 ^ 9 * q div rate \<and> in_rate_margin rate q (10 ^ 9 * q div rate)")
    case True
    with 1(2) q show ?thesis by (subst (asm) find_quantum.simps) (auto simp: Let_def)
  next
    case False
    with 1(2) q have "find_quantum rate (nextQuantum q) = Some (q', fill)"
      by (subst (asm) find_quantum.simps) (simp add: Let_def split: if_splits)
    with 1(1) [OF _ refl] q False show ?thesis by auto
  qed
qed

lemma find_quantum_one:
  assumes "0 < rate" "rate \<le> 10 ^ 7"
  shows "find_quantum rate 1 = Some (1, 10 ^ 9 div rate)"
proof -
  let ?fill = "10 ^ 9 div rate"
  have "(10 ^ 9 :: int) div 10 ^ 7 \<le> ?fill" by (rule zdiv_mono2) (use assms in simp_all)
  then have fill: "100 \<le> ?fill" by simp
  have rest: "10 ^ 9 - rate * ?fill = 10 ^ 9 mod rate" "0 \<le> 10 ^ 9 mod rate" "10 ^ 9 mod rate < rate"
    using assms(1) by (simp_all add: minus_mult_div_eq_mod)
  have "100 * rate \<le> ?fill * rate" using assms(1) fill by (intro mult_right_mono) simp_all
  then have "100 * (10 ^ 9 mod rate) \<le> rate * ?fill" using rest(3) by (simp only: mult.commute [of rate])
  then have "in_rate_margin rate 1 ?fill" using rest(1,2) by (simp only: in_rate_margin_def mult_1_right abs_of_nonneg)
  with fill show ?thesis by (subst find_quantum.simps) (simp add: Let_def)
qed

lemma NewBucketWithRate_Some:
  assumes "NewBucketWithRate rate cap t = Some tb"
  shows "0 < cap \<and> tb = \<lparr>startTime = t, capacity = cap, quantum = quantum tb, fillInterval = fillInterval tb, avail = cap, availTick = 0\<rparr>
    \<and> find_quantum rate 1 = Some (quantum tb, fillInterval tb)"
  using assms by (auto simp: NewBucketWithRate_def split: if_splits)

text \<open>
  C32: the throttle of a REST client for \<open>qps\<close> requests a second and bursts of \<open>burst\<close>. Its tokens come
  \<open>quantum\<close> at a time, each \<open>fillInterval\<close> nanoseconds, at a rate within one percent of \<open>qps\<close>, and one at
  a time up to ten million a second. Whenever the requests come: of any run of them, from the \<open>i\<close>-th
  to the \<open>j\<close>-th, no more are released than \<open>burst\<close> and the tokens of the ticks between the two
  releases (and \<open>quantum - 1\<close> more), except that one more can be released with the very first
  request, since a full bucket does not count its ticks.
\<close>

theorem throttle_bound:
  assumes "NewTokenBucketRateLimiter qps burst t0 = Some tb" "sorted ts" "\<not> (\<exists>t \<in> set ts. t < t0)" "i \<le> j" "j < length ts"
  shows "int (j - i) + 1 \<le> burst + quantum tb - (if i = 0 then 0 else 1)
      + quantum tb * ((releases ts tb ! j - t0) div fillInterval tb - (releases ts tb ! i - t0) div fillInterval tb)
    \<and> 100 * \<bar>10 ^ 9 * quantum tb - qps * fillInterval tb\<bar> \<le> qps * fillInterval tb
    \<and> (0 < qps \<longrightarrow> qps \<le> 10 ^ 7 \<longrightarrow> quantum tb = 1 \<and> fillInterval tb = 10 ^ 9 div qps)"
proof -
  have "NewBucketWithRate qps burst t0 = Some tb" using assms(1) by (simp add: NewTokenBucketRateLimiter_def)
  note new = NewBucketWithRate_Some [OF this]
  then have found: "find_quantum qps 1 = Some (quantum tb, fillInterval tb)" by blast
  from new have tb: "startTime tb = t0" "capacity tb = burst" "avail tb = burst" "availTick tb = 0" "0 < burst"
    by (metis bucket.select_convs)+
  note rate = find_quantum_Some [OF found]
  have "counted tb burst 0 t0" using tb rate by (simp add: counted_def)
  moreover have "\<forall>t \<in> set ts. t0 \<le> t" using assms(3) by (simp add: not_less)
  ultimately have "int (j - i) + 1 \<le> burst + quantum tb - (if i = 0 then 0 else 1)
      + quantum tb * (tick_of tb (releases ts tb ! j) - tick_of tb (releases ts tb ! i))"
    using full_window [OF assms(2) _ _ _ _ assms(4,5), of tb burst 0 t0] tb by simp
  moreover have "quantum tb = 1 \<and> fillInterval tb = 10 ^ 9 div qps" if "0 < qps" "qps \<le> 10 ^ 7"
    using find_quantum_one [OF that] found by simp
  ultimately show ?thesis using rate unfolding tick_of_def tb(1) in_rate_margin_def by blast
qed

lemma throttle_bound_witness:
  "\<exists>tb. NewTokenBucketRateLimiter 5 2 0 = Some tb \<and> int (4 - 1) + 1 \<le> 2 + quantum tb - 1
      + quantum tb * ((releases [0, 0, 0, 0, 0] tb ! 4 - 0) div fillInterval tb - (releases [0, 0, 0, 0, 0] tb ! 1 - 0) div fillInterval tb)
    \<and> releases [0, 0, 0, 0, 0] tb = [0, 0, 2 * 10 ^ 8, 4 * 10 ^ 8, 6 * 10 ^ 8]"
proof -
  let ?tb = "\<lparr>startTime = 0, capacity = 2, quantum = 1, fillInterval = 2 * 10 ^ 8, avail = 2, availTick = 0\<rparr>"
  have tb: "NewTokenBucketRateLimiter 5 2 0 = Some ?tb"
    using find_quantum_one [of 5] by (simp add: NewTokenBucketRateLimiter_def NewBucketWithRate_def)
  have "releases [0, 0, 0, 0, 0] ?tb = [0, 0, 2 * 10 ^ 8, 4 * 10 ^ 8, 6 * 10 ^ 8]"
    by (simp add: bucket_take_def bucket_adjust_def Let_def)
  with tb throttle_bound [OF tb, of "[0, 0, 0, 0, 0]" 1 4] show ?thesis by (intro exI [of _ ?tb]) simp
qed

text \<open>
  The exception is real: after an idle second a bucket of two tokens releases three at once.
\<close>

lemma idle_burst:
  "map_option (releases [10 ^ 9, 10 ^ 9, 10 ^ 9]) (NewTokenBucketRateLimiter 5 2 0) = Some [10 ^ 9, 10 ^ 9, 10 ^ 9]"
  using find_quantum_one [of 5]
  by (simp add: NewTokenBucketRateLimiter_def NewBucketWithRate_def bucket_take_def bucket_adjust_def Let_def)

end
