(* ===== verification/Event_Safety.thy ===== *)
theory Event_Safety
  imports Event_Correlator Limiter_Safety
begin

text \<open>
  What the correlation of events and the attempts to write them promise: how often an event is tried,
  how many events of one object reach the API server, and what is counted.
\<close>

section \<open>Attempts\<close>

text \<open>
  An event is tried at most twelve times, only its last attempt can settle it, it is given up only
  after twelve failures, and there is a sleep between two attempts and none after the last one.
\<close>

lemma record_tries_outcome:
  assumes "tries < maxTriesPerEvent" "record_tries sk first tries event c w = ((outs, sleeps), c', w')"
  shows "outs \<noteq> [] \<and> length outs \<le> maxTriesPerEvent - tries \<and> True \<notin> set (butlast outs)
    \<and> (\<not> last outs \<longrightarrow> length outs = maxTriesPerEvent - tries) \<and> length sleeps = length outs - 1
    \<and> set (if tries = 0 then tl sleeps else sleeps) \<subseteq> {defaultSleepDuration}"
  using assms
proof (induction sk first tries event c w arbitrary: outs sleeps c' w' rule: record_tries.induct)
  case (1 sk first tries event c w)
  obtain ok event' c1 w1 where r: "recordEvent sk event (1 < Event_Count event) c w = (ok, event', c1, w1)" by (metis prod_cases4)
  show ?case
  proof (cases "ok \<or> maxTriesPerEvent \<le> tries + 1")
    case True
    with 1(2,3) r show ?thesis
      by (subst (asm) record_tries.simps) (auto simp: Let_def split: bool.splits if_splits)
  next
    case False
    obtain outs1 sleeps1 c2 w2 where rest: "record_tries sk first (tries + 1) event' c1 w1 = ((outs1, sleeps1), c2, w2)"
      by (metis surj_pair)
    have IH: "outs1 \<noteq> [] \<and> length outs1 \<le> maxTriesPerEvent - (tries + 1) \<and> True \<notin> set (butlast outs1)
      \<and> (\<not> last outs1 \<longrightarrow> length outs1 = maxTriesPerEvent - (tries + 1)) \<and> length sleeps1 = length outs1 - 1
      \<and> set (if tries + 1 = 0 then tl sleeps1 else sleeps1) \<subseteq> {defaultSleepDuration}"
      by (rule 1(1) [OF r [symmetric] _ refl refl refl _ _ rest]) (use False in auto)
    have "outs = False # outs1" "sleeps = (if tries + 1 = 1 then first else defaultSleepDuration) # sleeps1"
      using 1(3) r rest False by (subst (asm) record_tries.simps, simp add: Let_def)+
    with IH False show ?thesis by auto
  qed
qed

lemma recordEvent_caches:
  "recordEvent sk event b c w = (ok, event', c', w') \<Longrightarrow> spam_cache c' = spam_cache c \<and> aggregates c' = aggregates c"
  by (auto simp: recordEvent_def Let_def split: prod.splits sum.splits)

lemma record_tries_caches:
  "record_tries sk first tries event c w = (res, c', w') \<Longrightarrow> spam_cache c' = spam_cache c \<and> aggregates c' = aggregates c"
proof (induction sk first tries event c w arbitrary: res c' w' rule: record_tries.induct)
  case (1 sk first tries event c w)
  obtain ok event' c1 w1 where r: "recordEvent sk event (1 < Event_Count event) c w = (ok, event', c1, w1)" by (metis prod_cases4)
  note c1 = recordEvent_caches [OF r]
  show ?case
  proof (cases "ok \<or> maxTriesPerEvent \<le> tries + 1")
    case True
    with 1(2) r c1 show ?thesis
      by (subst (asm) record_tries.simps) (auto simp: Let_def split: bool.splits if_splits)
  next
    case False
    obtain res1 c2 w2 where rest: "record_tries sk first (tries + 1) event' c1 w1 = (res1, c2, w2)" by (metis surj_pair)
    have "spam_cache c2 = spam_cache c1 \<and> aggregates c2 = aggregates c1"
      by (rule 1(1) [OF r [symmetric] _ refl refl refl _ rest]) (use False in auto)
    moreover have "c' = c2" using 1(2) r rest False by (subst (asm) record_tries.simps) (simp add: Let_def split: prod.splits)
    ultimately show ?thesis using c1 by simp
  qed
qed

section \<open>The cache\<close>

lemma map_of_without: "map_of (filter (\<lambda>e. fst e \<noteq> k) c) = (map_of c)(k := None)"
  by (induction c) (auto simp: fun_eq_iff)

lemma lru_front_map [simp]: "map_of (lru_front k v c) = (map_of c)(k \<mapsto> v)"
  by (simp add: lru_front_def map_of_without)

lemma lru_front_distinct: "distinct (map fst c) \<Longrightarrow> distinct (map fst (lru_front k v c))"
  by (auto simp: lru_front_def distinct_map inj_on_def)

lemma lru_Get_eq: "lru_Get k c = (found, c1) \<Longrightarrow> found = map_of c k \<and> map_of c1 = map_of c
    \<and> (distinct (map fst c) \<longrightarrow> distinct (map fst c1))"
  by (auto simp: lru_Get_def fun_upd_idem lru_front_distinct split: option.splits)

text \<open>Nothing is evicted as long as the keys are of a set that fits.\<close>

lemma lru_Add_eq:
  assumes "distinct (map fst c)" "insert k (dom (map_of c)) \<subseteq> S" "finite S" "card S \<le> maxLruCacheEntries"
  shows "map_of (lru_Add k v c) = (map_of c)(k \<mapsto> v)" "distinct (map fst (lru_Add k v c))"
proof -
  have "length ((k, v) # c) \<le> maxLruCacheEntries" if "map_of c k = None"
  proof -
    from that have "k \<notin> fst ` set c" by (simp add: map_of_eq_None_iff)
    with assms(1) have "distinct (map fst ((k, v) # c))" by simp
    from distinct_card [OF this] have "length ((k, v) # c) = card (insert k (dom (map_of c)))"
      by (simp add: dom_map_of_conv_image_fst)
    also have "\<dots> \<le> card S" by (rule card_mono [OF assms(3,2)])
    finally show ?thesis using assms(4) by simp
  qed
  then have "lru_Add k v c = lru_front k v c \<and> map_of c k \<noteq> None \<or> lru_Add k v c = (k, v) # c \<and> map_of c k = None"
    by (auto simp: lru_Add_def Let_def not_less)
  then show "map_of (lru_Add k v c) = (map_of c)(k \<mapsto> v)" "distinct (map fst (lru_Add k v c))"
    using assms(1) lru_front_distinct [OF assms(1), of k v] by (auto simp: map_of_eq_None_iff)
qed

section \<open>The rate of the events of an object\<close>

text \<open>\<open>n\<close> events have passed; the bucket was made at \<open>t0\<close> or later.\<close>

definition bucket_counts :: "int \<Rightarrow> int \<Rightarrow> int \<Rightarrow> bucket \<Rightarrow> bool" where
  "bucket_counts t0 n t tb \<longleftrightarrow> bucket_inv tb n t \<and> 0 \<le> avail tb \<and> t0 \<le> startTime tb
     \<and> capacity tb = 25 \<and> quantum tb = 1 \<and> fillInterval tb = 299999992735"

lemma bucket_counts_new: "t0 \<le> t \<Longrightarrow> bucket_counts t0 0 t (spam_bucket t)"
  by (simp add: bucket_counts_def bucket_inv_def spam_bucket_def)

lemma bucket_counts_bound:
  assumes "bucket_counts t0 n t tb"
  shows "n \<le> 25 + (t - t0) div 299999992735"
proof -
  have "(t - startTime tb) div 299999992735 \<le> (t - t0) div 299999992735"
    using assms by (intro zdiv_mono1) (simp_all add: bucket_counts_def)
  moreover have "availTick tb \<le> (t - startTime tb) div 299999992735" "n + avail tb \<le> 25 + availTick tb" "0 \<le> avail tb"
    using assms by (auto simp: bucket_counts_def bucket_inv_def)
  ultimately show ?thesis by linarith
qed

lemma TryAccept_counts:
  assumes "bucket_counts t0 n t tb" "t \<le> t'" "TryAccept t' tb = (ok, tb')"
  shows "bucket_counts t0 (if ok then n + 1 else n) t' tb'"
proof -
  have inv: "bucket_inv tb n t'" using bucket_inv_later [OF _ assms(2)] assms(1) by (simp add: bucket_counts_def)
  obtain tick tb1 where adjust: "bucket_adjust t' tb = (tick, tb1)" by fastforce
  note a = bucket_adjust_inv [OF inv adjust]
  have avail: "0 \<le> avail tb1"
    using adjust assms(1) inv by (auto simp: bucket_adjust_def bucket_counts_def bucket_inv_def Let_def split: if_splits)
  with assms(1,3) a adjust show ?thesis
    by (auto simp: TryAccept_def takeAvailable_def bucket_counts_def bucket_inv_def Let_def split: if_splits)
qed

text \<open>The keys of the cache are of \<open>S\<close>, and \<open>n\<close> events with the key \<open>k\<close> have passed.\<close>

definition spam_inv :: "string set \<Rightarrow> string \<Rightarrow> int \<Rightarrow> int \<Rightarrow> int \<Rightarrow> bucket lru \<Rightarrow> bool" where
  "spam_inv S k t0 n t cache \<longleftrightarrow> distinct (map fst cache) \<and> dom (map_of cache) \<subseteq> S \<and> t0 \<le> t
     \<and> (case map_of cache k of None \<Rightarrow> n = 0 | Some tb \<Rightarrow> bucket_counts t0 n t tb)"

lemma Filter_event_inv:
  assumes "spam_inv S k t0 n t cache" "t \<le> t1" "t1 \<le> t2" "Filter_event t1 t2 e cache = (skip, cache')"
    and S: "getSpamKey e \<in> S" "finite S" "card S \<le> maxLruCacheEntries"
  shows "spam_inv S k t0 (if getSpamKey e = k \<and> \<not> skip then n + 1 else n) t2 cache'"
proof -
  let ?k = "getSpamKey e"
  obtain found c1 where get: "lru_Get ?k cache = (found, c1)" by fastforce
  obtain ok tb where acc: "TryAccept t2 (case found of Some tb \<Rightarrow> tb | None \<Rightarrow> spam_bucket t1) = (ok, tb)" by fastforce
  note c1 = lru_Get_eq [OF get]
  have eq: "skip = (\<not> ok)" "cache' = lru_Add ?k tb c1"
    using assms(4) get acc by (auto simp: Filter_event_def)
  have "distinct (map fst c1)" "insert ?k (dom (map_of c1)) \<subseteq> S"
    using c1 assms(1) S(1) by (auto simp: spam_inv_def)
  note add = lru_Add_eq [OF this S(2,3), of tb]
  have later: "bucket_counts t0 m t2 b" if "bucket_counts t0 m t b" for m b
    using that assms(2,3) bucket_inv_later [of b m t t2] by (simp add: bucket_counts_def)
  have new: "bucket_counts t0 (if ok then n + 1 else n) t2 tb" if "?k = k"
  proof (cases found)
    case None
    with c1 that assms(1) have "n = 0" by (auto simp: spam_inv_def)
    moreover have "bucket_counts t0 0 t1 (spam_bucket t1)"
      by (rule bucket_counts_new) (use assms(1,2) in \<open>simp add: spam_inv_def\<close>)
    ultimately show ?thesis using TryAccept_counts [OF _ assms(3)] acc None by force
  next
    case (Some b)
    with c1 that assms(1) have "bucket_counts t0 n t b" by (auto simp: spam_inv_def split: option.splits)
    from TryAccept_counts [OF this _ acc [unfolded Some option.case]] assms(2,3) show ?thesis by simp
  qed
  have count: "case ((map_of c1)(?k \<mapsto> tb)) k of None \<Rightarrow> n' = 0 | Some b \<Rightarrow> bucket_counts t0 n' t2 b"
    if "n' = (if ?k = k \<and> \<not> skip then n + 1 else n)" for n'
  proof (cases "?k = k")
    case False
    with that c1 assms(1) later show ?thesis by (cases "map_of cache k") (auto simp: spam_inv_def)
  qed (use that new eq(1) in simp)
  have "dom ((map_of c1)(?k \<mapsto> tb)) \<subseteq> S" using c1 assms(1) S(1) by (auto simp: spam_inv_def)
  with count [OF refl] add(2) assms(1-3) show ?thesis by (simp add: spam_inv_def eq(2) add(1))
qed

section \<open>Recording events\<close>

lemma EventAggregate_spam: "EventAggregate pick tm e cache = ((e1, key), ag) \<Longrightarrow> getSpamKey e1 = getSpamKey e"
  by (auto simp: EventAggregate_def aggregate_event_def getSpamKey_def Let_def split: prod.splits if_splits)

lemma eventObserve_spam: "eventObserve e key cache = (e1, lg) \<Longrightarrow> getSpamKey e1 = getSpamKey e"
  by (auto simp: eventObserve_def getSpamKey_def Let_def split: prod.splits option.splits if_splits)

lemma recordToSink_cases:
  assumes "recordToSink sk pick (tm, t, t') first e c w = ((outs, sleeps), c', w')"
  obtains e2 skip where "Filter_event t t' e2 (spam_cache c) = (skip, spam_cache c')" "getSpamKey e2 = getSpamKey e"
    "outs \<noteq> [] \<longleftrightarrow> \<not> skip" "length outs \<le> maxTriesPerEvent"
proof -
  obtain e1 key ag where ag: "EventAggregate pick tm e (aggregates c) = ((e1, key), ag)" by (metis surj_pair)
  obtain e2 lg where lg: "eventObserve e1 key (event_log c) = (e2, lg)" by fastforce
  obtain skip sp where sp: "Filter_event t t' e2 (spam_cache c) = (skip, sp)" by fastforce
  let ?c = "\<lparr>spam_cache = sp, aggregates = ag, event_log = lg\<rparr>"
  have "spam_cache c' = sp \<and> (outs \<noteq> [] \<longleftrightarrow> \<not> skip) \<and> length outs \<le> maxTriesPerEvent"
  proof (cases skip)
    case True
    with assms ag lg sp show ?thesis by (auto simp: recordToSink_def EventCorrelate_def)
  next
    case False
    with assms ag lg sp have run: "record_tries sk first 0 e2 ?c w = ((outs, sleeps), c', w')"
      by (simp add: recordToSink_def EventCorrelate_def)
    from record_tries_outcome [OF _ run] record_tries_caches [OF run] False show ?thesis by (simp add: maxTriesPerEvent_def)
  qed
  moreover have "getSpamKey e2 = getSpamKey e" using EventAggregate_spam [OF ag] eventObserve_spam [OF lg] by simp
  ultimately show ?thesis using that sp by blast
qed

text \<open>The watcher that records takes the events one after the other.\<close>

fun record_all :: "'w sink \<Rightarrow> (string set \<Rightarrow> string) \<Rightarrow> (clock_reads \<times> int \<times> KubeEvent) list \<Rightarrow> correlator \<Rightarrow> 'w
    \<Rightarrow> bool list list \<times> correlator \<times> 'w" where
  "record_all sk pick [] c w = ([], c, w)"
| "record_all sk pick ((ts, first, e) # xs) c w =
     (case recordToSink sk pick ts first e c w of ((outs, sleeps), c1, w1) \<Rightarrow>
      case record_all sk pick xs c1 w1 of (rest, c2, w2) \<Rightarrow> (outs # rest, c2, w2))"

text \<open>The clock as the spam filter reads it; the events with a spam key that were tried at all.\<close>

definition filter_reads :: "(clock_reads \<times> int \<times> KubeEvent) list \<Rightarrow> int list" where
  "filter_reads xs = concat (map (\<lambda>((tm, t, t'), first, e). [t, t']) xs)"

definition spam_key_of :: "clock_reads \<times> int \<times> KubeEvent \<Rightarrow> string" where
  "spam_key_of x = getSpamKey (snd (snd x))"

definition tried :: "string \<Rightarrow> (clock_reads \<times> int \<times> KubeEvent) list \<Rightarrow> bool list list \<Rightarrow> bool list list" where
  "tried k xs outss = map snd (filter (\<lambda>(x, outs). spam_key_of x = k \<and> outs \<noteq> []) (zip xs outss))"

lemma tried_simps [simp]:
  "tried k [] outss = []"
  "tried k (x # xs) (outs # outss) = (if spam_key_of x = k \<and> outs \<noteq> [] then outs # tried k xs outss else tried k xs outss)"
  by (simp_all add: tried_def)

lemma record_all_rate:
  assumes S: "finite S" "card S \<le> maxLruCacheEntries"
  shows "record_all sk pick xs c w = (outss, c', w') \<Longrightarrow> spam_inv S k t0 n t (spam_cache c)
    \<Longrightarrow> sorted (t # filter_reads xs) \<Longrightarrow> spam_key_of ` set xs \<subseteq> S
    \<Longrightarrow> list_all (\<lambda>outs. length outs \<le> maxTriesPerEvent) outss
      \<and> spam_inv S k t0 (n + int (length (tried k xs outss))) (last (t # filter_reads xs)) (spam_cache c')"
proof (induction xs arbitrary: c w outss n t)
  case Nil
  then show ?case by (simp add: filter_reads_def)
next
  case (Cons x xs)
  obtain tm t1 t2 first e where x: "x = ((tm, t1, t2), first, e)" by (metis surj_pair)
  obtain outs sleeps c1 w1 where first: "recordToSink sk pick (tm, t1, t2) first e c w = ((outs, sleeps), c1, w1)" by (metis surj_pair)
  obtain rest where rest: "record_all sk pick xs c1 w1 = (rest, c', w')" and eq: "outss = outs # rest"
    using Cons.prems(1) x first by (auto split: prod.splits)
  have times: "t \<le> t1" "t1 \<le> t2" "sorted (t2 # filter_reads xs)" "last (t # filter_reads (x # xs)) = last (t2 # filter_reads xs)"
    using Cons.prems(3) by (simp_all add: x filter_reads_def)
  obtain e2 skip where f: "Filter_event t1 t2 e2 (spam_cache c) = (skip, spam_cache c1)" "getSpamKey e2 = spam_key_of x"
    "outs \<noteq> [] \<longleftrightarrow> \<not> skip" "length outs \<le> maxTriesPerEvent"
    using recordToSink_cases [OF first] by (metis spam_key_of_def snd_conv x)
  let ?n = "if spam_key_of x = k \<and> \<not> skip then n + 1 else n"
  have "spam_inv S k t0 ?n t2 (spam_cache c1)"
    using Filter_event_inv [OF Cons.prems(2) times(1,2) f(1) _ S] Cons.prems(4) f(2) by simp
  from Cons.IH [OF rest this times(3)] Cons.prems(4)
  have "list_all (\<lambda>outs. length outs \<le> maxTriesPerEvent) rest
    \<and> spam_inv S k t0 (?n + int (length (tried k xs rest))) (last (t2 # filter_reads xs)) (spam_cache c')" by simp
  moreover have "n + int (length (tried k (x # xs) outss)) = ?n + int (length (tried k xs rest))"
    using f(3) by (simp add: eq)
  ultimately show ?case unfolding times(4) using f(4) eq by simp
qed

text \<open>
  C33: events of one object reach the API server at a bounded rate. However often the reconciliations
  fail, at most 25 events about an object are tried at once and then one in five minutes, each at
  most twelve times, as long as no more than 4096 objects have events.
\<close>

theorem event_rate:
  assumes "record_all sk pick xs NewEventCorrelator w = (outss, c, w')" "sorted (t0 # filter_reads xs)"
    and "card (spam_key_of ` set xs) \<le> maxLruCacheEntries"
  shows "int (length (tried k xs outss)) \<le> 25 + (last (t0 # filter_reads xs) - t0) div 299999992735
    \<and> list_all (\<lambda>outs. length outs \<le> 12) outss"
proof -
  have "spam_inv (spam_key_of ` set xs) k t0 0 t0 (spam_cache NewEventCorrelator)"
    by (simp add: spam_inv_def NewEventCorrelator_def)
  note run = record_all_rate [OF _ assms(3,1) this assms(2) subset_refl]
  then have inv: "spam_inv (spam_key_of ` set xs) k t0 (int (length (tried k xs outss))) (last (t0 # filter_reads xs)) (spam_cache c)"
    and "list_all (\<lambda>outs. length outs \<le> maxTriesPerEvent) outss" by simp_all
  moreover have "0 \<le> (last (t0 # filter_reads xs) - t0) div 299999992735"
    using inv by (intro pos_imp_zdiv_nonneg_iff [THEN iffD2]) (simp_all add: spam_inv_def)
  moreover have "n \<le> 25 + (t - t0) div 299999992735" if "spam_inv S k t0 n t cache" "0 \<le> (t - t0) div 299999992735" for S n t cache
    using that bucket_counts_bound [of t0 n t] by (cases "map_of cache k") (auto simp: spam_inv_def)
  ultimately show ?thesis by (simp add: maxTriesPerEvent_def)
qed

section \<open>The broadcaster\<close>

text \<open>
  The channels stay within their capacities, and the watchers see the events in the order of the
  channel; a watcher loses one only while 1000 others wait for it.
\<close>

definition fits :: "broadcaster \<Rightarrow> bool" where
  "fits b \<longleftrightarrow> length (incoming b) \<le> incomingQueueLength \<and> list_all (\<lambda>q. length q \<le> maxQueuedEvents) (watchers b)"

lemma broadcaster_fits:
  "fits NewBroadcaster" "fits b \<Longrightarrow> fits (start_sender e b)" "fits b \<Longrightarrow> Action_send i b = Some b' \<Longrightarrow> fits b'"
  "fits b \<Longrightarrow> broadcaster_loop b = Some b' \<Longrightarrow> fits b'"
  by (auto simp: fits_def NewBroadcaster_def start_sender_def Action_send_def broadcaster_loop_def distribute_to_def
      list_all_iff split: if_splits list.splits)

lemma watcher_fits: "fits b \<Longrightarrow> watcher_receive i b = Some (e, b') \<Longrightarrow> fits b'"
proof -
  assume fits: "fits b" and get: "watcher_receive i b = Some (e, b')"
  from get obtain es where i: "i < length (watchers b)" "watchers b ! i = e # es" "b' = b\<lparr>watchers := (watchers b)[i := es]\<rparr>"
    by (auto simp: watcher_receive_def split: if_splits list.splits)
  from fits i(1) have "length (watchers b ! i) \<le> maxQueuedEvents" by (simp add: fits_def list_all_length)
  with fits i show ?thesis by (auto simp: fits_def list_all_length nth_list_update)
qed

lemma broadcaster_delivers:
  assumes "broadcaster_loop b = Some b'" "i < length (watchers b)"
  shows "watchers b' ! i = (if length (watchers b ! i) < maxQueuedEvents then watchers b ! i @ [hd (incoming b)] else watchers b ! i)"
  using assms by (auto simp: broadcaster_loop_def distribute_to_def split: list.splits)

section \<open>Counting and aggregation\<close>

lemma next_count_below: "0 \<le> n \<Longrightarrow> n < 2 ^ 31 - 1 \<Longrightarrow> next_count n = n + 1"
proof -
  assume n: "0 \<le> n" "n < 2 ^ 31 - 1"
  have "next_count n = sint (word_of_int (n + 1) :: 32 word)" by (simp add: next_count_def)
  also have "\<dots> = n + 1" unfolding sint_sbintrunc' by (rule signed_take_bit_int_eq_self) (use n in simp_all)
  finally show ?thesis .
qed

lemma lru_Add_front: "map_of (lru_Add k v c) k = Some v"
  by (cases c) (auto simp: lru_Add_def lru_front_def Let_def maxLruCacheEntries_def)

text \<open>The next event with the same key is the same event of the server, counted once more.\<close>

lemma observed_again:
  assumes "eventObserve e key cache = (e1, lg)" "eventObserve e' key lg = (e2, lg')" "0 < Event_Count e1" "Event_Count e1 < 2 ^ 31 - 1"
  shows "Event_Count e2 = Event_Count e1 + 1 \<and> Event_Name e2 = Event_Name e1 \<and> FirstTimestamp e2 = FirstTimestamp e1"
proof -
  have "map_of lg key = Some (log_of e1)" using assms(1) by (auto simp: eventObserve_def lru_Add_front Let_def split: prod.splits)
  then show ?thesis using assms(2-4) next_count_below [of "Event_Count e1"]
    by (auto simp: eventObserve_def lru_Get_def log_of_def Let_def)
qed

text \<open>
  Similar events are combined from the tenth different message on, not only when there are more than
  ten of them as the comment says.
\<close>

lemma tenth_is_combined:
  assumes "map_of cache (fst (EventAggregatorByReasonFunc e)) = Some r" "tm - lastTimestamp r \<le> aggregate_interval"
    and "card (localKeys r) = 9" "Event_Message e \<notin> localKeys r"
  shows "fst (EventAggregate pick tm e cache) = (aggregate_event e tm, fst (EventAggregatorByReasonFunc e))"
proof -
  have "finite (localKeys r)" using assms(3) card.infinite by fastforce
  with assms show ?thesis
    by (simp add: EventAggregate_def lru_Get_def EventAggregatorByReasonFunc_def defaultAggregateMaxEvents_def Let_def)
qed

section \<open>Witnesses\<close>

text \<open>A domain that stays pending, and a server that takes every event.\<close>

definition pending_event :: "string \<Rightarrow> KubeEvent" where
  "pending_event m = \<lparr>Event_Name = ''acme.1'', Event_Namespace = ''acme'',
     InvolvedObject = \<lparr>Ref_Kind = ''Domain'', Ref_APIVersion = ''platform.koli.io'', Ref_Name = ''acme'', Ref_Namespace = ''acme'',
       Ref_UID = ''1'', Ref_ResourceVersion = ''1'', Ref_FieldPath = ''''\<rparr>,
     Event_Reason = ''DomainNotFound'', Event_Message = m, FirstTimestamp = 0, LastTimestamp = 0, Event_Count = 1,
     Event_Type = EventWarning, Event_ResourceVersion = '''', Source_Component = ''kong-controller'', Source_Host = ''''\<rparr>"

definition taking_sink :: "unit sink" where
  "taking_sink = \<lparr>Create = (\<lambda>e w. (Inr e, w)), Patch_event = (\<lambda>e w. (Inr e, w))\<rparr>"

definition two_events :: "(clock_reads \<times> int \<times> KubeEvent) list" where
  "two_events = [((0, 0, 0), 0, pending_event ''Primary domain not found''), ((1, 1, 1), 0, pending_event ''Primary domain not found'')]"

lemmas event_defs = EventCorrelate_def EventAggregate_def eventObserve_def Filter_event_def TryAccept_def takeAvailable_def
  bucket_adjust_def spam_bucket_def lru_Get_def lru_Add_def lru_front_def log_of_def recordToSink_def recordEvent_def updateState_def
  EventAggregatorByReasonFunc_def getEventKey_def getSpamKey_def NewEventCorrelator_def pending_event_def taking_sink_def
  defaultAggregateMaxEvents_def maxLruCacheEntries_def aggregate_interval_def zero_time_def next_count_def

lemma event_rate_witness:
  "\<exists>c. record_all taking_sink (\<lambda>_. '''') two_events NewEventCorrelator () = ([[True], [True]], c, ())
    \<and> int (length (tried (spam_key_of (hd two_events)) two_events [[True], [True]])) \<le> 25 + (last (0 # filter_reads two_events) - 0) div 299999992735
    \<and> spam_key_of (hd two_events) = ''kong-controllerDomainacmeacme1platform.koli.io''"
proof -
  have "\<exists>c. record_all taking_sink (\<lambda>_. '''') two_events NewEventCorrelator () = ([[True], [True]], c, ())"
    by (simp add: two_events_def event_defs Let_def record_tries.simps)
  then obtain c where c: "record_all taking_sink (\<lambda>_. '''') two_events NewEventCorrelator () = ([[True], [True]], c, ())" by blast
  have "sorted (0 # filter_reads two_events)" "card (spam_key_of ` set two_events) \<le> maxLruCacheEntries"
    by (simp_all add: two_events_def filter_reads_def spam_key_of_def maxLruCacheEntries_def)
  note event_rate [OF c this, of "spam_key_of (hd two_events)", THEN conjunct1]
  moreover have "spam_key_of (hd two_events) = ''kong-controllerDomainacmeacme1platform.koli.io''"
    by (simp add: spam_key_of_def two_events_def getSpamKey_def pending_event_def)
  ultimately show ?thesis using c by (simp only: diff_0_right simp_thms ex_simps) blast
qed

end
