(* ===== verification/Client_Safety.thy ===== *)
theory Client_Safety
  imports Client_Setup Sample_World
begin

text \<open>
  What the clients of \<open>main\<close> are: the timeout asked for the requests to Kong is dropped, the settings
  that reach the later clients through the shared pointer do not matter to them, a client that can
  be built makes the others buildable, and every request has the address one expects.
\<close>

section \<open>Joined paths\<close>

definition rooted :: "string list \<Rightarrow> string" where
  "rooted ss = CHR ''/'' # join_with CHR ''/'' ss"

definition segments :: "string list \<Rightarrow> bool" where
  "segments ss \<longleftrightarrow> (\<forall>s \<in> set ss. s = '''' \<or> plain s)"

lemma segments_simps [simp]:
  "segments []" "segments (s # ss) \<longleftrightarrow> (s = '''' \<or> plain s) \<and> segments ss"
  "segments (ss @ ts) \<longleftrightarrow> segments ss \<and> segments ts"
  by (auto simp: segments_def)

lemma clean_filter: "segments ss \<Longrightarrow> clean_segments r acc ss = rev acc @ filter (\<lambda>s. s \<noteq> '''') ss"
  by (induction ss arbitrary: acc) (auto dest: plainD)

lemma split_segments:
  assumes "segments ss" "ss \<noteq> []"
  shows "split_on CHR ''/'' (join_with CHR ''/'' ss) = ss"
proof (rule split_on_join_with [OF assms(2)], rule ballI)
  fix x
  assume "x \<in> set ss"
  with assms(1) have "x = '''' \<or> plain x" by (simp add: segments_def)
  then show "CHR ''/'' \<notin> set x" using plainD [of x] by (cases "x = ''''") simp_all
qed

lemma split_on_both: "split_on c (x @ c # y) = split_on c x @ split_on c y"
  by (induction x) (auto split: list.splits)

lemma path_Join_rooted:
  assumes "segments ss" "segments es"
  shows "path_Join (rooted ss # es) = rooted (filter (\<lambda>s. s \<noteq> '''') (ss @ es))"
proof -
  have split: "filter (\<lambda>s. s \<noteq> '''') (split_on CHR ''/'' (join_with CHR ''/'' xs)) = filter (\<lambda>s. s \<noteq> '''') xs
      \<and> segments (split_on CHR ''/'' (join_with CHR ''/'' xs))" if "segments xs" for xs
    using that split_segments [OF that] by (cases "xs = []") auto
  have "join_with CHR ''/'' (rooted ss # es) = CHR ''/'' # (if es = [] then join_with CHR ''/'' ss
      else join_with CHR ''/'' ss @ CHR ''/'' # join_with CHR ''/'' es)"
    by (cases es) (simp_all add: rooted_def)
  then show ?thesis
    using split [OF assms(1)] split [OF assms(2)]
    by (auto simp: path_Join_def path_Clean_def rooted_def split_on_both clean_filter Let_def)
qed

definition named_below :: "request \<Rightarrow> string list" where
  "named_below q = (case req_namespace q of None \<Rightarrow> [] | Some ns \<Rightarrow> [''namespaces'', ns])
     @ [resource q] @ (case req_name q of None \<Rightarrow> [] | Some n \<Rightarrow> [n])"

lemma rooted_absolute [simp]: "rooted ss \<noteq> ''''"
  by (simp add: rooted_def)

lemma URL_below:
  assumes "list_all plain ss" "list_all plain (named_below q)" "lower (resource q) = resource q"
    and "sub_resource q = ''''" "suffix q = ''''"
  shows "URL_path (rooted ss) q = rooted (ss @ named_below q)"
proof -
  have plain: "segments xs" "filter (\<lambda>s. s \<noteq> '''') xs = xs" if "list_all plain xs" for xs
    using that by (induction xs) (auto simp: plain_def)
  have join: "path_Join (rooted xs # es) = rooted (xs @ filter (\<lambda>s. s \<noteq> '''') es)" if "list_all plain xs" "segments es" for xs es
    using path_Join_rooted [of xs es] plain [OF that(1)] that(2) by simp
  have "plain ''namespaces''" by (simp add: plain_def valid_segment_def)
  with assms show ?thesis
    by (cases "req_namespace q"; cases "req_name q")
      (auto simp: URL_path_def Let_def named_below_def join plain_def)
qed

section \<open>The clients\<close>

lemma NewRESTClient_eq:
  "NewRESTClient u path c gv ser q b cl = Inr x \<Longrightarrow>
    x = \<lparr>base = u\<lparr>Base_Path := (if has_suffix_slash (Base_Path u) then Base_Path u else Base_Path u @ ''/'')\<rparr>,
      versionedAPIPath = path, contentGroupVersion = gv,
      contentType = (if length (ContentType c) = 0 then ContentTypeJSON else ContentType c), codec = ser,
      Throttle = (if 0 < q then Some (q, b) else None), http_client = cl\<rparr>"
  by (auto simp: NewRESTClient_def Let_def split: if_splits)

text \<open>Without TLS, tokens and user agent the transport is the default one, but for the debugging of the logs.\<close>

lemma plain_transport:
  assumes "TLSCAFile c = ''''" "TLSCertFile c = ''''" "TLSKeyFile c = ''''" "\<not> Insecure c"
    and "Username c = ''''" "BearerToken c = ''''" "UserAgent c = ''''"
  shows "TransportFor lib c = Inr (DebugWrappers lib DefaultTransport)"
  using assms by (simp add: TransportFor_def tlsCache_get_def loadTLSFiles_def dataFromFile_def HasCA_def HasCertAuth_def
      HTTPWrappersForConfig_def Let_def)

lemma root_path: "group_path '''' None = ''/''"
  by (simp add: group_path_def path_Join_def path_Clean_def)

lemma NewKongRESTClient_cases:
  "NewKongRESTClient lib (kong_config cfg) =
    (case server_url lib (if KongAdminHost cfg = '''' then ''localhost'' else KongAdminHost cfg) False of
       Inl e \<Rightarrow> Inl e
     | Inr u \<Rightarrow> Inr \<lparr>restClient =
         \<lparr>base = u\<lparr>Base_Path := (if has_suffix_slash (Base_Path u) then Base_Path u else Base_Path u @ ''/'')\<rparr>,
          versionedAPIPath = ''/'', contentGroupVersion = \<lparr>GV_Group = ''meta.k8s.io'', GV_Version = ''v1''\<rparr>,
          contentType = ContentTypeJSON, codec = DynamicCodec, Throttle = None,
          http_client = (if 6 \<le> glog_level lib then Some (DebuggingRT DefaultTransport, 2 * 10 ^ 9) else None)\<rparr>\<rparr>)"
proof -
  let ?c = "dynamic_ContentConfig (kong_config cfg)"
  have t: "TransportFor lib ?c = Inr (DebugWrappers lib DefaultTransport)"
    by (rule plain_transport) (simp_all add: dynamic_ContentConfig_def kong_config_def empty_rest_config_def)
  have url: "defaultServerUrlFor lib ?c = (case server_url lib (if KongAdminHost cfg = '''' then ''localhost'' else KongAdminHost cfg) False of
      Inl e \<Rightarrow> Inl e | Inr u \<Rightarrow> Inr (u, ''/''))"
    by (auto simp: defaultServerUrlFor_def dynamic_ContentConfig_def kong_config_def empty_rest_config_def HasCA_def HasCertAuth_def
        root_path Let_def split: sum.splits)
  show ?thesis
    unfolding NewKongRESTClient_def UnversionedRESTClientFor_def t url
    by (auto simp: dynamic_ContentConfig_def kong_config_def empty_rest_config_def NewRESTClient_def ContentTypeJSON_def
        http_client_for_def DebugWrappers_def Let_def split: sum.splits)
qed

text \<open>
  C28: \<open>main\<close> asks for a timeout of two seconds on the requests to Kong, but the constructor only
  makes an HTTP client, which would hold the timeout, for a transport other than the default one: a
  request to a Kong that does not answer is never given up, and with it the sync and its worker,
  unless the logs are verbose enough to wrap the transport. Nor are the requests throttled.
\<close>

theorem kong_timeout_dropped:
  assumes "NewKongRESTClient lib (kong_config cfg) = Inr c"
  shows "request_timeout (restClient c) = (if 6 \<le> glog_level lib then Some (Timeout (kong_config cfg)) else None)
    \<and> Throttle (restClient c) = None \<and> client (CoreClient_API (Some c)) = Some (restClient c)"
  using assms unfolding NewKongRESTClient_cases
  by (auto simp: request_timeout_def kong_config_def CoreClient_API_def newAPI_def RESTClient_def split: sum.splits)

text \<open>A library for the witness: hosts are taken as they are, no file can be read.\<close>

definition sample_lib :: "nat \<Rightarrow> client_lib" where
  "sample_lib v = \<lparr>server_url = (\<lambda>h tls. Inr \<lparr>Base_Host = h, Base_Path = ''''\<rparr>), read_file = (\<lambda>f. Inl (PlainErr f)),
     key_pair = (\<lambda>c k. None), glog_level = v, user_agent = ''kong-ingress'', in_cluster = Inl (PlainErr ''outside'')\<rparr>"

lemma kong_timeout_dropped_witness:
  "\<exists>c. NewKongRESTClient (sample_lib 0) (kong_config sample_config) = Inr c \<and> request_timeout (restClient c) = None"
proof -
  obtain c where "NewKongRESTClient (sample_lib 0) (kong_config sample_config) = Inr c"
    by (simp add: NewKongRESTClient_cases sample_lib_def)
  with kong_timeout_dropped [OF this] show ?thesis by (auto simp: sample_lib_def)
qed

text \<open>The settings of the extension client reach the typed clients through the pointer, and do not matter.\<close>

lemma TransportFor_settings [simp]:
  "TransportFor lib (c\<lparr>ContentType := x\<rparr>) = TransportFor lib c"
  "TransportFor lib (c\<lparr>NegotiatedSerializer := y\<rparr>) = TransportFor lib c"
  "TransportFor lib (c\<lparr>RestGroupVersion := z\<rparr>) = TransportFor lib c"
  "TransportFor lib (c\<lparr>APIPath := a\<rparr>) = TransportFor lib c"
  by (simp_all add: TransportFor_def tlsCache_get_def loadTLSFiles_def HTTPWrappersForConfig_def HasCA_def HasCertAuth_def
      cong: sum.case_cong option.case_cong prod.case_cong if_cong)

lemma typed_client_alias:
  assumes "ContentType c = '''' \<or> ContentType c = ContentTypeJSON"
  shows "typed_client lib g (ext_config c) = typed_client lib g c"
proof -
  let ?d = "setConfigDefaults lib (fst g) (snd g) c"
  have "setConfigDefaults lib (fst g) (snd g) (ext_config c) = ?d\<lparr>ContentType := ContentTypeJSON\<rparr>"
    by (simp add: setConfigDefaults_def ext_config_def)
  moreover have "NewRESTClient u path (?d\<lparr>ContentType := ContentTypeJSON\<rparr>) gv ser q b cl = NewRESTClient u path ?d gv ser q b cl" for u path gv ser q b cl
    using assms by (auto simp: NewRESTClient_def setConfigDefaults_def)
  moreover have "http_client_for (?d\<lparr>ContentType := ContentTypeJSON\<rparr>) rt = http_client_for ?d rt" for rt
    by (simp add: http_client_for_def)
  ultimately show ?thesis
    by (simp add: typed_client_def RESTClientFor_def defaultServerUrlFor_def HasCA_def HasCertAuth_def
        cong: sum.case_cong option.case_cong prod.case_cong if_cong)
qed

text \<open>The typed clients fail together, and only when the extension client fails.\<close>

lemma RESTClientFor_error:
  assumes "RestGroupVersion c = Some gv" "NegotiatedSerializer c = Some DirectCodecFactory" "ContentType c = ContentTypeJSON"
  shows "error_of (RESTClientFor lib c) =
    (case server_url lib (if RestHost c = '''' then ''localhost'' else RestHost c) (HasCA c \<or> HasCertAuth c \<or> Insecure c) of
       Inl e \<Rightarrow> Some e | Inr u \<Rightarrow> error_of (TransportFor lib c))"
  using assms by (simp add: RESTClientFor_def defaultServerUrlFor_def error_of_def NewRESTClient_def ContentTypeJSON_def Let_def
      split: sum.splits)

lemma TransportFor_error: "error_of (TransportFor lib (c\<lparr>UserAgent := x\<rparr>)) = error_of (TransportFor lib c)"
proof -
  have "tlsCache_get lib (c\<lparr>UserAgent := x\<rparr>) = tlsCache_get lib c"
    by (simp add: tlsCache_get_def loadTLSFiles_def HasCA_def HasCertAuth_def
        cong: sum.case_cong option.case_cong prod.case_cong if_cong)
  moreover have "error_of (HTTPWrappersForConfig lib (c\<lparr>UserAgent := x\<rparr>) rt) = error_of (HTTPWrappersForConfig lib c rt)" for rt
    by (simp add: HTTPWrappersForConfig_def error_of_def Let_def)
  ultimately show ?thesis by (cases "tlsCache_get lib c") (simp_all add: TransportFor_def)
qed

lemma typed_client_error:
  "error_of (typed_client lib g (ext_config c)) = error_of (RESTClientFor lib (ext_config c))"
proof -
  let ?d = "setConfigDefaults lib (fst g) (snd g) (ext_config c)"
  have "?d = (ext_config c)\<lparr>RestGroupVersion := Some (fst g), APIPath := snd g, NegotiatedSerializer := Some DirectCodecFactory,
      UserAgent := (if UserAgent c = '''' then user_agent lib else UserAgent c)\<rparr>"
    by (simp add: setConfigDefaults_def ext_config_def)
  then have "error_of (TransportFor lib ?d) = error_of (TransportFor lib (ext_config c))"
    by (simp add: TransportFor_error)
  moreover have same: "HasCA ?d = HasCA (ext_config c)" "HasCertAuth ?d = HasCertAuth (ext_config c)"
    "RestHost ?d = RestHost (ext_config c)" "Insecure ?d = Insecure (ext_config c)"
    by (simp_all add: setConfigDefaults_def HasCA_def HasCertAuth_def)
  moreover have "RestGroupVersion ?d = Some (fst g)" "NegotiatedSerializer ?d = Some DirectCodecFactory"
    "ContentType ?d = ContentTypeJSON" "RestGroupVersion (ext_config c) = Some SchemeGroupVersion"
    "NegotiatedSerializer (ext_config c) = Some DirectCodecFactory" "ContentType (ext_config c) = ContentTypeJSON"
    by (simp_all add: setConfigDefaults_def ext_config_def)
  note set = this
  ultimately show ?thesis
    unfolding typed_client_def RESTClientFor_error [OF set(1-3)] RESTClientFor_error [OF set(4-6)] by (simp only:)
qed

text \<open>So \<open>main\<close> never gets to the panic of a client that cannot be built.\<close>

lemma kube_client_built:
  "ext_client_error (with_clients lib cfg L) = None \<Longrightarrow> kube_client_error (with_clients lib cfg L) = None"
  by (simp add: with_clients_def typed_client_error Let_def split: sum.splits)

section \<open>Addresses\<close>

text \<open>The server has no path of its own.\<close>

definition at_root :: "client_lib \<Rightarrow> bool" where
  "at_root lib \<longleftrightarrow> (\<forall>h tls u. server_url lib h tls = Inr u \<longrightarrow> Base_Path u = '''' \<or> Base_Path u = ''/'')"

lemma base_slash:
  "b = '''' \<or> b = ''/'' \<Longrightarrow> path_Join [''/'', if has_suffix_slash b then b else b @ ''/''] = ''/''"
  by (auto simp: has_suffix_slash_def path_Join_def path_Clean_def)

lemma RESTClientFor_prefix:
  assumes "at_root lib" "RESTClientFor lib c = Inr x"
  shows "pathPrefix x = path_Join [''/'', group_path (APIPath c) (RestGroupVersion c)]"
proof -
  from assms(2) obtain u gv h tls where url: "server_url lib h tls = Inr u" and gv: "RestGroupVersion c = Some gv"
    and x: "Base_Path (base x) = (if has_suffix_slash (Base_Path u) then Base_Path u else Base_Path u @ ''/'')"
      "versionedAPIPath x = group_path (APIPath c) (Some gv)"
    by (auto simp: RESTClientFor_def defaultServerUrlFor_def Let_def dest!: NewRESTClient_eq split: option.splits sum.splits)
  from assms(1) url have "Base_Path u = '''' \<or> Base_Path u = ''/''" unfolding at_root_def by blast
  then show ?thesis by (simp only: pathPrefix_def x gv base_slash)
qed

lemma prefixes:
  "path_Join [''/'', group_path ''/apis'' (Some SchemeGroupVersion)] = rooted [''apis'', ''platform.koli.io'', ''v1'']"
  "path_Join [''/'', group_path (snd core_v1) (Some (fst core_v1))] = rooted [''api'', ''v1'']"
  "path_Join [''/'', group_path (snd extensions_v1beta1) (Some (fst extensions_v1beta1))] = rooted [''apis'', ''extensions'', ''v1beta1'']"
  by (simp_all add: group_path_def path_Join_def path_Clean_def rooted_def SchemeGroupVersion_def GroupName_def core_v1_def
      extensions_v1beta1_def Let_def)

text \<open>
  Where the requests of the controller go: the domains below the group of the custom resource, the
  services and ingresses below theirs, whatever the shared configuration held before.
\<close>

lemma request_addresses:
  assumes "at_root lib" "plain ns" "plain n" "RESTClientFor lib (ext_config c) = Inr x"
    and "typed_client lib core_v1 (ext_config c) = Inr y" "typed_client lib extensions_v1beta1 (ext_config c) = Inr z"
  shows "URL_path (pathPrefix x) (domain_request v ns (Some n) b) = ''/apis/platform.koli.io/v1/namespaces/'' @ ns @ ''/domains/'' @ n"
    and "URL_path (pathPrefix y) (core_request v ''services'' ns n b) = ''/api/v1/namespaces/'' @ ns @ ''/services/'' @ n"
    and "URL_path (pathPrefix z) (core_request v ''ingresses'' ns n b) = ''/apis/extensions/v1beta1/namespaces/'' @ ns @ ''/ingresses/'' @ n"
proof -
  have low: "lower ''domains'' = ''domains''" "lower ''services'' = ''services''" "lower ''ingresses'' = ''ingresses''"
    by (simp_all add: lower_def lower_char_def Let_def)
  have p: "list_all plain [''apis'', ''platform.koli.io'', ''v1'']" "list_all plain [''api'', ''v1'']"
    "list_all plain [''apis'', ''extensions'', ''v1beta1'']" "list_all plain [''namespaces'', ns, res, n]" if "plain res" for res
    using assms(2,3) that by (simp_all add: plain_def valid_segment_def)
  have r: "plain ''domains''" "plain ''services''" "plain ''ingresses''"
    by (simp_all add: plain_def valid_segment_def)
  have x: "pathPrefix x = rooted [''apis'', ''platform.koli.io'', ''v1'']"
    using RESTClientFor_prefix [OF assms(1,4)] by (simp add: ext_config_def prefixes)
  have y: "pathPrefix y = rooted [''api'', ''v1'']"
    using RESTClientFor_prefix [OF assms(1) assms(5) [unfolded typed_client_def]] prefixes(2) by (simp add: setConfigDefaults_def)
  have z: "pathPrefix z = rooted [''apis'', ''extensions'', ''v1beta1'']"
    using RESTClientFor_prefix [OF assms(1) assms(6) [unfolded typed_client_def]] prefixes(3) by (simp add: setConfigDefaults_def)
  show "URL_path (pathPrefix x) (domain_request v ns (Some n) b) = ''/apis/platform.koli.io/v1/namespaces/'' @ ns @ ''/domains/'' @ n"
    unfolding x by (subst URL_below) (use p r low in \<open>simp_all add: domain_request_def named_below_def rooted_def\<close>)
  show "URL_path (pathPrefix y) (core_request v ''services'' ns n b) = ''/api/v1/namespaces/'' @ ns @ ''/services/'' @ n"
    unfolding y by (subst URL_below) (use p r low in \<open>simp_all add: core_request_def named_below_def rooted_def\<close>)
  show "URL_path (pathPrefix z) (core_request v ''ingresses'' ns n b) = ''/apis/extensions/v1beta1/namespaces/'' @ ns @ ''/ingresses/'' @ n"
    unfolding z by (subst URL_below) (use p r low in \<open>simp_all add: core_request_def named_below_def rooted_def\<close>)
qed

end
